(* ===== verification/Prelude.thy ===== *)
theory Prelude
  imports Main "HOL-Library.Word"
begin

text \<open>
  What every component of the sys-agent development shares: the names of the machine integer
  types, the collections of rewrite rules the component proofs pass to the simplifier, generic
  facts about lists and counting loops, and the model of a bounded C loop.

  C integers are words of their width (\<open>uint32_t\<close> is \<open>u32\<close>) wherever the source's
  arithmetic can wrap or shifts bits; an index that the source bounds by a buffer length is a
  \<open>nat\<close>.  \<open>size_t\<close> is 64 bits wide on the target (AArch64).
\<close>

unbundle bit_operations_syntax

type_synonym u8 = "8 word"
type_synonym u16 = "16 word"
type_synonym u32 = "32 word"
type_synonym u64 = "64 word"

abbreviation U64_MAX :: u64 where "U64_MAX \<equiv> 0xFFFFFFFFFFFFFFFF"
abbreviation U32_MAX :: u32 where "U32_MAX \<equiv> 0xFFFFFFFF"

text \<open>
  A libnx \<open>Result\<close> is a 32-bit code, zero for success; \<open>MAKERESULT\<close> packs a module
  and a description.
\<close>

type_synonym res = u32

definition R_SUCCEEDED :: "res \<Rightarrow> bool" where
  "R_SUCCEEDED rc \<longleftrightarrow> rc = 0"

definition R_FAILED :: "res \<Rightarrow> bool" where
  "R_FAILED rc \<longleftrightarrow> rc \<noteq> 0"

lemma R_FAILED_iff [simp]: "R_FAILED rc \<longleftrightarrow> rc \<noteq> 0"
  by (simp add: R_FAILED_def)

lemma R_SUCCEEDED_iff [simp]: "R_SUCCEEDED rc \<longleftrightarrow> rc = 0"
  by (simp add: R_SUCCEEDED_def)

subsection \<open>Collections of rewrite rules\<close>

named_theorems cstr_simps "facts about C strings"
named_theorems byte_simps "facts about byte strings and their little-endian encoding"
named_theorems mask_simps "facts about bit masks kept in byte arrays"

subsection \<open>Lists\<close>

lemma nth_list_update_if:
  "i < length xs \<Longrightarrow> xs[i := v] ! j = (if j = i then v else xs ! j)"
  by simp

lemma take_drop_nth_split:
  "i < length xs \<Longrightarrow> xs = take i xs @ xs ! i # drop (Suc i) xs"
  by (rule id_take_nth_drop)

lemma length_filter_upt_Suc:
  "length (filter P [0..<Suc n]) = length (filter P [0..<n]) + (if P n then 1 else 0)"
  by simp

lemma filter_upt_le: "length (filter P [0..<n]) \<le> n"
  by (metis length_filter_le length_upt minus_nat.diff_0)

lemma nth_eq_takeI:
  assumes "length xs = n" and "n \<le> length ys" and "\<And>i. i < n \<Longrightarrow> xs ! i = ys ! i"
  shows "xs = take n ys"
  using assms by (intro nth_equalityI) auto

lemma list_eq_nth_all:
  "xs = ys \<longleftrightarrow> length xs = length ys \<and> (\<forall>i < length xs. xs ! i = ys ! i)"
  by (rule list_eq_iff_nth_eq)

subsection \<open>Words\<close>

lemma unat_add_no_wrap:
  fixes a b :: "'a::len word"
  assumes "unat a + unat b < 2 ^ LENGTH('a)"
  shows "unat (a + b) = unat a + unat b"
  using assms by (simp add: unat_word_ariths)

lemma unat_mult_no_wrap:
  fixes a b :: "'a::len word"
  assumes "unat a * unat b < 2 ^ LENGTH('a)"
  shows "unat (a * b) = unat a * unat b"
  using assms by (simp add: unat_word_ariths)

lemma unat_u64_lt: "unat (w :: u64) < 2 ^ 64"
proof -
  have "unat w < 2 ^ LENGTH(64)" by (rule unsigned_less)
  then show ?thesis by simp
qed

lemma unat_u32_lt: "unat (w :: u32) < 2 ^ 32"
proof -
  have "unat w < 2 ^ LENGTH(32)" by (rule unsigned_less)
  then show ?thesis by simp
qed

lemma unat_u16_lt: "unat (w :: u16) < 2 ^ 16"
proof -
  have "unat w < 2 ^ LENGTH(16)" by (rule unsigned_less)
  then show ?thesis by simp
qed

lemma unat_u8_lt: "unat (w :: u8) < 256"
proof -
  have "unat w < 2 ^ LENGTH(8)" by (rule unsigned_less)
  then show ?thesis by simp
qed

lemma unat_ucast_up:
  fixes w :: "'a::len word"
  assumes "LENGTH('a) \<le> LENGTH('b)"
  shows "unat (ucast w :: 'b::len word) = unat w"
proof -
  have "unat w < 2 ^ LENGTH('a)" by (rule unsigned_less)
  also have "\<dots> \<le> 2 ^ LENGTH('b)" using assms by simp
  finally show ?thesis by (simp add: unsigned_ucast_eq take_bit_nat_eq_self)
qed

lemma unat_ucast_u8_u64 [simp]: "unat (ucast (w :: u8) :: u64) = unat w"
  by (rule unat_ucast_up) simp

lemma unat_ucast_u8_u32 [simp]: "unat (ucast (w :: u8) :: u32) = unat w"
  by (rule unat_ucast_up) simp

lemma unat_ucast_u32_u64 [simp]: "unat (ucast (w :: u32) :: u64) = unat w"
  by (rule unat_ucast_up) simp

lemma unat_ucast_u16_u64 [simp]: "unat (ucast (w :: u16) :: u64) = unat w"
  by (rule unat_ucast_up) simp


subsection \<open>Refinement of a command interpreter\<close>

text \<open>
  A component that executes commands on a concrete state, and the abstract state it stands for:
  one step of the implementation is one step of the specification.  The lemma carries this over
  to whole runs; each component interprets the locale on its own operations.
\<close>

locale simulation =
  fixes step :: "'s \<Rightarrow> 'c \<Rightarrow> 's"
    and inv :: "'s \<Rightarrow> bool"
    and ok :: "'c \<Rightarrow> bool"
    and view :: "'s \<Rightarrow> 'a"
    and spec :: "'a \<Rightarrow> 'c \<Rightarrow> 'a"
  assumes step_inv: "inv s \<Longrightarrow> ok c \<Longrightarrow> inv (step s c)"
    and step_view: "inv s \<Longrightarrow> ok c \<Longrightarrow> view (step s c) = spec (view s) c"
begin

lemma run_inv: "inv s \<Longrightarrow> list_all ok cs \<Longrightarrow> inv (foldl step s cs)"
  by (induction cs arbitrary: s) (simp_all add: step_inv)

lemma run_view: "inv s \<Longrightarrow> list_all ok cs \<Longrightarrow> view (foldl step s cs) = foldl spec (view s) cs"
  by (induction cs arbitrary: s) (simp_all add: step_inv step_view)

end

end
