(* ===== verification/CString.thy ===== *)
theory CString
  imports Prelude
begin

text \<open>
  The part of the C library the program uses on strings and numbers: character classes,
  \<open>strtoull\<close>, \<open>strtoll\<close>, \<open>strtok\<close>, \<open>strchr\<close> and the whitespace trimming loop that three source
  files write out for themselves.

  A C string is the list of its bytes before the terminating NUL: reading the byte at the end of
  the list is reading the NUL.  A pointer that may be \<open>NULL\<close> is an \<open>option\<close>.
  \<open>unsigned long\<close> and \<open>unsigned long long\<close> are both 64 bits wide on the target, so
  \<open>strtoul\<close> is \<open>strtoull\<close>.
\<close>

subsection \<open>Character classes\<close>

definition isspace :: "char \<Rightarrow> bool" where
  "isspace c \<longleftrightarrow> (let n = (of_char c :: nat) in n = 32 \<or> (9 \<le> n \<and> n \<le> 13))"

definition isdigit :: "char \<Rightarrow> bool" where
  "isdigit c \<longleftrightarrow> (let n = (of_char c :: nat) in 48 \<le> n \<and> n \<le> 57)"

text \<open>The value of a digit in base 10 or 16, \<open>None\<close> for a byte that is no digit of the base.\<close>

definition digitVal :: "nat \<Rightarrow> char \<Rightarrow> nat option" where
  "digitVal base c =
    (let n = (of_char c :: nat);
         v = (if 48 \<le> n \<and> n \<le> 57 then Some (n - 48)
              else if 97 \<le> n \<and> n \<le> 122 then Some (n - 87)
              else if 65 \<le> n \<and> n \<le> 90 then Some (n - 55)
              else None)
     in case v of Some d \<Rightarrow> if d < base then Some d else None | None \<Rightarrow> None)"

definition isDigitOf :: "nat \<Rightarrow> char \<Rightarrow> bool" where
  "isDigitOf base c \<longleftrightarrow> digitVal base c \<noteq> None"

fun digitsVal :: "nat \<Rightarrow> nat \<Rightarrow> string \<Rightarrow> nat" where
  "digitsVal base acc [] = acc"
| "digitsVal base acc (c # cs) =
     digitsVal base (acc * base + (case digitVal base c of Some v \<Rightarrow> v | None \<Rightarrow> 0)) cs"

subsection \<open>strtoull and strtoll\<close>

text \<open>
  What a call leaves: the value, the bytes from \<open>*end\<close> on, whether a conversion was performed
  (\<open>end\<close> differs from the start), and whether \<open>errno\<close> became \<open>ERANGE\<close>.
\<close>

record strto =
  stValue :: int
  stRest :: string
  stConverted :: bool
  stRange :: bool

definition takeSign :: "string \<Rightarrow> bool \<times> string" where
  "takeSign s =
    (case s of c # cs \<Rightarrow> if c = CHR ''-'' then (True, cs) else if c = CHR ''+'' then (False, cs) else (False, s)
     | [] \<Rightarrow> (False, s))"

text \<open>In base 16 an optional \<open>0x\<close> is skipped when a hexadecimal digit follows it.\<close>

definition skipHexPrefix :: "nat \<Rightarrow> string \<Rightarrow> string" where
  "skipHexPrefix base s =
    (case s of z # x # d # ds \<Rightarrow>
       if base = 16 \<and> z = CHR ''0'' \<and> (x = CHR ''x'' \<or> x = CHR ''X'') \<and> isDigitOf 16 d
       then d # ds else s
     | _ \<Rightarrow> s)"

definition strtoull :: "string \<Rightarrow> nat \<Rightarrow> strto" where
  "strtoull s base =
    (let (neg, s1) = takeSign (dropWhile isspace s);
         body = skipHexPrefix base s1;
         digits = takeWhile (isDigitOf base) body;
         n = digitsVal base 0 digits
     in if digits = [] then \<lparr>stValue = 0, stRest = s, stConverted = False, stRange = False\<rparr>
        else if 2 ^ 64 \<le> n
          then \<lparr>stValue = 2 ^ 64 - 1, stRest = dropWhile (isDigitOf base) body,
                stConverted = True, stRange = True\<rparr>
        else \<lparr>stValue = (if neg then (- int n) mod 2 ^ 64 else int n),
              stRest = dropWhile (isDigitOf base) body, stConverted = True, stRange = False\<rparr>)"

definition strtoll :: "string \<Rightarrow> nat \<Rightarrow> strto" where
  "strtoll s base =
    (let (neg, s1) = takeSign (dropWhile isspace s);
         body = skipHexPrefix base s1;
         digits = takeWhile (isDigitOf base) body;
         n = int (digitsVal base 0 digits);
         v = (if neg then - n else n)
     in if digits = [] then \<lparr>stValue = 0, stRest = s, stConverted = False, stRange = False\<rparr>
        else if v < - (2 ^ 63)
          then \<lparr>stValue = - (2 ^ 63), stRest = dropWhile (isDigitOf base) body,
                stConverted = True, stRange = True\<rparr>
        else if 2 ^ 63 \<le> v
          then \<lparr>stValue = 2 ^ 63 - 1, stRest = dropWhile (isDigitOf base) body,
                stConverted = True, stRange = True\<rparr>
        else \<lparr>stValue = v, stRest = dropWhile (isDigitOf base) body,
              stConverted = True, stRange = False\<rparr>)"

text \<open>The source reads \<open>text[0] == '0' && (text[1] == 'x' || text[1] == 'X')\<close> in many places.\<close>

definition hasHexPrefix :: "string \<Rightarrow> bool" where
  "hasHexPrefix s = (case s of z # x # _ \<Rightarrow> z = CHR ''0'' \<and> (x = CHR ''x'' \<or> x = CHR ''X'') | _ \<Rightarrow> False)"

subsection \<open>strtok, strchr and trimming\<close>

text \<open>
  The tokens a \<open>strtok\<close> loop visits: the maximal runs of bytes that are not delimiters.
\<close>

function strtokAll :: "(char \<Rightarrow> bool) \<Rightarrow> string \<Rightarrow> string list" where
  "strtokAll d s =
    (case dropWhile d s of
       [] \<Rightarrow> []
     | c # cs \<Rightarrow> takeWhile (\<lambda>c. \<not> d c) (c # cs) # strtokAll d (dropWhile (\<lambda>c. \<not> d c) (c # cs)))"
  by pat_completeness auto
termination
proof (relation "measure (\<lambda>(d, s). length s)")
  fix d and s :: string and c cs
  assume *: "dropWhile d s = c # cs"
  then have "\<not> d c" using hd_dropWhile [of d s] by fastforce
  moreover have "length (c # cs) \<le> length s"
    using * by (metis length_dropWhile_le)
  moreover have "length (dropWhile (\<lambda>c. \<not> d c) cs) \<le> length cs"
    by (rule length_dropWhile_le)
  ultimately show "((d, dropWhile (\<lambda>c. \<not> d c) (c # cs)), d, s) \<in> measure (\<lambda>(d, s). length s)"
    by simp
qed simp

declare strtokAll.simps [simp del]

text \<open>\<open>strchr\<close>: the bytes before the first occurrence and those after it.\<close>

definition strchrSplit :: "char \<Rightarrow> string \<Rightarrow> (string \<times> string) option" where
  "strchrSplit c s =
    (if c \<in> set s then Some (takeWhile (\<lambda>x. x \<noteq> c) s, tl (dropWhile (\<lambda>x. x \<noteq> c) s)) else None)"

definition trimSpec :: "string \<Rightarrow> string" where
  "trimSpec s = rev (dropWhile isspace (rev (dropWhile isspace s)))"

subsection \<open>Printing numbers\<close>

text \<open>The conversions \<open>%u\<close> (base 10) and \<open>%X\<close> (base 16) of \<open>printf\<close>.\<close>

definition digitChar :: "nat \<Rightarrow> char" where
  "digitChar d = char_of (if d < 10 then 48 + d else 55 + d)"

function printNat :: "nat \<Rightarrow> nat \<Rightarrow> string" where
  "printNat base n =
    (if base < 2 \<or> n < base then [digitChar n]
     else printNat base (n div base) @ [digitChar (n mod base)])"
  by pat_completeness auto
termination
  by (relation "measure snd") (auto intro!: div_less_dividend)

declare printNat.simps [simp del]

subsection \<open>Facts\<close>

lemma digitVal_less: "digitVal base c = Some v \<Longrightarrow> v < base"
  by (auto simp: digitVal_def Let_def split: if_splits)

lemma digitsVal_append [cstr_simps]:
  "digitsVal base acc (xs @ ys) = digitsVal base (digitsVal base acc xs) ys"
  by (induction xs arbitrary: acc) auto

lemma strtoull_value_range: "0 \<le> stValue (strtoull s base) \<and> stValue (strtoull s base) < 2 ^ 64"
  by (auto simp: strtoull_def Let_def split: prod.splits)

lemma isDigitOf_not_special:
  "isDigitOf base c \<Longrightarrow> \<not> isspace c \<and> c \<noteq> CHR ''-'' \<and> c \<noteq> CHR ''+''"
  by (auto simp: isDigitOf_def digitVal_def isspace_def Let_def split: if_splits)

lemma strtoull_unsigned:
  assumes "skipHexPrefix base s = s" and "s \<noteq> []" and all: "list_all (isDigitOf base) s"
    and "digitsVal base 0 s < 2 ^ 64"
  shows "strtoull s base =
    \<lparr>stValue = int (digitsVal base 0 s), stRest = [], stConverted = True, stRange = False\<rparr>"
proof -
  from assms obtain c cs where s: "s = c # cs" by (cases s) auto
  have "\<not> isspace c \<and> c \<noteq> CHR ''-'' \<and> c \<noteq> CHR ''+''"
    using all s isDigitOf_not_special [of base c] by simp
  then have sign: "takeSign (dropWhile isspace s) = (False, s)"
    using s by (simp add: takeSign_def)
  have tw: "takeWhile (isDigitOf base) s = s" "dropWhile (isDigitOf base) s = []"
    using all by (auto simp: takeWhile_eq_all_conv list_all_iff)
  show ?thesis using assms(1,2,4) by (simp add: strtoull_def Let_def sign tw)
qed

lemma digitVal_digitChar:
  assumes "d < base" and "base \<le> 16"
  shows "digitVal base (digitChar d) = Some d"
proof -
  have "d \<in> set [0..<16]" using assms by simp
  then show ?thesis
    using assms(1) unfolding digitVal_def digitChar_def
    by (auto simp: Let_def upt_rec [of _ 16])
qed

lemma printNat_digits:
  assumes "2 \<le> base" and "base \<le> 16"
  shows "list_all (isDigitOf base) (printNat base n)"
    and "digitsVal base 0 (printNat base n) = n"
    and "printNat base n \<noteq> []"
proof -
  have "list_all (isDigitOf base) (printNat base n) \<and> digitsVal base 0 (printNat base n) = n
      \<and> printNat base n \<noteq> []"
    using assms
  proof (induction base n rule: printNat.induct)
    case (1 base n)
    show ?case
    proof (cases "n < base")
      case True
      then show ?thesis using "1.prems" digitVal_digitChar [of n base]
        by (simp add: printNat.simps [of base n] isDigitOf_def)
    next
      case False
      then have "n mod base < base" using "1.prems" by simp
      then show ?thesis using "1.IH" "1.prems" False digitVal_digitChar [of "n mod base" base]
        by (simp add: printNat.simps [of base n] isDigitOf_def digitsVal_append)
    qed
  qed
  then show "list_all (isDigitOf base) (printNat base n)"
    and "digitsVal base 0 (printNat base n) = n" and "printNat base n \<noteq> []" by simp_all
qed

lemma length_trimSpec: "length (trimSpec s) \<le> length s"
  unfolding trimSpec_def by (metis length_dropWhile_le length_rev order_trans)

lemma trimSpec_no_space_ends:
  "trimSpec s \<noteq> [] \<Longrightarrow> \<not> isspace (last (trimSpec s))"
  by (metis hd_dropWhile hd_rev last_rev rev_is_Nil_conv rev_rev_ident trimSpec_def)

lemma strtokAll_Nil: "dropWhile d s = [] \<Longrightarrow> strtokAll d s = []"
  by (simp only: strtokAll.simps [of d s] list.case)

lemma strtokAll_Cons:
  "dropWhile d s = c # cs \<Longrightarrow>
    strtokAll d s = takeWhile (\<lambda>c. \<not> d c) (c # cs) # strtokAll d (dropWhile (\<lambda>c. \<not> d c) (c # cs))"
  by (subst strtokAll.simps) simp

lemma strtokAll_nonempty: "t \<in> set (strtokAll d s) \<Longrightarrow> t \<noteq> [] \<and> (\<forall>c \<in> set t. \<not> d c)"
proof (induction d s rule: strtokAll.induct)
  case (1 d s)
  note prem = "1.prems"
  show ?case
  proof (cases "dropWhile d s")
    case Nil
    with prem show ?thesis by (simp add: strtokAll_Nil)
  next
    case (Cons c cs)
    then have nd: "\<not> d c" using hd_dropWhile [of d s] by fastforce
    have now: "takeWhile (\<lambda>c. \<not> d c) (c # cs) \<noteq> []
        \<and> (\<forall>x \<in> set (takeWhile (\<lambda>c. \<not> d c) (c # cs)). \<not> d x)"
      using nd by (auto dest: set_takeWhileD)
    from prem consider "t = takeWhile (\<lambda>c. \<not> d c) (c # cs)"
      | "t \<in> set (strtokAll d (dropWhile (\<lambda>c. \<not> d c) (c # cs)))"
      unfolding strtokAll_Cons [OF Cons] by auto
    then show ?thesis
    proof cases
      case 1
      show ?thesis unfolding 1 by (rule now)
    next
      case 2
      then show ?thesis by (rule "1.IH" [OF Cons])
    qed
  qed
qed

subsection \<open>Strings in a buffer\<close>

text \<open>
  Code that walks a buffer with a pointer is modelled on the buffer itself: a list of bytes that
  holds the terminating NUL, and offsets into it.  \<open>scanWhile\<close> is the loop
  \<open>while (P(*p)) p++\<close>; reading past the end of the buffer is \<open>None\<close>.
\<close>

abbreviation NUL :: char where "NUL \<equiv> CHR 0x00"

function scanWhile :: "(char \<Rightarrow> bool) \<Rightarrow> char list \<Rightarrow> nat \<Rightarrow> nat option" where
  "scanWhile P buf i =
    (if i < length buf then (if P (buf ! i) then scanWhile P buf (Suc i) else Some i) else None)"
  by pat_completeness auto
termination
  by (relation "measure (\<lambda>(P, buf, i). length buf - i)") auto

declare scanWhile.simps [simp del]

definition cstringAt :: "char list \<Rightarrow> nat \<Rightarrow> string" where
  "cstringAt buf i = takeWhile (\<lambda>c. c \<noteq> NUL) (drop i buf)"

definition terminatedAt :: "char list \<Rightarrow> nat \<Rightarrow> bool" where
  "terminatedAt buf i \<longleftrightarrow> NUL \<in> set (drop i buf)"

lemma terminatedAt_less: "terminatedAt buf i \<Longrightarrow> i < length buf"
  by (rule ccontr) (simp add: terminatedAt_def)

lemma scanWhile_eq:
  "\<exists>c \<in> set (drop i buf). \<not> P c \<Longrightarrow>
    scanWhile P buf i = Some (i + length (takeWhile P (drop i buf)))"
proof (induction P buf i rule: scanWhile.induct)
  case (1 P buf i)
  then have i: "i < length buf" by (rule_tac ccontr) simp
  then have d: "drop i buf = buf ! i # drop (Suc i) buf" by (rule Cons_nth_drop_Suc [symmetric])
  show ?case
  proof (cases "P (buf ! i)")
    case True
    with 1 i d have "scanWhile P buf (Suc i) = Some (Suc i + length (takeWhile P (drop (Suc i) buf)))"
      by auto
    with True i show ?thesis by (simp add: scanWhile.simps [of P buf i] d)
  next
    case False
    with i show ?thesis by (simp add: scanWhile.simps [of P buf i] d)
  qed
qed

lemma scanWhile_NUL:
  assumes "terminatedAt buf i" and "\<not> P NUL"
  shows "scanWhile P buf i = Some (i + length (takeWhile P (drop i buf)))"
  using assms by (intro scanWhile_eq) (auto simp: terminatedAt_def)

lemma takeWhile_mono_length:
  "(\<And>c. P c \<Longrightarrow> Q c) \<Longrightarrow> length (takeWhile P xs) \<le> length (takeWhile Q xs)"
  by (induction xs) auto

lemma takeWhile_cstring:
  "\<not> P NUL \<Longrightarrow> takeWhile P (cstringAt buf i) = takeWhile P (drop i buf)"
proof -
  assume "\<not> P NUL"
  then have "takeWhile P (takeWhile (\<lambda>c. c \<noteq> NUL) xs) = takeWhile P xs" for xs
    by (induction xs) auto
  then show ?thesis by (simp add: cstringAt_def)
qed

lemma cstringAt_no_NUL: "NUL \<notin> set (cstringAt buf i)"
  by (auto simp: cstringAt_def dest: set_takeWhileD)

lemma cstringAt_append_NUL: "NUL \<notin> set s \<Longrightarrow> cstringAt (pre @ s @ NUL # post) (length pre) = s"
  by (subst cstringAt_def, simp, subst takeWhile_append2) auto

lemma drop_cstringAt:
  assumes "terminatedAt buf i"
  shows "drop i buf = cstringAt buf i @ NUL # drop (Suc (i + length (cstringAt buf i))) buf"
proof -
  have *: "NUL \<in> set xs \<Longrightarrow>
      xs = takeWhile (\<lambda>c. c \<noteq> NUL) xs @ NUL # drop (Suc (length (takeWhile (\<lambda>c. c \<noteq> NUL) xs))) xs" for xs
    by (induction xs) auto
  from * [of "drop i buf"] assms show ?thesis
    by (simp add: terminatedAt_def cstringAt_def add.commute)
qed

end
