(* ===== verification/SequenceToken.thy ===== *)
theory SequenceToken
  imports CString
begin

text \<open>
  \<open>sequence_token.c\<close>: the in-place splitter the click thread walks a button sequence with.
  The model keeps the caller's buffer and the cursor apart, as the C code does: a call writes a
  NUL over the comma that ends the token, and a read outside the buffer is the outcome
  \<open>None\<close>.
\<close>

definition sequenceTokenNext ::
  "char list \<Rightarrow> nat option \<Rightarrow> (nat option \<times> char list \<times> nat option) option" where
  "sequenceTokenNext buf cursor =
    (case cursor of
       None \<Rightarrow> Some (None, buf, None)
     | Some start \<Rightarrow>
         (case scanWhile (\<lambda>c. c = CHR '','') buf start of
            None \<Rightarrow> None
          | Some token \<Rightarrow>
              if buf ! token = NUL then Some (None, buf, None)
              else
                (case scanWhile (\<lambda>c. c \<noteq> NUL \<and> c \<noteq> CHR '','') buf token of
                   None \<Rightarrow> None
                 | Some end \<Rightarrow>
                     if buf ! end = CHR '','' then Some (Some token, buf[end := NUL], Some (Suc end))
                     else Some (Some token, buf, None))))"

text \<open>A cursor is valid when it is exhausted or a NUL lies at or after it.\<close>

definition validCursor :: "char list \<Rightarrow> nat option \<Rightarrow> bool" where
  "validCursor buf cursor \<longleftrightarrow> (case cursor of None \<Rightarrow> True | Some i \<Rightarrow> terminatedAt buf i)"

text \<open>What is still to come at a cursor: the non-empty pieces between commas.\<close>

definition pendingTokens :: "char list \<Rightarrow> nat option \<Rightarrow> string list" where
  "pendingTokens buf cursor =
    (case cursor of None \<Rightarrow> [] | Some i \<Rightarrow> strtokAll (\<lambda>c. c = CHR '','') (cstringAt buf i))"

text \<open>
  The reader's view of a call: the token read back from the buffer as a C string, and the state
  the next call starts from.
\<close>

definition tokenPull ::
  "char list \<times> nat option \<Rightarrow> (string \<times> char list \<times> nat option) option option" where
  "tokenPull st =
    (case sequenceTokenNext (fst st) (snd st) of
       None \<Rightarrow> None
     | Some (None, buf', cursor') \<Rightarrow> Some None
     | Some (Some t, buf', cursor') \<Rightarrow> Some (Some (cstringAt buf' t, buf', cursor')))"

text \<open>A loop that takes tokens from any source until none is left; \<open>None\<close> is a fault.\<close>

fun drain :: "('s \<Rightarrow> ('t \<times> 's) option option) \<Rightarrow> nat \<Rightarrow> 's \<Rightarrow> 't list option" where
  "drain pull 0 s = None"
| "drain pull (Suc fuel) s =
    (case pull s of
       None \<Rightarrow> None
     | Some None \<Rightarrow> Some []
     | Some (Some (t, s')) \<Rightarrow> map_option (Cons t) (drain pull fuel s'))"

locale token_source =
  fixes pull :: "'s \<Rightarrow> ('t \<times> 's) option option"
    and pending :: "'s \<Rightarrow> 't list"
    and valid :: "'s \<Rightarrow> bool"
  assumes pull_empty: "valid s \<Longrightarrow> pending s = [] \<Longrightarrow> pull s = Some None"
    and pull_token: "valid s \<Longrightarrow> pending s = t # ts \<Longrightarrow>
      \<exists>s'. pull s = Some (Some (t, s')) \<and> valid s' \<and> pending s' = ts"
begin

lemma drain_all: "valid s \<Longrightarrow> length (pending s) < fuel \<Longrightarrow> drain pull fuel s = Some (pending s)"
proof (induction fuel arbitrary: s)
  case (Suc fuel)
  show ?case
  proof (cases "pending s")
    case Nil
    with Suc.prems show ?thesis by (simp add: pull_empty)
  next
    case (Cons t ts)
    with Suc.prems pull_token obtain s' where
      "pull s = Some (Some (t, s'))" "valid s'" "pending s' = ts" by blast
    with Suc.IH [of s'] Suc.prems Cons show ?thesis by simp
  qed
qed simp

end

subsection \<open>One call\<close>

lemma cstring_shift:
  assumes "k \<le> length (cstringAt buf i)"
  shows "cstringAt buf (i + k) = drop k (cstringAt buf i)"
  using assms
proof (induction k arbitrary: i)
  case (Suc k)
  then have "drop i buf \<noteq> []" by (auto simp: cstringAt_def)
  then have d: "drop i buf = buf ! i # drop (Suc i) buf"
    by (metis Cons_nth_drop_Suc drop_eq_Nil2 not_le)
  then have nn: "buf ! i \<noteq> NUL"
    using Suc.prems by (auto simp: cstringAt_def split: if_splits)
  then have "cstringAt buf i = buf ! i # cstringAt buf (Suc i)"
    by (simp add: cstringAt_def d)
  with Suc.IH [of "Suc i"] Suc.prems show ?case by simp
qed simp

lemma terminatedAt_shift:
  assumes "terminatedAt buf i" and "k \<le> length (cstringAt buf i)"
  shows "terminatedAt buf (i + k)"
proof -
  have "drop (i + k) buf = drop k (drop i buf)" by (simp add: add.commute)
  also have "\<dots> = drop k (cstringAt buf i) @ NUL # drop (Suc (i + length (cstringAt buf i))) buf"
    using assms by (subst drop_cstringAt) auto
  finally show ?thesis by (simp add: terminatedAt_def)
qed

lemma nth_cstringAt:
  assumes "terminatedAt buf i" and "k \<le> length (cstringAt buf i)"
  shows "buf ! (i + k) = (if k < length (cstringAt buf i) then cstringAt buf i ! k else NUL)"
proof -
  have "i + k < length buf" using terminatedAt_shift [OF assms] by (rule terminatedAt_less)
  then have "buf ! (i + k) = drop i buf ! k" by simp
  also have "\<dots> = (cstringAt buf i @ NUL # drop (Suc (i + length (cstringAt buf i))) buf) ! k"
    using drop_cstringAt [OF assms(1)] by simp
  finally show ?thesis using assms(2) by (auto simp: nth_append)
qed

lemma comma_not_NUL [simp]: "CHR '','' \<noteq> NUL"
  by simp

lemma scan_cstring:
  assumes "terminatedAt buf i" and "\<not> P NUL"
  shows "scanWhile P buf i = Some (i + length (takeWhile P (cstringAt buf i)))"
  using assms by (simp add: scanWhile_NUL takeWhile_cstring)

lemma length_takeWhile_drop: "drop (length (takeWhile P xs)) xs = dropWhile P xs"
  by (simp add: dropWhile_eq_drop)

lemma cstringAt_update_cut:
  assumes "terminatedAt buf i" and "k \<le> length (cstringAt buf i)"
  shows "cstringAt (buf[i + k := NUL]) i = take k (cstringAt buf i)"
proof -
  let ?s = "cstringAt buf i"
  have lt: "i + k < length buf" using terminatedAt_shift [OF assms] by (rule terminatedAt_less)
  have "drop i (buf[i + k := NUL]) = (drop i buf)[k := NUL]"
    by (simp add: drop_update_swap)
  also have "drop i buf = ?s @ NUL # drop (Suc (i + length ?s)) buf"
    by (rule drop_cstringAt [OF assms(1)])
  also have "(?s @ NUL # drop (Suc (i + length ?s)) buf)[k := NUL]
      = take k ?s @ NUL # drop (Suc k) (?s @ NUL # drop (Suc (i + length ?s)) buf)"
    using assms(2) by (simp add: upd_conv_take_nth_drop)
  finally have eq: "drop i (buf[i + k := NUL])
      = take k ?s @ NUL # drop (Suc k) (?s @ NUL # drop (Suc (i + length ?s)) buf)" .
  have "NUL \<notin> set (take k ?s)"
    using cstringAt_no_NUL in_set_takeD by fastforce
  then show ?thesis
    unfolding cstringAt_def [of "buf[i + k := NUL]"] eq by (subst takeWhile_append2) auto
qed

lemma cstringAt_update_before: "j < i \<Longrightarrow> cstringAt (buf[j := c]) i = cstringAt buf i"
  by (simp add: cstringAt_def)

lemma terminatedAt_update_before: "j < i \<Longrightarrow> terminatedAt (buf[j := c]) i = terminatedAt buf i"
  by (simp add: terminatedAt_def)

subsection \<open>The call against the list of pieces\<close>

lemma sequenceTokenNext_scan:
  fixes buf i
  defines "rest \<equiv> cstringAt buf i"
  defines "rest1 \<equiv> dropWhile (\<lambda>c. c = CHR '','') rest"
  defines "tok \<equiv> i + length (takeWhile (\<lambda>c. c = CHR '','') rest)"
  defines "t \<equiv> takeWhile (\<lambda>c. c \<noteq> CHR '','') rest1"
  assumes tm: "terminatedAt buf i"
  shows "sequenceTokenNext buf (Some i) =
      (if rest1 = [] then Some (None, buf, None)
       else if length t < length rest1
         then Some (Some tok, buf[tok + length t := NUL], Some (Suc (tok + length t)))
         else Some (Some tok, buf, None))"
    and "terminatedAt buf tok" and "cstringAt buf tok = rest1"
proof -
  have k: "length (takeWhile (\<lambda>c. c = CHR '','') rest) \<le> length rest"
    by (rule length_takeWhile_le)
  show cs: "cstringAt buf tok = rest1"
    using k unfolding tok_def rest1_def rest_def
    by (simp add: cstring_shift length_takeWhile_drop)
  show tt: "terminatedAt buf tok"
    using tm k unfolding tok_def rest_def by (rule terminatedAt_shift)
  have s1: "scanWhile (\<lambda>c. c = CHR '','') buf i = Some tok"
    unfolding tok_def rest_def by (rule scan_cstring [OF tm]) simp
  have at: "buf ! tok = NUL \<longleftrightarrow> rest1 = []"
    using nth_cstringAt [OF tt, of 0] cs cstringAt_no_NUL [of buf tok] by (cases rest1) auto
  have "scanWhile (\<lambda>c. c \<noteq> NUL \<and> c \<noteq> CHR '','') buf tok
      = Some (tok + length (takeWhile (\<lambda>c. c \<noteq> NUL \<and> c \<noteq> CHR '','') rest1))"
    unfolding cs [symmetric] by (rule scan_cstring [OF tt]) simp
  also have "takeWhile (\<lambda>c. c \<noteq> NUL \<and> c \<noteq> CHR '','') rest1 = t"
    unfolding t_def using cstringAt_no_NUL [of buf tok] cs
    by (intro takeWhile_cong) auto
  finally have s2: "scanWhile (\<lambda>c. c \<noteq> NUL \<and> c \<noteq> CHR '','') buf tok = Some (tok + length t)" .
  have lt: "length t \<le> length rest1" unfolding t_def by (rule length_takeWhile_le)
  have "buf ! (tok + length t) = (if length t < length rest1 then rest1 ! length t else NUL)"
    using nth_cstringAt [OF tt, of "length t"] lt cs by simp
  moreover have "length t < length rest1 \<Longrightarrow> rest1 ! length t = CHR '',''"
    unfolding t_def using nth_length_takeWhile [of "\<lambda>c. c \<noteq> CHR '',''" rest1] by simp
  ultimately show "sequenceTokenNext buf (Some i) =
      (if rest1 = [] then Some (None, buf, None)
       else if length t < length rest1
         then Some (Some tok, buf[tok + length t := NUL], Some (Suc (tok + length t)))
         else Some (Some tok, buf, None))"
    by (simp add: sequenceTokenNext_def s1 s2 at)
qed

lemma pendingTokens_step:
  fixes rest :: string
  defines "rest1 \<equiv> dropWhile (\<lambda>c. c = CHR '','') rest"
  shows "strtokAll (\<lambda>c. c = CHR '','') rest =
    (if rest1 = [] then []
     else takeWhile (\<lambda>c. c \<noteq> CHR '','') rest1
       # strtokAll (\<lambda>c. c = CHR '','') (dropWhile (\<lambda>c. c \<noteq> CHR '','') rest1))"
  unfolding rest1_def
  by (cases "dropWhile (\<lambda>c. c = CHR '','') rest") (simp_all add: strtokAll_Nil strtokAll_Cons)

lemma strtokAll_drop_delim:
  "d c \<Longrightarrow> strtokAll d (c # cs) = strtokAll d cs"
  by (simp add: strtokAll.simps [of d "c # cs"] strtokAll.simps [of d cs])

lemma tokenPull_spec:
  assumes valid: "validCursor buf cursor"
  shows "pendingTokens buf cursor = [] \<Longrightarrow> tokenPull (buf, cursor) = Some None"
    and "pendingTokens buf cursor = t # ts \<Longrightarrow>
      \<exists>buf' cursor'. tokenPull (buf, cursor) = Some (Some (t, buf', cursor'))
        \<and> validCursor buf' cursor' \<and> pendingTokens buf' cursor' = ts
        \<and> length buf' = length buf"
proof -
  define rest where "rest = (case cursor of None \<Rightarrow> [] | Some i \<Rightarrow> cstringAt buf i)"
  define rest1 where "rest1 = dropWhile (\<lambda>c. c = CHR '','') rest"
  have pend: "pendingTokens buf cursor = strtokAll (\<lambda>c. c = CHR '','') rest"
    by (simp add: pendingTokens_def rest_def strtokAll_Nil split: option.split)
  {
    assume "pendingTokens buf cursor = []"
    then have r1: "rest1 = []" using pendingTokens_step [of rest] pend
      by (auto simp: rest1_def split: if_splits)
    show "tokenPull (buf, cursor) = Some None"
    proof (cases cursor)
      case None
      then show ?thesis by (simp add: tokenPull_def sequenceTokenNext_def)
    next
      case (Some i)
      with valid have "terminatedAt buf i" by (simp add: validCursor_def)
      from sequenceTokenNext_scan(1) [OF this] r1 Some show ?thesis
        by (simp add: tokenPull_def rest1_def rest_def)
    qed
  next
    assume p: "pendingTokens buf cursor = t # ts"
    then obtain i where i: "cursor = Some i" and tm: "terminatedAt buf i"
      using valid by (cases cursor) (auto simp: validCursor_def pendingTokens_def)
    then have rest: "rest = cstringAt buf i" by (simp add: rest_def)
    have r1: "rest1 \<noteq> []" and t: "t = takeWhile (\<lambda>c. c \<noteq> CHR '','') rest1"
      and ts: "ts = strtokAll (\<lambda>c. c = CHR '','') (dropWhile (\<lambda>c. c \<noteq> CHR '','') rest1)"
      using p pend pendingTokens_step [of rest] by (auto simp: rest1_def split: if_splits)
    define tok where "tok = i + length (takeWhile (\<lambda>c. c = CHR '','') rest)"
    note scan = sequenceTokenNext_scan [OF tm, folded rest, folded rest1_def tok_def, folded t]
    have tl: "length t \<le> length rest1" unfolding t by (rule length_takeWhile_le)
    show "\<exists>buf' cursor'. tokenPull (buf, cursor) = Some (Some (t, buf', cursor'))
        \<and> validCursor buf' cursor' \<and> pendingTokens buf' cursor' = ts \<and> length buf' = length buf"
    proof (cases "length t < length rest1")
      case True
      let ?e = "tok + length t"
      have cut: "cstringAt (buf[?e := NUL]) tok = t"
        using cstringAt_update_cut [OF scan(2), of "length t"] scan(3) tl
        by (simp add: t takeWhile_eq_take [symmetric])
      have after: "cstringAt buf (Suc ?e) = drop (Suc (length t)) rest1"
        and tm': "terminatedAt buf (Suc ?e)"
        using cstring_shift [of "Suc (length t)" buf tok]
          terminatedAt_shift [OF scan(2), of "Suc (length t)"] True scan(3) by simp_all
      have "dropWhile (\<lambda>c. c \<noteq> CHR '','') rest1 = CHR '','' # drop (Suc (length t)) rest1"
      proof -
        have "dropWhile (\<lambda>c. c \<noteq> CHR '','') rest1 = drop (length t) rest1"
          unfolding t by (rule dropWhile_eq_drop)
        also have "\<dots> = rest1 ! length t # drop (Suc (length t)) rest1"
          using True by (rule Cons_nth_drop_Suc [symmetric])
        also have "rest1 ! length t = CHR '',''"
          using nth_length_takeWhile [of "\<lambda>c. c \<noteq> CHR '',''" rest1] True t by simp
        finally show ?thesis .
      qed
      then have "pendingTokens (buf[?e := NUL]) (Some (Suc ?e)) = ts"
        by (simp add: pendingTokens_def cstringAt_update_before after ts strtokAll_drop_delim)
      then show ?thesis using scan(1) r1 True i cut tm'
        by (simp add: tokenPull_def validCursor_def terminatedAt_update_before)
    next
      case False
      have "t = take (length t) rest1" unfolding t by (rule takeWhile_eq_take)
      with False have "t = rest1" by simp
      then have "dropWhile (\<lambda>c. c \<noteq> CHR '','') rest1 = []"
        using t takeWhile_dropWhile_id [of "\<lambda>c. c \<noteq> CHR '',''" rest1] by simp
      then have "ts = []" unfolding ts by (simp only: strtokAll_Nil dropWhile.simps(1))
      then show ?thesis using scan r1 False i \<open>t = rest1\<close>
        by (simp add: tokenPull_def validCursor_def pendingTokens_def)
    qed
  }
qed

interpretation tokens: token_source tokenPull "\<lambda>st. pendingTokens (fst st) (snd st)"
  "\<lambda>st. validCursor (fst st) (snd st)"
proof unfold_locales
  fix s :: "char list \<times> nat option" and t ts
  assume v: "validCursor (fst s) (snd s)"
  obtain buf cursor where s: "s = (buf, cursor)" by (cases s)
  show "pendingTokens (fst s) (snd s) = [] \<Longrightarrow> tokenPull s = Some None"
    using tokenPull_spec(1) v unfolding s by simp
  assume "pendingTokens (fst s) (snd s) = t # ts"
  then show "\<exists>s'. tokenPull s = Some (Some (t, s')) \<and> validCursor (fst s') (snd s')
      \<and> pendingTokens (fst s') (snd s') = ts"
    using tokenPull_spec(2) [of buf cursor t ts] v unfolding s by auto
qed

text \<open>A sequence placed in a buffer is a valid start, and its pieces are what \<open>strtok\<close> finds.\<close>

lemma sequence_start:
  assumes "NUL \<notin> set s"
  shows "validCursor (s @ NUL # post) (Some 0)"
    and "pendingTokens (s @ NUL # post) (Some 0) = strtokAll (\<lambda>c. c = CHR '','') s"
  using cstringAt_append_NUL [OF assms, of "[]" post]
  by (simp_all add: validCursor_def terminatedAt_def pendingTokens_def)

lemma length_strtokAll: "length (strtokAll d s) \<le> length s"
proof (induction d s rule: strtokAll.induct)
  case (1 d s)
  show ?case
  proof (cases "dropWhile d s")
    case (Cons c cs)
    then have "\<not> d c" using hd_dropWhile [of d s] by fastforce
    then have "length (strtokAll d (dropWhile (\<lambda>c. \<not> d c) (c # cs))) \<le> length cs"
      using "1.IH" [OF Cons] length_dropWhile_le [of "\<lambda>c. \<not> d c" cs] by simp
    moreover have "length (c # cs) \<le> length s"
      using Cons by (metis length_dropWhile_le)
    ultimately show ?thesis by (simp add: strtokAll_Cons [OF Cons])
  qed (simp add: strtokAll_Nil)
qed

lemma walk_sequence:
  assumes "NUL \<notin> set s" and "length s < fuel"
  shows "drain tokenPull fuel (s @ NUL # post, Some 0) = Some (strtokAll (\<lambda>c. c = CHR '','') s)"
  using tokens.drain_all [of "(s @ NUL # post, Some 0)" fuel] assms
    length_strtokAll [of "\<lambda>c. c = CHR '',''" s]
  by (simp add: sequence_start)

end
