(* ===== verification/SequenceRepeat.thy ===== *)
theory SequenceRepeat
  imports SequenceToken
begin

text \<open>
  \<open>sequence_repeat.c\<close>: the expansion of the repeat syntax of click sequences,
  \<open>(A,W100)*10\<close> and \<open>DDOWN*3\<close>, into a flat comma-separated list that is queued for
  the click thread.

  \<open>ExpandState\<close> is the C struct; its output buffer is the string written so far
  (\<open>outLen\<close> is its length), and a function that reports through the state and returns
  \<open>false\<close> returns the pair of the flag and the new state.  Offsets are natural numbers: they
  never exceed the length of the input.  The two time values are 64-bit words.
\<close>

definition SEQUENCE_REPEAT_MAX_COUNT :: nat where "SEQUENCE_REPEAT_MAX_COUNT = 1000"
definition SEQUENCE_REPEAT_MAX_DEPTH :: nat where "SEQUENCE_REPEAT_MAX_DEPTH = 4"
definition SEQUENCE_REPEAT_MAX_TOKENS :: nat where "SEQUENCE_REPEAT_MAX_TOKENS = 1024"

datatype SequenceExpandResult =
    SequenceExpandOk
  | SequenceExpandBadSyntax
  | SequenceExpandCountRange
  | SequenceExpandTooDeep
  | SequenceExpandTooManyTokens
  | SequenceExpandTooLong

record SequenceExpandInfo =
  errorIndex :: nat
  tokenCount :: nat
  estimatedMs :: u64

record ExpandState =
  esInput :: string
  esOutSize :: nat
  esOut :: string
  esTokens :: nat
  esClickCostMs :: u64
  esEstimatedMs :: u64
  esStickValueNext :: bool
  esResult :: SequenceExpandResult
  esErrorIndex :: nat

definition fail :: "ExpandState \<Rightarrow> SequenceExpandResult \<Rightarrow> nat \<Rightarrow> bool \<times> ExpandState" where
  "fail st result index = (False, st\<lparr>esResult := result, esErrorIndex := index\<rparr>)"

definition isControlByte :: "char \<Rightarrow> bool" where
  "isControlByte c \<longleftrightarrow> (of_char c :: nat) < 0x20 \<or> (of_char c :: nat) = 0x7F"

definition inputSlice :: "ExpandState \<Rightarrow> nat \<Rightarrow> nat \<Rightarrow> string" where
  "inputSlice st from to = take (to - from) (drop from (esInput st))"

subsection \<open>The cost of a token\<close>

text \<open>The loop of \<open>parseWaitMs\<close> over the bytes that are left, with its saturation.\<close>

fun waitLoop :: "u64 \<Rightarrow> u64 \<Rightarrow> string \<Rightarrow> u64" where
  "waitLoop base value [] = value"
| "waitLoop base value (c # cs) =
    (case digitVal (unat base) c of
       None \<Rightarrow> 0
     | Some d \<Rightarrow>
         if value > (U64_MAX - of_nat d) div base then U64_MAX
         else waitLoop base (value * base + of_nat d) cs)"

definition parseWaitMs :: "string \<Rightarrow> u64" where
  "parseWaitMs text =
    (if hasHexPrefix text then waitLoop 16 0 (drop 2 text) else waitLoop 10 0 text)"

text \<open>
  \<open>tokenCostMs\<close> reads the token's text only; it returns the cost and the new value of
  \<open>stickValueNext\<close>.
\<close>

definition tokenCostMs :: "u64 \<Rightarrow> bool \<Rightarrow> string \<Rightarrow> u64 \<times> bool" where
  "tokenCostMs clickCost stick text =
    (if stick then (0, False)
     else if hd text = CHR ''W'' then (parseWaitMs (tl text), stick)
     else if hd text = CHR ''+'' \<or> hd text = CHR ''-'' then (0, stick)
     else if hd text = CHR ''%'' \<or> hd text = CHR 0x26 then (0, True)
     else (clickCost, stick))"

subsection \<open>Emitting a token\<close>

definition emitToken :: "ExpandState \<Rightarrow> nat \<Rightarrow> nat \<Rightarrow> bool \<times> ExpandState" where
  "emitToken st from to =
    (let text = inputSlice st from to;
         needed = (to - from) + (if esTokens st \<noteq> 0 then 1 else 0) + 1
     in if esTokens st + 1 > SEQUENCE_REPEAT_MAX_TOKENS
        then fail st SequenceExpandTooManyTokens from
        else if length (esOut st) + needed > esOutSize st
        then fail st SequenceExpandTooLong from
        else
          (let (cost, stick) = tokenCostMs (esClickCostMs st) (esStickValueNext st) text
           in (True, st\<lparr>esOut := esOut st @ (if esTokens st \<noteq> 0 then '','' else []) @ text,
                        esEstimatedMs := esEstimatedMs st + cost,
                        esStickValueNext := stick,
                        esTokens := esTokens st + 1\<rparr>)))"

fun emitLoop :: "nat \<Rightarrow> ExpandState \<Rightarrow> nat \<Rightarrow> nat \<Rightarrow> bool \<times> ExpandState" where
  "emitLoop 0 st from to = (True, st)"
| "emitLoop (Suc n) st from to =
    (case emitToken st from to of (ok, st') \<Rightarrow> if ok then emitLoop n st' from to else (False, st'))"

subsection \<open>Reading a count\<close>

text \<open>The digit loop: \<open>Inl ()\<close> when the accumulator passes the limit.\<close>

function countLoop :: "string \<Rightarrow> nat \<Rightarrow> nat \<Rightarrow> nat \<Rightarrow> nat \<Rightarrow> unit + (nat \<times> nat \<times> nat)" where
  "countLoop inp pos en v digits =
    (if pos < en \<and> isdigit (inp ! pos)
     then (let v' = v * 10 + (of_char (inp ! pos) - 48)
           in if v' > SEQUENCE_REPEAT_MAX_COUNT then Inl ()
              else countLoop inp (Suc pos) en v' (Suc digits))
     else Inr (pos, v, digits))"
  by pat_completeness auto
termination
  by (relation "measure (\<lambda>(inp, pos, en, v, digits). en - pos)") auto

declare countLoop.simps [simp del]

definition parseCount ::
  "string \<Rightarrow> nat \<Rightarrow> nat \<Rightarrow> (SequenceExpandResult \<times> nat) + (nat \<times> nat)" where
  "parseCount inp starIndex en =
    (case countLoop inp (starIndex + 1) en 0 0 of
       Inl _ \<Rightarrow> Inl (SequenceExpandCountRange, starIndex)
     | Inr (pos, v, digits) \<Rightarrow>
         if digits = 0 then Inl (SequenceExpandBadSyntax, starIndex)
         else if v = 0 then Inl (SequenceExpandCountRange, starIndex)
         else Inr (v, pos))"

text \<open>The optional count of an item: 1 when there is no \<open>*\<close>.\<close>

definition itemCount ::
  "string \<Rightarrow> nat \<Rightarrow> nat \<Rightarrow> (SequenceExpandResult \<times> nat) + (nat \<times> nat)" where
  "itemCount inp pos en =
    (if pos < en \<and> inp ! pos = CHR ''*'' then parseCount inp pos en else Inr (1, pos))"

subsection \<open>Finding the end of an item\<close>

text \<open>
  The search for the parenthesis that closes a group: \<open>Inl\<close> at a control byte, otherwise the
  final cursor and nesting level.
\<close>

function findClose :: "string \<Rightarrow> nat \<Rightarrow> nat \<Rightarrow> nat \<Rightarrow> nat + (nat \<times> nat)" where
  "findClose inp cursor en nesting =
    (if cursor < en \<and> nesting \<noteq> 0
     then (let c = inp ! cursor
           in if isControlByte c then Inl cursor
              else (let nesting' = (if c = CHR ''('' then nesting + 1
                                    else if c = CHR '')'' then nesting - 1 else nesting)
                    in findClose inp (if nesting' \<noteq> 0 then Suc cursor else cursor) en nesting'))
     else Inr (cursor, nesting))"
  by pat_completeness auto
termination
  by (relation "measure (\<lambda>(inp, cursor, en, nesting). (en - cursor) + (if nesting = 0 then 0 else 1))")
    (auto split: if_splits)

declare findClose.simps [simp del]

text \<open>The end of a plain token: \<open>Inl\<close> at a control byte.\<close>

function tokenEnd :: "string \<Rightarrow> nat \<Rightarrow> nat \<Rightarrow> nat + nat" where
  "tokenEnd inp pos en =
    (if pos < en \<and> inp ! pos \<noteq> CHR '','' \<and> inp ! pos \<noteq> CHR ''*'' \<and> inp ! pos \<noteq> CHR '')''
     then (if isControlByte (inp ! pos) then Inl pos else tokenEnd inp (Suc pos) en)
     else Inr pos)"
  by pat_completeness auto
termination
  by (relation "measure (\<lambda>(inp, pos, en). en - pos)") auto

declare tokenEnd.simps [simp del]

text \<open>
  The repetition of a group: \<open>body\<close> is the recursive call on the group's range, and the first
  repetition must emit something.
\<close>

function groupLoop ::
  "(ExpandState \<Rightarrow> bool \<times> ExpandState) \<Rightarrow> nat \<Rightarrow> nat \<Rightarrow> nat \<Rightarrow> nat \<Rightarrow> ExpandState
    \<Rightarrow> bool \<times> ExpandState" where
  "groupLoop body itemStart emitted i count st =
    (if i < count
     then (case body st of (ok, st') \<Rightarrow>
             if \<not> ok then (False, st')
             else if i = 0 \<and> esTokens st' = emitted then fail st' SequenceExpandBadSyntax itemStart
             else groupLoop body itemStart emitted (Suc i) count st')
     else (True, st))"
  by pat_completeness auto
termination
  by (relation "measure (\<lambda>(body, itemStart, emitted, i, count, st). count - i)") auto

declare groupLoop.simps [simp del]

subsection \<open>Progress of the scanners\<close>

lemma findClose_bounds:
  "findClose inp cursor en nesting = Inr (cursor', 0) \<Longrightarrow> nesting \<noteq> 0 \<Longrightarrow> cursor \<le> cursor' \<and> cursor' < en"
proof (induction inp cursor en nesting rule: findClose.induct)
  case (1 inp cursor en nesting)
  show ?case
  proof (cases "cursor < en")
    case True
    let ?c = "inp ! cursor"
    let ?n = "if ?c = CHR ''('' then nesting + 1 else if ?c = CHR '')'' then nesting - 1 else nesting"
    from True 1(2,3) have nc: "\<not> isControlByte ?c"
      and f: "findClose inp (if ?n \<noteq> 0 then Suc cursor else cursor) en ?n = Inr (cursor', 0)"
      by (auto simp: findClose.simps [of inp cursor] Let_def split: if_splits)
    show ?thesis
    proof (cases "?n = 0")
      case True
      with f have "cursor' = cursor" by (simp add: findClose.simps [of inp cursor en 0])
      with \<open>cursor < en\<close> show ?thesis by simp
    next
      case False
      with 1(1) [OF _ refl nc refl] \<open>cursor < en\<close> 1(3) f have "Suc cursor \<le> cursor' \<and> cursor' < en"
        by simp
      then show ?thesis by simp
    qed
  next
    case False
    with 1(2,3) show ?thesis by (simp add: findClose.simps [of inp cursor])
  qed
qed

lemma tokenEnd_bounds: "tokenEnd inp pos en = Inr p \<Longrightarrow> pos \<le> p \<and> (pos \<le> en \<longrightarrow> p \<le> en)"
proof (induction inp pos en rule: tokenEnd.induct)
  case (1 inp pos en)
  then show ?case by (fastforce simp: tokenEnd.simps [of inp pos] split: if_splits)
qed

lemma countLoop_bounds:
  "countLoop inp pos en v d = Inr (p, w, e) \<Longrightarrow> pos \<le> p \<and> (pos \<le> en \<longrightarrow> p \<le> en)"
proof (induction inp pos en v d rule: countLoop.induct)
  case (1 inp pos en v d)
  show ?case
  proof (cases "pos < en \<and> isdigit (inp ! pos)")
    case True
    with "1.prems" have "\<not> v * 10 + (of_char (inp ! pos) - 48) > SEQUENCE_REPEAT_MAX_COUNT"
      and "countLoop inp (Suc pos) en (v * 10 + (of_char (inp ! pos) - 48)) (Suc d) = Inr (p, w, e)"
      by (auto simp: countLoop.simps [of inp pos] Let_def split: if_splits)
    with "1.IH" [OF True refl] True show ?thesis by auto
  next
    case False
    with "1.prems" show ?thesis by (simp add: countLoop.simps [of inp pos])
  qed
qed

lemma itemCount_bounds:
  "itemCount inp pos en = Inr (count, p) \<Longrightarrow> pos \<le> p \<and> (pos \<le> en \<longrightarrow> p \<le> en)"
  by (auto simp: itemCount_def parseCount_def split: if_splits sum.splits
      dest!: countLoop_bounds)

subsection \<open>Walking the items\<close>

text \<open>
  \<open>expandItems\<close> walks the items of \<open>input[pos, en)\<close>.  The \<open>while\<close> loop of the source is
  the recursion on \<open>pos\<close>; the groups are the recursion on the nesting depth.
\<close>

function expandItems :: "ExpandState \<Rightarrow> nat \<Rightarrow> nat \<Rightarrow> nat \<Rightarrow> bool \<times> ExpandState" where
  "expandItems st pos en depth =
    (if \<not> pos < en then (True, st)
     else if esInput st ! pos = CHR ''('' then
       (if depth + 1 > SEQUENCE_REPEAT_MAX_DEPTH then fail st SequenceExpandTooDeep pos
        else
          (case findClose (esInput st) (pos + 1) en 1 of
             Inl bad \<Rightarrow> fail st SequenceExpandBadSyntax bad
           | Inr (cursor, nesting) \<Rightarrow>
               if nesting \<noteq> 0 then fail st SequenceExpandBadSyntax pos
               else
                 (case itemCount (esInput st) (cursor + 1) en of
                    Inl (r, i) \<Rightarrow> fail st r i
                  | Inr (count, next) \<Rightarrow>
                      (case groupLoop (\<lambda>s. expandItems s (pos + 1) cursor (depth + 1))
                              pos (esTokens st) 0 count st of
                         (ok, st') \<Rightarrow>
                           if \<not> ok then (False, st')
                           else if \<not> next < en then (True, st')
                           else if esInput st' ! next \<noteq> CHR '','' then fail st' SequenceExpandBadSyntax next
                           else expandItems st' (next + 1) en depth))))
     else if esInput st ! pos = CHR '')'' then fail st SequenceExpandBadSyntax pos
     else
       (case tokenEnd (esInput st) pos en of
          Inl bad \<Rightarrow> fail st SequenceExpandBadSyntax bad
        | Inr tokEnd \<Rightarrow>
            (case itemCount (esInput st) tokEnd en of
               Inl (r, i) \<Rightarrow> fail st r i
             | Inr (count, next) \<Rightarrow>
                 if tokEnd < en \<and> esInput st ! tokEnd = CHR ''*'' \<and> tokEnd = pos
                 then fail st SequenceExpandBadSyntax pos
                 else
                   (case (if tokEnd > pos then emitLoop count st pos tokEnd else (True, st)) of
                      (ok, st') \<Rightarrow>
                        if \<not> ok then (False, st')
                        else if \<not> next < en then (True, st')
                        else if esInput st' ! next \<noteq> CHR '','' then fail st' SequenceExpandBadSyntax next
                        else expandItems st' (next + 1) en depth))))"
  by pat_completeness auto
termination
proof (relation "measure (\<lambda>(st, pos, en, depth). en - pos)")
qed (auto dest!: findClose_bounds itemCount_bounds tokenEnd_bounds)

declare expandItems.simps [simp del]

definition sequenceExpand ::
  "string option \<Rightarrow> nat option \<Rightarrow> u64 \<Rightarrow> SequenceExpandResult \<times> string \<times> SequenceExpandInfo" where
  "sequenceExpand sequence out clickCost =
    (let info = \<lparr>errorIndex = 0, tokenCount = 0, estimatedMs = 0\<rparr>
     in case out of
          None \<Rightarrow> (SequenceExpandTooLong, [], info)
        | Some outSize \<Rightarrow>
            if outSize = 0 then (SequenceExpandTooLong, [], info)
            else
              (case sequence of
                 None \<Rightarrow> (SequenceExpandOk, [], info)
               | Some text \<Rightarrow>
                   let st0 = \<lparr>esInput = text, esOutSize = outSize, esOut = [], esTokens = 0,
                              esClickCostMs = clickCost, esEstimatedMs = 0,
                              esStickValueNext = False, esResult = SequenceExpandOk,
                              esErrorIndex = 0\<rparr>;
                       (ok, st) = expandItems st0 0 (length text) 0
                   in if \<not> ok
                      then (esResult st, [],
                            info\<lparr>errorIndex := esErrorIndex st, tokenCount := esTokens st\<rparr>)
                      else (SequenceExpandOk, esOut st,
                            info\<lparr>tokenCount := esTokens st, estimatedMs := esEstimatedMs st\<rparr>)))"

fun sequenceExpandResultName :: "SequenceExpandResult \<Rightarrow> string" where
  "sequenceExpandResultName SequenceExpandOk = ''ok''"
| "sequenceExpandResultName SequenceExpandBadSyntax = ''bad-syntax''"
| "sequenceExpandResultName SequenceExpandCountRange = ''count-range''"
| "sequenceExpandResultName SequenceExpandTooDeep = ''too-deep''"
| "sequenceExpandResultName SequenceExpandTooManyTokens = ''too-many-tokens''"
| "sequenceExpandResultName SequenceExpandTooLong = ''too-long''"

subsection \<open>What a run can do to the state\<close>

text \<open>A successful \<open>emitToken\<close> is a function of the token's text.\<close>

definition pushToken :: "ExpandState \<Rightarrow> string \<Rightarrow> ExpandState" where
  "pushToken st text =
    (let (cost, stick) = tokenCostMs (esClickCostMs st) (esStickValueNext st) text
     in st\<lparr>esOut := esOut st @ (if esTokens st \<noteq> 0 then '','' else []) @ text,
           esEstimatedMs := esEstimatedMs st + cost,
           esStickValueNext := stick,
           esTokens := esTokens st + 1\<rparr>)"

definition tokenText :: "string \<Rightarrow> bool" where
  "tokenText t \<longleftrightarrow> t \<noteq> [] \<and> hd t \<noteq> CHR ''('' \<and>
    (\<forall>c \<in> set t. c \<noteq> CHR '','' \<and> c \<noteq> CHR ''*'' \<and> c \<noteq> CHR '')'' \<and> \<not> isControlByte c)"

definition withinLimits :: "ExpandState \<Rightarrow> bool" where
  "withinLimits st \<longleftrightarrow> esTokens st \<le> SEQUENCE_REPEAT_MAX_TOKENS \<and> length (esOut st) < esOutSize st"

text \<open>Everything but the two report fields.\<close>

definition core :: "ExpandState \<Rightarrow> ExpandState" where
  "core st = st\<lparr>esResult := SequenceExpandOk, esErrorIndex := 0\<rparr>"

definition grows :: "ExpandState \<Rightarrow> ExpandState \<Rightarrow> bool" where
  "grows st st' \<longleftrightarrow>
    (\<exists>ts. (\<forall>t \<in> set ts. tokenText t) \<and> core st' = core (foldl pushToken st ts)
      \<and> (ts \<noteq> [] \<longrightarrow> withinLimits st'))"

text \<open>A run either succeeds, or stops with an error that points before \<open>en\<close>.\<close>

definition okRun :: "ExpandState \<Rightarrow> nat \<Rightarrow> bool \<times> ExpandState \<Rightarrow> bool" where
  "okRun st en r \<longleftrightarrow> grows st (snd r)
    \<and> (\<not> fst r \<longrightarrow> esErrorIndex (snd r) < en \<and> esResult (snd r) \<noteq> SequenceExpandOk)"

lemma core_sel [simp]:
  "esInput (core a) = esInput a" "esOutSize (core a) = esOutSize a" "esOut (core a) = esOut a"
  "esTokens (core a) = esTokens a" "esClickCostMs (core a) = esClickCostMs a"
  "esEstimatedMs (core a) = esEstimatedMs a" "esStickValueNext (core a) = esStickValueNext a"
  by (simp_all add: core_def)

lemma core_eqD:
  assumes "core a = core b"
  shows "esInput a = esInput b" and "esOutSize a = esOutSize b" and "esOut a = esOut b"
    and "esTokens a = esTokens b" and "esClickCostMs a = esClickCostMs b"
    and "esEstimatedMs a = esEstimatedMs b" and "esStickValueNext a = esStickValueNext b"
  using assms by (metis core_sel)+

lemma core_pushToken: "core (pushToken st t) = pushToken (core st) t"
  by (simp add: core_def pushToken_def split: prod.split)

lemma core_foldl: "core (foldl pushToken st ts) = foldl pushToken (core st) ts"
  by (induction ts arbitrary: st) (simp_all add: core_pushToken)

lemma foldl_pushToken_fields [simp]:
  "esInput (foldl pushToken st ts) = esInput st"
  "esOutSize (foldl pushToken st ts) = esOutSize st"
  "esClickCostMs (foldl pushToken st ts) = esClickCostMs st"
  "esTokens (foldl pushToken st ts) = esTokens st + length ts"
  by (induction ts arbitrary: st) (simp_all add: pushToken_def split: prod.split)

lemma grows_refl: "grows st st"
  unfolding grows_def by (rule exI [of _ "[]"]) simp

lemma grows_core: "core st' = core st \<Longrightarrow> grows st st'"
  unfolding grows_def by (rule exI [of _ "[]"]) simp

lemma withinLimits_core: "core a = core b \<Longrightarrow> withinLimits a = withinLimits b"
  unfolding withinLimits_def by (metis core_sel(2,3,4))

lemma grows_trans:
  assumes "grows a b" and "grows b c"
  shows "grows a c"
proof -
  from assms obtain ts us where
    ts: "\<forall>t \<in> set ts. tokenText t" "core b = core (foldl pushToken a ts)" "ts \<noteq> [] \<longrightarrow> withinLimits b" and
    us: "\<forall>t \<in> set us. tokenText t" "core c = core (foldl pushToken b us)" "us \<noteq> [] \<longrightarrow> withinLimits c"
    unfolding grows_def by blast
  have "core c = core (foldl pushToken a (ts @ us))"
    using us(2) ts(2) by (simp add: core_foldl)
  moreover have "withinLimits c" if "us = []" "ts \<noteq> []"
  proof -
    have "core c = core b" using us(2) that by simp
    then show ?thesis using ts(3) that withinLimits_core by blast
  qed
  ultimately show ?thesis
    unfolding grows_def using ts(1) us(1,3) by (intro exI [of _ "ts @ us"]) auto
qed

lemma grows_fields:
  assumes "grows a b"
  shows "esInput b = esInput a" and "esOutSize b = esOutSize a"
  using assms core_eqD unfolding grows_def by (metis foldl_pushToken_fields)+

lemma okRun_fail:
  "index < en \<Longrightarrow> r \<noteq> SequenceExpandOk \<Longrightarrow> okRun st en (fail st r index)"
  by (simp add: okRun_def fail_def grows_core core_def)

lemma okRun_True: "okRun st en (True, st)"
  by (simp add: okRun_def grows_refl)

lemma okRun_trans: "grows a b \<Longrightarrow> okRun b en r \<Longrightarrow> okRun a en r"
  by (auto simp: okRun_def intro: grows_trans)

lemma okRun_mono: "okRun a en r \<Longrightarrow> en \<le> en' \<Longrightarrow> okRun a en' r"
  by (auto simp: okRun_def)

lemma inputSlice_length:
  "to \<le> length (esInput st) \<Longrightarrow> length (inputSlice st from to) = to - from"
  by (simp add: inputSlice_def)

lemma emitToken_push:
  assumes "to \<le> length (esInput st)"
  shows "emitToken st from to =
    (if esTokens st + 1 > SEQUENCE_REPEAT_MAX_TOKENS then fail st SequenceExpandTooManyTokens from
     else if esOutSize st \<le> length (esOut (pushToken st (inputSlice st from to)))
     then fail st SequenceExpandTooLong from
     else (True, pushToken st (inputSlice st from to)))"
  using assms
  by (auto simp: emitToken_def pushToken_def Let_def inputSlice_length split: prod.split)

lemma emitToken_okRun:
  assumes "to \<le> length (esInput st)" and "from < en" and "tokenText (inputSlice st from to)"
  shows "okRun st en (emitToken st from to)"
proof -
  have "okRun st en (True, pushToken st (inputSlice st from to))"
    if "\<not> esTokens st + 1 > SEQUENCE_REPEAT_MAX_TOKENS"
      and "\<not> esOutSize st \<le> length (esOut (pushToken st (inputSlice st from to)))"
    unfolding okRun_def grows_def
    using that assms(3) foldl_pushToken_fields [of st "[inputSlice st from to]"]
    by (auto simp: withinLimits_def intro!: exI [of _ "[inputSlice st from to]"])
  then show ?thesis using assms by (simp add: emitToken_push okRun_fail)
qed

lemma emitLoop_okRun:
  assumes "to \<le> length (esInput st)" and "from < en" and "tokenText (inputSlice st from to)"
  shows "okRun st en (emitLoop n st from to)"
  using assms
proof (induction n arbitrary: st)
  case (Suc n)
  obtain ok st' where e: "emitToken st from to = (ok, st')" by force
  with emitToken_okRun [OF Suc.prems] have run: "okRun st en (ok, st')" by simp
  show ?case
  proof (cases ok)
    case True
    from run have g: "grows st st'" by (simp add: okRun_def)
    then have "inputSlice st' from to = inputSlice st from to"
      by (simp add: inputSlice_def grows_fields)
    with Suc g e True show ?thesis by (auto simp: grows_fields intro: okRun_trans)
  qed (use run e in simp)
qed (simp add: okRun_True)

lemma groupLoop_okRun:
  assumes "\<And>s. esInput s = esInput st \<Longrightarrow> okRun s en (body s)" and "itemStart < en"
  shows "okRun st en (groupLoop body itemStart emitted i count st)"
  using assms
proof (induction body itemStart emitted i count st rule: groupLoop.induct)
  case (1 body itemStart emitted i count st)
  obtain ok st' where b: "body st = (ok, st')" by force
  with "1.prems"(1) [of st] have run: "okRun st en (ok, st')" by simp
  then have g: "grows st st'" by (simp add: okRun_def)
  show ?case
  proof (cases "i < count \<and> ok \<and> \<not> (i = 0 \<and> esTokens st' = emitted)")
    case True
    then have "okRun st' en (groupLoop body itemStart emitted (Suc i) count st')"
      using "1.IH" [OF _ b [symmetric]] "1.prems" g by (auto simp: grows_fields)
    with True b g show ?thesis
      by (subst groupLoop.simps) (auto intro: okRun_trans)
  next
    case False
    have "okRun st en (fail st' SequenceExpandBadSyntax itemStart)"
      using g "1.prems"(2) by (intro okRun_trans [OF g] okRun_fail) simp_all
    with False run b show ?thesis
      by (subst groupLoop.simps) (auto simp: okRun_True)
  qed
qed

lemma findClose_Inl: "findClose inp cursor en nesting = Inl bad \<Longrightarrow> bad < en"
proof (induction inp cursor en nesting rule: findClose.induct)
  case (1 inp cursor en nesting)
  show ?case
  proof (cases "cursor < en \<and> nesting \<noteq> 0 \<and> \<not> isControlByte (inp ! cursor)")
    case True
    with "1.prems" have "findClose inp
        (if (if inp ! cursor = CHR ''('' then nesting + 1
             else if inp ! cursor = CHR '')'' then nesting - 1 else nesting) \<noteq> 0
         then Suc cursor else cursor) en
        (if inp ! cursor = CHR ''('' then nesting + 1
         else if inp ! cursor = CHR '')'' then nesting - 1 else nesting) = Inl bad"
      by (subst (asm) findClose.simps) (simp add: Let_def)
    with "1.IH" [OF _ refl _ refl] True show ?thesis by simp
  next
    case False
    with "1.prems" show ?thesis
      by (subst (asm) findClose.simps) (auto simp: Let_def split: if_splits)
  qed
qed

lemma tokenEnd_Inl: "tokenEnd inp pos en = Inl bad \<Longrightarrow> bad < en"
proof (induction inp pos en rule: tokenEnd.induct)
  case (1 inp pos en)
  then show ?case by (fastforce simp: tokenEnd.simps [of inp pos] split: if_splits)
qed

lemma tokenEnd_chars:
  "tokenEnd inp pos en = Inr p \<Longrightarrow> pos \<le> i \<Longrightarrow> i < p \<Longrightarrow>
    inp ! i \<noteq> CHR '','' \<and> inp ! i \<noteq> CHR ''*'' \<and> inp ! i \<noteq> CHR '')'' \<and> \<not> isControlByte (inp ! i)"
proof (induction inp pos en rule: tokenEnd.induct)
  case (1 inp pos en)
  show ?case
  proof (cases "pos < en \<and> inp ! pos \<noteq> CHR '','' \<and> inp ! pos \<noteq> CHR ''*'' \<and> inp ! pos \<noteq> CHR '')''
      \<and> \<not> isControlByte (inp ! pos)")
    case True
    with "1.prems"(1) have "tokenEnd inp (Suc pos) en = Inr p"
      by (simp add: tokenEnd.simps [of inp pos])
    with "1.IH" True "1.prems"(2,3) show ?thesis by (cases "i = pos") auto
  next
    case False
    with "1.prems" show ?thesis by (auto simp: tokenEnd.simps [of inp pos] split: if_splits)
  qed
qed

lemma tokenEnd_text:
  assumes "tokenEnd (esInput st) pos en = Inr p" and "pos < p" and "p \<le> length (esInput st)"
    and "esInput st ! pos \<noteq> CHR ''(''"
  shows "tokenText (inputSlice st pos p)"
proof -
  have hd: "inputSlice st pos p \<noteq> []" "hd (inputSlice st pos p) = esInput st ! pos"
    using assms(2,3) by (simp_all add: inputSlice_def hd_drop_conv_nth)
  have "\<exists>i. pos \<le> i \<and> i < p \<and> c = esInput st ! i" if "c \<in> set (inputSlice st pos p)" for c
  proof -
    from that obtain k where "k < p - pos" "c = esInput st ! (pos + k)"
      using assms(2,3) by (auto simp: inputSlice_def in_set_conv_nth)
    then show ?thesis by (intro exI [of _ "pos + k"]) simp
  qed
  with hd assms(4) tokenEnd_chars [OF assms(1)] show ?thesis
    unfolding tokenText_def by metis
qed

lemma itemCount_Inl:
  "itemCount inp pos en = Inl (r, i) \<Longrightarrow> i < en \<and> r \<noteq> SequenceExpandOk"
  by (auto simp: itemCount_def parseCount_def split: if_splits sum.splits)

text \<open>
  What both branches of the walk do behind an item: stop at the end of the range, or go on behind
  the comma.
\<close>

definition afterItem :: "ExpandState \<Rightarrow> nat \<Rightarrow> nat \<Rightarrow> nat \<Rightarrow> bool \<times> ExpandState" where
  "afterItem st p en depth =
    (if \<not> p < en then (True, st)
     else if esInput st ! p \<noteq> CHR '','' then fail st SequenceExpandBadSyntax p
     else expandItems st (p + 1) en depth)"

lemma expandItems_group:
  assumes "pos < en" and "esInput st ! pos = CHR ''(''" and "depth + 1 \<le> SEQUENCE_REPEAT_MAX_DEPTH"
    and "findClose (esInput st) (pos + 1) en 1 = Inr (cursor, 0)"
    and "itemCount (esInput st) (cursor + 1) en = Inr (count, p)"
    and "groupLoop (\<lambda>s. expandItems s (pos + 1) cursor (depth + 1)) pos (esTokens st) 0 count st
      = (ok, st')"
  shows "expandItems st pos en depth = (if ok then afterItem st' p en depth else (False, st'))"
  by (subst expandItems.simps) (use assms in \<open>simp add: afterItem_def\<close>)

lemma expandItems_token:
  assumes "pos < en" and "esInput st ! pos \<noteq> CHR ''(''" and "esInput st ! pos \<noteq> CHR '')''"
    and "tokenEnd (esInput st) pos en = Inr tokEnd"
    and "itemCount (esInput st) tokEnd en = Inr (count, p)"
    and "\<not> (tokEnd < en \<and> esInput st ! tokEnd = CHR ''*'' \<and> tokEnd = pos)"
    and "(if tokEnd > pos then emitLoop count st pos tokEnd else (True, st)) = (ok, st')"
  shows "expandItems st pos en depth = (if ok then afterItem st' p en depth else (False, st'))"
  by (subst expandItems.simps) (use assms in \<open>auto simp add: afterItem_def\<close>)

lemma expandItems_done: "\<not> pos < en \<Longrightarrow> expandItems st pos en depth = (True, st)"
  by (subst expandItems.simps) simp

text \<open>The errors of the walk before anything of the item is emitted all point into the range.\<close>

lemma expandItems_group_fail:
  assumes "pos < en" and "esInput st ! pos = CHR ''(''"
    and "\<not> (\<exists>cursor count p. depth + 1 \<le> SEQUENCE_REPEAT_MAX_DEPTH
      \<and> findClose (esInput st) (pos + 1) en 1 = Inr (cursor, 0)
      \<and> itemCount (esInput st) (cursor + 1) en = Inr (count, p))"
  shows "okRun st en (expandItems st pos en depth)"
  by (subst expandItems.simps)
    (use assms in \<open>auto simp: okRun_fail dest: findClose_Inl itemCount_Inl split: sum.split\<close>)

lemma expandItems_token_fail:
  assumes "pos < en" and "esInput st ! pos \<noteq> CHR ''(''"
    and "\<not> (\<exists>tokEnd count p. esInput st ! pos \<noteq> CHR '')''
      \<and> tokenEnd (esInput st) pos en = Inr tokEnd
      \<and> itemCount (esInput st) tokEnd en = Inr (count, p)
      \<and> \<not> (tokEnd < en \<and> esInput st ! tokEnd = CHR ''*'' \<and> tokEnd = pos))"
  shows "okRun st en (expandItems st pos en depth)"
  by (subst expandItems.simps)
    (use assms in \<open>auto simp: okRun_fail dest: tokenEnd_Inl itemCount_Inl split: sum.split\<close>)

lemma okRun_afterItem:
  assumes "okRun st en (ok, st')"
    and "okRun st' en (expandItems st' (p + 1) en depth)"
  shows "okRun st en (if ok then afterItem st' p en depth else (False, st'))"
proof (cases ok)
  case True
  from assms(1) have g: "grows st st'" by (simp add: okRun_def)
  have "okRun st' en (afterItem st' p en depth)"
    using assms(2) by (auto simp: afterItem_def okRun_fail okRun_True)
  with True okRun_trans [OF g] show ?thesis by simp
qed (use assms in simp)

lemma expandItems_okRun:
  "en \<le> length (esInput st) \<Longrightarrow> okRun st en (expandItems st pos en depth)"
proof (induction "en - pos" arbitrary: st pos en depth rule: less_induct)
  case less
  note len = less.prems
  have go_on: "okRun st en (if ok then afterItem st' p en depth else (False, st'))"
    if run: "okRun st en (ok, st')" and "pos < en" "pos \<le> p" for ok st' p
  proof (rule okRun_afterItem [OF run])
    have "esInput st' = esInput st" using run by (simp add: okRun_def grows_fields)
    with that len show "okRun st' en (expandItems st' (p + 1) en depth)"
      by (intro less.hyps) auto
  qed
  consider (empty) "\<not> pos < en"
    | (failed) "pos < en" "okRun st en (expandItems st pos en depth)"
    | (group) cursor count p where "pos < en" "esInput st ! pos = CHR ''(''"
        "depth + 1 \<le> SEQUENCE_REPEAT_MAX_DEPTH"
        "findClose (esInput st) (pos + 1) en 1 = Inr (cursor, 0)"
        "itemCount (esInput st) (cursor + 1) en = Inr (count, p)"
    | (token) tokEnd count p where "pos < en" "esInput st ! pos \<noteq> CHR ''(''"
        "esInput st ! pos \<noteq> CHR '')''" "tokenEnd (esInput st) pos en = Inr tokEnd"
        "itemCount (esInput st) tokEnd en = Inr (count, p)"
        "\<not> (tokEnd < en \<and> esInput st ! tokEnd = CHR ''*'' \<and> tokEnd = pos)"
    using expandItems_group_fail [of pos en st depth] expandItems_token_fail [of pos en st depth]
    by (cases "pos < en"; cases "esInput st ! pos = CHR ''(''") blast+
  then show ?case
  proof cases
    case empty
    then show ?thesis by (simp add: expandItems_done okRun_True)
  next
    case failed
    then show ?thesis by simp
  next
    case group
    then have cl: "pos + 1 \<le> cursor" "cursor < en" "cursor + 1 \<le> p"
      using findClose_bounds [of _ "pos + 1" en 1 cursor] itemCount_bounds [OF group(5)] by auto
    let ?body = "\<lambda>s. expandItems s (pos + 1) cursor (depth + 1)"
    have body: "okRun s en (?body s)" if "esInput s = esInput st" for s
    proof (rule okRun_mono)
      show "okRun s cursor (?body s)"
        using cl that len group(1) by (intro less.hyps) auto
    qed (use cl in simp)
    obtain ok st' where g: "groupLoop ?body pos (esTokens st) 0 count st = (ok, st')" by force
    with groupLoop_okRun [OF body group(1), of st] have "okRun st en (ok, st')" by metis
    with expandItems_group [OF group g] go_on [of ok st' p] cl group(1) show ?thesis by simp
  next
    case token
    have p: "pos \<le> tokEnd" "tokEnd \<le> en" "tokEnd \<le> p"
      using tokenEnd_bounds [OF token(4)] itemCount_bounds [OF token(5)] token(1) by auto
    obtain ok st' where
      g: "(if tokEnd > pos then emitLoop count st pos tokEnd else (True, st)) = (ok, st')" by force
    have "okRun st en (ok, st')"
      using emitLoop_okRun [of tokEnd st pos en count] tokenEnd_text [OF token(4) _ _ token(2)]
        g p len token(1)
      by (cases "tokEnd > pos") (auto simp: okRun_True)
    with expandItems_token [OF token g] go_on [of ok st' p] p token(1) show ?thesis by simp
  qed
qed

subsection \<open>The output of a run\<close>

fun joinTokens :: "string list \<Rightarrow> string" where
  "joinTokens [] = []"
| "joinTokens [t] = t"
| "joinTokens (t # u # ts) = t @ CHR '','' # joinTokens (u # ts)"

lemma joinTokens_snoc:
  "joinTokens (ts @ [t]) = joinTokens ts @ (if ts = [] then [] else '','') @ t"
  by (induction ts rule: joinTokens.induct) auto

lemma foldl_out:
  "length us = esTokens st \<Longrightarrow> esOut st = joinTokens us \<Longrightarrow>
    esOut (foldl pushToken st ts) = joinTokens (us @ ts)"
proof (induction ts arbitrary: st us)
  case (Cons t ts)
  have "esOut (pushToken st t) = joinTokens (us @ [t])"
    using Cons.prems by (auto simp: pushToken_def joinTokens_snoc split: prod.split)
  moreover have "length (us @ [t]) = esTokens (pushToken st t)"
    using Cons.prems by (simp add: pushToken_def split: prod.split)
  ultimately show ?case using Cons.IH [of "us @ [t]" "pushToken st t"] by simp
qed simp

definition startState :: "string \<Rightarrow> nat \<Rightarrow> u64 \<Rightarrow> ExpandState" where
  "startState text cap clickCost =
    \<lparr>esInput = text, esOutSize = cap, esOut = [], esTokens = 0, esClickCostMs = clickCost,
     esEstimatedMs = 0, esStickValueNext = False, esResult = SequenceExpandOk, esErrorIndex = 0\<rparr>"

lemma startState_sel [simp]:
  "esInput (startState text cap c) = text" "esOutSize (startState text cap c) = cap"
  "esOut (startState text cap c) = []" "esTokens (startState text cap c) = 0"
  by (simp_all add: startState_def)

lemma sequenceExpand_run:
  assumes "cap > 0"
  shows "sequenceExpand (Some text) (Some cap) clickCost =
    (case expandItems (startState text cap clickCost) 0 (length text) 0 of
       (ok, st) \<Rightarrow>
         if ok then (SequenceExpandOk, esOut st,
                     \<lparr>errorIndex = 0, tokenCount = esTokens st, estimatedMs = esEstimatedMs st\<rparr>)
         else (esResult st, [],
               \<lparr>errorIndex = esErrorIndex st, tokenCount = esTokens st, estimatedMs = 0\<rparr>))"
  using assms by (simp add: sequenceExpand_def startState_def Let_def split: prod.split)

lemma grows_start:
  assumes "grows (startState text cap clickCost) st" and "cap > 0"
  shows "\<exists>ts. esOut st = joinTokens ts \<and> esTokens st = length ts \<and> (\<forall>t \<in> set ts. tokenText t)
    \<and> length (esOut st) < cap \<and> esTokens st \<le> SEQUENCE_REPEAT_MAX_TOKENS"
proof -
  from assms(1) obtain ts where
    ts: "\<forall>t \<in> set ts. tokenText t" "core st = core (foldl pushToken (startState text cap clickCost) ts)"
      "ts \<noteq> [] \<longrightarrow> withinLimits st"
    unfolding grows_def by blast
  have out: "esOut st = joinTokens ts"
    using core_eqD(3) [OF ts(2)] foldl_out [of "[]"] by simp
  have tok: "esTokens st = length ts" using core_eqD(4) [OF ts(2)] by simp
  have cap: "esOutSize st = cap" using core_eqD(2) [OF ts(2)] by simp
  show ?thesis
    using ts out tok cap assms(2)
    by (intro exI [of _ ts]) (cases "ts = []", auto simp: withinLimits_def SEQUENCE_REPEAT_MAX_TOKENS_def)
qed

lemma sequenceExpand_cases:
  assumes "cap > 0" and "sequenceExpand (Some text) (Some cap) clickCost = (r, out, info)"
  shows "r = SequenceExpandOk \<Longrightarrow>
      \<exists>ts. out = joinTokens ts \<and> tokenCount info = length ts \<and> (\<forall>t \<in> set ts. tokenText t)
        \<and> length out < cap \<and> length ts \<le> SEQUENCE_REPEAT_MAX_TOKENS"
    and "r \<noteq> SequenceExpandOk \<Longrightarrow> out = [] \<and> errorIndex info < length text
        \<and> tokenCount info \<le> SEQUENCE_REPEAT_MAX_TOKENS"
proof -
  let ?st0 = "startState text cap clickCost"
  obtain ok st where e: "expandItems ?st0 0 (length text) 0 = (ok, st)" by force
  have run: "okRun ?st0 (length text) (ok, st)"
    using expandItems_okRun [of "length text" ?st0 0 0] e by simp
  then have "grows ?st0 st" by (simp add: okRun_def)
  from grows_start [OF this assms(1)]
  obtain ts where ts: "esOut st = joinTokens ts" "esTokens st = length ts" "\<forall>t \<in> set ts. tokenText t"
    "length (esOut st) < cap" "esTokens st \<le> SEQUENCE_REPEAT_MAX_TOKENS" by blast
  from assms(2) have res: "(r, out, info) =
      (if ok then (SequenceExpandOk, esOut st,
                   \<lparr>errorIndex = 0, tokenCount = esTokens st, estimatedMs = esEstimatedMs st\<rparr>)
       else (esResult st, [],
             \<lparr>errorIndex = esErrorIndex st, tokenCount = esTokens st, estimatedMs = 0\<rparr>))"
    by (simp add: sequenceExpand_run [OF assms(1)] e)
  show "r = SequenceExpandOk \<Longrightarrow> \<exists>ts. out = joinTokens ts \<and> tokenCount info = length ts
      \<and> (\<forall>t \<in> set ts. tokenText t) \<and> length out < cap \<and> length ts \<le> SEQUENCE_REPEAT_MAX_TOKENS"
    using res run ts by (intro exI [of _ ts]) (auto simp: okRun_def split: if_splits)
  show "r \<noteq> SequenceExpandOk \<Longrightarrow> out = [] \<and> errorIndex info < length text
      \<and> tokenCount info \<le> SEQUENCE_REPEAT_MAX_TOKENS"
    using res run ts by (auto simp: okRun_def split: if_splits)
qed

subsection \<open>The grammar the expander accepts\<close>

text \<open>
  The abstract syntax of a sequence.  The count of an item is the digit string after its
  \<open>*\<close>, when there is one.
\<close>

datatype item =
    Token string "string option"
  | Group "item list" "string option"

fun countText :: "string option \<Rightarrow> string" where
  "countText None = []"
| "countText (Some ds) = CHR ''*'' # ds"

fun countVal :: "string option \<Rightarrow> nat" where
  "countVal None = 1"
| "countVal (Some ds) = digitsVal 10 0 ds"

fun renderItem :: "item \<Rightarrow> string" where
  "renderItem (Token t c) = t @ countText c"
| "renderItem (Group items c) = CHR ''('' # joinTokens (map renderItem items) @ CHR '')'' # countText c"

definition renderItems :: "item list \<Rightarrow> string" where
  "renderItems items = joinTokens (map renderItem items)"

fun itemTokens :: "item \<Rightarrow> string list" where
  "itemTokens (Token t c) = replicate (countVal c) t"
| "itemTokens (Group items c) = concat (replicate (countVal c) (concat (map itemTokens items)))"

definition itemsTokens :: "item list \<Rightarrow> string list" where
  "itemsTokens items = concat (map itemTokens items)"

definition wfCount :: "string option \<Rightarrow> bool" where
  "wfCount c \<longleftrightarrow> (case c of None \<Rightarrow> True
     | Some ds \<Rightarrow> ds \<noteq> [] \<and> list_all isdigit ds
         \<and> 0 < digitsVal 10 0 ds \<and> digitsVal 10 0 ds \<le> SEQUENCE_REPEAT_MAX_COUNT)"

fun wfItem :: "nat \<Rightarrow> item \<Rightarrow> bool" where
  "wfItem depth (Token t c) \<longleftrightarrow> tokenText t \<and> CHR ''('' \<notin> set t \<and> wfCount c"
| "wfItem depth (Group items c) \<longleftrightarrow>
     depth < SEQUENCE_REPEAT_MAX_DEPTH \<and> items \<noteq> [] \<and> list_all (wfItem (depth + 1)) items \<and> wfCount c"

subsection \<open>The scanners on rendered items\<close>

definition holdsAt :: "string \<Rightarrow> nat \<Rightarrow> string \<Rightarrow> bool" where
  "holdsAt inp pos s \<longleftrightarrow> pos + length s \<le> length inp \<and> take (length s) (drop pos inp) = s"

lemma holdsAt_Nil [simp]: "holdsAt inp pos [] \<longleftrightarrow> pos \<le> length inp"
  by (simp add: holdsAt_def)

lemma holdsAt_append [simp]:
  "holdsAt inp pos (s @ t) \<longleftrightarrow> holdsAt inp pos s \<and> holdsAt inp (pos + length s) t"
  unfolding holdsAt_def
  by (auto simp: take_add add.commute add.left_commute append_eq_append_conv)

lemma holdsAt_Cons [simp]:
  "holdsAt inp pos (c # s) \<longleftrightarrow> pos < length inp \<and> inp ! pos = c \<and> holdsAt inp (Suc pos) s"
  unfolding holdsAt_def
  by (cases "pos < length inp") (auto simp: Cons_nth_drop_Suc [symmetric])

lemma holdsAt_self: "holdsAt s 0 s"
  by (simp add: holdsAt_def)

lemma holdsAt_slice: "holdsAt (esInput st) pos t \<Longrightarrow> inputSlice st pos (pos + length t) = t"
  by (simp add: holdsAt_def inputSlice_def)

text \<open>An item is followed by the end of the range or by a comma.\<close>

definition itemStop :: "string \<Rightarrow> nat \<Rightarrow> nat \<Rightarrow> bool" where
  "itemStop inp p en \<longleftrightarrow> p = en \<or> p < en \<and> inp ! p = CHR '',''"

lemma digitVal_isdigit: "isdigit c \<Longrightarrow> digitVal 10 c = Some (of_char c - 48)"
  by (auto simp: isdigit_def digitVal_def Let_def)

lemma digitsVal_mono: "0 < base \<Longrightarrow> acc \<le> digitsVal base acc ds"
proof (induction ds arbitrary: acc)
  case (Cons c cs)
  have "acc \<le> acc * base" using Cons.prems by simp
  also have "\<dots> \<le> acc * base + (case digitVal base c of Some v \<Rightarrow> v | None \<Rightarrow> 0)" by simp
  also have "\<dots> \<le> digitsVal base \<dots> cs" using Cons by blast
  finally show ?case by simp
qed simp

lemma countLoop_digits:
  assumes "holdsAt inp pos ds" and "list_all isdigit ds" and "pos + length ds \<le> en"
    and "itemStop inp (pos + length ds) en" and "digitsVal 10 v ds \<le> SEQUENCE_REPEAT_MAX_COUNT"
  shows "countLoop inp pos en v d = Inr (pos + length ds, digitsVal 10 v ds, d + length ds)"
  using assms
proof (induction ds arbitrary: pos v d)
  case Nil
  then have "\<not> (pos < en \<and> isdigit (inp ! pos))"
    by (auto simp: itemStop_def isdigit_def)
  then show ?case by (subst countLoop.simps) auto
next
  case (Cons c ds)
  let ?v = "v * 10 + (of_char c - 48)"
  have c: "inp ! pos = c" "isdigit c" "pos < en" using Cons.prems by auto
  have val: "digitsVal 10 v (c # ds) = digitsVal 10 ?v ds"
    using c by (simp add: digitVal_isdigit)
  have "?v \<le> digitsVal 10 ?v ds" by (rule digitsVal_mono) simp
  with val Cons.prems(5) have "\<not> ?v > SEQUENCE_REPEAT_MAX_COUNT" by simp
  moreover have "countLoop inp (Suc pos) en ?v (Suc d) =
      Inr (Suc pos + length ds, digitsVal 10 ?v ds, Suc d + length ds)"
    using Cons.prems val by (intro Cons.IH) auto
  ultimately show ?case using c val
    by (subst countLoop.simps) (simp add: Let_def)
qed

lemma itemCount_render:
  assumes "holdsAt inp pos (countText c)" and "wfCount c" and "pos + length (countText c) \<le> en"
    and "itemStop inp (pos + length (countText c)) en"
  shows "itemCount inp pos en = Inr (countVal c, pos + length (countText c))"
proof (cases c)
  case None
  with assms show ?thesis by (auto simp: itemCount_def itemStop_def)
next
  case (Some ds)
  have "countLoop inp (pos + 1) en 0 0 = Inr (pos + 1 + length ds, digitsVal 10 0 ds, 0 + length ds)"
    using assms Some by (intro countLoop_digits) (auto simp: wfCount_def)
  then show ?thesis using assms Some
    by (auto simp: itemCount_def parseCount_def wfCount_def)
qed

lemma tokenEnd_render:
  assumes "holdsAt inp pos t"
    and "\<forall>c \<in> set t. c \<noteq> CHR '','' \<and> c \<noteq> CHR ''*'' \<and> c \<noteq> CHR '')'' \<and> \<not> isControlByte c"
    and "pos + length t \<le> en"
    and "pos + length t = en \<or> inp ! (pos + length t) \<in> {CHR '','', CHR ''*'', CHR '')''}"
  shows "tokenEnd inp pos en = Inr (pos + length t)"
  using assms
proof (induction t arbitrary: pos)
  case Nil
  then show ?case by (subst tokenEnd.simps) auto
next
  case (Cons c t)
  then have "tokenEnd inp (Suc pos) en = Inr (Suc pos + length t)" by (intro Cons.IH) auto
  with Cons.prems show ?case by (subst tokenEnd.simps) auto
qed

text \<open>A text that the search for the closing parenthesis passes over at any nesting level.\<close>

definition skips :: "string \<Rightarrow> bool" where
  "skips s \<longleftrightarrow> (\<forall>inp cursor en n. holdsAt inp cursor s \<and> cursor + length s \<le> en \<and> n \<noteq> 0 \<longrightarrow>
     findClose inp cursor en n = findClose inp (cursor + length s) en n)"

lemma skips_Nil: "skips []"
  by (simp add: skips_def)

lemma skips_append: "skips s \<Longrightarrow> skips t \<Longrightarrow> skips (s @ t)"
  unfolding skips_def by (auto simp: add.assoc)

lemma skips_char:
  "\<not> isControlByte c \<Longrightarrow> c \<noteq> CHR ''('' \<Longrightarrow> c \<noteq> CHR '')'' \<Longrightarrow> skips [c]"
  unfolding skips_def by (auto simp: findClose.simps [where nesting = "n::nat" for n])

lemma skips_plain:
  "\<forall>c \<in> set s. \<not> isControlByte c \<and> c \<noteq> CHR ''('' \<and> c \<noteq> CHR '')'' \<Longrightarrow> skips s"
proof (induction s)
  case (Cons c s)
  then have "skips ([c] @ s)" by (intro skips_append skips_char) auto
  then show ?case by simp
qed (simp add: skips_Nil)

lemma findClose_step:
  assumes "cursor < en" and "n \<noteq> 0" and "\<not> isControlByte (inp ! cursor)"
  shows "inp ! cursor = CHR ''('' \<Longrightarrow> findClose inp cursor en n = findClose inp (Suc cursor) en (n + 1)"
    and "inp ! cursor = CHR '')'' \<Longrightarrow> n > 1 \<Longrightarrow>
      findClose inp cursor en n = findClose inp (Suc cursor) en (n - 1)"
    and "inp ! cursor = CHR '')'' \<Longrightarrow> n = 1 \<Longrightarrow> findClose inp cursor en n = Inr (cursor, 0)"
  using assms
  by (simp_all add: findClose.simps [of inp cursor en] findClose.simps [of inp cursor en 0])

lemma not_control_parens: "\<not> isControlByte CHR ''(''" "\<not> isControlByte CHR '')''"
  by (simp_all add: isControlByte_def)

lemma skips_paren:
  assumes "skips s"
  shows "skips (CHR ''('' # s @ '')'')"
  unfolding skips_def
proof (intro allI impI, elim conjE)
  fix inp cursor en and n :: nat
  assume h: "holdsAt inp cursor (CHR ''('' # s @ '')'')"
    and le: "cursor + length (CHR ''('' # s @ '')'') \<le> en" and n: "n \<noteq> 0"
  have "findClose inp cursor en n = findClose inp (Suc cursor) en (n + 1)"
    using h le n not_control_parens by (intro findClose_step) auto
  also have "\<dots> = findClose inp (Suc cursor + length s) en (n + 1)"
    using assms h le n unfolding skips_def by auto
  also have "\<dots> = findClose inp (Suc (Suc cursor + length s)) en (n + 1 - 1)"
    using h le n not_control_parens by (intro findClose_step) auto
  finally show "findClose inp cursor en n
      = findClose inp (cursor + length (CHR ''('' # s @ '')'')) en n" by simp
qed

lemma skips_count: "wfCount c \<Longrightarrow> skips (countText c)"
proof (cases c)
  case (Some ds)
  assume "wfCount c"
  with Some have "\<forall>d \<in> set ds. isdigit d" by (simp add: wfCount_def list_all_iff)
  then have "\<forall>d \<in> set (CHR ''*'' # ds). \<not> isControlByte d \<and> d \<noteq> CHR ''('' \<and> d \<noteq> CHR '')''"
    by (auto simp: isControlByte_def isdigit_def)
  from skips_plain [OF this] Some show ?thesis by simp
qed (simp add: skips_Nil)

lemma skips_comma: "skips '',''"
  by (intro skips_char) (simp_all add: isControlByte_def)

lemma skips_join: "\<forall>t \<in> set ts. skips t \<Longrightarrow> skips (joinTokens ts)"
proof (induction ts rule: joinTokens.induct)
  case (3 t u ts)
  then have "skips t" "skips (joinTokens (u # ts))" by simp_all
  from skips_append [OF this(1) skips_append [OF skips_comma this(2)]] show ?case by simp
qed (simp_all add: skips_Nil)

lemma skips_item: "wfItem depth i \<Longrightarrow> skips (renderItem i)"
proof (induction i arbitrary: depth)
  case (Token t c)
  then have "skips t" by (intro skips_plain) (auto simp: tokenText_def)
  from skips_append [OF this] Token show ?case by (simp add: skips_count)
next
  case (Group items c)
  then have "skips (joinTokens (map renderItem items))"
    by (intro skips_join) (auto simp: list_all_iff)
  from skips_append [OF skips_paren [OF this] skips_count] Group.prems show ?case by simp
qed

lemma findClose_items:
  assumes "list_all (wfItem depth) items" and "holdsAt inp pos (renderItems items @ '')'')"
    and "pos + length (renderItems items) < en"
  shows "findClose inp pos en 1 = Inr (pos + length (renderItems items), 0)"
proof -
  have "skips (renderItems items)"
    unfolding renderItems_def using assms(1) skips_item by (intro skips_join) (auto simp: list_all_iff)
  then have "findClose inp pos en 1 = findClose inp (pos + length (renderItems items)) en 1"
    using assms unfolding skips_def by auto
  also have "\<dots> = Inr (pos + length (renderItems items), 0)"
    using assms not_control_parens by (intro findClose_step) auto
  finally show ?thesis .
qed

subsection \<open>The loops on rendered items\<close>

text \<open>Room for a list of tokens; since the output only grows, room for all is room for a prefix.\<close>

definition fits :: "ExpandState \<Rightarrow> string list \<Rightarrow> bool" where
  "fits st ts \<longleftrightarrow> esTokens st + length ts \<le> SEQUENCE_REPEAT_MAX_TOKENS
    \<and> length (esOut (foldl pushToken st ts)) < esOutSize st"

lemma length_foldl_out: "length (esOut st) \<le> length (esOut (foldl pushToken st ts))"
proof (induction ts arbitrary: st)
  case (Cons t ts)
  have "length (esOut st) \<le> length (esOut (pushToken st t))"
    by (simp add: pushToken_def split: prod.split)
  also have "\<dots> \<le> length (esOut (foldl pushToken (pushToken st t) ts))" by (rule Cons.IH)
  finally show ?case by simp
qed simp

lemma fits_append:
  "fits st (ts @ us) \<longleftrightarrow> fits st ts \<and> fits (foldl pushToken st ts) us"
  using length_foldl_out [of "foldl pushToken st ts" us] by (auto simp: fits_def)

lemma emitLoop_render:
  assumes "holdsAt (esInput st) pos t" and "fits st (replicate n t)"
  shows "emitLoop n st pos (pos + length t) = (True, foldl pushToken st (replicate n t))"
  using assms
proof (induction n arbitrary: st)
  case (Suc n)
  from Suc.prems(2) have f: "fits st [t]" "fits (pushToken st t) (replicate n t)"
    using fits_append [of st "[t]" "replicate n t"] by simp_all
  have "emitToken st pos (pos + length t) = (True, pushToken st t)"
    using f(1) Suc.prems(1) by (simp add: emitToken_push holdsAt_slice fits_def holdsAt_def)
  moreover have "esInput (pushToken st t) = esInput st"
    using foldl_pushToken_fields(1) [of st "[t]"] by simp
  ultimately show ?case using Suc.IH [of "pushToken st t"] Suc.prems(1) f(2) by simp
qed simp

lemma groupLoop_render:
  assumes "\<And>s. esInput s = inp \<Longrightarrow> fits s ts \<Longrightarrow> body s = (True, foldl pushToken s ts)"
    and "ts \<noteq> []" and "i \<le> count" and "esInput st = inp"
    and "fits st (concat (replicate (count - i) ts))"
    and "i = 0 \<longrightarrow> emitted = esTokens st"
  shows "groupLoop body itemStart emitted i count st
    = (True, foldl pushToken st (concat (replicate (count - i) ts)))"
  using assms
proof (induction "count - i" arbitrary: i st)
  case 0
  then show ?case by (subst groupLoop.simps) simp
next
  case (Suc k)
  then have k: "count - i = Suc k" "k = count - Suc i" "i < count" by auto
  then have f: "fits st ts" "fits (foldl pushToken st ts) (concat (replicate k ts))"
    using Suc.prems(5) by (simp_all add: fits_append)
  let ?st = "foldl pushToken st ts"
  have b: "body st = (True, ?st)" by (rule Suc.prems(1) [OF Suc.prems(4) f(1)])
  have "groupLoop body itemStart emitted (Suc i) count ?st
      = (True, foldl pushToken ?st (concat (replicate k ts)))"
    using Suc.hyps(1) [OF k(2) Suc.prems(1,2)] k(3) Suc.prems(4) f(2)
    by (simp add: k(2) [symmetric])
  moreover have "\<not> (i = 0 \<and> esTokens ?st = emitted)"
    using Suc.prems(2,6) by auto
  ultimately show ?case
    by (subst groupLoop.simps) (auto simp add: k(1,3) b)
qed

lemma renderItems_Cons:
  "renderItems (i # items) = renderItem i @ (if items = [] then [] else CHR '','' # renderItems items)"
  by (cases items) (simp_all add: renderItems_def)

lemma itemsTokens_Cons: "itemsTokens (i # items) = itemTokens i @ itemsTokens items"
  by (simp add: itemsTokens_def)

lemma wfCount_pos: "wfCount c \<Longrightarrow> 0 < countVal c"
  by (auto simp: wfCount_def split: option.splits)

lemma itemTokens_nonempty: "wfItem depth i \<Longrightarrow> itemTokens i \<noteq> []"
proof (induction i arbitrary: depth)
  case (Token t c)
  then show ?case using wfCount_pos by auto
next
  case (Group items c)
  then obtain j js where "items = j # js" by (cases items) auto
  with Group show ?case using wfCount_pos by fastforce
qed

lemma countText_stop:
  assumes "wfCount c" and "holdsAt inp p (countText c)" and "itemStop inp (p + length (countText c)) en"
    and "p + length (countText c) \<le> en"
  shows "p = en \<or> inp ! p \<in> {CHR '','', CHR ''*'', CHR '')''}"
  using assms by (cases c) (auto simp: itemStop_def)

lemma renderItem_Group:
  "renderItem (Group items c) = CHR ''('' # renderItems items @ CHR '')'' # countText c"
  by (simp add: renderItems_def)

declare renderItem.simps(2) [simp del]

text \<open>A rendered item, and what stands behind it.\<close>

lemma expandItems_item_token:
  assumes "wfItem depth (Token t c)" and "holdsAt (esInput st) pos (renderItem (Token t c))"
    and "pos + length (renderItem (Token t c)) \<le> en"
    and "itemStop (esInput st) (pos + length (renderItem (Token t c))) en"
    and "fits st (itemTokens (Token t c))"
  shows "expandItems st pos en depth =
    afterItem (foldl pushToken st (itemTokens (Token t c)))
      (pos + length (renderItem (Token t c))) en depth"
proof -
  let ?inp = "esInput st"
  from assms(1) have t: "tokenText t" "CHR ''('' \<notin> set t" "wfCount c" by auto
  then have ne: "t \<noteq> []" "hd t \<noteq> CHR ''(''" by (auto simp: tokenText_def)
  then obtain d ds where d: "t = d # ds" by (cases t) auto
  have first: "?inp ! pos = d" using assms(2) d by simp
  have stop: "pos + length t = en \<or> ?inp ! (pos + length t) \<in> {CHR '','', CHR ''*'', CHR '')''}"
    by (rule countText_stop [OF t(3)]) (use assms in \<open>auto simp: add.assoc\<close>)
  have tok: "tokenEnd ?inp pos en = Inr (pos + length t)"
    by (rule tokenEnd_render [OF _ _ _ stop]) (use assms t in \<open>auto simp: tokenText_def\<close>)
  have count: "itemCount ?inp (pos + length t) en =
      Inr (countVal c, pos + length t + length (countText c))"
    by (rule itemCount_render) (use assms t in \<open>auto simp: add.assoc\<close>)
  have emit: "emitLoop (countVal c) st pos (pos + length t)
      = (True, foldl pushToken st (replicate (countVal c) t))"
    by (rule emitLoop_render) (use assms in auto)
  have "pos < en" using assms(3) d by simp
  from expandItems_token [OF this _ _ tok count] emit
  show ?thesis using first d ne t(1) by (auto simp: tokenText_def add.assoc)
qed

lemma expandItems_item_group:
  assumes wf: "wfItem depth (Group items c)"
    and holds: "holdsAt (esInput st) pos (renderItem (Group items c))"
    and le: "pos + length (renderItem (Group items c)) \<le> en"
    and stop: "itemStop (esInput st) (pos + length (renderItem (Group items c))) en"
    and fit: "fits st (itemTokens (Group items c))"
    and body: "\<And>s. esInput s = esInput st \<Longrightarrow> fits s (itemsTokens items) \<Longrightarrow>
      expandItems s (pos + 1) (pos + 1 + length (renderItems items)) (depth + 1)
        = (True, foldl pushToken s (itemsTokens items))"
  shows "expandItems st pos en depth =
    afterItem (foldl pushToken st (itemTokens (Group items c)))
      (pos + length (renderItem (Group items c))) en depth"
proof -
  let ?inp = "esInput st" and ?len = "length (renderItems items)"
  note rendered = renderItem_Group
  from wf have w: "depth + 1 \<le> SEQUENCE_REPEAT_MAX_DEPTH" "list_all (wfItem (depth + 1)) items"
    "wfCount c" "items \<noteq> []" by auto
  have close: "findClose ?inp (pos + 1) en 1 = Inr (pos + 1 + ?len, 0)"
    by (rule findClose_items [OF w(2)]) (use holds le in \<open>auto simp: rendered\<close>)
  have count: "itemCount ?inp (pos + 1 + ?len + 1) en =
      Inr (countVal c, pos + 1 + ?len + 1 + length (countText c))"
    by (rule itemCount_render) (use w holds le stop in \<open>auto simp: rendered ac_simps\<close>)
  have ne: "itemsTokens items \<noteq> []"
    using w(2,4) itemTokens_nonempty by (cases items) (auto simp: itemsTokens_Cons)
  have toks: "itemTokens (Group items c) = concat (replicate (countVal c - 0) (itemsTokens items))"
    by (simp add: itemsTokens_def)
  have "groupLoop (\<lambda>s. expandItems s (pos + 1) (pos + 1 + ?len) (depth + 1)) pos (esTokens st) 0
      (countVal c) st = (True, foldl pushToken st (itemTokens (Group items c)))"
    unfolding toks by (rule groupLoop_render [OF body ne]) (use fit toks in auto)
  from expandItems_group [OF _ _ w(1) close count this]
  show ?thesis using holds le by (simp add: rendered add.assoc add.commute add.left_commute)
qed

text \<open>
  The expander accepts every rendered item list that respects the nesting and count limits, when
  the buffer and the token limit have room for its tokens, and emits exactly those.
\<close>

lemma expandItems_render:
  assumes "list_all (wfItem depth) items" and "holdsAt (esInput st) pos (renderItems items)"
    and "en = pos + length (renderItems items)" and "fits st (itemsTokens items)"
  shows "expandItems st pos en depth = (True, foldl pushToken st (itemsTokens items))"
  using assms
proof (induction "length (renderItems items)" arbitrary: items st pos en depth rule: less_induct)
  case less
  show ?case
  proof (cases items)
    case Nil
    with less.prems(3) show ?thesis
      by (simp add: expandItems_done renderItems_def itemsTokens_def)
  next
    case (Cons i rest)
    let ?p = "pos + length (renderItem i)" and ?st = "foldl pushToken st (itemTokens i)"
    have w: "wfItem depth i" "list_all (wfItem depth) rest" using less.prems(1) Cons by auto
    have f: "fits st (itemTokens i)" "fits ?st (itemsTokens rest)"
      using less.prems(4) Cons by (simp_all add: itemsTokens_Cons fits_append)
    have rendered: "renderItems items
        = renderItem i @ (if rest = [] then [] else CHR '','' # renderItems rest)"
      by (simp add: Cons renderItems_Cons)
    have h: "holdsAt (esInput st) pos (renderItem i)" "?p \<le> en" "itemStop (esInput st) ?p en"
      using less.prems(2,3) by (auto simp: rendered itemStop_def split: if_splits)
    have head: "expandItems st pos en depth = afterItem ?st ?p en depth"
    proof (cases i)
      case (Token t c)
      show ?thesis unfolding Token
        by (rule expandItems_item_token) (use w h f Token in auto)
    next
      case (Group body c)
      have "length (renderItems body) < length (renderItems items)"
        by (simp add: rendered Group renderItem_Group)
      then have "expandItems s (pos + 1) (pos + 1 + length (renderItems body)) (depth + 1)
          = (True, foldl pushToken s (itemsTokens body))"
        if "esInput s = esInput st" "fits s (itemsTokens body)" for s
        by (rule less.hyps) (use that w h Group in \<open>auto simp: renderItem_Group\<close>)
      then show ?thesis unfolding Group
        by (intro expandItems_item_group) (use w h f Group in auto)
    qed
    show ?thesis
    proof (cases "rest = []")
      case True
      with less.prems(3) head Cons show ?thesis
        by (simp add: afterItem_def renderItems_def itemsTokens_def)
    next
      case False
      have "expandItems ?st (?p + 1) en depth = (True, foldl pushToken ?st (itemsTokens rest))"
        by (rule less.hyps) (use False less.prems(2,3) w(2) f(2) in \<open>simp_all add: rendered\<close>)
      moreover have "esInput st ! ?p = CHR '',''" "?p < en"
        using less.prems(2,3) False by (simp_all add: rendered)
      ultimately show ?thesis
        by (simp add: head afterItem_def Cons itemsTokens_Cons)
    qed
  qed
qed

subsection \<open>What the expander promises\<close>

lemma strtokAll_token:
  assumes "t \<noteq> []" and "CHR '','' \<notin> set t" and "s = [] \<or> hd s = CHR '',''"
  shows "strtokAll (\<lambda>c. c = CHR '','') (t @ s) = t # strtokAll (\<lambda>c. c = CHR '','') s"
proof -
  obtain c cs where t: "t = c # cs" using assms(1) by (cases t) auto
  have d: "dropWhile (\<lambda>c. c = CHR '','') (t @ s) = c # (cs @ s)"
    using assms(2) t by auto
  have all: "\<forall>x \<in> set t. x \<noteq> CHR '',''" using assms(2) by auto
  then have "takeWhile (\<lambda>c. c \<noteq> CHR '','') (t @ s) = t"
    and "dropWhile (\<lambda>c. c \<noteq> CHR '','') (t @ s) = s"
    using assms(3) by (cases s; simp add: takeWhile_append dropWhile_append)+
  moreover have "t @ s = c # cs @ s" by (simp add: t)
  ultimately show ?thesis using strtokAll_Cons [OF d] by metis
qed

lemma strtokAll_joinTokens:
  "\<forall>t \<in> set ts. t \<noteq> [] \<and> CHR '','' \<notin> set t \<Longrightarrow> strtokAll (\<lambda>c. c = CHR '','') (joinTokens ts) = ts"
proof (induction ts rule: joinTokens.induct)
  case 1
  then show ?case by (simp add: strtokAll_Nil)
next
  case (2 t)
  then show ?case using strtokAll_token [of t "[]"] by (simp add: strtokAll_Nil)
next
  case (3 t u ts)
  then show ?case
    by (simp add: strtokAll_token strtokAll_drop_delim del: strtokAll.simps)
qed

text \<open>
  C1: whatever the input of \<open>sequenceExpand\<close> is, an accepted sequence is queued as a
  comma-separated list of plain tokens within the token limit and the buffer, and the click
  thread, walking the queued buffer in place with \<open>sequenceTokenNext\<close>, reads back exactly
  these tokens, as many as the result info reports.
\<close>

theorem sequenceExpand_then_walk:
  assumes "cap > 0" and "sequenceExpand (Some s) (Some cap) clickCost = (SequenceExpandOk, out, info)"
    and "length out < fuel"
  shows "\<exists>ts. drain tokenPull fuel (out @ NUL # post, Some 0) = Some ts
    \<and> length ts = tokenCount info \<and> length ts \<le> SEQUENCE_REPEAT_MAX_TOKENS
    \<and> (\<forall>t \<in> set ts. tokenText t) \<and> out = joinTokens ts \<and> length out < cap"
proof -
  obtain ts where ts: "out = joinTokens ts" "tokenCount info = length ts" "\<forall>t \<in> set ts. tokenText t"
    "length out < cap" "length ts \<le> SEQUENCE_REPEAT_MAX_TOKENS"
    using sequenceExpand_cases(1) [OF assms(1,2)] by blast
  have "isControlByte NUL" by (simp add: isControlByte_def)
  then have plain: "\<forall>t \<in> set ts. t \<noteq> [] \<and> CHR '','' \<notin> set t" "\<forall>t \<in> set ts. NUL \<notin> set t"
    using ts(3) unfolding tokenText_def by blast+
  then have "NUL \<notin> set out"
    unfolding ts(1) by (induction ts rule: joinTokens.induct) auto
  from walk_sequence [OF this assms(3)] ts strtokAll_joinTokens [OF plain(1)]
  show ?thesis by auto
qed

lemma sequenceExpand_then_walk_witness:
  "\<exists>ts. drain tokenPull 20 (''A,W100,A,W100,B'' @ NUL # [], Some 0) = Some ts
    \<and> length ts = 5 \<and> (\<forall>t \<in> set ts. tokenText t)"
proof -
  have run: "sequenceExpand (Some ''(A,W100)*2,,B'') (Some 64) 100 = (SequenceExpandOk, ''A,W100,A,W100,B'',
      \<lparr>errorIndex = 0, tokenCount = 5, estimatedMs = 500\<rparr>)" by code_simp
  show ?thesis
    using sequenceExpand_then_walk [OF _ run, of 20 "[]"] by auto
qed

text \<open>
  C2: the grammar round trip.  Every item list that respects the nesting depth and the count
  limits (abstract syntax: tokens and groups with optional counts), rendered as text, is accepted
  when the tokens it denotes fit the limits, and expands to exactly the tokens it denotes.
\<close>

theorem sequenceExpand_render:
  assumes "list_all (wfItem 0) items" and "length (itemsTokens items) \<le> SEQUENCE_REPEAT_MAX_TOKENS"
    and "length (joinTokens (itemsTokens items)) < cap"
  shows "\<exists>info. sequenceExpand (Some (renderItems items)) (Some cap) clickCost
      = (SequenceExpandOk, joinTokens (itemsTokens items), info)
    \<and> tokenCount info = length (itemsTokens items) \<and> errorIndex info = 0"
proof -
  let ?st = "startState (renderItems items) cap clickCost"
  have out: "esOut (foldl pushToken ?st (itemsTokens items)) = joinTokens (itemsTokens items)"
    using foldl_out [of "[]" ?st] by simp
  have "expandItems ?st 0 (length (renderItems items)) 0
      = (True, foldl pushToken ?st (itemsTokens items))"
    by (rule expandItems_render)
      (use assms out in \<open>simp_all add: holdsAt_self fits_def\<close>)
  with sequenceExpand_run [of cap] assms(3) out show ?thesis by simp
qed

lemma sequenceExpand_render_witness:
  "\<exists>info. sequenceExpand (Some ''(A,(B)*2)*3,DDOWN*2'') (Some 64) 100
      = (SequenceExpandOk, ''A,B,B,A,B,B,A,B,B,DDOWN,DDOWN'', info) \<and> tokenCount info = 11"
proof -
  let ?items = "[Group [Token ''A'' None, Group [Token ''B'' None] (Some ''2'')] (Some ''3''),
    Token ''DDOWN'' (Some ''2'')]"
  have wf: "list_all (wfItem 0) ?items" "length (itemsTokens ?items) \<le> SEQUENCE_REPEAT_MAX_TOKENS"
    "length (joinTokens (itemsTokens ?items)) < 64" by code_simp+
  have eval: "renderItems ?items = ''(A,(B)*2)*3,DDOWN*2''"
    "joinTokens (itemsTokens ?items) = ''A,B,B,A,B,B,A,B,B,DDOWN,DDOWN''"
    "length (itemsTokens ?items) = 11" by code_simp+
  from sequenceExpand_render [OF wf, of 100] show ?thesis unfolding eval by blast
qed

text \<open>
  C3: every refusal of \<open>sequenceExpand\<close> leaves no output behind and points at a byte of the
  input, whatever the error.
\<close>

theorem sequenceExpand_error_position:
  assumes "cap > 0" and "sequenceExpand (Some s) (Some cap) clickCost = (r, out, info)"
    and "r \<noteq> SequenceExpandOk"
  shows "out = [] \<and> errorIndex info < length s \<and> estimatedMs info = 0
    \<and> tokenCount info \<le> SEQUENCE_REPEAT_MAX_TOKENS"
  using sequenceExpand_cases(2) [OF assms] assms
  by (auto simp: sequenceExpand_run split: prod.splits if_splits)

lemma sequenceExpand_error_position_witness:
  "sequenceExpand (Some ''A,(B,C'') (Some 64) 100
      = (SequenceExpandBadSyntax, [], \<lparr>errorIndex = 2, tokenCount = 1, estimatedMs = 0\<rparr>)
    \<and> (2 :: nat) < 6"
proof -
  have run: "sequenceExpand (Some ''A,(B,C'') (Some 64) 100
      = (SequenceExpandBadSyntax, [], \<lparr>errorIndex = 2, tokenCount = 1, estimatedMs = 0\<rparr>)"
    by code_simp
  with sequenceExpand_error_position [OF _ run] show ?thesis by simp
qed

end
