(* ===== verification/Bytes.thy ===== *)
theory Bytes
  imports Prelude
begin

text \<open>
  Numbers as little-endian byte strings, the way the target keeps integers in memory and in the
  search session files, and sets of slot numbers as bit masks in byte arrays (\<open>bitIsSet\<close> and
  \<open>bitSet\<close> of \<open>search_store.c\<close>, written out in \<open>search_compare.c\<close>).
\<close>

subsection \<open>Little-endian numbers\<close>

lemma pow_256: "(256::nat) ^ k = 2 ^ (k * 8)"
proof -
  have "(256::nat) = 2 ^ 8" by simp
  then show ?thesis by (metis power_mult mult.commute)
qed

fun leVal :: "u8 list \<Rightarrow> nat" where
  "leVal [] = 0"
| "leVal (b # bs) = unat b + 256 * leVal bs"

fun leBytes :: "nat \<Rightarrow> nat \<Rightarrow> u8 list" where
  "leBytes 0 v = []"
| "leBytes (Suc n) v = of_nat v # leBytes n (v div 256)"

lemma length_leBytes [simp]: "length (leBytes n v) = n"
  by (induction n arbitrary: v) auto

lemma leBytes_Nil [simp]: "leBytes n v = [] \<longleftrightarrow> n = 0"
  by (cases n) simp_all

lemma unat_of_nat_u8: "unat (of_nat v :: u8) = v mod 256"
  by (simp add: unsigned_of_nat take_bit_eq_mod)

lemma leVal_leBytes [byte_simps]: "leVal (leBytes n v) = v mod 256 ^ n"
proof (induction n arbitrary: v)
  case (Suc n)
  have "v mod (256 * 256 ^ n) = 256 * (v div 256 mod 256 ^ n) + v mod 256"
    by (rule mod_mult2_eq)
  with Suc show ?case by (simp add: unat_of_nat_u8)
qed simp

lemma leVal_less: "leVal bs < 256 ^ length bs"
proof (induction bs)
  case (Cons b bs)
  have "unat b < 256" by (rule unat_u8_lt)
  moreover have "256 * (leVal bs + 1) \<le> 256 * 256 ^ length bs"
    using Cons by (intro mult_le_mono2) simp
  ultimately show ?case by simp
qed simp

lemma leBytes_leVal [byte_simps]: "leBytes (length bs) (leVal bs) = bs"
proof (induction bs)
  case (Cons b bs)
  have "unat b < 256" by (rule unat_u8_lt)
  then have "(unat b + 256 * leVal bs) div 256 = leVal bs" by simp
  moreover have "(of_nat (unat b + 256 * leVal bs) :: u8) = b"
  proof -
    have "unat (of_nat (unat b + 256 * leVal bs) :: u8) = unat b"
      using \<open>unat b < 256\<close> by (subst unat_of_nat_u8) simp
    then show ?thesis by (simp add: word_unat_eq_iff)
  qed
  ultimately show ?case using Cons by simp
qed simp

lemma leVal_snoc: "leVal (bs @ [b]) = leVal bs + 256 ^ length bs * unat b"
  by (induction bs) (simp_all add: algebra_simps)

lemma leVal_inj: "length xs = length ys \<Longrightarrow> leVal xs = leVal ys \<Longrightarrow> xs = ys"
  by (metis leBytes_leVal)

subsection \<open>Masks\<close>

definition bitIsSet :: "u8 list \<Rightarrow> nat \<Rightarrow> bool" where
  "bitIsSet m index \<longleftrightarrow> m ! (index div 8) AND push_bit (index mod 8) 1 \<noteq> 0"

definition bitSet :: "u8 list \<Rightarrow> nat \<Rightarrow> u8 list" where
  "bitSet m index = m[index div 8 := m ! (index div 8) OR push_bit (index mod 8) 1]"

text \<open>The bytes a mask of so many slots takes; the addition is one of 32-bit words.\<close>

definition maskBytes :: "u32 \<Rightarrow> nat" where
  "maskBytes slotCount = unat ((slotCount + 7) div 8)"

lemma and_push_bit_one:
  "(w :: 'a::len word) AND push_bit n 1 \<noteq> 0 \<longleftrightarrow> bit w n"
proof -
  have "w AND push_bit n 1 \<noteq> 0 \<longleftrightarrow> (\<exists>k. bit (w AND push_bit n 1) k)"
    by (metis bit_word_eqI bit_0_eq bot_apply bot_bool_def)
  also have "\<dots> \<longleftrightarrow> bit w n"
    using bit_imp_le_length [of w n]
    by (auto simp: bit_and_iff bit_exp_iff)
  finally show ?thesis .
qed

lemma bitIsSet_bit: "bitIsSet m i \<longleftrightarrow> bit (m ! (i div 8)) (i mod 8)"
  unfolding bitIsSet_def by (rule and_push_bit_one)

lemma bitSet_length [mask_simps, simp]: "length (bitSet m i) = length m"
  by (simp add: bitSet_def)

lemma bitSet_bitIsSet [mask_simps]:
  assumes "i div 8 < length m"
  shows "bitIsSet (bitSet m i) j \<longleftrightarrow> j = i \<or> bitIsSet m j"
proof (cases "j div 8 = i div 8")
  case True
  have "i mod 8 < 8" by simp
  then have "bit (m ! (i div 8) OR push_bit (i mod 8) 1) (j mod 8)
      \<longleftrightarrow> bit (m ! (i div 8)) (j mod 8) \<or> j mod 8 = i mod 8"
    by (auto simp: bit_or_iff bit_exp_iff)
  moreover have "j mod 8 = i mod 8 \<longleftrightarrow> j = i"
    using True by (metis div_mod_decomp)
  ultimately show ?thesis
    using True assms by (auto simp: bitIsSet_bit bitSet_def)
next
  case False
  then show ?thesis by (auto simp: bitIsSet_bit bitSet_def)
qed

lemma bitIsSet_zero [mask_simps, simp]: "i div 8 < n \<Longrightarrow> \<not> bitIsSet (replicate n 0) i"
  by (simp add: bitIsSet_def)

lemma maskBytes_unat:
  assumes "unat n + 7 < 2 ^ 32"
  shows "maskBytes n = (unat n + 7) div 8"
proof -
  have "unat (n + 7) = unat n + 7"
    using assms unat_add_no_wrap [of n 7] by simp
  then show ?thesis by (simp add: maskBytes_def unat_div)
qed

lemma slot_in_mask: "unat n + 7 < 2 ^ 32 \<Longrightarrow> i < unat n \<Longrightarrow> i div 8 < maskBytes n"
  by (simp add: maskBytes_unat)

lemma mask_ext:
  assumes "length m = length m'" and "\<And>i. i < 8 * length m \<Longrightarrow> bitIsSet m i = bitIsSet m' i"
  shows "m = m'"
proof (rule nth_equalityI)
  fix k assume k: "k < length m"
  show "m ! k = m' ! k"
  proof (rule bit_word_eqI)
    fix b assume "b < LENGTH(8)"
    then have "8 * k + b < 8 * length m" "(8 * k + b) div 8 = k" "(8 * k + b) mod 8 = b"
      using k by auto
    with assms(2) [of "8 * k + b"] show "bit (m ! k) b = bit (m' ! k) b"
      by (simp add: bitIsSet_bit)
  qed
qed (rule assms(1))

end
