(* ===== verification/Checksums.thy ===== *)
theory Checksums
  imports Prelude
begin

text \<open>
  The two checksums and the result-code test: \<open>fnv1a.c\<close> (the hash behind \<open>memoryHash\<close>),
  \<open>searchStoreCrc32\<close> of \<open>search_store.c\<close> (the CRC-32 of the search session files) and
  \<open>result_check.c\<close>.

  Both checksums are folds of a byte step that is injective in the running state and in the byte,
  so two buffers that differ in one byte never have the same checksum; the locale
  \<open>byte_fold\<close> proves this once and is interpreted on both.
\<close>

subsection \<open>fnv1a.c\<close>

definition FNV1A32_BASIS :: u32 where "FNV1A32_BASIS = 0x811C9DC5"
definition FNV1A32_PRIME :: u32 where "FNV1A32_PRIME = 0x01000193"

definition fnv1aStep :: "u32 \<Rightarrow> u8 \<Rightarrow> u32" where
  "fnv1aStep hash b = (hash XOR ucast b) * FNV1A32_PRIME"

fun fnv1a32Update :: "u32 \<Rightarrow> u8 list \<Rightarrow> u32" where
  "fnv1a32Update hash [] = hash"
| "fnv1a32Update hash (b # bs) = fnv1a32Update (fnv1aStep hash b) bs"

subsection \<open>searchStoreCrc32\<close>

definition crcBitStep :: "u32 \<Rightarrow> u32" where
  "crcBitStep crc = drop_bit 1 crc XOR (0xEDB88320 AND (- (crc AND 1)))"

fun crcBits :: "nat \<Rightarrow> u32 \<Rightarrow> u32" where
  "crcBits 0 crc = crc"
| "crcBits (Suc n) crc = crcBits n (crcBitStep crc)"

definition crcByte :: "u32 \<Rightarrow> u8 \<Rightarrow> u32" where
  "crcByte crc b = crcBits 8 (crc XOR ucast b)"

fun crcUpdate :: "u32 \<Rightarrow> u8 list \<Rightarrow> u32" where
  "crcUpdate crc [] = crc"
| "crcUpdate crc (b # bs) = crcUpdate (crcByte crc b) bs"

definition searchStoreCrc32 :: "u8 list \<Rightarrow> u32" where
  "searchStoreCrc32 data = NOT (crcUpdate U32_MAX data)"

subsection \<open>result_check.c\<close>

definition SYS_AGENT_SM_MODULE :: u32 where "SYS_AGENT_SM_MODULE = 21"
definition SYS_AGENT_SM_OUT_OF_SESSIONS :: u32 where "SYS_AGENT_SM_OUT_OF_SESSIONS = 3"

definition resultIsOutOfSessions :: "res \<Rightarrow> bool" where
  "resultIsOutOfSessions rc \<longleftrightarrow>
    rc \<noteq> 0 \<and> rc AND 0x1FF = SYS_AGENT_SM_MODULE
    \<and> drop_bit 9 rc AND 0x1FFF = SYS_AGENT_SM_OUT_OF_SESSIONS"

subsection \<open>Injective byte folds\<close>

locale byte_fold =
  fixes step :: "'s \<Rightarrow> u8 \<Rightarrow> 's"
    and fold_bytes :: "'s \<Rightarrow> u8 list \<Rightarrow> 's"
  assumes fold_Nil: "fold_bytes s [] = s"
    and fold_Cons: "fold_bytes s (b # bs) = fold_bytes (step s b) bs"
    and step_inj_state: "step s b = step s' b \<Longrightarrow> s = s'"
    and step_inj_byte: "step s b = step s b' \<Longrightarrow> b = b'"
begin

lemma fold_append: "fold_bytes s (xs @ ys) = fold_bytes (fold_bytes s xs) ys"
  by (induction xs arbitrary: s) (simp_all add: fold_Nil fold_Cons)

lemma fold_inj_state: "fold_bytes s xs = fold_bytes s' xs \<Longrightarrow> s = s'"
proof (induction xs arbitrary: s s')
  case Nil
  then show ?case by (simp add: fold_Nil)
next
  case (Cons b xs)
  then have "step s b = step s' b" by (simp add: fold_Cons)
  then show ?case by (rule step_inj_state)
qed

lemma fold_detects_byte:
  assumes "fold_bytes s (xs @ b # ys) = fold_bytes s (xs @ b' # ys)"
  shows "b = b'"
proof -
  have "fold_bytes (step (fold_bytes s xs) b) ys = fold_bytes (step (fold_bytes s xs) b') ys"
    using assms by (simp add: fold_append fold_Cons)
  then have "step (fold_bytes s xs) b = step (fold_bytes s xs) b'"
    by (rule fold_inj_state)
  then show ?thesis by (rule step_inj_byte)
qed

end

subsection \<open>Both checksums are such folds\<close>

lemma fnv_prime_inverse: "x * FNV1A32_PRIME * 0x359C449B = x"
proof -
  have "FNV1A32_PRIME * 0x359C449B = (1 :: u32)" by (simp add: FNV1A32_PRIME_def)
  then show ?thesis by (simp only: mult.assoc mult_1_right)
qed

lemma xor_right_inj:
  fixes a b c :: "'a::len word"
  shows "a XOR c = b XOR c \<longleftrightarrow> a = b"
  by (metis xor.assoc xor.right_neutral xor_self_eq)

lemma ucast_u8_inj: "(ucast (b :: u8) :: u32) = ucast b' \<Longrightarrow> b = b'"
  by (metis unat_ucast_u8_u32 unsigned_word_eqI)

lemma xor_byte_inj: "(s :: u32) XOR ucast (b :: u8) = s XOR ucast b' \<Longrightarrow> b = b'"
  by (metis ucast_u8_inj xor.commute xor_right_inj)

interpretation fnv: byte_fold fnv1aStep fnv1a32Update
proof unfold_locales
  show "fnv1aStep s b = fnv1aStep s' b \<Longrightarrow> s = s'" for s s' b
    by (metis fnv1aStep_def fnv_prime_inverse xor_right_inj)
  show "fnv1aStep s b = fnv1aStep s b' \<Longrightarrow> b = b'" for s b b'
    by (metis fnv1aStep_def fnv_prime_inverse xor_byte_inj)
qed simp_all

definition crcBitUndo :: "u32 \<Rightarrow> u32" where
  "crcBitUndo y = (if bit y 31 then push_bit 1 (y XOR 0xEDB88320) OR 1 else push_bit 1 y)"

lemma crcBitStep_alt:
  "crcBitStep c = (if bit c 0 then drop_bit 1 c XOR 0xEDB88320 else drop_bit 1 c)"
proof -
  have "c AND 1 = (if bit c 0 then 1 else 0)"
    by (simp add: and_one_eq mod_2_eq_odd bit_0)
  then show ?thesis by (simp add: crcBitStep_def)
qed

lemma push_drop_bit: "push_bit n (drop_bit n (w :: u32)) = w AND NOT (mask n)"
  by (intro bit_word_eqI) (auto simp: bit_simps)

lemma crcBitUndo_step: "crcBitUndo (crcBitStep c) = c"
proof -
  have top: "\<not> bit (drop_bit 1 c) 31"
    using bit_imp_le_length [of c 32] by (auto simp: bit_simps)
  show ?thesis
  proof (cases "bit c 0")
    case True
    have "bit (drop_bit 1 c XOR 0xEDB88320 :: u32) 31"
      using top by (simp add: bit_xor_iff)
    moreover have "push_bit 1 (drop_bit 1 c) OR 1 = c"
      unfolding push_drop_bit using True
      by (intro bit_word_eqI) (auto simp: bit_simps not_less_eq_eq)
    ultimately show ?thesis
      using True by (simp add: crcBitUndo_def crcBitStep_alt xor.assoc)
  next
    case False
    have "push_bit 1 (drop_bit 1 c) = c"
      unfolding push_drop_bit using False
      by (intro bit_word_eqI) (auto simp: bit_simps intro: gr0I)
    then show ?thesis using False top by (simp add: crcBitUndo_def crcBitStep_alt)
  qed
qed

lemma crcBits_inj: "crcBits n c = crcBits n c' \<Longrightarrow> c = c'"
proof (induction n arbitrary: c c')
  case (Suc n)
  then have "crcBitStep c = crcBitStep c'" by simp
  then show ?case by (metis crcBitUndo_step)
qed simp

interpretation crc: byte_fold crcByte crcUpdate
proof unfold_locales
  show "crcByte s b = crcByte s' b \<Longrightarrow> s = s'" for s s' b
    unfolding crcByte_def by (metis crcBits_inj xor_right_inj)
  show "crcByte s b = crcByte s b' \<Longrightarrow> b = b'" for s b b'
    unfolding crcByte_def by (metis crcBits_inj xor_byte_inj)
qed simp_all

text \<open>
  The names the other components use: a checksum of a buffer hashed in chunks, and the detection
  of a damaged byte.
\<close>

lemma fnv_chunks: "fnv1a32Update (fnv1a32Update h xs) ys = fnv1a32Update h (xs @ ys)"
  by (simp add: fnv.fold_append)

lemma fnv_detects_byte:
  "fnv1a32Update h (xs @ b # ys) = fnv1a32Update h (xs @ b' # ys) \<longleftrightarrow> b = b'"
  using fnv.fold_detects_byte by blast

lemma crc32_detects_byte:
  "searchStoreCrc32 (xs @ b # ys) = searchStoreCrc32 (xs @ b' # ys) \<longleftrightarrow> b = b'"
proof
  assume "searchStoreCrc32 (xs @ b # ys) = searchStoreCrc32 (xs @ b' # ys)"
  then have "crcUpdate U32_MAX (xs @ b # ys) = crcUpdate U32_MAX (xs @ b' # ys)"
    unfolding searchStoreCrc32_def by (metis bit.double_compl)
  then show "b = b'" by (rule crc.fold_detects_byte)
qed simp

text \<open>The published check value of CRC-32 (the digits 1 to 9), and of FNV-1a on one byte.\<close>

lemma crc32_check_value:
  "searchStoreCrc32 [0x31, 0x32, 0x33, 0x34, 0x35, 0x36, 0x37, 0x38, 0x39] = 0xCBF43926"
  by code_simp

lemma fnv_check_value: "fnv1a32Update FNV1A32_BASIS [0x61] = 0xE40C292C"
  by code_simp

lemma resultIsOutOfSessions_iff:
  "resultIsOutOfSessions rc \<longleftrightarrow> rc AND 0x3FFFFF = 0x615"
proof -
  have eq: "rc AND 0x1FF = 21 \<and> drop_bit 9 rc AND 0x1FFF = 3 \<longleftrightarrow> rc AND 0x3FFFFF = 0x615"
    (is "?L \<longleftrightarrow> ?R")
  proof
    assume ?R
    have "(rc AND 0x3FFFFF) AND 0x1FF = rc AND 0x1FF"
      by (simp add: and.assoc)
    moreover have "drop_bit 9 (rc AND 0x3FFFFF) = drop_bit 9 rc AND 0x1FFF"
      by (simp add: drop_bit_and)
    ultimately show ?L using \<open>?R\<close> by simp
  next
    assume ?L
    have m: "0x3FFFFF = (mask 22 :: u32)" "0x1FF = (mask 9 :: u32)" "0x1FFF = (mask 13 :: u32)"
      by (simp_all add: mask_eq_exp_minus_1)
    have "rc AND 0x3FFFFF = (rc AND 0x1FF) OR push_bit 9 (drop_bit 9 rc AND 0x1FFF)"
      unfolding m by (intro bit_word_eqI) (auto simp: bit_and_iff bit_or_iff bit_push_bit_iff
          bit_drop_bit_eq bit_mask_iff)
    with \<open>?L\<close> show ?R by simp
  qed
  have "rc AND 0x3FFFFF = 0x615 \<Longrightarrow> rc \<noteq> 0" by auto
  then show ?thesis
    by (auto simp: resultIsOutOfSessions_def SYS_AGENT_SM_MODULE_def
        SYS_AGENT_SM_OUT_OF_SESSIONS_def eq)
qed

end
