(* ===== verification/NumParse.thy ===== *)
theory NumParse
  imports CString Checksums
begin

text \<open>
  The argument parsers of \<open>util.c\<close> (\<open>parseStringToInt\<close>, \<open>tryParseStringToInt\<close>,
  \<open>parseStringToSignedLong\<close>, \<open>parseStringToByteBuffer\<close>, \<open>parseStringToButton\<close>), its
  \<open>initServiceWithRetry\<close>, the operand encoding of \<open>search_value.c\<close>, and the command line
  splitter \<open>parseArgs\<close> of \<open>args.c\<close>.

  An argument pointer that may be \<open>NULL\<close> is an option; an out parameter is part of the
  result.  Command lines are at most \<open>MAX_LINE_LENGTH\<close> bytes, so the \<open>int\<close> lengths of the source
  are natural numbers here.
\<close>

subsection \<open>Numbers\<close>

text \<open>
  The base and the digits the two unsigned parsers hand to \<open>strtoull\<close>: \<open>None\<close> for a bare
  \<open>0x\<close>.
\<close>

definition baseAndDigits :: "string \<Rightarrow> (nat \<times> string) option" where
  "baseAndDigits arg =
    (if hasHexPrefix arg then (if drop 2 arg = [] then None else Some (16, drop 2 arg))
     else Some (10, arg))"

definition parseStringToInt :: "string option \<Rightarrow> u64" where
  "parseStringToInt arg =
    (case arg of
       None \<Rightarrow> 0
     | Some text \<Rightarrow>
         if text = [] then 0
         else
           (case baseAndDigits text of
              None \<Rightarrow> 0
            | Some (base, digits) \<Rightarrow>
                let r = strtoull digits base
                in if stRange r \<or> \<not> stConverted r \<or> stRest r \<noteq> [] then 0
                   else word_of_int (stValue r)))"

definition tryParseStringToInt :: "string option \<Rightarrow> u64 option" where
  "tryParseStringToInt arg =
    (case arg of
       None \<Rightarrow> None
     | Some text \<Rightarrow>
         if text = [] \<or> hd text = CHR ''-'' then None
         else
           (case baseAndDigits text of
              None \<Rightarrow> None
            | Some (base, digits) \<Rightarrow>
                let r = strtoull digits base
                in if stRange r \<or> \<not> stConverted r \<or> stRest r \<noteq> [] then None
                   else Some (word_of_int (stValue r))))"

definition parseStringToSignedLong :: "string option \<Rightarrow> int" where
  "parseStringToSignedLong arg =
    (case arg of
       None \<Rightarrow> 0
     | Some text \<Rightarrow>
         if text = [] then 0
         else
           (let signless = (if hd text = CHR ''-'' \<or> hd text = CHR ''+'' then tl text else text);
                base = (if hasHexPrefix signless then 16 else 10);
                r = strtoll text base
            in if stRange r \<or> \<not> stConverted r \<or> stRest r \<noteq> [] then 0 else stValue r))"

subsection \<open>Byte strings\<close>

definition isHexDigit :: "char \<Rightarrow> bool" where
  "isHexDigit c \<longleftrightarrow>
    (let n = (of_char c :: nat)
     in (48 \<le> n \<and> n \<le> 57) \<or> (97 \<le> n \<and> n \<le> 102) \<or> (65 \<le> n \<and> n \<le> 70))"

text \<open>The translation loop: two characters per byte, through \<open>strtoul\<close> in base 16.\<close>

fun hexPairs :: "string \<Rightarrow> u8 list" where
  "hexPairs (a # b # rest) = word_of_int (stValue (strtoull [a, b] 16)) # hexPairs rest"
| "hexPairs _ = []"

definition parseStringToByteBuffer :: "string option \<Rightarrow> u8 list option" where
  "parseStringToByteBuffer arg =
    (case arg of
       None \<Rightarrow> None
     | Some text \<Rightarrow>
         let payload = (if length text > 2 \<and> hasHexPrefix text then drop 2 text else text)
         in if payload = [] \<or> odd (length payload) then None
            else if \<not> list_all isHexDigit payload then None
            else Some (hexPairs payload))"

subsection \<open>Buttons\<close>

text \<open>
  The button masks are constants of libnx; the model keeps their names.  \<open>NoButton\<close> is the
  mask 0 and \<open>UnusedBit20\<close> is \<open>BIT(20)\<close>.
\<close>

datatype HidNpadButton =
    HidNpadButton_A | HidNpadButton_B | HidNpadButton_X | HidNpadButton_Y
  | HidNpadButton_StickR | HidNpadButton_StickL
  | HidNpadButton_L | HidNpadButton_R | HidNpadButton_ZL | HidNpadButton_ZR
  | HidNpadButton_Plus | HidNpadButton_Minus
  | HidNpadButton_Left | HidNpadButton_Up | HidNpadButton_Right | HidNpadButton_Down
  | HiddbgNpadButton_Home | HiddbgNpadButton_Capture | HidNpadButton_Palma
  | UnusedBit20 | NoButton

definition parseStringToButton :: "string \<Rightarrow> HidNpadButton" where
  "parseStringToButton arg =
    (if arg = ''A'' then HidNpadButton_A
     else if arg = ''B'' then HidNpadButton_B
     else if arg = ''X'' then HidNpadButton_X
     else if arg = ''Y'' then HidNpadButton_Y
     else if arg = ''RSTICK'' then HidNpadButton_StickR
     else if arg = ''LSTICK'' then HidNpadButton_StickL
     else if arg = ''L'' then HidNpadButton_L
     else if arg = ''R'' then HidNpadButton_R
     else if arg = ''ZL'' then HidNpadButton_ZL
     else if arg = ''ZR'' then HidNpadButton_ZR
     else if arg = ''PLUS'' then HidNpadButton_Plus
     else if arg = ''MINUS'' then HidNpadButton_Minus
     else if arg = ''DLEFT'' \<or> arg = ''DL'' then HidNpadButton_Left
     else if arg = ''DUP'' \<or> arg = ''DU'' then HidNpadButton_Up
     else if arg = ''DRIGHT'' \<or> arg = ''DR'' then HidNpadButton_Right
     else if arg = ''DDOWN'' \<or> arg = ''DD'' then HidNpadButton_Down
     else if arg = ''HOME'' then HiddbgNpadButton_Home
     else if arg = ''CAPTURE'' then HiddbgNpadButton_Capture
     else if arg = ''PALMA'' then HidNpadButton_Palma
     else if arg = ''UNUSED'' then UnusedBit20
     else NoButton)"

subsection \<open>Service initialisation\<close>

text \<open>
  \<open>initServiceWithRetry\<close> on the stream of results the initialiser returns: the result it
  hands back, the number of calls, and the number of half-second sleeps.
\<close>

definition maxAttempts :: nat where "maxAttempts = 6"

function retryLoop :: "(nat \<Rightarrow> res) \<Rightarrow> nat \<Rightarrow> res \<Rightarrow> nat \<Rightarrow> res \<times> nat \<times> nat" where
  "retryLoop init attempt rc sleeps =
    (if attempt < maxAttempts
     then (let rc' = init attempt
           in if R_SUCCEEDED rc' \<or> \<not> resultIsOutOfSessions rc' then (rc', Suc attempt, sleeps)
              else retryLoop init (Suc attempt) rc' (Suc sleeps))
     else (rc, attempt, sleeps))"
  by pat_completeness auto
termination
  by (relation "measure (\<lambda>(init, attempt, rc, sleeps). maxAttempts - attempt)") auto

declare retryLoop.simps [simp del]

definition initServiceWithRetry :: "(nat \<Rightarrow> res) \<Rightarrow> res \<times> nat \<times> nat" where
  "initServiceWithRetry init = retryLoop init 0 0 0"

subsection \<open>args.c\<close>

definition argDelim :: "char \<Rightarrow> bool" where
  "argDelim c \<longleftrightarrow> c = CHR '' '' \<or> c = CHR 0x0D \<or> c = CHR 0x0A"

text \<open>
  \<open>parseArgs\<close> counts the tokens on one copy of the line, fills \<open>argv\<close> from the other, and
  hands both to the callback: \<open>argv\<close> is \<open>NULL\<close> when there are none.
\<close>

definition parseArgs :: "string \<Rightarrow> (nat \<Rightarrow> string list option \<Rightarrow> 'r) \<Rightarrow> 'r" where
  "parseArgs origargstr callback =
    (let argc = length (strtokAll argDelim origargstr)
     in if argc = 0 then callback argc None
        else callback argc (Some (strtokAll argDelim origargstr)))"

subsection \<open>Facts\<close>

lemma isHexDigit_iff: "isHexDigit c \<longleftrightarrow> isDigitOf 16 c"
  by (auto simp: isHexDigit_def isDigitOf_def digitVal_def Let_def split: option.splits if_splits)

lemma digit_not_x: "isDigitOf base c \<Longrightarrow> base \<le> 16 \<Longrightarrow> c \<noteq> CHR ''x'' \<and> c \<noteq> CHR ''X''"
  by (auto simp: isDigitOf_def digitVal_def Let_def split: if_splits)

lemma digits_no_prefix:
  assumes "list_all (isDigitOf base) s" and "base \<le> 16"
  shows "skipHexPrefix b s = s" and "\<not> hasHexPrefix s"
  using assms digit_not_x [of base "CHR ''x''"] digit_not_x [of base "CHR ''X''"]
  by (auto simp: skipHexPrefix_def hasHexPrefix_def split: list.split)

lemma strtoull_digits:
  assumes "list_all (isDigitOf base) s" and "s \<noteq> []" and "base \<le> 16"
    and "digitsVal base 0 s < 2 ^ 64"
  shows "strtoull s base =
    \<lparr>stValue = int (digitsVal base 0 s), stRest = [], stConverted = True, stRange = False\<rparr>"
  using assms by (intro strtoull_unsigned digits_no_prefix)

text \<open>The reading of text that starts with a digit: accepted exactly when all of it is digits.\<close>

lemma strtoull_digit_start:
  assumes "skipHexPrefix base s = s" and "s \<noteq> []" and "isDigitOf base (hd s)"
  shows "stRange (strtoull s base) \<or> \<not> stConverted (strtoull s base) \<or> stRest (strtoull s base) \<noteq> []
    \<longleftrightarrow> \<not> (list_all (isDigitOf base) s \<and> digitsVal base 0 s < 2 ^ 64)"
    (is "?bad \<longleftrightarrow> _")
proof -
  obtain c cs where s: "s = c # cs" and c: "isDigitOf base c" using assms by (cases s) auto
  have sign: "takeSign (dropWhile isspace s) = (False, s)"
    using isDigitOf_not_special [OF c] s by (simp add: takeSign_def)
  have ne: "takeWhile (isDigitOf base) s \<noteq> []" using s c by simp
  have rest: "dropWhile (isDigitOf base) s = [] \<longleftrightarrow> list_all (isDigitOf base) s"
    by (simp add: dropWhile_eq_Nil_conv list_all_iff)
  have all: "takeWhile (isDigitOf base) s = s" if "list_all (isDigitOf base) s"
    using that by (simp add: takeWhile_eq_all_conv list_all_iff)
  have "?bad \<longleftrightarrow> 2 ^ 64 \<le> digitsVal base 0 (takeWhile (isDigitOf base) s)
      \<or> dropWhile (isDigitOf base) s \<noteq> []"
    using assms(1) ne by (auto simp: strtoull_def Let_def sign)
  with rest show ?thesis
    using all by (cases "list_all (isDigitOf base) s") (simp_all only: simp_thms not_less)
qed

lemma tryParse_value:
  assumes "baseAndDigits text = Some (base, digits)" and "text \<noteq> []" and "hd text \<noteq> CHR ''-''"
    and "list_all (isDigitOf base) digits" and "digits \<noteq> []" and "digitsVal base 0 digits < 2 ^ 64"
  shows "tryParseStringToInt (Some text) = Some (of_nat (digitsVal base 0 digits))"
proof -
  have "base \<le> 16" using assms(1) by (auto simp: baseAndDigits_def split: if_splits)
  from strtoull_digits [OF assms(4,5) this assms(6)] assms(1-3) show ?thesis
    by (simp add: tryParseStringToInt_def Let_def)
qed

lemma digit_not_minus: "isDigitOf base c \<Longrightarrow> c \<noteq> CHR ''-''"
  using isDigitOf_not_special by blast

text \<open>
  The numbers the agent prints are read back unchanged by its parser, as hexadecimal with the
  \<open>0x\<close> prefix and as decimal, over the whole 64-bit range.
\<close>

theorem tryParseStringToInt_roundtrip:
  "tryParseStringToInt (Some (''0x'' @ printNat 16 (unat w))) = Some w
    \<and> tryParseStringToInt (Some (printNat 10 (unat w))) = Some w"
proof
  note hex = printNat_digits [of 16 "unat w"] and dec = printNat_digits [of 10 "unat w"]
  have lt: "unat w < 2 ^ 64" by (rule unat_u64_lt)
  have "tryParseStringToInt (Some (''0x'' @ printNat 16 (unat w)))
      = Some (of_nat (digitsVal 16 0 (printNat 16 (unat w))))"
    by (rule tryParse_value) (use hex lt in \<open>simp_all add: baseAndDigits_def hasHexPrefix_def\<close>)
  then show "tryParseStringToInt (Some (''0x'' @ printNat 16 (unat w))) = Some w"
    using hex(2) by simp
  have "hd (printNat 10 (unat w)) \<noteq> CHR ''-''"
    using dec(1,3) digit_not_minus by (cases "printNat 10 (unat w)") auto
  then have "tryParseStringToInt (Some (printNat 10 (unat w)))
      = Some (of_nat (digitsVal 10 0 (printNat 10 (unat w))))"
    by (intro tryParse_value)
      (use dec lt digits_no_prefix(2) [OF dec(1)] in \<open>simp_all add: baseAndDigits_def\<close>)
  then show "tryParseStringToInt (Some (printNat 10 (unat w))) = Some w"
    using dec(2) by simp
qed

text \<open>
  The two unsigned parsers agree: \<open>parseStringToInt\<close> returns 0 exactly where the other
  one refuses, except on text with a leading minus sign.
\<close>

lemma parseStringToInt_try:
  "text \<noteq> [] \<Longrightarrow> hd text \<noteq> CHR ''-'' \<Longrightarrow>
    parseStringToInt (Some text) = (case tryParseStringToInt (Some text) of None \<Rightarrow> 0 | Some v \<Rightarrow> v)"
  by (auto simp: parseStringToInt_def tryParseStringToInt_def Let_def split: option.splits prod.splits)

text \<open>
  Text whose digits start with a digit is accepted only as a whole: trailing garbage such as
  \<open>12AB\<close> is refused, and so is a value of \<open>2^64\<close> or more.
\<close>

lemma tryParse_strict:
  assumes "baseAndDigits text = Some (base, digits)" and "digits \<noteq> []"
    and "isDigitOf base (hd digits)" and "skipHexPrefix base digits = digits"
  shows "tryParseStringToInt (Some text) =
    (if list_all (isDigitOf base) digits \<and> digitsVal base 0 digits < 2 ^ 64
     then Some (of_nat (digitsVal base 0 digits)) else None)"
proof -
  from assms have ne: "text \<noteq> []" "hd text \<noteq> CHR ''-''"
    by (auto simp: baseAndDigits_def hasHexPrefix_def digit_not_minus split: if_splits list.splits)
  show ?thesis
  proof (cases "list_all (isDigitOf base) digits \<and> digitsVal base 0 digits < 2 ^ 64")
    case True
    with tryParse_value [OF assms(1) ne] assms(2) show ?thesis by simp
  next
    case False
    with strtoull_digit_start [OF assms(4,2,3)] assms(1) ne show ?thesis
      by (auto simp: tryParseStringToInt_def Let_def)
  qed
qed

text \<open>
  The parser accepts more than the documented syntax: \<open>strtoull\<close> skips spaces and takes a
  sign, and the prefix may be repeated.
\<close>

lemma tryParse_lenient:
  "tryParseStringToInt (Some '' -5'') = Some (- 5) \<and> tryParseStringToInt (Some ''0x-5'') = Some (- 5)
    \<and> tryParseStringToInt (Some ''+5'') = Some 5 \<and> tryParseStringToInt (Some ''0x0x10'') = Some 16"
  by (simp add: tryParseStringToInt_def baseAndDigits_def hasHexPrefix_def strtoull_def takeSign_def
      skipHexPrefix_def isDigitOf_def digitVal_def isspace_def)

text \<open>Byte strings: the printed form of a byte is its two hexadecimal digits.\<close>

definition printByte :: "u8 \<Rightarrow> string" where
  "printByte b = [digitChar (unat b div 16), digitChar (unat b mod 16)]"

definition printBytes :: "u8 list \<Rightarrow> string" where
  "printBytes bs = concat (map printByte bs)"

lemma printByte_facts:
  "list_all isHexDigit (printByte b)"
  "word_of_int (stValue (strtoull (printByte b) 16)) = b"
proof -
  have lt: "unat b < 256" by (rule unat_u8_lt)
  have d: "digitVal 16 (digitChar (unat b div 16)) = Some (unat b div 16)"
    "digitVal 16 (digitChar (unat b mod 16)) = Some (unat b mod 16)"
    using lt by (auto intro!: digitVal_digitChar)
  then have digits: "list_all (isDigitOf 16) (printByte b)"
    by (simp add: printByte_def isDigitOf_def)
  then show "list_all isHexDigit (printByte b)" by (simp add: list_all_iff isHexDigit_iff)
  have val: "digitsVal 16 0 (printByte b) = unat b"
    using d by (simp add: printByte_def)
  have "strtoull (printByte b) 16 =
      \<lparr>stValue = int (digitsVal 16 0 (printByte b)), stRest = [], stConverted = True, stRange = False\<rparr>"
  proof (rule strtoull_digits [OF digits])
    show "printByte b \<noteq> []" by (simp add: printByte_def)
    show "digitsVal 16 0 (printByte b) < 2 ^ 64" unfolding val using lt by simp
  qed simp
  then show "word_of_int (stValue (strtoull (printByte b) 16)) = b"
    unfolding val by simp
qed

lemma hexPairs_printBytes: "hexPairs (printBytes bs) = bs"
proof (induction bs)
  case (Cons b bs)
  have "printByte b = [digitChar (unat b div 16), digitChar (unat b mod 16)]"
    by (rule printByte_def)
  with Cons printByte_facts(2) [of b] show ?case by (simp add: printBytes_def)
qed (simp add: printBytes_def)

lemma printBytes_facts:
  "list_all isHexDigit (printBytes bs)" "length (printBytes bs) = 2 * length bs"
  "\<not> hasHexPrefix (printBytes bs)"
proof -
  show all: "list_all isHexDigit (printBytes bs)"
    using printByte_facts(1) by (induction bs) (auto simp: printBytes_def)
  show "length (printBytes bs) = 2 * length bs"
    by (induction bs) (auto simp: printBytes_def printByte_def)
  show "\<not> hasHexPrefix (printBytes bs)"
    using all digits_no_prefix(2) [of 16] by (simp add: list_all_iff isHexDigit_iff)
qed

text \<open>
  Any non-empty byte string survives the trip through its hexadecimal text, with and without
  the \<open>0x\<close> prefix: the bytes a client sends to \<open>poke\<close> are the bytes written.
\<close>

theorem parseStringToByteBuffer_roundtrip:
  assumes "bs \<noteq> []"
  shows "parseStringToByteBuffer (Some (printBytes bs)) = Some bs
    \<and> parseStringToByteBuffer (Some (''0x'' @ printBytes bs)) = Some bs"
proof
  have ne: "printBytes bs \<noteq> []" using assms printBytes_facts(2) [of bs] by auto
  show "parseStringToByteBuffer (Some (printBytes bs)) = Some bs"
    using ne printBytes_facts [of bs]
    by (simp add: parseStringToByteBuffer_def Let_def hexPairs_printBytes)
  have "hasHexPrefix (''0x'' @ printBytes bs)" by (simp add: hasHexPrefix_def)
  then show "parseStringToByteBuffer (Some (''0x'' @ printBytes bs)) = Some bs"
    using ne assms printBytes_facts [of bs]
    by (simp add: parseStringToByteBuffer_def Let_def hexPairs_printBytes)
qed

lemma parseStringToByteBuffer_roundtrip_witness:
  "parseStringToByteBuffer (Some ''500001FF'') = Some [0x50, 0x00, 0x01, 0xFF]"
proof -
  have "printBytes [0x50, 0x00, 0x01, 0xFF] = ''500001FF''" by code_simp
  with parseStringToByteBuffer_roundtrip [of "[0x50, 0x00, 0x01, 0xFF]"] show ?thesis by simp
qed

text \<open>
  C4: \<open>initServiceWithRetry\<close> sleeps once for every leading attempt, of the six, that finds the
  service manager out of sessions; it stops at the first other result, calls the initialiser at
  most six times, and hands back the result of its last call.
\<close>

theorem initServiceWithRetry_spec:
  "initServiceWithRetry init =
    (let busy = length (takeWhile (\<lambda>i. resultIsOutOfSessions (init i)) [0..<6])
     in (init (min busy 5), min (Suc busy) 6, busy))"
proof -
  have zero: "R_SUCCEEDED rc \<or> \<not> resultIsOutOfSessions rc \<longleftrightarrow> \<not> resultIsOutOfSessions rc" for rc
    by (auto simp: resultIsOutOfSessions_def)
  have attempts: "[0..<6] = [0, 1, 2, 3, 4, 5 :: nat]" by (simp add: upt_rec)
  show ?thesis
    unfolding initServiceWithRetry_def attempts
    by (simp add: retryLoop.simps [of init] zero maxAttempts_def Let_def eval_nat_numeral
        del: R_SUCCEEDED_iff)
qed

text \<open>Arguments: no argument is empty or holds a delimiter, and joining them loses only those.\<close>

lemma parseArgs_tokens:
  "parseArgs line (\<lambda>argc argv. argc = (case argv of None \<Rightarrow> 0 | Some as \<Rightarrow> length as)
    \<and> (case argv of None \<Rightarrow> True
       | Some as \<Rightarrow> as \<noteq> [] \<and> list_all (\<lambda>a. a \<noteq> [] \<and> list_all (\<lambda>c. \<not> argDelim c) a) as))"
  using strtokAll_nonempty [of _ argDelim line]
  by (auto simp: parseArgs_def Let_def list_all_iff)

end
