(* ===== verification/SearchPrims.thy ===== *)
theory SearchPrims
  imports Bytes NumParse
begin

text \<open>
  The pure parts of the memory search: \<open>search_value.c\<close> (operand encoding and alignment),
  \<open>search_compare.c\<close> (comparison of old and new values, the refinement filter over a block of
  slots), \<open>search_match.c\<close> (the exact scan of a buffer) and \<open>search_range.c\<close> (what to do with
  the next memory mapping).
\<close>

subsection \<open>search_value.c\<close>

text \<open>Little-endian: \<open>output[index] = (uint8_t)(value >> (index * 8))\<close>.\<close>

definition searchEncodeUnsigned :: "string option \<Rightarrow> nat \<Rightarrow> u8 list option" where
  "searchEncodeUnsigned arg width =
    (case arg of
       None \<Rightarrow> None
     | Some text \<Rightarrow>
         if text = [] \<or> hd text = CHR ''-'' \<or> width \<notin> {1, 2, 4, 8} then None
         else
           (case baseAndDigits text of
              None \<Rightarrow> None
            | Some (base, digits) \<Rightarrow>
                let r = strtoull digits base; v = (word_of_int (stValue r) :: u64)
                in if stRange r \<or> \<not> stConverted r \<or> stRest r \<noteq> [] then None
                   else if width < 8 \<and> v \<ge> push_bit (width * 8) 1 then None
                   else Some (map (\<lambda>index. ucast (drop_bit (index * 8) v)) [0..<width])))"

definition searchAlignmentIsValid :: "u64 \<Rightarrow> bool" where
  "searchAlignmentIsValid alignment \<longleftrightarrow>
    alignment \<noteq> 0 \<and> alignment \<le> 256 \<and> alignment AND (alignment - 1) = 0"

subsection \<open>search_compare.c\<close>

datatype SearchCompareMode =
    SearchCompareExact
  | SearchCompareChanged
  | SearchCompareUnchanged
  | SearchCompareIncreased
  | SearchCompareDecreased

definition searchDecodeUnsigned :: "u8 list \<Rightarrow> nat \<Rightarrow> u64" where
  "searchDecodeUnsigned value width =
    foldl (\<lambda>result index. result OR push_bit (index * 8) (ucast (value ! index))) 0 [0..<width]"

definition searchCompareUnsigned ::
  "SearchCompareMode \<Rightarrow> u8 list \<Rightarrow> u8 list \<Rightarrow> nat \<Rightarrow> u64 \<Rightarrow> bool" where
  "searchCompareUnsigned mode previous current width exactValue =
    (let oldValue = searchDecodeUnsigned previous width;
         newValue = searchDecodeUnsigned current width
     in case mode of
          SearchCompareExact \<Rightarrow> newValue = exactValue
        | SearchCompareChanged \<Rightarrow> newValue \<noteq> oldValue
        | SearchCompareUnchanged \<Rightarrow> newValue = oldValue
        | SearchCompareIncreased \<Rightarrow> newValue > oldValue
        | SearchCompareDecreased \<Rightarrow> newValue < oldValue)"

text \<open>One iteration of the filter loop: the output mask and the number of matches.\<close>

definition filterStep ::
  "SearchCompareMode \<Rightarrow> u8 list \<Rightarrow> u8 list \<Rightarrow> u8 list \<Rightarrow> nat \<Rightarrow> u64
    \<Rightarrow> u8 list \<times> nat \<Rightarrow> nat \<Rightarrow> u8 list \<times> nat" where
  "filterStep mode previous current inputMask width exactValue st slot =
    (let offset = slot * width
     in if \<not> bitIsSet inputMask slot then st
        else if \<not> searchCompareUnsigned mode (drop offset previous) (drop offset current)
                    width exactValue then st
        else (bitSet (fst st) slot, snd st + 1))"

definition searchFilterUnsigned ::
  "SearchCompareMode \<Rightarrow> u8 list \<Rightarrow> u8 list \<Rightarrow> u8 list \<Rightarrow> u32 \<Rightarrow> nat \<Rightarrow> u64 \<Rightarrow> u8 list \<times> nat" where
  "searchFilterUnsigned mode previous current inputMask slotCount width exactValue =
    foldl (filterStep mode previous current inputMask width exactValue)
      (replicate (maskBytes slotCount) 0, 0) [0..<unat slotCount]"

subsection \<open>search_match.c\<close>

text \<open>
  The scan reports each match to a callback; the model returns the addresses in the order they are
  reported.  The count is the length of the list.
\<close>

function exactLoop ::
  "u8 list \<Rightarrow> u8 list \<Rightarrow> u64 \<Rightarrow> u64 \<Rightarrow> nat \<Rightarrow> nat \<Rightarrow> u64 list \<Rightarrow> u64 list" where
  "exactLoop buffer pattern bufferAddress alignment final offset found =
    (if offset \<le> final
     then (if (bufferAddress + of_nat offset) mod alignment = 0
              \<and> take (length pattern) (drop offset buffer) = pattern
           then exactLoop buffer pattern bufferAddress alignment final (Suc offset)
                  (found @ [bufferAddress + of_nat offset])
           else exactLoop buffer pattern bufferAddress alignment final (Suc offset) found)
     else found)"
  by pat_completeness auto
termination
  by (relation "measure (\<lambda>(buffer, pattern, ad, al, final, offset, found). Suc final - offset)") auto

declare exactLoop.simps [simp del]

definition searchExactBufferAligned ::
  "u8 list option \<Rightarrow> u8 list option \<Rightarrow> u64 \<Rightarrow> u64 \<Rightarrow> u64 list" where
  "searchExactBufferAligned buffer pattern bufferAddress alignment =
    (case (buffer, pattern) of
       (Some buf, Some pat) \<Rightarrow>
         if length pat = 0 \<or> length buf < length pat \<or> alignment = 0 then []
         else exactLoop buf pat bufferAddress alignment (length buf - length pat) 0 []
     | _ \<Rightarrow> [])"

definition searchExactBuffer :: "u8 list option \<Rightarrow> u8 list option \<Rightarrow> u64 \<Rightarrow> u64 list" where
  "searchExactBuffer buffer pattern bufferAddress =
    searchExactBufferAligned buffer pattern bufferAddress 1"

subsection \<open>search_range.c\<close>

datatype SearchRangeAction = SearchRangeInvalid | SearchRangeSkip | SearchRangeRead

record SearchRangePlan =
  planAction :: SearchRangeAction
  planStart :: u64
  planEnd :: u64

definition searchPlanMapping :: "u64 \<Rightarrow> u64 \<Rightarrow> u64 \<Rightarrow> u64 \<Rightarrow> bool \<Rightarrow> SearchRangePlan" where
  "searchPlanMapping cursor searchEnd mappingAddress mappingSize readable =
    (let invalid = \<lparr>planAction = SearchRangeInvalid, planStart = cursor, planEnd = cursor\<rparr>
     in if cursor \<ge> searchEnd \<or> mappingSize = 0 \<or> mappingAddress + mappingSize \<le> mappingAddress
        then invalid
        else if mappingAddress > cursor
        then (let gap = \<lparr>planAction = SearchRangeSkip, planStart = cursor,
                         planEnd = (if mappingAddress < searchEnd then mappingAddress else searchEnd)\<rparr>
              in if planEnd gap > planStart gap then gap else invalid)
        else (let mappingEnd = mappingAddress + mappingSize;
                  mappingEnd' = (if mappingEnd > searchEnd then searchEnd else mappingEnd)
              in if mappingEnd' \<le> cursor then invalid
                 else \<lparr>planAction = (if readable then SearchRangeRead else SearchRangeSkip),
                       planStart = cursor, planEnd = mappingEnd'\<rparr>))"

subsection \<open>Values\<close>

lemma decode_step:
  assumes "k < 8" and "unat (r :: u64) < 256 ^ k"
  shows "unat (r OR push_bit (k * 8) (ucast (b :: u8))) = unat r + 256 ^ k * unat b"
proof -
  note pw = pow_256 [of k]
  have "unat b + 1 \<le> 256" using unat_u8_lt [of b] by simp
  then have "256 ^ k * (unat b + 1) \<le> 256 ^ k * 256" by (intro mult_le_mono2)
  also have "\<dots> = (256::nat) ^ Suc k" by simp
  also have "\<dots> \<le> 256 ^ 8" using assms(1) by (intro power_increasing) auto
  finally have top: "256 ^ k * unat b + 256 ^ k \<le> (2::nat) ^ 64" by simp
  have shift: "unat (push_bit (k * 8) (ucast b) :: u64) = 256 ^ k * unat b"
  proof (rule of_nat_inverse)
    have "of_nat (unat b) = (ucast b :: u64)" by simp
    then show "of_nat (256 ^ k * unat b) = push_bit (k * 8) (ucast b :: u64)"
      by (simp add: pw push_bit_eq_mult)
    have "(0::nat) < 256 ^ k" by simp
    with top have "256 ^ k * unat b < 2 ^ 64" by linarith
    then show "256 ^ k * unat b < 2 ^ LENGTH(64)" by simp
  qed
  have "take_bit (k * 8) r = r"
    using assms(2) by (simp add: word_unat_eq_iff unsigned_take_bit_eq take_bit_nat_eq_self pw)
  then have low: "bit r n \<Longrightarrow> n < k * 8" for n
    by (metis bit_take_bit_iff)
  then have "r AND push_bit (k * 8) (ucast b) = 0"
    by (intro bit_word_eqI) (auto simp: bit_and_iff bit_push_bit_iff dest!: low leD)
  then have "r OR push_bit (k * 8) (ucast b) = r + push_bit (k * 8) (ucast b)"
    by (rule disjunctive_add_eq_or [symmetric])
  then show ?thesis
    using assms(2) top shift by (simp add: unat_add_no_wrap)
qed

lemma decode_loop:
  assumes "k \<le> 8" and "k \<le> length bs"
  shows "unat (foldl (\<lambda>r i. r OR push_bit (i * 8) (ucast (bs ! i))) (0 :: u64) [0..<k])
    = leVal (take k bs)"
  using assms
proof (induction k)
  case (Suc k)
  let ?r = "foldl (\<lambda>r i. r OR push_bit (i * 8) (ucast (bs ! i))) (0 :: u64) [0..<k]"
  from Suc have ih: "unat ?r = leVal (take k bs)" by simp
  have "unat ?r < 256 ^ k"
    using leVal_less [of "take k bs"] Suc.prems ih by simp
  then show ?case
    using decode_step [of k ?r "bs ! k"] Suc.prems ih
    by (simp add: take_Suc_conv_app_nth leVal_snoc)
qed simp

text \<open>A decoded value is the little-endian number, as long as the width fits 64 bits.\<close>

lemma unat_decode:
  "width \<le> 8 \<Longrightarrow> width \<le> length bs \<Longrightarrow> unat (searchDecodeUnsigned bs width) = leVal (take width bs)"
  by (simp add: searchDecodeUnsigned_def decode_loop)

lemma encode_leBytes:
  "map (\<lambda>i. ucast (drop_bit (i * 8) (v :: u64)) :: u8) [0..<n] = leBytes n (unat v)"
proof (induction n arbitrary: v)
  case (Suc n)
  have shift: "drop_bit (Suc i * 8) v = drop_bit (i * 8) (drop_bit 8 v)" for i
    by (simp add: add.commute)
  have "map (\<lambda>i. ucast (drop_bit (i * 8) v) :: u8) [0..<Suc n]
      = ucast v # map (\<lambda>i. ucast (drop_bit (i * 8) (drop_bit 8 v))) [0..<n]"
    by (simp add: upt_conv_Cons map_Suc_upt [symmetric] comp_def shift add.commute del: upt_Suc)
  also have "map (\<lambda>i. ucast (drop_bit (i * 8) (drop_bit 8 v)) :: u8) [0..<n]
      = leBytes n (unat (drop_bit 8 v))" by (rule Suc.IH)
  also have "unat (drop_bit 8 v) = unat v div 256"
    by (simp add: drop_bit_eq_div unat_div)
  finally show ?case by simp
qed simp

lemma width_bound:
  assumes "width < 8" and "\<not> v \<ge> push_bit (width * 8) (1 :: u64)"
  shows "unat v < 256 ^ width"
proof -
  have "(2::nat) ^ (width * 8) < 2 ^ 64" using assms(1) by (intro power_strict_increasing) auto
  moreover have "of_nat (2 ^ (width * 8)) = push_bit (width * 8) (1 :: u64)" by simp
  ultimately have "unat (push_bit (width * 8) (1 :: u64)) = 2 ^ (width * 8)"
    by (intro of_nat_inverse) auto
  then show ?thesis using assms(2) pow_256 [of width] by (simp only: word_le_nat_alt not_le)
qed

text \<open>
  An accepted operand is the number the agent's parser reads, in the requested number of bytes, and
  decoding the bytes gives the number back: nothing is truncated.
\<close>

lemma searchEncodeUnsigned_decode:
  assumes "searchEncodeUnsigned (Some text) width = Some bytes"
  shows "length bytes = width \<and> width \<in> {1, 2, 4, 8}
    \<and> tryParseStringToInt (Some text) = Some (searchDecodeUnsigned bytes width)"
proof -
  from assms obtain base digits where *: "baseAndDigits text = Some (base, digits)"
    "text \<noteq> []" "hd text \<noteq> CHR ''-''" "width \<in> {1, 2, 4, 8}"
    by (auto simp: searchEncodeUnsigned_def split: if_splits option.splits)
  define r where "r = strtoull digits base"
  define v where "v = (word_of_int (stValue r) :: u64)"
  from assms * have ok: "\<not> (stRange r \<or> \<not> stConverted r \<or> stRest r \<noteq> [])"
    "\<not> (width < 8 \<and> v \<ge> push_bit (width * 8) 1)" and bytes: "bytes = leBytes width (unat v)"
    by (auto simp: searchEncodeUnsigned_def Let_def r_def v_def encode_leBytes split: if_splits)
  have "unat v < 256 ^ width"
  proof (cases "width < 8")
    case False
    then show ?thesis using *(4) unat_u64_lt [of v] by auto
  qed (use ok width_bound in auto)
  then have "unat (searchDecodeUnsigned bytes width) = unat v"
    using *(4) bytes by (subst unat_decode) (auto simp: leVal_leBytes)
  then have "searchDecodeUnsigned bytes width = v" by (simp add: word_unat_eq_iff)
  then show ?thesis
    using * ok bytes by (auto simp: tryParseStringToInt_def Let_def r_def v_def)
qed

text \<open>The valid alignments are the powers of two up to 256.\<close>

lemma searchAlignmentIsValid_powers:
  "searchAlignmentIsValid a \<longleftrightarrow> a \<in> {1, 2, 4, 8, 16, 32, 64, 128, 256}"
proof
  assume v: "searchAlignmentIsValid a"
  then have "unat a \<le> 256" by (simp add: searchAlignmentIsValid_def word_le_nat_alt)
  then have "a \<in> (\<lambda>n. of_nat n) ` set [0..<257]"
    by (intro image_eqI [of _ _ "unat a"]) auto
  moreover have "\<forall>n \<in> set [0..<257]. searchAlignmentIsValid (of_nat n)
      \<longrightarrow> (of_nat n :: u64) \<in> {1, 2, 4, 8, 16, 32, 64, 128, 256}"
    by code_simp
  ultimately show "a \<in> {1, 2, 4, 8, 16, 32, 64, 128, 256}" using v by blast
qed (auto simp: searchAlignmentIsValid_def)


subsection \<open>The filter\<close>

text \<open>What a comparison means for the numbers the bytes stand for.\<close>

definition compareSpec :: "SearchCompareMode \<Rightarrow> nat \<Rightarrow> nat \<Rightarrow> nat \<Rightarrow> bool" where
  "compareSpec mode old new exact =
    (case mode of
       SearchCompareExact \<Rightarrow> new = exact
     | SearchCompareChanged \<Rightarrow> new \<noteq> old
     | SearchCompareUnchanged \<Rightarrow> new = old
     | SearchCompareIncreased \<Rightarrow> new > old
     | SearchCompareDecreased \<Rightarrow> new < old)"

lemma searchCompareUnsigned_spec:
  assumes "width \<le> 8" and "width \<le> length p" and "width \<le> length c"
  shows "searchCompareUnsigned mode p c width exact
    = compareSpec mode (leVal (take width p)) (leVal (take width c)) (unat exact)"
  using assms by (cases mode)
    (simp_all add: searchCompareUnsigned_def compareSpec_def Let_def word_unat_eq_iff
      word_less_nat_alt unat_decode)

definition slotVal :: "u8 list \<Rightarrow> nat \<Rightarrow> nat \<Rightarrow> nat" where
  "slotVal values width slot = leVal (take width (drop (slot * width) values))"

lemma slot_in_values: "i < n \<Longrightarrow> length values = n * width \<Longrightarrow> width \<le> length (drop (i * width) values)"
proof -
  assume i: "i < n" and len: "length values = n * width"
  from i have "(i + 1) * width \<le> n * width" by (intro mult_le_mono1) simp
  with len show ?thesis by simp
qed

lemma filter_loop:
  fixes f :: "nat \<Rightarrow> bool"
  assumes step: "\<And>st slot. slot < n \<Longrightarrow>
      stepf st slot = (if f slot then (bitSet (fst st) slot, snd st + 1) else st)"
    and len: "n \<le> 8 * length m0" and clear: "\<And>i. i < 8 * length m0 \<Longrightarrow> \<not> bitIsSet m0 i"
    and "k \<le> n"
  shows "length (fst (foldl stepf (m0, 0) [0..<k])) = length m0
    \<and> (\<forall>i < 8 * length m0. bitIsSet (fst (foldl stepf (m0, 0) [0..<k])) i \<longleftrightarrow> i < k \<and> f i)
    \<and> snd (foldl stepf (m0, 0) [0..<k]) = length (filter f [0..<k])"
  using \<open>k \<le> n\<close>
proof (induction k)
  case 0
  then show ?case using clear by simp
next
  case (Suc k)
  let ?st = "foldl stepf (m0, 0 :: nat) [0..<k]"
  have k: "k < n" using Suc.prems by simp
  have ih: "length (fst ?st) = length m0"
    "\<And>i. i < 8 * length m0 \<Longrightarrow> bitIsSet (fst ?st) i \<longleftrightarrow> i < k \<and> f i"
    "snd ?st = length (filter f [0..<k])" using Suc by auto
  have div: "k div 8 < length (fst ?st)" using k len ih(1) by simp
  have next': "foldl stepf (m0, 0) [0..<Suc k] =
      (if f k then (bitSet (fst ?st) k, snd ?st + 1) else ?st)"
    by (simp add: step [OF k])
  show ?case unfolding next' using ih div by (auto simp: bitSet_bitIsSet less_Suc_eq)
qed

text \<open>
  C5: the refinement filter is exact.  Slot by slot, the output mask marks exactly the slots that
  were candidates and whose old and new values satisfy the comparison; the padding bits behind the
  last slot are zero, the mask has the size of the input mask, and the result is the number of
  marked slots.
\<close>

theorem searchFilterUnsigned_exact:
  assumes "unat slotCount + 7 < 2 ^ 32" and "0 < width" and "width \<le> 8"
    and "length previous = unat slotCount * width" and "length current = unat slotCount * width"
  shows "let (out, matches) = searchFilterUnsigned mode previous current inputMask slotCount width exact
    in length out = maskBytes slotCount
      \<and> (\<forall>i < 8 * maskBytes slotCount. bitIsSet out i \<longleftrightarrow>
          i < unat slotCount \<and> bitIsSet inputMask i
          \<and> compareSpec mode (slotVal previous width i) (slotVal current width i) (unat exact))
      \<and> matches = length (filter (bitIsSet out) [0..<unat slotCount])"
proof -
  let ?n = "unat slotCount" and ?m = "replicate (maskBytes slotCount) (0 :: u8)"
  let ?f = "\<lambda>i. bitIsSet inputMask i
    \<and> compareSpec mode (slotVal previous width i) (slotVal current width i) (unat exact)"
  let ?step = "filterStep mode previous current inputMask width exact"
  have step: "?step st slot = (if ?f slot then (bitSet (fst st) slot, snd st + 1) else st)"
    if "slot < ?n" for st slot
  proof -
    note fits = slot_in_values [OF that assms(4)] slot_in_values [OF that assms(5)]
    have "searchCompareUnsigned mode (drop (slot * width) previous) (drop (slot * width) current)
        width exact = compareSpec mode (slotVal previous width slot) (slotVal current width slot)
          (unat exact)"
      using searchCompareUnsigned_spec [OF assms(3) fits] by (simp add: slotVal_def)
    then show ?thesis by (simp add: filterStep_def Let_def)
  qed
  have size: "?n \<le> 8 * maskBytes slotCount"
    using assms(1) by (simp add: maskBytes_unat)
  have loop: "length (fst (foldl ?step (?m, 0) [0..<?n])) = length ?m
    \<and> (\<forall>i < 8 * length ?m. bitIsSet (fst (foldl ?step (?m, 0) [0..<?n])) i \<longleftrightarrow> i < ?n \<and> ?f i)
    \<and> snd (foldl ?step (?m, 0) [0..<?n]) = length (filter ?f [0..<?n])"
    by (rule filter_loop [where n = "unat slotCount"], erule step) (use size in auto)
  then have "filter ?f [0..<?n] = filter (bitIsSet (fst (foldl ?step (?m, 0) [0..<?n]))) [0..<?n]"
    using size by (intro filter_cong) auto
  with loop show ?thesis
    by (simp add: searchFilterUnsigned_def split_beta Let_def)
qed

lemma searchFilterUnsigned_exact_witness:
  "bitIsSet (fst (searchFilterUnsigned SearchCompareIncreased [1, 0, 7, 0, 9, 0] [2, 0, 7, 0, 0, 1]
      [5] 3 2 0)) 2 \<and> (3 :: nat) + 7 < 2 ^ 32"
proof -
  let ?r = "searchFilterUnsigned SearchCompareIncreased [1, 0, 7, 0, 9, 0] [2, 0, 7, 0, 0, 1] [5] 3 2 0"
  have bytes: "maskBytes 3 = 1" by code_simp
  have marked: "bitIsSet [5] 2 \<and> compareSpec SearchCompareIncreased
      (slotVal [1, 0, 7, 0, 9, 0] 2 2) (slotVal [2, 0, 7, 0, 0, 1] 2 2) (unat (0 :: u64))"
    by code_simp
  have "let (out, matches) = ?r in \<forall>i < 8 * maskBytes 3. bitIsSet out i \<longleftrightarrow>
      i < unat (3 :: u32) \<and> bitIsSet [5] i \<and> compareSpec SearchCompareIncreased
        (slotVal [1, 0, 7, 0, 9, 0] 2 i) (slotVal [2, 0, 7, 0, 0, 1] 2 i) (unat (0 :: u64))"
    using searchFilterUnsigned_exact [of 3 2 "[1, 0, 7, 0, 9, 0]" "[2, 0, 7, 0, 0, 1]"
        SearchCompareIncreased "[5]" 0]
    by (simp add: split_beta Let_def)
  with marked show ?thesis by (simp add: split_beta bytes Let_def)
qed

text \<open>A value cannot have both increased and decreased: the modes are a trichotomy.\<close>

lemma compare_trichotomy:
  "length (filter (\<lambda>mode. searchCompareUnsigned mode p c width x)
    [SearchCompareUnchanged, SearchCompareIncreased, SearchCompareDecreased]) = 1"
  using less_linear [of "searchDecodeUnsigned p width" "searchDecodeUnsigned c width"]
  by (auto simp: searchCompareUnsigned_def Let_def)

subsection \<open>The exact scan\<close>

definition matchesAt :: "u8 list \<Rightarrow> u8 list \<Rightarrow> u64 \<Rightarrow> u64 \<Rightarrow> nat \<Rightarrow> bool" where
  "matchesAt buf pat address alignment offset \<longleftrightarrow>
    (address + of_nat offset) mod alignment = 0 \<and> take (length pat) (drop offset buf) = pat"

lemma exactLoop_filter:
  "exactLoop buf pat ad al final offset found =
    found @ map (\<lambda>i. ad + of_nat i) (filter (matchesAt buf pat ad al) [offset..<Suc final])"
proof (induction buf pat ad al final offset found rule: exactLoop.induct)
  case (1 buf pat ad al final offset found)
  show ?case
  proof (cases "offset \<le> final")
    case True
    then have "[offset..<Suc final] = offset # [Suc offset..<Suc final]" by (simp add: upt_conv_Cons)
    with True "1.IH" show ?thesis
      by (simp add: exactLoop.simps [of buf pat ad al final offset] matchesAt_def del: upt_Suc)
  next
    case False
    then show ?thesis by (simp add: exactLoop.simps [of buf pat ad al final offset])
  qed
qed

text \<open>
  C6: the exact scan is complete and ordered.  The reported addresses are, in ascending order of
  their offset, exactly the aligned positions of the buffer at which the whole pattern stands; no
  overlapping match and no match at the very end is lost.
\<close>

theorem searchExactBufferAligned_complete:
  assumes "pat \<noteq> []" and "alignment \<noteq> 0"
  shows "searchExactBufferAligned (Some buf) (Some pat) address alignment =
    map (\<lambda>i. address + of_nat i)
      (filter (\<lambda>i. (address + of_nat i) mod alignment = 0 \<and> (\<exists>rest. drop i buf = pat @ rest))
        [0..<length buf])"
proof -
  have prefix: "take (length pat) (drop i buf) = pat \<longleftrightarrow> (\<exists>rest. drop i buf = pat @ rest)" for i
    by (metis append_eq_conv_conj append_take_drop_id)
  have short: "\<not> (\<exists>rest. drop i buf = pat @ rest)" if "length buf < i + length pat" for i
  proof
    assume "\<exists>rest. drop i buf = pat @ rest"
    then obtain rest where "drop i buf = pat @ rest" by blast
    then have "length (drop i buf) = length (pat @ rest)" by (rule arg_cong)
    then have "length pat \<le> length (drop i buf)" by simp
    with that assms(1) show False by (cases pat) auto
  qed
  let ?P = "\<lambda>i. (address + of_nat i) mod alignment = 0 \<and> (\<exists>rest. drop i buf = pat @ rest)"
  show ?thesis
  proof (cases "length buf < length pat")
    case True
    then have "filter ?P [0..<length buf] = []" using short by (simp add: filter_empty_conv)
    with True show ?thesis by (simp add: searchExactBufferAligned_def)
  next
    case False
    let ?k = "Suc (length buf - length pat)"
    have k: "?k \<le> length buf" using False assms(1) by (cases pat) auto
    then have "[0..<length buf] = [0..<?k] @ [?k..<length buf]"
      by (metis le0 le_add_diff_inverse upt_add_eq_append)
    moreover have "filter ?P [?k..<length buf] = []"
      using short False by (auto simp: filter_empty_conv)
    ultimately have "filter ?P [0..<length buf] = filter ?P [0..<?k]" by simp
    also have "\<dots> = filter (matchesAt buf pat address alignment) [0..<?k]"
      by (intro filter_cong refl) (simp only: matchesAt_def prefix)
    finally show ?thesis
      using False assms by (simp add: searchExactBufferAligned_def exactLoop_filter del: upt_Suc)
  qed
qed

lemma searchExactBufferAligned_complete_witness:
  "searchExactBufferAligned (Some [1, 1, 1, 2]) (Some [1, 1]) 0x1000 1 = [0x1000, 0x1001]"
proof -
  have "filter (\<lambda>i. (0x1000 + of_nat i :: u64) mod 1 = 0 \<and> (\<exists>rest. drop i [1, 1, 1, 2 :: u8] = [1, 1] @ rest))
      [0..<length [1, 1, 1, 2 :: u8]] = [0, 1]"
    by (simp add: upt_rec)
  with searchExactBufferAligned_complete [of "[1, 1]" 1, where buf = "[1, 1, 1, 2]" and address = "0x1000"] show ?thesis by simp
qed

subsection \<open>The plan for a mapping\<close>

text \<open>
  C7: a valid plan always makes progress and never leaves the search range, and it is a read only
  when the whole planned range lies inside the readable mapping.
\<close>

theorem searchPlanMapping_progress:
  assumes "planAction plan \<noteq> SearchRangeInvalid"
    and "plan = searchPlanMapping cursor searchEnd mappingAddress mappingSize readable"
  shows "planStart plan = cursor \<and> cursor < planEnd plan \<and> planEnd plan \<le> searchEnd
    \<and> (planAction plan = SearchRangeRead \<longrightarrow>
        readable \<and> mappingAddress \<le> cursor \<and> planEnd plan \<le> mappingAddress + mappingSize)"
  using assms by (auto simp: searchPlanMapping_def Let_def split: if_splits)

lemma searchPlanMapping_progress_witness:
  "searchPlanMapping 0x1000 0x3000 0x0800 0x1000 True
    = \<lparr>planAction = SearchRangeRead, planStart = 0x1000, planEnd = 0x1800\<rparr>
    \<and> (0x1000 :: u64) < 0x1800"
proof -
  have plan: "searchPlanMapping 0x1000 0x3000 0x0800 0x1000 True
    = \<lparr>planAction = SearchRangeRead, planStart = 0x1000, planEnd = 0x1800\<rparr>"
    by (simp add: searchPlanMapping_def Let_def)
  from searchPlanMapping_progress [OF _ plan [symmetric]] plan show ?thesis by simp
qed

text \<open>A plan for the mapping that holds the cursor is never invalid: the search always goes on.\<close>

lemma searchPlanMapping_valid:
  assumes "cursor < searchEnd" and "mappingAddress \<le> cursor" and "cursor < mappingAddress + mappingSize"
  shows "planAction (searchPlanMapping cursor searchEnd mappingAddress mappingSize readable)
    = (if readable then SearchRangeRead else SearchRangeSkip)"
  using assms by (auto simp: searchPlanMapping_def Let_def)

end
