(* ===== verification/Freeze.thy ===== *)
theory Freeze
  imports Prelude
begin

text \<open>
  \<open>freeze.c\<close>: the table of frozen memory values.  A slot with address 0 is free; the freeze
  thread rewrites the bytes of every slot in use.

  The table owns the value buffers.  The model names a buffer by its pointer (0 is \<open>NULL\<close>) and
  keeps the allocated buffers with their bytes; releasing a pointer that is not allocated sets
  \<open>fzBadFree\<close>, the double free of the C heap.  A slot index of -1 is \<open>None\<close>.  The commands
  that use the table (\<open>freeze\<close>, \<open>unFreeze\<close>, \<open>freezeClear\<close>) and the writing pass
  of the freeze thread are those of \<open>main.c\<close>.
\<close>

definition FREEZE_DIC_LENGTH :: nat where "FREEZE_DIC_LENGTH = 255"

record FreezeBlock =
  fbState :: u8
  fbAddress :: u64
  fbData :: nat
  fbSize :: u64
  fbTitleId :: u64

record FreezeTable =
  freezes :: "FreezeBlock list"
  fzHeap :: "(nat \<times> u8 list) list"
  fzBadFree :: bool

definition freeData :: "FreezeTable \<Rightarrow> nat \<Rightarrow> FreezeTable" where
  "freeData t p =
    (if p = 0 then t
     else if map_of (fzHeap t) p \<noteq> None then t\<lparr>fzHeap := filter (\<lambda>e. fst e \<noteq> p) (fzHeap t)\<rparr>
     else t\<lparr>fzBadFree := True\<rparr>)"

definition initFreezes :: FreezeTable where
  "initFreezes =
    \<lparr>freezes = replicate FREEZE_DIC_LENGTH
       \<lparr>fbState = 0, fbAddress = 0, fbData = 0, fbSize = 0, fbTitleId = 0\<rparr>,
     fzHeap = [], fzBadFree = False\<rparr>"

fun findFrom :: "FreezeBlock list \<Rightarrow> u64 \<Rightarrow> nat \<Rightarrow> nat option" where
  "findFrom [] addr i = None"
| "findFrom (b # bs) addr i = (if fbAddress b = addr then Some i else findFrom bs addr (Suc i))"

definition findAddrSlot :: "FreezeTable \<Rightarrow> u64 \<Rightarrow> nat option" where
  "findAddrSlot t addr = findFrom (freezes t) addr 0"

definition findNextEmptySlot :: "FreezeTable \<Rightarrow> nat option" where
  "findNextEmptySlot t = findAddrSlot t 0"

definition removeFromFreezeMap :: "FreezeTable \<Rightarrow> u64 \<Rightarrow> nat \<times> FreezeTable" where
  "removeFromFreezeMap t addr =
    (case findAddrSlot t addr of
       None \<Rightarrow> (0, t)
     | Some slot \<Rightarrow>
         let t1 = t\<lparr>freezes := (freezes t)[slot := (freezes t ! slot)\<lparr>fbAddress := 0, fbState := 0\<rparr>]\<rparr>
         in (slot, freeData t1 (fbData (freezes t1 ! slot))))"

definition addToFreezeMap :: "FreezeTable \<Rightarrow> u64 \<Rightarrow> nat \<Rightarrow> u64 \<Rightarrow> u64 \<Rightarrow> nat \<times> FreezeTable" where
  "addToFreezeMap t addr v_data v_size tid =
    (let (slot, t1) =
       (case findAddrSlot t addr of
          None \<Rightarrow> (findNextEmptySlot t, t)
        | Some s \<Rightarrow> (Some s, snd (removeFromFreezeMap t addr)))
     in case slot of
          None \<Rightarrow> (0, t1)
        | Some s \<Rightarrow>
            (s, t1\<lparr>freezes := (freezes t1)[s :=
                  \<lparr>fbState = 1, fbAddress = addr, fbData = v_data, fbSize = v_size, fbTitleId = tid\<rparr>]\<rparr>))"

definition getFreezeCount :: "FreezeTable \<Rightarrow> nat" where
  "getFreezeCount t = length (filter (\<lambda>b. fbState b \<noteq> 0) (freezes t))"

definition clearStep :: "FreezeTable \<times> u8 \<Rightarrow> nat \<Rightarrow> FreezeTable \<times> u8" where
  "clearStep st i =
    (if fbState (freezes (fst st) ! i) \<noteq> 0
     then (snd (removeFromFreezeMap (fst st) (fbAddress (freezes (fst st) ! i))), 1)
     else st)"

definition clearFreezes :: "FreezeTable \<Rightarrow> u8 \<times> FreezeTable" where
  "clearFreezes t =
    (let (t', cleared) = foldl clearStep (t, 0) [0..<FREEZE_DIC_LENGTH] in (cleared, t'))"

subsection \<open>The commands and the freeze thread\<close>

text \<open>
  The three commands of \<open>main.c\<close> after their arguments are parsed.  \<open>malloc\<close> is the
  allocator of the C library: it is given the allocated buffers and names a new one.
\<close>

datatype FreezeCommand =
    CmdFreeze u64 "u8 list" u64
  | CmdUnFreeze u64
  | CmdFreezeClear

fun freezeCommand :: "((nat \<times> u8 list) list \<Rightarrow> nat) \<Rightarrow> FreezeTable \<Rightarrow> FreezeCommand \<Rightarrow> FreezeTable" where
  "freezeCommand malloc t (CmdFreeze addr bytes tid) =
     (let p = malloc (fzHeap t)
      in snd (addToFreezeMap (t\<lparr>fzHeap := (p, bytes) # fzHeap t\<rparr>) addr p (of_nat (length bytes)) tid))"
| "freezeCommand malloc t (CmdUnFreeze addr) = snd (removeFromFreezeMap t addr)"
| "freezeCommand malloc t CmdFreezeClear = snd (clearFreezes t)"

text \<open>
  The pass of \<open>sub_freeze\<close> over the table: the writes it makes for the running title, as target
  addresses and bytes; \<open>None\<close> when it would read a buffer that is not allocated.
\<close>

fun freezePass :: "FreezeTable \<Rightarrow> u64 \<Rightarrow> u64 \<Rightarrow> FreezeBlock list \<Rightarrow> (u64 \<times> u8 list) list option" where
  "freezePass t heap_base tid_now [] = Some []"
| "freezePass t heap_base tid_now (b # bs) =
    (if fbState b = 1 \<and> fbTitleId b = tid_now
     then (case map_of (fzHeap t) (fbData b) of
             None \<Rightarrow> None
           | Some bytes \<Rightarrow>
               if unat (fbSize b) > length bytes then None
               else map_option (Cons (heap_base + fbAddress b, take (unat (fbSize b)) bytes))
                      (freezePass t heap_base tid_now bs))
     else freezePass t heap_base tid_now bs)"

definition freezeWrites :: "FreezeTable \<Rightarrow> u64 \<Rightarrow> u64 \<Rightarrow> (u64 \<times> u8 list) list option" where
  "freezeWrites t heap_base tid_now =
    (if heap_base > 0 then freezePass t heap_base tid_now (freezes t) else Some [])"

subsection \<open>The table as a map\<close>

definition inUse :: "FreezeTable \<Rightarrow> nat \<Rightarrow> bool" where
  "inUse t i \<longleftrightarrow> i < FREEZE_DIC_LENGTH \<and> fbAddress (freezes t ! i) \<noteq> 0"

text \<open>
  The invariant of the table as long as address 0 is never frozen: a slot is in use exactly when
  its address is not 0, the addresses in use differ, and the slots in use own different allocated
  buffers that hold as many bytes as the slot says.
\<close>

definition ownsData :: "FreezeTable \<Rightarrow> FreezeBlock \<Rightarrow> bool" where
  "ownsData t b \<longleftrightarrow> fbData b \<noteq> 0
    \<and> (\<exists>bytes. map_of (fzHeap t) (fbData b) = Some bytes \<and> length bytes = unat (fbSize b))"

definition freezeInv :: "FreezeTable \<Rightarrow> bool" where
  "freezeInv t \<longleftrightarrow>
    length (freezes t) = FREEZE_DIC_LENGTH \<and> \<not> fzBadFree t
    \<and> (\<forall>i < FREEZE_DIC_LENGTH.
         fbState (freezes t ! i) = (if fbAddress (freezes t ! i) = 0 then 0 else 1))
    \<and> (\<forall>i. inUse t i \<longrightarrow> ownsData t (freezes t ! i))
    \<and> (\<forall>i j. inUse t i \<longrightarrow> inUse t j \<longrightarrow> i \<noteq> j \<longrightarrow>
         fbAddress (freezes t ! i) \<noteq> fbAddress (freezes t ! j)
         \<and> fbData (freezes t ! i) \<noteq> fbData (freezes t ! j))"

text \<open>What is frozen at an address: the bytes and the title.\<close>

definition blockView :: "FreezeTable \<Rightarrow> FreezeBlock \<Rightarrow> u8 list \<times> u64" where
  "blockView t b =
    ((case map_of (fzHeap t) (fbData b) of Some bytes \<Rightarrow> bytes | None \<Rightarrow> []), fbTitleId b)"

definition frozenAt :: "FreezeTable \<Rightarrow> u64 \<Rightarrow> (u8 list \<times> u64) option" where
  "frozenAt t addr =
    (if addr = 0 then None
     else map_option (\<lambda>i. blockView t (freezes t ! i)) (findAddrSlot t addr))"

lemma findFrom_Some:
  "findFrom bs addr i = Some k \<Longrightarrow>
    i \<le> k \<and> k - i < length bs \<and> fbAddress (bs ! (k - i)) = addr"
proof (induction bs addr i rule: findFrom.induct)
  case (2 b bs addr i)
  show ?case
  proof (cases "fbAddress b = addr")
    case False
    with 2 have ih: "Suc i \<le> k \<and> k - Suc i < length bs \<and> fbAddress (bs ! (k - Suc i)) = addr" by simp
    then have "k - i = Suc (k - Suc i)" by (metis Suc_diff_Suc Suc_le_eq)
    with ih show ?thesis by simp
  qed (use "2.prems" in simp)
qed simp

lemma findFrom_None: "findFrom bs addr i = None \<longleftrightarrow> (\<forall>b \<in> set bs. fbAddress b \<noteq> addr)"
  by (induction bs addr i rule: findFrom.induct) auto

lemma findAddrSlot_Some:
  "findAddrSlot t addr = Some i \<Longrightarrow> i < length (freezes t) \<and> fbAddress (freezes t ! i) = addr"
  unfolding findAddrSlot_def using findFrom_Some by fastforce

lemma findAddrSlot_None:
  "findAddrSlot t addr = None \<longleftrightarrow> (\<forall>i < length (freezes t). fbAddress (freezes t ! i) \<noteq> addr)"
  unfolding findAddrSlot_def findFrom_None by (simp add: all_set_conv_all_nth)

lemma freezeInv_unique:
  "freezeInv t \<Longrightarrow> inUse t i \<Longrightarrow> inUse t j \<Longrightarrow>
    fbAddress (freezes t ! i) = fbAddress (freezes t ! j) \<Longrightarrow> i = j"
  unfolding freezeInv_def by blast

lemma findAddrSlot_iff:
  assumes "freezeInv t" and "addr \<noteq> 0"
  shows "findAddrSlot t addr = Some i \<longleftrightarrow> inUse t i \<and> fbAddress (freezes t ! i) = addr"
proof
  assume "findAddrSlot t addr = Some i"
  with findAddrSlot_Some [OF this] assms show "inUse t i \<and> fbAddress (freezes t ! i) = addr"
    by (auto simp: inUse_def freezeInv_def)
next
  assume i: "inUse t i \<and> fbAddress (freezes t ! i) = addr"
  then obtain j where j: "findAddrSlot t addr = Some j"
    using findAddrSlot_None [of t addr] assms(1)
    by (cases "findAddrSlot t addr") (auto simp: inUse_def freezeInv_def)
  with findAddrSlot_Some [OF j] i assms have "inUse t j" "fbAddress (freezes t ! j) = addr"
    by (auto simp: inUse_def freezeInv_def)
  with freezeInv_unique [OF assms(1), of i j] i j show "findAddrSlot t addr = Some i" by simp
qed

lemma frozenAt_iff:
  assumes "freezeInv t"
  shows "frozenAt t addr = Some v \<longleftrightarrow>
    (\<exists>i. inUse t i \<and> fbAddress (freezes t ! i) = addr \<and> v = blockView t (freezes t ! i))"
proof (cases "addr = 0")
  case False
  then show ?thesis
    using findAddrSlot_iff [OF assms False] by (auto simp: frozenAt_def)
qed (auto simp: frozenAt_def inUse_def)

lemma frozenAt_eqI:
  assumes "freezeInv t" and "\<And>addr v. m addr = Some v \<longleftrightarrow>
    (\<exists>i. inUse t i \<and> fbAddress (freezes t ! i) = addr \<and> v = blockView t (freezes t ! i))"
  shows "frozenAt t = m"
proof
  fix addr
  have "frozenAt t addr = Some v \<longleftrightarrow> m addr = Some v" for v
    using assms(2) [of addr v] frozenAt_iff [OF assms(1), of addr v] by blast
  then show "frozenAt t addr = m addr" by (metis not_Some_eq)
qed

subsection \<open>Removing and adding\<close>

lemma map_of_filter_ne:
  "map_of (filter (\<lambda>e. fst e \<noteq> d) xs) p = (if p = d then None else map_of xs p)"
  by (induction xs) auto

text \<open>A table whose slot \<open>i\<close> has been cleared and whose buffer has been released.\<close>

definition clearedSlot :: "FreezeTable \<Rightarrow> nat \<Rightarrow> FreezeTable" where
  "clearedSlot t i = t\<lparr>
     freezes := (freezes t)[i := (freezes t ! i)\<lparr>fbAddress := 0, fbState := 0\<rparr>],
     fzHeap := filter (\<lambda>e. fst e \<noteq> fbData (freezes t ! i)) (fzHeap t)\<rparr>"

lemma inUse_length: "freezeInv t \<Longrightarrow> inUse t i \<Longrightarrow> i < length (freezes t)"
  by (simp add: freezeInv_def inUse_def)

lemma removeFromFreezeMap_used:
  assumes inv: "freezeInv t" and "inUse t i" and "fbAddress (freezes t ! i) = addr"
  shows "removeFromFreezeMap t addr = (i, clearedSlot t i)"
proof -
  have "addr \<noteq> 0" using assms by (auto simp: inUse_def)
  then have "findAddrSlot t addr = Some i" using findAddrSlot_iff assms by simp
  moreover have "ownsData t (freezes t ! i)" using inv assms(2) by (simp add: freezeInv_def)
  ultimately show ?thesis
    using inUse_length [OF assms(1,2)]
    by (auto simp: removeFromFreezeMap_def Let_def freeData_def ownsData_def clearedSlot_def)
qed

lemma clearedSlot_inUse: "freezeInv t \<Longrightarrow> inUse t i \<Longrightarrow> inUse (clearedSlot t i) j \<longleftrightarrow> inUse t j \<and> j \<noteq> i"
  using inUse_length by (auto simp: inUse_def clearedSlot_def nth_list_update)

lemma clearedSlot_block: "j \<noteq> i \<Longrightarrow> freezes (clearedSlot t i) ! j = freezes t ! j"
  by (simp add: clearedSlot_def)

lemma clearedSlot_owns:
  "ownsData t b \<Longrightarrow> fbData b \<noteq> fbData (freezes t ! i) \<Longrightarrow> ownsData (clearedSlot t i) b"
  "fbData b \<noteq> fbData (freezes t ! i) \<Longrightarrow> blockView (clearedSlot t i) b = blockView t b"
  by (simp_all add: ownsData_def blockView_def clearedSlot_def map_of_filter_ne)

lemma clearedSlot_spec:
  assumes inv: "freezeInv t" and i: "inUse t i"
  shows "freezeInv (clearedSlot t i)"
    and "frozenAt (clearedSlot t i) = (frozenAt t)(fbAddress (freezes t ! i) := None)"
proof -
  let ?t = "clearedSlot t i"
  have differ: "fbAddress (freezes t ! j) \<noteq> fbAddress (freezes t ! i)
      \<and> fbData (freezes t ! j) \<noteq> fbData (freezes t ! i)" if "inUse t j" "j \<noteq> i" for j
    using inv i that unfolding freezeInv_def by blast
  note used = clearedSlot_inUse [OF inv i] and block = clearedSlot_block [of _ i t]
  have pairs: "fbAddress (freezes t ! j) \<noteq> fbAddress (freezes t ! k)
      \<and> fbData (freezes t ! j) \<noteq> fbData (freezes t ! k)" if "inUse t j" "inUse t k" "j \<noteq> k" for j k
    using inv that unfolding freezeInv_def by blast
  have owns: "ownsData ?t (freezes t ! j)" if "inUse t j" "j \<noteq> i" for j
    using inv that differ [OF that] clearedSlot_owns(1) unfolding freezeInv_def by blast
  have states: "fbState (freezes ?t ! j) = (if fbAddress (freezes ?t ! j) = 0 then 0 else 1)"
    if "j < FREEZE_DIC_LENGTH" for j
    using inv that by (cases "j = i") (simp_all add: clearedSlot_def freezeInv_def)
  show inv': "freezeInv ?t"
    unfolding freezeInv_def
    using inv used block pairs owns states
    by (auto simp: freezeInv_def clearedSlot_def [of t i] simp del: fun_upd_apply)
  show "frozenAt ?t = (frozenAt t)(fbAddress (freezes t ! i) := None)"
  proof (rule frozenAt_eqI [OF inv'])
    fix addr v
    have "(\<exists>j. inUse ?t j \<and> fbAddress (freezes ?t ! j) = addr \<and> v = blockView ?t (freezes ?t ! j))
        \<longleftrightarrow> (\<exists>j. j \<noteq> i \<and> inUse t j \<and> fbAddress (freezes t ! j) = addr \<and> v = blockView t (freezes t ! j))"
      using used block differ clearedSlot_owns(2) by metis
    also have "\<dots> \<longleftrightarrow> addr \<noteq> fbAddress (freezes t ! i) \<and> frozenAt t addr = Some v"
      unfolding frozenAt_iff [OF inv] using differ i by metis
    finally show "((frozenAt t)(fbAddress (freezes t ! i) := None)) addr = Some v \<longleftrightarrow>
      (\<exists>j. inUse ?t j \<and> fbAddress (freezes ?t ! j) = addr \<and> v = blockView ?t (freezes ?t ! j))"
      by simp
  qed
qed

lemma remove_spec:
  assumes inv: "freezeInv t" and "addr \<noteq> 0"
  shows "freezeInv (snd (removeFromFreezeMap t addr))"
    and "frozenAt (snd (removeFromFreezeMap t addr)) = (frozenAt t)(addr := None)"
proof -
  have "freezeInv (snd (removeFromFreezeMap t addr))
    \<and> frozenAt (snd (removeFromFreezeMap t addr)) = (frozenAt t)(addr := None)"
  proof (cases "findAddrSlot t addr")
    case None
    then have "removeFromFreezeMap t addr = (0, t)" "frozenAt t addr = None"
      by (simp_all add: removeFromFreezeMap_def frozenAt_def)
    with inv show ?thesis by (simp add: fun_upd_idem)
  next
    case (Some i)
    then have i: "inUse t i" "fbAddress (freezes t ! i) = addr"
      using findAddrSlot_iff [OF assms] by auto
    from removeFromFreezeMap_used [OF inv i] clearedSlot_spec [OF inv i(1)] i(2)
    show ?thesis by simp
  qed
  then show "freezeInv (snd (removeFromFreezeMap t addr))"
    and "frozenAt (snd (removeFromFreezeMap t addr)) = (frozenAt t)(addr := None)" by auto
qed

text \<open>Filling a free slot with a new buffer.\<close>

definition filledSlot :: "FreezeTable \<Rightarrow> nat \<Rightarrow> FreezeBlock \<Rightarrow> FreezeTable" where
  "filledSlot t i b = t\<lparr>freezes := (freezes t)[i := b]\<rparr>"

lemma filledSlot_spec:
  assumes inv: "freezeInv t" and i: "i < FREEZE_DIC_LENGTH" "fbAddress (freezes t ! i) = 0"
    and b: "fbAddress b \<noteq> 0" "fbState b = 1" "ownsData t b"
    and new: "\<And>j. inUse t j \<Longrightarrow> fbAddress (freezes t ! j) \<noteq> fbAddress b \<and> fbData (freezes t ! j) \<noteq> fbData b"
  shows "freezeInv (filledSlot t i b)"
    and "frozenAt (filledSlot t i b) = (frozenAt t)(fbAddress b \<mapsto> blockView t b)"
proof -
  let ?t = "filledSlot t i b"
  have len: "i < length (freezes t)" using inv i by (simp add: freezeInv_def)
  have block: "freezes ?t ! j = (if j = i then b else freezes t ! j)" for j
    using len by (simp add: filledSlot_def nth_list_update)
  have used: "inUse ?t j \<longleftrightarrow> j = i \<or> inUse t j" for j
    using i b by (auto simp: inUse_def block)
  have free: "\<not> inUse t i" using i by (simp add: inUse_def)
  have same: "ownsData ?t = ownsData t" "blockView ?t = blockView t" "fzBadFree ?t = fzBadFree t"
    "length (freezes ?t) = length (freezes t)"
    by (auto simp: filledSlot_def ownsData_def blockView_def fun_eq_iff)
  have pairs: "fbAddress (freezes t ! j) \<noteq> fbAddress (freezes t ! k)
      \<and> fbData (freezes t ! j) \<noteq> fbData (freezes t ! k)" if "inUse t j" "inUse t k" "j \<noteq> k" for j k
    using inv that unfolding freezeInv_def by blast
  have pairs': "fbAddress (freezes ?t ! j) \<noteq> fbAddress (freezes ?t ! k)
      \<and> fbData (freezes ?t ! j) \<noteq> fbData (freezes ?t ! k)" if "inUse ?t j" "inUse ?t k" "j \<noteq> k" for j k
    using that pairs [of j k] new [of j] new [of k] by (auto simp: block used)
  have owns: "ownsData ?t (freezes ?t ! j)" if "inUse ?t j" for j
    using that b(3) inv by (auto simp: block used same freezeInv_def)
  have states: "fbState (freezes ?t ! j) = (if fbAddress (freezes ?t ! j) = 0 then 0 else 1)"
    if "j < FREEZE_DIC_LENGTH" for j
    using inv that b by (auto simp: block freezeInv_def)
  show inv': "freezeInv ?t"
    unfolding freezeInv_def using inv pairs' owns states by (auto simp: same freezeInv_def)
  show "frozenAt ?t = (frozenAt t)(fbAddress b \<mapsto> blockView t b)"
  proof (rule frozenAt_eqI [OF inv'])
    fix addr v
    have split: "(\<exists>j. inUse ?t j \<and> R j) \<longleftrightarrow> R i \<or> (\<exists>j. inUse t j \<and> R j)" for R
      by (auto simp: used)
    have old: "inUse t j \<Longrightarrow> freezes ?t ! j = freezes t ! j" for j
      using free by (auto simp: block)
    have old_ex: "(\<exists>j. inUse t j \<and> Q (freezes ?t ! j)) \<longleftrightarrow> (\<exists>j. inUse t j \<and> Q (freezes t ! j))" for Q
      using old by metis
    have at_i: "freezes ?t ! i = b" by (simp add: block)
    have "(\<exists>j. inUse ?t j \<and> fbAddress (freezes ?t ! j) = addr \<and> v = blockView ?t (freezes ?t ! j))
      \<longleftrightarrow> (fbAddress b = addr \<and> v = blockView t b)
        \<or> (\<exists>j. inUse t j \<and> fbAddress (freezes t ! j) = addr \<and> v = blockView t (freezes t ! j))"
      unfolding split same(2) at_i
        old_ex [of "\<lambda>b'. fbAddress b' = addr \<and> v = blockView t b'"] ..
    also have "\<dots> \<longleftrightarrow> (fbAddress b = addr \<and> v = blockView t b) \<or> frozenAt t addr = Some v"
      by (simp only: frozenAt_iff [OF inv])
    also have "\<dots> \<longleftrightarrow> ((frozenAt t)(fbAddress b \<mapsto> blockView t b)) addr = Some v"
    proof -
      have "frozenAt t (fbAddress b) = None"
        using new frozenAt_iff [OF inv, of "fbAddress b"] by (metis not_Some_eq)
      then show ?thesis by auto
    qed
    finally show "((frozenAt t)(fbAddress b \<mapsto> blockView t b)) addr = Some v \<longleftrightarrow>
      (\<exists>j. inUse ?t j \<and> fbAddress (freezes ?t ! j) = addr \<and> v = blockView ?t (freezes ?t ! j))" ..
  qed
qed

lemma filledSlot_both:
  assumes "freezeInv t" and "i < FREEZE_DIC_LENGTH" and "fbAddress (freezes t ! i) = 0"
    and "fbAddress b \<noteq> 0" and "fbState b = 1" and "ownsData t b"
    and "\<And>j. inUse t j \<Longrightarrow> fbAddress (freezes t ! j) \<noteq> fbAddress b \<and> fbData (freezes t ! j) \<noteq> fbData b"
  shows "freezeInv (filledSlot t i b)
    \<and> frozenAt (filledSlot t i b) = (frozenAt t)(fbAddress b \<mapsto> blockView t b)"
  using filledSlot_spec [OF assms] by (rule conjI)

text \<open>Counting: the slots in use are as many as the frozen addresses.\<close>

lemma frozen_count:
  assumes inv: "freezeInv t"
  shows "card (dom (frozenAt t)) = getFreezeCount t"
proof -
  have "dom (frozenAt t) = (\<lambda>i. fbAddress (freezes t ! i)) ` {i. inUse t i}"
    unfolding dom_def using frozenAt_iff [OF inv] by (auto simp del: split_paired_Ex)
  moreover have "inj_on (\<lambda>i. fbAddress (freezes t ! i)) {i. inUse t i}"
    using freezeInv_unique [OF inv] by (auto simp: inj_on_def)
  ultimately have "card (dom (frozenAt t)) = card {i. inUse t i}" by (simp add: card_image)
  also have "{i. inUse t i} = {i. i < length (freezes t) \<and> fbState (freezes t ! i) \<noteq> 0}"
    using inv by (auto simp: inUse_def freezeInv_def)
  also have "card \<dots> = getFreezeCount t"
    by (simp add: getFreezeCount_def length_filter_conv_card)
  finally show ?thesis .
qed

lemma empty_slot:
  assumes "freezeInv t" and "getFreezeCount t < FREEZE_DIC_LENGTH"
  shows "\<exists>i. findNextEmptySlot t = Some i \<and> i < FREEZE_DIC_LENGTH \<and> fbAddress (freezes t ! i) = 0"
proof (cases "findNextEmptySlot t")
  case None
  then have "filter (\<lambda>b. fbState b \<noteq> 0) (freezes t) = freezes t"
    using assms(1) by (auto simp: findNextEmptySlot_def findAddrSlot_None freezeInv_def
        filter_id_conv all_set_conv_all_nth)
  with assms show ?thesis by (simp add: getFreezeCount_def freezeInv_def)
next
  case (Some i)
  with findAddrSlot_Some [of t 0 i] assms(1) show ?thesis
    by (simp add: findNextEmptySlot_def freezeInv_def)
qed

lemma full_table:
  assumes "freezeInv t" and "\<not> getFreezeCount t < FREEZE_DIC_LENGTH"
  shows "findNextEmptySlot t = None"
proof -
  have "length (filter (\<lambda>b. fbState b \<noteq> 0) (freezes t)) = length (freezes t)"
    using assms length_filter_le [of "\<lambda>b. fbState b \<noteq> 0" "freezes t"]
    by (simp add: getFreezeCount_def freezeInv_def)
  then have busy: "\<forall>b \<in> set (freezes t). fbState b \<noteq> 0"
    using length_filter_less [of _ "freezes t" "\<lambda>b. fbState b \<noteq> 0"] by fastforce
  have "fbAddress (freezes t ! i) \<noteq> 0" if "i < length (freezes t)" for i
  proof -
    have "fbState (freezes t ! i) \<noteq> 0" using busy nth_mem [OF that] by blast
    moreover have "fbState (freezes t ! i) = (if fbAddress (freezes t ! i) = 0 then 0 else 1)"
      using assms(1) that by (simp add: freezeInv_def)
    ultimately show ?thesis by (metis (full_types))
  qed
  then show ?thesis by (simp add: findNextEmptySlot_def findAddrSlot_None)
qed

text \<open>A buffer just allocated does not disturb the table.\<close>

definition withBuffer :: "FreezeTable \<Rightarrow> nat \<Rightarrow> u8 list \<Rightarrow> FreezeTable" where
  "withBuffer t p bytes = t\<lparr>fzHeap := (p, bytes) # fzHeap t\<rparr>"

lemma withBuffer_spec:
  assumes inv: "freezeInv t" and p: "map_of (fzHeap t) p = None"
  shows "freezeInv (withBuffer t p bytes)" and "frozenAt (withBuffer t p bytes) = frozenAt t"
    and "getFreezeCount (withBuffer t p bytes) = getFreezeCount t"
    and "inUse (withBuffer t p bytes) i \<longleftrightarrow> inUse t i"
    and "inUse t i \<Longrightarrow> fbData (freezes t ! i) \<noteq> p"
proof -
  let ?t = "withBuffer t p bytes"
  have used: "inUse ?t j \<longleftrightarrow> inUse t j" for j by (simp add: inUse_def withBuffer_def)
  show "inUse ?t i \<longleftrightarrow> inUse t i" by (rule used)
  have other: "fbData (freezes t ! j) \<noteq> p" if "inUse t j" for j
    using inv that p unfolding freezeInv_def ownsData_def by fastforce
  then show "inUse t i \<Longrightarrow> fbData (freezes t ! i) \<noteq> p" .
  have owns: "ownsData ?t b = ownsData t b" "blockView ?t b = blockView t b" if "fbData b \<noteq> p" for b
    using that by (simp_all add: ownsData_def blockView_def withBuffer_def)
  show inv': "freezeInv ?t"
  proof -
    have eqs: "freezes ?t = freezes t" "fzBadFree ?t = fzBadFree t" by (simp_all add: withBuffer_def)
    show ?thesis unfolding freezeInv_def used eqs
      using inv other owns(1) unfolding freezeInv_def by blast
  qed
  show "frozenAt ?t = frozenAt t"
  proof (rule frozenAt_eqI [OF inv'])
    fix addr v
    have "freezes ?t = freezes t" by (simp add: withBuffer_def)
    then show "frozenAt t addr = Some v \<longleftrightarrow>
        (\<exists>j. inUse ?t j \<and> fbAddress (freezes ?t ! j) = addr \<and> v = blockView ?t (freezes ?t ! j))"
      unfolding frozenAt_iff [OF inv] used using other owns(2) by metis
  qed
  show "getFreezeCount ?t = getFreezeCount t" by (simp add: getFreezeCount_def withBuffer_def)
qed


lemma add_spec:
  assumes inv: "freezeInv t" and addr: "addr \<noteq> 0" and p: "p \<noteq> 0" "map_of (fzHeap t) p = None"
    and "length bytes < 2 ^ 64"
  shows "freezeInv (snd (addToFreezeMap (withBuffer t p bytes) addr p (of_nat (length bytes)) tid))"
    and "frozenAt (snd (addToFreezeMap (withBuffer t p bytes) addr p (of_nat (length bytes)) tid)) =
      (if frozenAt t addr \<noteq> None \<or> getFreezeCount t < FREEZE_DIC_LENGTH
       then (frozenAt t)(addr \<mapsto> (bytes, tid)) else frozenAt t)"
proof -
  let ?t0 = "withBuffer t p bytes"
  let ?b = "\<lparr>fbState = 1, fbAddress = addr, fbData = p, fbSize = of_nat (length bytes), fbTitleId = tid\<rparr>"
  let ?r = "snd (addToFreezeMap ?t0 addr p (of_nat (length bytes)) tid)"
  note buf = withBuffer_spec [OF inv p(2)]
  have size: "unat (of_nat (length bytes) :: u64) = length bytes"
    using assms(5) by (intro of_nat_inverse [OF refl]) simp
  have slot: "findAddrSlot ?t0 addr = findAddrSlot t addr"
    by (simp add: findAddrSlot_def withBuffer_def)
  have "freezeInv ?r \<and> frozenAt ?r = (if frozenAt t addr \<noteq> None \<or> getFreezeCount t < FREEZE_DIC_LENGTH
       then (frozenAt t)(addr \<mapsto> (bytes, tid)) else frozenAt t)"
  proof (cases "findAddrSlot t addr")
    case (Some i)
    then have i0: "inUse ?t0 i" "fbAddress (freezes ?t0 ! i) = addr"
      using findAddrSlot_iff [OF inv addr] buf(4) by (auto simp: withBuffer_def)
    let ?t1 = "clearedSlot ?t0 i"
    note cleared = clearedSlot_spec [OF buf(1) i0(1)]
    have own: "ownsData ?t1 ?b" "blockView ?t1 ?b = (bytes, tid)"
    proof -
      have "fbData (freezes ?t0 ! i) \<noteq> p"
        using buf(5) [of i] i0(1) buf(4) by (simp add: withBuffer_def)
      then have "map_of (fzHeap ?t1) p = Some bytes"
        by (simp add: clearedSlot_def map_of_filter_ne withBuffer_def)
      then show "ownsData ?t1 ?b" "blockView ?t1 ?b = (bytes, tid)"
        using p(1) size by (simp_all add: ownsData_def blockView_def)
    qed
    have "freezeInv (filledSlot ?t1 i ?b)
      \<and> frozenAt (filledSlot ?t1 i ?b) = (frozenAt ?t1)(fbAddress ?b \<mapsto> blockView ?t1 ?b)"
    proof (rule filledSlot_both [OF cleared(1)])
      show "i < FREEZE_DIC_LENGTH" using i0(1) by (simp add: inUse_def)
      show "fbAddress (freezes ?t1 ! i) = 0"
        using inUse_length [OF buf(1) i0(1)] by (simp add: clearedSlot_def)
      fix j assume "inUse ?t1 j"
      then have j: "inUse ?t0 j" "j \<noteq> i" using clearedSlot_inUse [OF buf(1) i0(1)] by auto
      then have "fbAddress (freezes ?t0 ! j) \<noteq> addr"
        using freezeInv_unique [OF buf(1) j(1) i0(1)] i0(2) by auto
      moreover have "fbData (freezes ?t0 ! j) \<noteq> p"
        using buf(5) [of j] buf(4) j(1) by (simp add: withBuffer_def)
      ultimately show "fbAddress (freezes ?t1 ! j) \<noteq> fbAddress ?b \<and> fbData (freezes ?t1 ! j) \<noteq> fbData ?b"
        using clearedSlot_block [OF j(2)] by simp
    qed (use own addr in simp_all)
    moreover have "?r = filledSlot ?t1 i ?b"
      using removeFromFreezeMap_used [OF buf(1) i0]
      by (simp add: addToFreezeMap_def slot Some filledSlot_def)
    moreover have "frozenAt t addr \<noteq> None" using Some addr by (simp add: frozenAt_def)
    ultimately show ?thesis using cleared(2) i0(2) own(2) buf(2) by simp
  next
    case None
    then have none: "frozenAt t addr = None" by (simp add: frozenAt_def)
    show ?thesis
    proof (cases "getFreezeCount t < FREEZE_DIC_LENGTH")
      case True
      then obtain i where i: "findNextEmptySlot ?t0 = Some i" "i < FREEZE_DIC_LENGTH"
        "fbAddress (freezes ?t0 ! i) = 0"
        using empty_slot [OF buf(1)] buf(3) by auto
      have own: "ownsData ?t0 ?b" "blockView ?t0 ?b = (bytes, tid)"
        using p(1) size by (simp_all add: ownsData_def blockView_def withBuffer_def)
      have "freezeInv (filledSlot ?t0 i ?b)
        \<and> frozenAt (filledSlot ?t0 i ?b) = (frozenAt ?t0)(fbAddress ?b \<mapsto> blockView ?t0 ?b)"
      proof (rule filledSlot_both [OF buf(1) i(2,3)])
        fix j assume j: "inUse ?t0 j"
        then have "fbAddress (freezes t ! j) \<noteq> addr"
          using None inUse_length [OF inv, of j] buf(4) by (simp add: findAddrSlot_None)
        then show "fbAddress (freezes ?t0 ! j) \<noteq> fbAddress ?b \<and> fbData (freezes ?t0 ! j) \<noteq> fbData ?b"
          using buf(5) [of j] buf(4) j by (simp add: withBuffer_def)
      qed (use own addr in simp_all)
      moreover have "?r = filledSlot ?t0 i ?b"
        by (simp add: addToFreezeMap_def slot None i(1) filledSlot_def)
      ultimately show ?thesis using True own(2) buf(2) by simp
    next
      case False
      then have "?r = ?t0"
        using full_table [OF buf(1)] buf(3) by (simp add: addToFreezeMap_def slot None)
      with False none buf(1,2) show ?thesis by simp
    qed
  qed
  then show "freezeInv ?r" and "frozenAt ?r =
      (if frozenAt t addr \<noteq> None \<or> getFreezeCount t < FREEZE_DIC_LENGTH
       then (frozenAt t)(addr \<mapsto> (bytes, tid)) else frozenAt t)" by auto
qed


subsection \<open>Clearing\<close>

lemma clear_loop:
  assumes "freezeInv t" and "k \<le> FREEZE_DIC_LENGTH"
  shows "freezeInv (fst (foldl clearStep (t, c) [0..<k]))
    \<and> (\<forall>i. inUse (fst (foldl clearStep (t, c) [0..<k])) i \<longleftrightarrow> inUse t i \<and> k \<le> i)"
  using assms(2)
proof (induction k)
  case (Suc k)
  let ?st = "foldl clearStep (t, c) [0..<k]"
  have ih: "freezeInv (fst ?st)" "\<And>i. inUse (fst ?st) i \<longleftrightarrow> inUse t i \<and> k \<le> i"
    using Suc by auto
  have state: "fbState (freezes (fst ?st) ! k) \<noteq> 0 \<longleftrightarrow> inUse (fst ?st) k"
    using ih(1) Suc.prems by (simp add: freezeInv_def inUse_def)
  show ?case
  proof (cases "inUse (fst ?st) k")
    case True
    then have step: "fst (foldl clearStep (t, c) [0..<Suc k]) = clearedSlot (fst ?st) k"
      using state removeFromFreezeMap_used [OF ih(1) True refl] by (simp add: clearStep_def)
    have "inUse (clearedSlot (fst ?st) k) i \<longleftrightarrow> inUse t i \<and> Suc k \<le> i" for i
      unfolding clearedSlot_inUse [OF ih(1) True] ih(2) by auto
    with clearedSlot_spec(1) [OF ih(1) True] show ?thesis unfolding step by blast
  next
    case False
    then have step: "foldl clearStep (t, c) [0..<Suc k] = ?st"
      using state by (simp add: clearStep_def)
    show ?thesis unfolding step
      using ih False by (metis Suc_leD le_antisym not_less_eq_eq)
  qed
qed (use assms(1) in simp)

lemma clearFreezes_spec:
  assumes "freezeInv t"
  shows "freezeInv (snd (clearFreezes t))" and "frozenAt (snd (clearFreezes t)) = Map.empty"
proof -
  have eq: "snd (clearFreezes t) = fst (foldl clearStep (t, 0) [0..<FREEZE_DIC_LENGTH])"
    by (simp add: clearFreezes_def split_beta)
  note loop = clear_loop [OF assms order_refl, of 0]
  then show inv: "freezeInv (snd (clearFreezes t))" by (simp add: eq)
  have "\<not> inUse (snd (clearFreezes t)) i" for i
    using loop by (simp add: eq) (simp add: inUse_def)
  then show "frozenAt (snd (clearFreezes t)) = Map.empty"
    by (intro frozenAt_eqI [OF inv]) auto
qed

subsection \<open>The commands refine a finite map\<close>

fun specCommand :: "(u64 \<Rightarrow> (u8 list \<times> u64) option) \<Rightarrow> FreezeCommand
    \<Rightarrow> (u64 \<Rightarrow> (u8 list \<times> u64) option)" where
  "specCommand m (CmdFreeze addr bytes tid) =
    (if m addr \<noteq> None \<or> card (dom m) < FREEZE_DIC_LENGTH then m(addr \<mapsto> (bytes, tid)) else m)"
| "specCommand m (CmdUnFreeze addr) = m(addr := None)"
| "specCommand m CmdFreezeClear = Map.empty"

fun okCommand :: "FreezeCommand \<Rightarrow> bool" where
  "okCommand (CmdFreeze addr bytes tid) \<longleftrightarrow> addr \<noteq> 0 \<and> length bytes < 2 ^ 64"
| "okCommand (CmdUnFreeze addr) \<longleftrightarrow> addr \<noteq> 0"
| "okCommand CmdFreezeClear \<longleftrightarrow> True"

text \<open>The allocator's contract: a new buffer is not \<open>NULL\<close> and not one that is allocated.\<close>

definition mallocOk :: "((nat \<times> u8 list) list \<Rightarrow> nat) \<Rightarrow> bool" where
  "mallocOk malloc \<longleftrightarrow> (\<forall>heap. malloc heap \<noteq> 0 \<and> map_of heap (malloc heap) = None)"

interpretation frozen: simulation "freezeCommand malloc" "\<lambda>t. mallocOk malloc \<and> freezeInv t"
    okCommand frozenAt specCommand for malloc
proof unfold_locales
  fix t c
  assume inv: "mallocOk malloc \<and> freezeInv t" and ok: "okCommand c"
  have "freezeInv (freezeCommand malloc t c)
    \<and> frozenAt (freezeCommand malloc t c) = specCommand (frozenAt t) c"
  proof (cases c)
    case (CmdFreeze addr bytes tid)
    have p: "malloc (fzHeap t) \<noteq> 0" "map_of (fzHeap t) (malloc (fzHeap t)) = None"
      using inv by (simp_all add: mallocOk_def)
    with add_spec [of t addr "malloc (fzHeap t)" bytes tid] inv ok CmdFreeze show ?thesis
      by (simp add: Let_def frozen_count flip: withBuffer_def)
  next
    case (CmdUnFreeze addr)
    with remove_spec [of t addr] inv ok show ?thesis by simp
  next
    case CmdFreezeClear
    with clearFreezes_spec [of t] inv show ?thesis by simp
  qed
  with inv show "mallocOk malloc \<and> freezeInv (freezeCommand malloc t c)"
    and "frozenAt (freezeCommand malloc t c) = specCommand (frozenAt t) c" by auto
qed

lemma initFreezes_spec: "freezeInv initFreezes" "frozenAt initFreezes = Map.empty"
proof -
  have none: "\<not> inUse initFreezes i" for i by (simp add: inUse_def initFreezes_def)
  show inv: "freezeInv initFreezes"
    unfolding freezeInv_def using none by (simp add: initFreezes_def)
  show "frozenAt initFreezes = Map.empty"
    by (rule frozenAt_eqI [OF inv]) (use none in auto)
qed

text \<open>
  The ownership of the payload buffers: every slot in use has an allocated buffer of the size it
  records, and no two slots share one.
\<close>

definition ownBuffers :: "FreezeTable \<Rightarrow> bool" where
  "ownBuffers t \<longleftrightarrow> (\<forall>i. inUse t i \<longrightarrow> ownsData t (freezes t ! i))
    \<and> (\<forall>i j. inUse t i \<longrightarrow> inUse t j \<longrightarrow> fbData (freezes t ! i) = fbData (freezes t ! j) \<longrightarrow> i = j)"

lemma freezeInv_ownBuffers: "freezeInv t \<Longrightarrow> ownBuffers t"
  unfolding freezeInv_def ownBuffers_def by blast

lemma commands_freezeInv:
  "mallocOk malloc \<Longrightarrow> list_all okCommand cs \<Longrightarrow> freezeInv (foldl (freezeCommand malloc) initFreezes cs)"
  using frozen.run_inv [of malloc initFreezes cs] initFreezes_spec by simp

text \<open>
  C8: as long as no command names address 0 and the allocator works, the table is a map of at most
  255 entries.  After any sequence of \<open>freeze\<close>, \<open>unFreeze\<close> and \<open>freezeClear\<close> commands the
  frozen addresses, their bytes and titles are those of the abstract map, in which a freeze of a new
  address is dropped when all slots are taken; every slot in use owns an allocated buffer of the size
  it records, no two slots the same one; no buffer was released twice; and the reported count is the
  number of frozen addresses.  (The buffer of a dropped freeze belongs to no slot and is lost.)
\<close>

theorem freeze_commands_refine:
  assumes "mallocOk malloc" and "list_all okCommand cs"
  shows "let t = foldl (freezeCommand malloc) initFreezes cs
    in frozenAt t = foldl specCommand Map.empty cs \<and> ownBuffers t \<and> \<not> fzBadFree t
      \<and> getFreezeCount t = card (dom (foldl specCommand Map.empty cs))"
proof -
  let ?t = "foldl (freezeCommand malloc) initFreezes cs"
  note inv = commands_freezeInv [OF assms]
  moreover have "frozenAt ?t = foldl specCommand Map.empty cs"
    using frozen.run_view [of malloc initFreezes cs] assms initFreezes_spec by simp
  ultimately show ?thesis
    using frozen_count [OF inv] freezeInv_ownBuffers [OF inv] by (simp add: Let_def freezeInv_def)
qed

text \<open>An allocator that hands out the next pointer.\<close>

definition nextPointer :: "(nat \<times> u8 list) list \<Rightarrow> nat" where
  "nextPointer heap = Suc (foldr max (map fst heap) 0)"

lemma nextPointer_ok: "mallocOk nextPointer"
proof -
  have "fst e \<le> foldr max (map fst heap) 0" if "e \<in> set heap" for e and heap :: "(nat \<times> u8 list) list"
    using that by (induction heap) auto
  then have "map_of heap (nextPointer heap) = None" for heap
    unfolding map_of_eq_None_iff nextPointer_def by fastforce
  then show ?thesis by (simp add: mallocOk_def nextPointer_def)
qed

lemma freeze_commands_refine_witness:
  "frozenAt (foldl (freezeCommand nextPointer) initFreezes
      [CmdFreeze 0x40 [1, 2] 7, CmdFreeze 0x80 [3] 7, CmdFreeze 0x40 [9] 7, CmdUnFreeze 0x80]) 0x40
    = Some ([9], 7)"
proof -
  let ?cs = "[CmdFreeze 0x40 [1, 2] 7, CmdFreeze 0x80 [3] 7, CmdFreeze 0x40 [9] 7, CmdUnFreeze 0x80]"
  have "frozenAt (foldl (freezeCommand nextPointer) initFreezes ?cs) 0x40
      = foldl specCommand Map.empty ?cs 0x40"
    using freeze_commands_refine [OF nextPointer_ok, of ?cs] by (simp add: Let_def del: foldl.simps)
  also have "foldl specCommand Map.empty ?cs 0x40 = Some ([9], 7)"
    by (simp add: FREEZE_DIC_LENGTH_def)
  finally show ?thesis by simp
qed

subsection \<open>The writes of the freeze thread\<close>

lemma freezePass_map:
  assumes "\<And>b. b \<in> set bs \<Longrightarrow> fbState b = 1 \<Longrightarrow> ownsData t b"
  shows "freezePass t heap_base tid bs =
    Some (map (\<lambda>b. (heap_base + fbAddress b, fst (blockView t b)))
           (filter (\<lambda>b. fbState b = 1 \<and> fbTitleId b = tid) bs))"
  using assms
proof (induction bs)
  case (Cons b bs)
  then have rest: "freezePass t heap_base tid bs =
    Some (map (\<lambda>b. (heap_base + fbAddress b, fst (blockView t b)))
           (filter (\<lambda>b. fbState b = 1 \<and> fbTitleId b = tid) bs))" by simp
  have "fbState b = 1 \<Longrightarrow> ownsData t b" using Cons.prems by simp
  with rest show ?case by (auto simp: ownsData_def blockView_def)
qed simp

lemma distinct_addresses:
  assumes "\<And>i j. i < length bs \<Longrightarrow> j < length bs \<Longrightarrow> fbState (bs ! i) = 1 \<Longrightarrow> fbState (bs ! j) = 1 \<Longrightarrow>
      fbAddress (bs ! i) = fbAddress (bs ! j) \<Longrightarrow> i = j"
  shows "distinct (map (\<lambda>b. heap_base + fbAddress b) (filter (\<lambda>b. fbState b = 1) bs))"
  using assms
proof (induction bs)
  case (Cons b bs)
  have "distinct (map (\<lambda>b. heap_base + fbAddress b) (filter (\<lambda>b. fbState b = 1) bs))"
    using Cons.prems [of "Suc _" "Suc _"] by (intro Cons.IH) auto
  moreover have "fbAddress c \<noteq> fbAddress b" if "c \<in> set bs" "fbState c = 1" "fbState b = 1" for c
    using that Cons.prems [of 0 "Suc _"] by (metis Suc_less_eq Zero_neq_Suc in_set_conv_nth
        length_Cons nth_Cons_0 nth_Cons_Suc zero_less_Suc)
  ultimately show ?case by (auto dest: sym)
qed simp

lemma freezeWrites_of_inv:
  assumes "freezeInv t" and "heap_base > 0"
  shows "\<exists>ws. freezeWrites t heap_base tid = Some ws \<and> distinct (map fst ws)
    \<and> set ws = {(heap_base + addr, bytes) |addr bytes. frozenAt t addr = Some (bytes, tid)}"
proof -
  let ?P = "\<lambda>b. fbState b = 1 \<and> fbTitleId b = tid"
  let ?f = "\<lambda>b. (heap_base + fbAddress b, fst (blockView t b))"
  have used: "inUse t i \<longleftrightarrow> i < length (freezes t) \<and> fbState (freezes t ! i) = 1" for i
    using assms(1) by (auto simp: inUse_def freezeInv_def)
  have owns: "b \<in> set (freezes t) \<Longrightarrow> fbState b = 1 \<Longrightarrow> ownsData t b" for b
    using used assms(1) by (metis freezeInv_def in_set_conv_nth)
  then have run: "freezeWrites t heap_base tid = Some (map ?f (filter ?P (freezes t)))"
    using assms(2) freezePass_map [of "freezes t" t heap_base tid] by (simp add: freezeWrites_def)
  have inj: "fbAddress (freezes t ! i) = fbAddress (freezes t ! j) \<Longrightarrow> i = j"
    if "inUse t i" "inUse t j" for i j using freezeInv_unique [OF assms(1) that] .
  have "distinct (map (\<lambda>b. heap_base + fbAddress b) (filter (\<lambda>b. fbState b = 1) (freezes t)))"
    by (rule distinct_addresses) (use inj used in blast)
  then have "distinct (map (\<lambda>b. heap_base + fbAddress b)
      (filter (\<lambda>b. fbTitleId b = tid) (filter (\<lambda>b. fbState b = 1) (freezes t))))"
    by (rule distinct_map_filter)
  then have dist: "distinct (map fst (map ?f (filter ?P (freezes t))))"
    by (simp add: comp_def conj_commute)
  have "set (map ?f (filter ?P (freezes t)))
      = {(heap_base + addr, bytes) |addr bytes. frozenAt t addr = Some (bytes, tid)}"
  proof (rule set_eqI)
    fix w :: "u64 \<times> u8 list"
    have *: "(addr', bytes') \<in> set (map ?f (filter ?P (freezes t))) \<longleftrightarrow>
      (\<exists>addr. addr' = heap_base + addr \<and> frozenAt t addr = Some (bytes', tid))" for addr' bytes'
      unfolding frozenAt_iff [OF assms(1)] used
      by (auto simp: in_set_conv_nth blockView_def)
    obtain a b where w: "w = (a, b)" by force
    show "w \<in> set (map ?f (filter ?P (freezes t)))
      \<longleftrightarrow> w \<in> {(heap_base + addr, bytes) |addr bytes. frozenAt t addr = Some (bytes, tid)}"
      unfolding w * by blast
  qed
  with run dist show ?thesis by blast
qed

text \<open>
  C9: after any sequence of freeze commands at addresses other than 0, with a working allocator, the
  freeze thread writes exactly the frozen values of the running title: at heap base plus each frozen
  offset the bytes last frozen there for that title, each offset once, reading no buffer that is not
  allocated; nothing for another title, and nothing while the heap base is unknown.
\<close>

theorem freezeWrites_exact:
  assumes "mallocOk malloc" and "list_all okCommand cs"
  shows "\<exists>ws. freezeWrites (foldl (freezeCommand malloc) initFreezes cs) heap_base tid = Some ws
    \<and> distinct (map fst ws)
    \<and> set ws = (if heap_base = 0 then {}
        else {(heap_base + addr, bytes) |addr bytes. foldl specCommand Map.empty cs addr = Some (bytes, tid)})"
proof (cases "heap_base = 0")
  case False
  have "frozenAt (foldl (freezeCommand malloc) initFreezes cs) = foldl specCommand Map.empty cs"
    using frozen.run_view [of malloc initFreezes cs] assms initFreezes_spec by simp
  with freezeWrites_of_inv [OF commands_freezeInv [OF assms], of heap_base tid] False show ?thesis
    by (simp add: word_gt_0)
qed (simp add: freezeWrites_def)

lemma freezeWrites_exact_witness:
  "\<exists>ws. freezeWrites (foldl (freezeCommand nextPointer) initFreezes
      [CmdFreeze 0x40 [1, 2] 7, CmdFreeze 0x80 [3] 8, CmdFreeze 0x40 [9] 7]) 0x1000 7 = Some ws
    \<and> set ws = {(0x1040, [9])}"
proof -
  let ?cs = "[CmdFreeze 0x40 [1, 2] 7, CmdFreeze 0x80 [3] 8, CmdFreeze 0x40 [9] 7]"
  have spec: "foldl specCommand Map.empty ?cs = [0x80 \<mapsto> ([3], 8), 0x40 \<mapsto> ([9], 7)]"
    by (simp add: FREEZE_DIC_LENGTH_def fun_upd_twist)
  have at: "[0x80 \<mapsto> ([3], 8), 0x40 \<mapsto> ([9], 7 :: u64)] addr = Some (bytes, 7) \<longleftrightarrow> addr = 0x40 \<and> bytes = [9]"
    for addr :: u64 and bytes :: "u8 list" by auto
  have "{(0x1000 + addr, bytes) |addr bytes.
      [0x80 \<mapsto> ([3], 8), 0x40 \<mapsto> ([9], 7 :: u64)] addr = Some (bytes, 7)} = {(0x1040 :: u64, [9 :: u8])}"
    unfolding at by auto
  with freezeWrites_exact [OF nextPointer_ok, of ?cs "0x1000" 7] spec show ?thesis
    by (auto simp del: foldl.simps)
qed

text \<open>
  C10: address 0 breaks the table.  An empty slot has address 0, so \<open>unFreeze 0\<close> (which is also
  what \<open>parseStringToInt\<close> makes of a mistyped argument) finds an empty slot and releases its
  stale buffer a second time: after freezing and unfreezing any address, it is a double free.
\<close>

theorem unfreeze_zero_double_free:
  assumes "mallocOk malloc" and "addr \<noteq> 0"
  shows "fzBadFree (foldl (freezeCommand malloc) initFreezes
    [CmdFreeze addr bytes tid, CmdUnFreeze addr, CmdUnFreeze 0])"
proof -
  let ?e = "\<lparr>fbState = 0, fbAddress = 0, fbData = 0, fbSize = 0, fbTitleId = 0\<rparr>"
  let ?p = "malloc []" and ?rest = "replicate 254 ?e"
  let ?b = "\<lparr>fbState = 1, fbAddress = addr, fbData = ?p, fbSize = of_nat (length bytes), fbTitleId = tid\<rparr>"
  have p: "?p \<noteq> 0" using assms(1) by (simp add: mallocOk_def)
  have "FREEZE_DIC_LENGTH = Suc 254" by (simp add: FREEZE_DIC_LENGTH_def)
  then have table: "replicate FREEZE_DIC_LENGTH ?e = ?e # ?rest" by (metis replicate_Suc)
  have none: "findFrom ?rest addr i = None" for i using assms(2) by (simp add: findFrom_None)
  have one: "freezeCommand malloc initFreezes (CmdFreeze addr bytes tid)
      = \<lparr>freezes = ?b # ?rest, fzHeap = [(?p, bytes)], fzBadFree = False\<rparr>"
    using assms(2) none unfolding initFreezes_def table
    by (simp add: addToFreezeMap_def findAddrSlot_def findNextEmptySlot_def Let_def)
  have two: "freezeCommand malloc \<dots> (CmdUnFreeze addr)
      = \<lparr>freezes = ?b\<lparr>fbAddress := 0, fbState := 0\<rparr> # ?rest, fzHeap = [], fzBadFree = False\<rparr>"
    using p by (simp add: removeFromFreezeMap_def findAddrSlot_def freeData_def Let_def)
  have "fzBadFree (freezeCommand malloc \<dots> (CmdUnFreeze 0))"
    using p by (simp add: removeFromFreezeMap_def findAddrSlot_def freeData_def Let_def)
  then show ?thesis by (simp only: foldl.simps one two)
qed

lemma unfreeze_zero_double_free_witness:
  "fzBadFree (foldl (freezeCommand nextPointer) initFreezes
    [CmdFreeze 0x10 [1] 7, CmdUnFreeze 0x10, CmdUnFreeze 0])"
  using unfreeze_zero_double_free [OF nextPointer_ok, of "0x10" "[1]" 7] by (simp del: foldl.simps)

end
