(* ===== verification/TraceModel.thy ===== *)
theory TraceModel
  imports NumParse
begin

text \<open>
  \<open>debug_trace_model.c\<close>: the pure part of the breakpoint tracer.  The syntax of a memory
  snapshot request (\<open>x0+0x10:64\<close>), the address it denotes at a hit, the validation of a trace
  configuration, and the index arithmetic of the ring of recorded hits.

  \<open>base\<close> and \<open>registerIndex\<close> are bytes in the source, so a specification can hold a base
  that is none of the enumeration; the model keeps the byte.
\<close>

definition DEBUG_TRACE_RING_MAX :: u32 where "DEBUG_TRACE_RING_MAX = 64"
definition DEBUG_TRACE_ARGS_MAX :: u32 where "DEBUG_TRACE_ARGS_MAX = 8"
definition DEBUG_TRACE_TARGET_MAX :: u32 where "DEBUG_TRACE_TARGET_MAX = 4"
definition DEBUG_TRACE_SNAPSHOT_MAX :: u32 where "DEBUG_TRACE_SNAPSHOT_MAX = 2"
definition DEBUG_TRACE_SNAPSHOT_BYTES_MAX :: nat where "DEBUG_TRACE_SNAPSHOT_BYTES_MAX = 0x100"

definition DebugTraceSnapshotBase_Gpr :: u8 where "DebugTraceSnapshotBase_Gpr = 0"
definition DebugTraceSnapshotBase_Sp :: u8 where "DebugTraceSnapshotBase_Sp = 1"
definition DebugTraceSnapshotBase_Pc :: u8 where "DebugTraceSnapshotBase_Pc = 2"
definition DebugTraceSnapshotBase_Lr :: u8 where "DebugTraceSnapshotBase_Lr = 3"

lemmas base_defs = DebugTraceSnapshotBase_Gpr_def DebugTraceSnapshotBase_Sp_def
  DebugTraceSnapshotBase_Pc_def DebugTraceSnapshotBase_Lr_def

text \<open>\<open>offset\<close> is an \<open>int64_t\<close>: the integer it stands for.\<close>

record DebugTraceSnapshotSpec =
  snBase :: u8
  snRegister :: u8
  snOffset :: int
  snSize :: u32

record DebugTraceConfigModel =
  cfAddresses :: "u64 list"
  cfTargetCount :: u32
  cfMaxHits :: u32
  cfDurationSeconds :: u64
  cfRingSize :: u32
  cfArgsCount :: u32
  cfSnapshots :: "DebugTraceSnapshotSpec list"
  cfSnapshotCount :: u32

subsection \<open>Parsing\<close>

text \<open>The two parsers of this file carry its name; \<open>util.c\<close> and others have their own.\<close>

definition traceParseUnsigned :: "string option \<Rightarrow> u64 option" where
  "traceParseUnsigned arg =
    (case arg of
       None \<Rightarrow> None
     | Some text \<Rightarrow>
         if text = [] \<or> hd text = CHR ''+'' \<or> hd text = CHR ''-'' then None
         else
           (let base = (if hasHexPrefix text then 16 else 10);
                digits = (if hasHexPrefix text then drop 2 text else text)
            in if digits = [] then None
               else
                 (let r = strtoull digits base
                  in if stRange r \<or> \<not> stConverted r \<or> stRest r \<noteq> [] then None
                     else Some (word_of_int (stValue r)))))"

definition parseUnsignedRange :: "string \<Rightarrow> nat \<Rightarrow> u64 option" where
  "parseUnsignedRange text len =
    (if len = 0 \<or> len \<ge> 64 then None
     else traceParseUnsigned (Some (take len text)))"

text \<open>
  The register named by the first \<open>len\<close> bytes: base and index.  The three-byte token ends at
  its first NUL; the source text is a C string, so it has none.
\<close>

definition parseRegisterName :: "string \<Rightarrow> nat \<Rightarrow> (u8 \<times> u8) option" where
  "parseRegisterName text len =
    (if len = 2 \<and> take 2 text = ''sp'' then Some (DebugTraceSnapshotBase_Sp, 0)
     else if len = 2 \<and> take 2 text = ''pc'' then Some (DebugTraceSnapshotBase_Pc, 0)
     else if len = 2 \<and> take 2 text = ''lr'' then Some (DebugTraceSnapshotBase_Lr, 0)
     else if len < 2 \<or> len > 3 \<or> hd text \<noteq> CHR ''x'' then None
     else
       (case traceParseUnsigned (Some (take (len - 1) (drop 1 text))) of
          None \<Rightarrow> None
        | Some index \<Rightarrow>
            if index > 30 then None else Some (DebugTraceSnapshotBase_Gpr, ucast index)))"

definition debugTraceAddressIsValid :: "u64 \<Rightarrow> bool" where
  "debugTraceAddressIsValid address \<longleftrightarrow> address \<noteq> 0 \<and> address AND 3 = 0"

definition debugTraceSnapshotSpecIsValid :: "DebugTraceSnapshotSpec \<Rightarrow> bool" where
  "debugTraceSnapshotSpecIsValid spec \<longleftrightarrow>
    snBase spec \<le> DebugTraceSnapshotBase_Lr
    \<and> \<not> (snBase spec = DebugTraceSnapshotBase_Gpr \<and> snRegister spec > 30)
    \<and> snSize spec > 0 \<and> snSize spec \<le> of_nat DEBUG_TRACE_SNAPSHOT_BYTES_MAX"

definition isSign :: "char \<Rightarrow> bool" where
  "isSign c \<longleftrightarrow> c = CHR ''+'' \<or> c = CHR ''-''"

definition debugTraceParseSnapshotSpec :: "string option \<Rightarrow> DebugTraceSnapshotSpec option" where
  "debugTraceParseSnapshotSpec arg =
    (case arg of
       None \<Rightarrow> None
     | Some text \<Rightarrow>
         (case strchrSplit (CHR '':'') text of
            None \<Rightarrow> None
          | Some (front, back) \<Rightarrow>
              if front = [] then None
              else
                (case traceParseUnsigned (Some back) of
                   None \<Rightarrow> None
                 | Some bytes \<Rightarrow>
                     if bytes = 0 \<or> bytes > of_nat DEBUG_TRACE_SNAPSHOT_BYTES_MAX then None
                     else
                       (let baseEnd = length (takeWhile (\<lambda>c. \<not> isSign c) front)
                        in case parseRegisterName text baseEnd of
                             None \<Rightarrow> None
                           | Some (base, reg) \<Rightarrow>
                               (case (if baseEnd < length front
                                      then (case parseUnsignedRange (drop (baseEnd + 1) text)
                                                   (length front - baseEnd - 1) of
                                              None \<Rightarrow> None
                                            | Some magnitude \<Rightarrow>
                                                if magnitude > 0x7FFFFFFFFFFFFFFF then None
                                                else Some (if front ! baseEnd = CHR ''-''
                                                           then - uint magnitude else uint magnitude))
                                      else Some 0) of
                                  None \<Rightarrow> None
                                | Some offset \<Rightarrow>
                                    (let parsed = \<lparr>snBase = base, snRegister = reg, snOffset = offset,
                                                   snSize = ucast bytes\<rparr>
                                     in if \<not> debugTraceSnapshotSpecIsValid parsed then None
                                        else Some parsed))))))"

subsection \<open>The address of a snapshot\<close>

definition debugTraceComputeSnapshotAddress ::
  "DebugTraceSnapshotSpec \<Rightarrow> u64 list \<Rightarrow> u64 \<Rightarrow> u64 \<Rightarrow> u64 \<Rightarrow> u64 option" where
  "debugTraceComputeSnapshotAddress spec gprs sp pc lr =
    (if \<not> debugTraceSnapshotSpecIsValid spec then None
     else
       (let base = (if snBase spec = DebugTraceSnapshotBase_Gpr then gprs ! unat (snRegister spec)
                    else if snBase spec = DebugTraceSnapshotBase_Sp then sp
                    else if snBase spec = DebugTraceSnapshotBase_Pc then pc
                    else lr)
        in if snOffset spec \<ge> 0
           then (let offset = word_of_int (snOffset spec)
                 in if base > U64_MAX - offset then None else Some (base + offset))
           else (let magnitude = word_of_int (- (snOffset spec + 1)) + 1
                 in if base < magnitude then None else Some (base - magnitude))))"

subsection \<open>The configuration\<close>

fun distinctPrefix :: "u64 list \<Rightarrow> nat \<Rightarrow> nat \<Rightarrow> bool" where
  "distinctPrefix addresses i 0 = True"
| "distinctPrefix addresses i (Suc prior) =
    (addresses ! prior \<noteq> addresses ! i \<and> distinctPrefix addresses i prior)"

definition debugTraceConfigIsValid :: "DebugTraceConfigModel option \<Rightarrow> bool" where
  "debugTraceConfigIsValid arg =
    (case arg of
       None \<Rightarrow> False
     | Some config \<Rightarrow>
         cfTargetCount config \<noteq> 0 \<and> cfTargetCount config \<le> DEBUG_TRACE_TARGET_MAX
         \<and> list_all (\<lambda>i. debugTraceAddressIsValid (cfAddresses config ! i)
                        \<and> distinctPrefix (cfAddresses config) i i) [0..<unat (cfTargetCount config)]
         \<and> \<not> (cfMaxHits config = 0 \<and> cfRingSize config = 0)
         \<and> cfRingSize config \<le> DEBUG_TRACE_RING_MAX
         \<and> cfArgsCount config \<le> DEBUG_TRACE_ARGS_MAX
         \<and> cfSnapshotCount config \<le> DEBUG_TRACE_SNAPSHOT_MAX
         \<and> list_all (\<lambda>i. debugTraceSnapshotSpecIsValid (cfSnapshots config ! i))
             [0..<unat (cfSnapshotCount config)])"

fun findTargetFrom :: "u64 list \<Rightarrow> nat \<Rightarrow> nat \<Rightarrow> u64 \<Rightarrow> u32" where
  "findTargetFrom addresses i 0 address = U32_MAX"
| "findTargetFrom addresses i (Suc left) address =
    (if addresses ! i = address then of_nat i else findTargetFrom addresses (Suc i) left address)"

definition debugTraceFindTarget :: "u64 list option \<Rightarrow> u32 \<Rightarrow> u64 \<Rightarrow> u32" where
  "debugTraceFindTarget arg count address =
    (case arg of
       None \<Rightarrow> U32_MAX
     | Some addresses \<Rightarrow>
         if count > DEBUG_TRACE_TARGET_MAX then U32_MAX
         else findTargetFrom addresses 0 (unat count) address)"

subsection \<open>The ring\<close>

definition debugTraceRingOldestIndex :: "u32 \<Rightarrow> u32 \<Rightarrow> u32 \<Rightarrow> u32 \<Rightarrow> u32" where
  "debugTraceRingOldestIndex nextSlot capacity count index =
    (if capacity = 0 \<or> count = 0 \<or> count > capacity \<or> index \<ge> count then U32_MAX
     else (let oldest = (nextSlot + capacity - count) mod capacity in (oldest + index) mod capacity))"

definition debugTraceOverwrittenCount :: "u64 \<Rightarrow> u32 \<Rightarrow> u64" where
  "debugTraceOverwrittenCount hitCount storedCount =
    (if hitCount > ucast storedCount then hitCount - ucast storedCount else 0)"

definition debugTraceHitLimitReached :: "u64 \<Rightarrow> u32 \<Rightarrow> bool" where
  "debugTraceHitLimitReached hitCount maxHits \<longleftrightarrow> maxHits \<noteq> 0 \<and> hitCount \<ge> ucast maxHits"


subsection \<open>Addresses\<close>

definition baseValue :: "DebugTraceSnapshotSpec \<Rightarrow> u64 list \<Rightarrow> u64 \<Rightarrow> u64 \<Rightarrow> u64 \<Rightarrow> u64" where
  "baseValue spec gprs sp pc lr =
    (if snBase spec = DebugTraceSnapshotBase_Gpr then gprs ! unat (snRegister spec)
     else if snBase spec = DebugTraceSnapshotBase_Sp then sp
     else if snBase spec = DebugTraceSnapshotBase_Pc then pc else lr)"

lemma uint_u64_bounds: "0 \<le> uint (w :: u64) \<and> uint w < 2 ^ 64"
proof -
  have "uint w < 2 ^ LENGTH(64)" by (rule unsigned_less)
  then show ?thesis by simp
qed

lemma uint_word_of_int_u64: "0 \<le> i \<Longrightarrow> i < 2 ^ 64 \<Longrightarrow> uint (word_of_int i :: u64) = i"
  by (simp add: unsigned_of_int take_bit_int_eq_self)

lemma add_no_wrap:
  assumes "0 \<le> off" and "off < 2 ^ 64"
  shows "(base :: u64) > U64_MAX - word_of_int off \<longleftrightarrow> \<not> uint base + off < 2 ^ 64"
proof -
  have off: "uint (word_of_int off :: u64) = off" using assms by (rule uint_word_of_int_u64)
  have "uint (U64_MAX - word_of_int off) = 2 ^ 64 - 1 - off"
    using assms off by (subst uint_sub_if') simp
  then show ?thesis by (simp add: word_less_def) linarith
qed

text \<open>
  The address of a snapshot is the register value plus the signed offset, computed without
  wrap-around: when the sum leaves the 64-bit address space the snapshot is refused instead of
  reading from a wrong place.
\<close>

theorem snapshotAddress_exact:
  assumes "debugTraceSnapshotSpecIsValid spec" and "- (2 ^ 63) \<le> snOffset spec" and "snOffset spec < 2 ^ 63"
  shows "debugTraceComputeSnapshotAddress spec gprs sp pc lr =
    (let a = uint (baseValue spec gprs sp pc lr) + snOffset spec
     in if 0 \<le> a \<and> a < 2 ^ 64 then Some (word_of_int a) else None)"
proof -
  let ?b = "baseValue spec gprs sp pc lr" and ?o = "snOffset spec"
  note bounds = uint_u64_bounds [of ?b]
  have sum: "?b + word_of_int ?o = word_of_int (uint ?b + ?o)" by simp
  show ?thesis
  proof (cases "0 \<le> ?o")
    case True
    then have "?b > U64_MAX - word_of_int ?o \<longleftrightarrow> \<not> uint ?b + ?o < 2 ^ 64"
      using assms(3) by (intro add_no_wrap) auto
    with True assms(1) bounds show ?thesis
      by (simp add: debugTraceComputeSnapshotAddress_def baseValue_def Let_def)
  next
    case False
    have mag: "word_of_int (- (?o + 1)) + 1 = (word_of_int (- ?o) :: u64)" by simp
    have "uint (word_of_int (- ?o) :: u64) = - ?o"
      using False assms(2) by (intro uint_word_of_int_u64) auto
    then have "?b < word_of_int (- ?o) \<longleftrightarrow> uint ?b + ?o < 0"
      by (simp add: word_less_def) linarith
    with False assms(1) bounds mag show ?thesis
      by (simp add: debugTraceComputeSnapshotAddress_def baseValue_def Let_def)
  qed
qed

lemma snapshotAddress_exact_witness:
  "debugTraceComputeSnapshotAddress \<lparr>snBase = 1, snRegister = 0, snOffset = -16, snSize = 32\<rparr> [] 0x8 0 0 = None
    \<and> debugTraceComputeSnapshotAddress \<lparr>snBase = 1, snRegister = 0, snOffset = -16, snSize = 32\<rparr> [] 0x18 0 0
      = Some 8"
proof -
  let ?s = "\<lparr>snBase = 1, snRegister = 0, snOffset = -16, snSize = 32\<rparr>"
  have "debugTraceSnapshotSpecIsValid ?s"
    by (simp add: debugTraceSnapshotSpecIsValid_def base_defs DEBUG_TRACE_SNAPSHOT_BYTES_MAX_def)
  from snapshotAddress_exact [OF this, of "[]" _ 0 0] show ?thesis
    by (simp add: baseValue_def base_defs)
qed

subsection \<open>The snapshot syntax\<close>

lemma traceParseUnsigned_digits:
  assumes "list_all (isDigitOf 10) s" and "s \<noteq> []" and "digitsVal 10 0 s < 2 ^ 64"
  shows "traceParseUnsigned (Some s) = Some (of_nat (digitsVal 10 0 s))"
proof -
  have "hd s \<noteq> CHR ''+'' \<and> hd s \<noteq> CHR ''-''"
    using assms(1,2) isDigitOf_not_special [of 10 "hd s"] by (cases s) auto
  then show ?thesis
    using assms digits_no_prefix(2) [OF assms(1)] strtoull_digits [OF assms(1,2) _ assms(3)]
    by (simp add: traceParseUnsigned_def Let_def)
qed

lemma length_printNat: "n < 10 ^ k \<Longrightarrow> 0 < k \<Longrightarrow> length (printNat 10 n) \<le> k"
proof (induction k arbitrary: n)
  case (Suc k)
  show ?case
  proof (cases "n < 10")
    case False
    then have "0 < k" using Suc.prems by (cases k) auto
    moreover have "n div 10 < 10 ^ k" using Suc.prems(1) by (simp add: div_less_iff_less_mult mult.commute)
    ultimately have "length (printNat 10 (n div 10)) \<le> k" by (rule Suc.IH [rotated])
    with False show ?thesis by (simp add: printNat.simps [of 10 n])
  qed (simp add: printNat.simps [of 10 n])
qed simp

text \<open>A snapshot request in the agent's notation, with decimal numbers.\<close>

definition renderBase :: "u8 \<Rightarrow> u8 \<Rightarrow> string" where
  "renderBase base reg =
    (if base = DebugTraceSnapshotBase_Gpr then CHR ''x'' # printNat 10 (unat reg)
     else if base = DebugTraceSnapshotBase_Sp then ''sp''
     else if base = DebugTraceSnapshotBase_Pc then ''pc'' else ''lr'')"

definition renderOffset :: "int \<Rightarrow> string" where
  "renderOffset off =
    (if off = 0 then [] else (if off < 0 then CHR ''-'' else CHR ''+'') # printNat 10 (nat \<bar>off\<bar>))"

definition renderSpec :: "DebugTraceSnapshotSpec \<Rightarrow> string" where
  "renderSpec spec = renderBase (snBase spec) (snRegister spec) @ renderOffset (snOffset spec)
     @ CHR '':'' # printNat 10 (unat (snSize spec))"

lemma digit_plain: "isDigitOf 10 c \<Longrightarrow> c \<noteq> CHR '':'' \<and> \<not> isSign c"
  using isDigitOf_not_special [of 10 c]
  by (auto simp: isDigitOf_def digitVal_def isSign_def Let_def split: if_splits)

lemma renderBase_plain: "c \<in> set (renderBase base reg) \<Longrightarrow> c \<noteq> CHR '':'' \<and> \<not> isSign c"
  using printNat_digits(1) [of 10 "unat reg"] digit_plain [of c]
  by (auto simp: renderBase_def isSign_def list_all_iff split: if_splits)

lemma parseRegisterName_render:
  assumes "base \<le> DebugTraceSnapshotBase_Lr" and "base = DebugTraceSnapshotBase_Gpr \<longrightarrow> reg \<le> 30"
    and "base \<noteq> DebugTraceSnapshotBase_Gpr \<longrightarrow> reg = 0"
  shows "parseRegisterName (renderBase base reg @ rest) (length (renderBase base reg)) = Some (base, reg)"
proof (cases "base = DebugTraceSnapshotBase_Gpr")
  case True
  let ?d = "printNat 10 (unat reg)"
  note d = printNat_digits [of 10 "unat reg"]
  have small: "unat reg \<le> 30" using assms(2) True by (simp add: word_le_nat_alt)
  then have len: "length ?d \<le> 2" "?d \<noteq> []" using length_printNat [of "unat reg" 2] d(3) by auto
  have not: "take 2 (CHR ''x'' # ?d @ rest) \<noteq> ''sp''" "take 2 (CHR ''x'' # ?d @ rest) \<noteq> ''pc''"
    "take 2 (CHR ''x'' # ?d @ rest) \<noteq> ''lr''" by simp_all
  have "traceParseUnsigned (Some ?d) = Some (of_nat (unat reg))"
    using traceParseUnsigned_digits [of ?d] d small by simp
  moreover have "(of_nat (unat reg) :: u64) \<le> 30" "(ucast (of_nat (unat reg) :: u64) :: u8) = reg"
  proof -
    have "(ucast (ucast reg :: u64) :: u8) = reg" by (intro bit_word_eqI) (auto simp: bit_simps)
    with small show "(of_nat (unat reg) :: u64) \<le> 30" "(ucast (of_nat (unat reg) :: u64) :: u8) = reg"
      by (simp_all add: word_le_nat_alt)
  qed
  moreover have "length ?d \<noteq> 0" using len(2) by simp
  then have "length ?d = 1 \<or> length ?d = 2" using len(1) by linarith
  ultimately show ?thesis
    using True not by (auto simp: renderBase_def parseRegisterName_def not_less)
next
  case False
  have "base \<in> {DebugTraceSnapshotBase_Sp, DebugTraceSnapshotBase_Pc, DebugTraceSnapshotBase_Lr}"
  proof -
    have "unat base \<in> {1, 2, 3}"
      using assms(1) False by (auto simp: base_defs word_le_nat_alt unat_eq_0) (metis One_nat_def
          le_SucE le_zero_eq numeral_2_eq_2 numeral_3_eq_3 unat_eq_zero)
    then show ?thesis by (auto simp: base_defs word_unat_eq_iff)
  qed
  then show ?thesis
    using False assms(3) by (auto simp: renderBase_def parseRegisterName_def base_defs)
qed


lemma strchrSplit_plain:
  "c \<notin> set front \<Longrightarrow> strchrSplit c (front @ c # back) = Some (front, back)"
proof -
  assume c: "c \<notin> set front"
  then have "\<forall>x \<in> set front. x \<noteq> c" by auto
  then have "takeWhile (\<lambda>x. x \<noteq> c) (front @ c # back) = front"
    and "dropWhile (\<lambda>x. x \<noteq> c) (front @ c # back) = c # back" by simp_all
  then show ?thesis by (simp add: strchrSplit_def)
qed

lemma renderOffset_facts:
  "c \<in> set (renderOffset off) \<Longrightarrow> c \<noteq> CHR '':''"
  "takeWhile (\<lambda>c. \<not> isSign c) (renderBase base reg @ renderOffset off) = renderBase base reg"
proof -
  show "c \<in> set (renderOffset off) \<Longrightarrow> c \<noteq> CHR '':''"
    using printNat_digits(1) [of 10 "nat \<bar>off\<bar>"] digit_plain [of c]
    by (auto simp: renderOffset_def list_all_iff split: if_splits)
  have "\<forall>c \<in> set (renderBase base reg). \<not> isSign c" using renderBase_plain by blast
  then show "takeWhile (\<lambda>c. \<not> isSign c) (renderBase base reg @ renderOffset off) = renderBase base reg"
    by (simp add: takeWhile_append renderOffset_def isSign_def)
qed

lemma parseOffset_render:
  assumes "off \<noteq> 0" and "\<bar>off\<bar> < 2 ^ 63"
  shows "parseUnsignedRange (printNat 10 (nat \<bar>off\<bar>) @ rest) (length (printNat 10 (nat \<bar>off\<bar>)))
    = Some (word_of_int \<bar>off\<bar>)" and "uint (word_of_int \<bar>off\<bar> :: u64) = \<bar>off\<bar>"
proof -
  let ?n = "nat \<bar>off\<bar>"
  note d = printNat_digits [of 10 ?n]
  have n: "?n < 2 ^ 63" using assms(2) by (simp add: nat_less_iff)
  then have "?n < 10 ^ 19" by simp
  then have len: "length (printNat 10 ?n) \<le> 19" by (rule length_printNat) simp
  have "traceParseUnsigned (Some (printNat 10 ?n)) = Some (of_nat ?n)"
    using traceParseUnsigned_digits [of "printNat 10 ?n"] d n by simp
  with len d(3) show "parseUnsignedRange (printNat 10 ?n @ rest) (length (printNat 10 ?n))
      = Some (word_of_int \<bar>off\<bar>)"
    by (simp add: parseUnsignedRange_def)
  show "uint (word_of_int \<bar>off\<bar> :: u64) = \<bar>off\<bar>"
    using assms(2) by (intro uint_word_of_int_u64) auto
qed

text \<open>
  C11: the snapshot syntax round trip.  Every valid request, of any register, any offset within
  63 bits and any size from 1 to 256, written in the agent's notation, is parsed back to exactly
  that request.
\<close>

theorem parseSnapshotSpec_render:
  assumes "debugTraceSnapshotSpecIsValid spec" and "\<bar>snOffset spec\<bar> < 2 ^ 63"
    and "snBase spec \<noteq> DebugTraceSnapshotBase_Gpr \<longrightarrow> snRegister spec = 0"
  shows "debugTraceParseSnapshotSpec (Some (renderSpec spec)) = Some spec"
proof -
  let ?base = "renderBase (snBase spec) (snRegister spec)" and ?off = "renderOffset (snOffset spec)"
  let ?bytes = "printNat 10 (unat (snSize spec))"
  have "CHR '':'' \<notin> set (?base @ ?off)" using renderBase_plain renderOffset_facts(1) by fastforce
  then have split: "strchrSplit (CHR '':'') (renderSpec spec) = Some (?base @ ?off, ?bytes)"
    using strchrSplit_plain [of "CHR '':''" "?base @ ?off" ?bytes] by (simp add: renderSpec_def)
  have valid: "snBase spec \<le> DebugTraceSnapshotBase_Lr" "0 < unat (snSize spec)" "unat (snSize spec) \<le> 256"
    "snBase spec = DebugTraceSnapshotBase_Gpr \<longrightarrow> snRegister spec \<le> 30"
    using assms(1) by (auto simp: debugTraceSnapshotSpecIsValid_def word_less_nat_alt word_le_nat_alt
        DEBUG_TRACE_SNAPSHOT_BYTES_MAX_def not_less)
  note d = printNat_digits [of 10 "unat (snSize spec)"]
  have bytes: "traceParseUnsigned (Some ?bytes) = Some (ucast (snSize spec))"
    using traceParseUnsigned_digits [of ?bytes] d valid(3) by simp
  have small: "(ucast (snSize spec) :: u64) \<noteq> 0" "\<not> (ucast (snSize spec) :: u64) > 0x100"
    "(ucast (ucast (snSize spec) :: u64) :: u32) = snSize spec"
  proof -
    show "(ucast (snSize spec) :: u64) \<noteq> 0" "\<not> (ucast (snSize spec) :: u64) > 0x100"
      using valid(2,3) by (auto simp: word_unat_eq_iff word_less_nat_alt)
    show "(ucast (ucast (snSize spec) :: u64) :: u32) = snSize spec"
      by (intro bit_word_eqI) (auto simp: bit_simps)
  qed
  have reg: "parseRegisterName (renderSpec spec) (length ?base) = Some (snBase spec, snRegister spec)"
    unfolding renderSpec_def using valid(1,4) assms(3) by (intro parseRegisterName_render) auto
  have base: "?base \<noteq> []" by (simp add: renderBase_def)
  have behind: "drop (length ?base + 1) (renderSpec spec) = drop 1 ?off @ CHR '':'' # ?bytes"
    if "?off \<noteq> []" using that by (cases ?off) (simp_all add: renderSpec_def)
  have off: "(if length ?base < length (?base @ ?off)
      then (case parseUnsignedRange (drop (length ?base + 1) (renderSpec spec))
                   (length (?base @ ?off) - length ?base - 1) of
              None \<Rightarrow> None
            | Some magnitude \<Rightarrow>
                if magnitude > 0x7FFFFFFFFFFFFFFF then None
                else Some (if (?base @ ?off) ! length ?base = CHR ''-''
                           then - uint magnitude else uint magnitude))
      else Some 0) = Some (snOffset spec)"
  proof (cases "snOffset spec = 0")
    case False
    have "uint (0x7FFFFFFFFFFFFFFF :: u64) = 2 ^ 63 - 1" by simp
    with False behind parseOffset_render [OF False assms(2)] assms(2) show ?thesis
      by (simp add: renderOffset_def word_less_def)
  qed (simp add: renderOffset_def)
  have eta: "\<lparr>snBase = snBase spec, snRegister = snRegister spec, snOffset = snOffset spec,
      snSize = snSize spec\<rparr> = spec" by (cases spec) simp
  show ?thesis
    using split bytes small reg base renderOffset_facts(2) off assms(1)
    by (simp add: eta debugTraceParseSnapshotSpec_def DEBUG_TRACE_SNAPSHOT_BYTES_MAX_def Let_def)
qed

lemma parseSnapshotSpec_render_witness:
  "debugTraceParseSnapshotSpec (Some ''x19-24:64'')
    = Some \<lparr>snBase = 0, snRegister = 19, snOffset = -24, snSize = 64\<rparr>"
proof -
  let ?s = "\<lparr>snBase = 0, snRegister = 19, snOffset = -24, snSize = 64\<rparr>"
  have "debugTraceSnapshotSpecIsValid ?s"
    by (simp add: debugTraceSnapshotSpecIsValid_def base_defs DEBUG_TRACE_SNAPSHOT_BYTES_MAX_def)
  moreover have "renderSpec ?s = ''x19-24:64''"
    by code_simp
  ultimately show ?thesis using parseSnapshotSpec_render [of ?s] by (simp add: base_defs)
qed

text \<open>The targets of a valid configuration: at most four, aligned, non-zero and distinct.\<close>

lemma distinctPrefix_iff: "distinctPrefix xs i n \<longleftrightarrow> (\<forall>j < n. xs ! j \<noteq> xs ! i)"
  by (induction n) (auto simp: less_Suc_eq)

lemma configValid_targets:
  assumes "debugTraceConfigIsValid (Some c)" and "length (cfAddresses c) = 4"
  shows "distinct (take (unat (cfTargetCount c)) (cfAddresses c))
    \<and> list_all debugTraceAddressIsValid (take (unat (cfTargetCount c)) (cfAddresses c))
    \<and> 0 < unat (cfTargetCount c) \<and> unat (cfTargetCount c) \<le> 4"
proof -
  have n: "0 < unat (cfTargetCount c)" "unat (cfTargetCount c) \<le> 4"
    using assms(1) by (auto simp: debugTraceConfigIsValid_def DEBUG_TRACE_TARGET_MAX_def
        word_le_nat_alt unat_gt_0)
  have each: "debugTraceAddressIsValid (cfAddresses c ! i)"
      "j < i \<Longrightarrow> cfAddresses c ! j \<noteq> cfAddresses c ! i" if "i < unat (cfTargetCount c)" for i j
    using assms(1) that by (auto simp: debugTraceConfigIsValid_def list_all_iff distinctPrefix_iff)
  have "distinct (take (unat (cfTargetCount c)) (cfAddresses c))"
    unfolding distinct_conv_nth using each(2) n assms(2)
    by (auto simp: nth_take) (metis nat_neq_iff)
  moreover have "list_all debugTraceAddressIsValid (take (unat (cfTargetCount c)) (cfAddresses c))"
    using each(1) n assms(2) by (auto simp: list_all_iff in_set_conv_nth)
  ultimately show ?thesis using n by simp
qed

text \<open>A found target is the first with the address.\<close>

lemma findTarget_correct:
  assumes "distinct addresses" and "i < length addresses" and "length addresses \<le> 4"
  shows "debugTraceFindTarget (Some addresses) (of_nat (length addresses)) (addresses ! i) = of_nat i"
proof -
  have "findTargetFrom addresses k (length addresses - k) (addresses ! i) = of_nat i"
    if "k \<le> i" for k
    using that
  proof (induction "i - k" arbitrary: k)
    case 0
    then show ?case using assms(2) by (cases "length addresses - k") auto
  next
    case (Suc n)
    then have "addresses ! k \<noteq> addresses ! i"
      using assms nth_eq_iff_index_eq [OF assms(1), of k i] by auto
    moreover have "length addresses - k = Suc (length addresses - Suc k)" using Suc assms(2) by auto
    ultimately show ?case using Suc.hyps(1) [of "Suc k"] Suc.hyps(2) Suc.prems by simp
  qed
  from this [of 0] assms(3) show ?thesis
    by (simp add: debugTraceFindTarget_def DEBUG_TRACE_TARGET_MAX_def word_less_nat_alt
        unsigned_of_nat take_bit_nat_eq_self)
qed

end
