(* ===== verification/HitRing.thy ===== *)
theory HitRing
  imports TraceModel
begin

text \<open>
  The ring of recorded hits that \<open>debug_trace.c\<close>, \<open>debug_multitrace.c\<close> and
  \<open>debug_watch.c\<close> keep: \<open>ringPush\<close> is the block that stores an event (\<open>recordEvent\<close>,
  \<open>recordHit\<close>), \<open>traceRingGet\<close> and \<open>watchRingGet\<close> are the readers behind
  \<open>debugTraceGetEvent\<close> and \<open>debugWatchGetRingHit\<close>.

  Both readers meet one contract, the locale \<open>ring_reader\<close>: index 0 is the oldest event that is
  still stored.
\<close>

record 'e HitRing =
  ringSize :: u32
  ringCount :: u32
  ringNext :: u32
  ringSlots :: "'e list"

definition ringEmpty :: "u32 \<Rightarrow> 'e list \<Rightarrow> 'e HitRing" where
  "ringEmpty n slots = \<lparr>ringSize = n, ringCount = 0, ringNext = 0, ringSlots = slots\<rparr>"

definition ringPush :: "'e HitRing \<Rightarrow> 'e \<Rightarrow> 'e HitRing" where
  "ringPush r e =
    (if ringSize r > 0
     then r\<lparr>ringSlots := (ringSlots r)[unat (ringNext r) := e],
            ringNext := (ringNext r + 1) mod ringSize r,
            ringCount := (if ringCount r < ringSize r then ringCount r + 1 else ringCount r)\<rparr>
     else r)"

definition traceRingGet :: "'e HitRing \<Rightarrow> u32 \<Rightarrow> 'e option" where
  "traceRingGet r index =
    (let stored = debugTraceRingOldestIndex (ringNext r) (ringSize r) (ringCount r) index
     in if stored = U32_MAX then None else Some (ringSlots r ! unat stored))"

definition watchRingGet :: "'e HitRing \<Rightarrow> u32 \<Rightarrow> 'e option" where
  "watchRingGet r index =
    (if index \<ge> ringCount r \<or> ringSize r = 0 then None
     else (let start = (ringNext r + ringSize r - ringCount r) mod ringSize r
           in Some (ringSlots r ! unat ((start + index) mod ringSize r))))"

subsection \<open>What a ring holds\<close>

definition ringPos :: "'e HitRing \<Rightarrow> nat \<Rightarrow> nat" where
  "ringPos r i = (unat (ringNext r) + unat (ringSize r) - unat (ringCount r) + i) mod unat (ringSize r)"

definition ringHolds :: "'e HitRing \<Rightarrow> 'e list \<Rightarrow> bool" where
  "ringHolds r es \<longleftrightarrow>
    0 < unat (ringSize r) \<and> unat (ringSize r) \<le> 64 \<and> unat (ringSize r) \<le> length (ringSlots r)
    \<and> unat (ringNext r) < unat (ringSize r)
    \<and> unat (ringCount r) = length es \<and> length es \<le> unat (ringSize r)
    \<and> (\<forall>i < length es. ringSlots r ! ringPos r i = es ! i)"

lemma ringEmpty_holds:
  "0 < unat n \<Longrightarrow> unat n \<le> 64 \<Longrightarrow> unat n \<le> length slots \<Longrightarrow> ringHolds (ringEmpty n slots) []"
  by (simp add: ringHolds_def ringEmpty_def)

definition keepLast :: "nat \<Rightarrow> 'e list \<Rightarrow> 'e list" where
  "keepLast n es = drop (length es - n) es"

lemma keepLast_snoc:
  "0 < n \<Longrightarrow> keepLast n (es @ [e]) =
    (if length (keepLast n es) < n then keepLast n es @ [e] else tl (keepLast n es) @ [e])"
  by (auto simp: keepLast_def Suc_diff_le tl_drop drop_Suc)

text \<open>The positions of a ring as plain arithmetic.\<close>

lemma ring_index_distinct:
  fixes n s k :: nat
  assumes "n < s" and "0 < k" and "k < s"
  shows "(n + k) mod s \<noteq> n"
proof
  assume "(n + k) mod s = n"
  then have "(n + k) mod s = n mod s" using assms by simp
  then have "s dvd k" by (simp add: mod_eq_dvd_iff_nat)
  with assms show False by (simp add: nat_dvd_not_less)
qed

lemma unat_ringNext:
  assumes "unat n < unat s" and "unat s \<le> 64"
  shows "unat ((n + 1) mod s :: u32) = (unat n + 1) mod unat s"
proof -
  have "unat (n + 1) = unat n + 1" using assms unat_add_no_wrap [of n 1] by simp
  then show ?thesis by (simp add: unat_mod)
qed

lemma ringPush_holds:
  assumes h: "ringHolds r es"
  shows "ringHolds (ringPush r e)
    (if length es < unat (ringSize r) then es @ [e] else tl es @ [e])"
proof -
  let ?s = "unat (ringSize r)" and ?n = "unat (ringNext r)" and ?c = "length es"
  let ?r = "ringPush r e" and ?es = "if ?c < ?s then es @ [e] else tl es @ [e]"
  have b: "0 < ?s" "?s \<le> 64" "?s \<le> length (ringSlots r)" "?n < ?s" "unat (ringCount r) = ?c" "?c \<le> ?s"
    and at: "\<And>i. i < ?c \<Longrightarrow> ringSlots r ! ((?n + ?s - ?c + i) mod ?s) = es ! i"
    using h by (auto simp: ringHolds_def ringPos_def)
  have pos: "ringSize r > 0" using b(1) by (simp add: word_less_nat_alt)
  have fields: "ringSize ?r = ringSize r" "ringSlots ?r = (ringSlots r)[?n := e]"
    "unat (ringNext ?r) = (?n + 1) mod ?s" "unat (ringCount ?r) = min (?c + 1) ?s"
    using pos b unat_ringNext [OF b(4,2)] unat_add_no_wrap [of "ringCount r" 1]
    by (auto simp: ringPush_def word_less_nat_alt min_def)
  have len: "length ?es = min (?c + 1) ?s" using b by (auto simp: min_def)
  have "ringSlots ?r ! ringPos ?r i = ?es ! i" if i: "i < length ?es" for i
  proof -
    let ?k = "?s - min (?c + 1) ?s + 1 + i"
    have "ringPos ?r i = ((?n + 1) mod ?s + (?s - min (?c + 1) ?s + i)) mod ?s"
    proof -
      have "unat (ringNext ?r) + ?s - unat (ringCount ?r) + i
          = (?n + 1) mod ?s + (?s - min (?c + 1) ?s + i)"
        unfolding fields by simp
      then show ?thesis by (simp only: ringPos_def fields(1))
    qed
    also have "\<dots> = (?n + 1 + (?s - min (?c + 1) ?s + i)) mod ?s" by (rule mod_add_left_eq)
    also have "?n + 1 + (?s - min (?c + 1) ?s + i) = ?n + ?k" by simp
    finally have p: "ringPos ?r i = (?n + ?k) mod ?s" .
    have n: "?n < length (ringSlots r)" using b by simp
    show ?thesis
    proof (cases "i = length ?es - 1")
      case True
      then have "?k = ?s" using len b by simp
      then have "ringPos ?r i = ?n" using p b by simp
      moreover have "?es ! i = e" using True len b by (auto simp: nth_append min_def)
      ultimately show ?thesis using fields n by simp
    next
      case False
      then have "0 < ?k" "?k < ?s" using i len b by auto
      then have "ringPos ?r i \<noteq> ?n" unfolding p using b by (intro ring_index_distinct) auto
      then have same: "ringSlots ?r ! ringPos ?r i = ringSlots r ! ((?n + ?k) mod ?s)"
        using fields p by simp
      show ?thesis
      proof (cases "?c < ?s")
        case True
        then have k: "?n + ?k = ?n + ?s - ?c + i" "i < ?c" using False i len by auto
        from at [OF k(2)] same True k(2) show ?thesis unfolding k(1) by (simp add: nth_append)
      next
        case full: False
        then have "?c = ?s" using b by simp
        then have k: "?n + ?k = ?n + ?s - ?c + (1 + i)" "1 + i < ?c" using False i len by auto
        have "tl es ! i = es ! (1 + i)" using k(2) by (simp add: nth_tl)
        then have "?es ! i = es ! (1 + i)" using full k(2)
          by (simp add: nth_append less_diff_conv)
        with at [OF k(2)] same show ?thesis unfolding k(1) by simp
      qed
    qed
  qed
  then show ?thesis
    using fields b len by (simp add: ringHolds_def)
qed

lemma ringPush_size [simp]: "ringSize (ringPush r e) = ringSize r"
  by (simp add: ringPush_def)

lemma ringPushes_hold:
  assumes "0 < unat n" and "unat n \<le> 64" and "unat n \<le> length slots"
  shows "ringHolds (foldl ringPush (ringEmpty n slots) es) (keepLast (unat n) es)
    \<and> ringSize (foldl ringPush (ringEmpty n slots) es) = n"
proof (induction es rule: rev_induct)
  case Nil
  then show ?case using ringEmpty_holds [OF assms] by (simp add: keepLast_def ringEmpty_def)
next
  case (snoc e es)
  let ?r = "foldl ringPush (ringEmpty n slots) es"
  from snoc ringPush_holds [of ?r "keepLast (unat n) es" e] show ?case
    by (simp add: keepLast_snoc [OF assms(1)])
qed

subsection \<open>Readers\<close>

locale ring_reader =
  fixes get :: "'e HitRing \<Rightarrow> u32 \<Rightarrow> 'e option"
  assumes get_pos: "ringHolds r es \<Longrightarrow>
    get r i = (if unat i < length es then Some (ringSlots r ! ringPos r (unat i)) else None)"
begin

lemma get_recorded:
  assumes "0 < unat n" and "unat n \<le> 64" and "unat n \<le> length slots"
  shows "get (foldl ringPush (ringEmpty n slots) es) i =
    (let kept = keepLast (unat n) es in if unat i < length kept then Some (kept ! unat i) else None)"
  using ringPushes_hold [OF assms, of es] get_pos
  by (auto simp: Let_def ringHolds_def)

end

lemma ring_pos_word:
  assumes "ringHolds r es" and "unat i < length es"
  shows "unat (((ringNext r + ringSize r - ringCount r) mod ringSize r + i) mod ringSize r)
    = ringPos r (unat i)"
proof -
  let ?s = "unat (ringSize r)" and ?n = "unat (ringNext r)" and ?c = "unat (ringCount r)"
  have b: "0 < ?s" "?s \<le> 64" "?n < ?s" "?c \<le> ?s" "unat i < ?c"
    using assms by (auto simp: ringHolds_def)
  have "unat (ringNext r + ringSize r) = ?n + ?s" using b by (intro unat_add_no_wrap) simp
  then have diff: "unat (ringNext r + ringSize r - ringCount r) = ?n + ?s - ?c"
    using b by (simp add: unat_sub word_le_nat_alt)
  have "?n + ?s - ?c < 2 * ?s" using b by simp
  let ?start = "(ringNext r + ringSize r - ringCount r) mod ringSize r"
  have start: "unat ?start = (?n + ?s - ?c) mod ?s" by (simp add: unat_mod diff)
  then have "unat ?start < ?s" using b by simp
  then have "unat (?start + i) = unat ?start + unat i" using b by (intro unat_add_no_wrap) simp
  then show ?thesis by (simp add: unat_mod diff ringPos_def mod_add_left_eq)
qed

interpretation trace_ring: ring_reader traceRingGet
proof unfold_locales
  fix r :: "'e HitRing" and es i
  assume h: "ringHolds r es"
  then have b: "ringSize r \<noteq> 0" "\<not> ringCount r > ringSize r" "unat (ringCount r) = length es"
    "unat (ringSize r) \<le> 64" "0 < unat (ringSize r)"
    by (auto simp: ringHolds_def word_less_nat_alt)
  show "traceRingGet r i =
      (if unat i < length es then Some (ringSlots r ! ringPos r (unat i)) else None)"
  proof (cases "unat i < length es")
    case True
    let ?w = "((ringNext r + ringSize r - ringCount r) mod ringSize r + i) mod ringSize r"
    have "ringCount r \<noteq> 0" "\<not> i \<ge> ringCount r" using True b by (auto simp: word_le_nat_alt)
    then have "debugTraceRingOldestIndex (ringNext r) (ringSize r) (ringCount r) i = ?w"
      using b by (simp add: debugTraceRingOldestIndex_def Let_def)
    moreover have "unat ?w < 64" using b by (simp add: unat_mod less_le_trans [OF mod_less_divisor])
    then have "?w \<noteq> U32_MAX" by auto
    ultimately show ?thesis using True ring_pos_word [OF h True] by (simp add: traceRingGet_def Let_def)
  next
    case False
    then have "i \<ge> ringCount r" using b by (simp add: word_le_nat_alt)
    with False show ?thesis by (simp add: traceRingGet_def debugTraceRingOldestIndex_def)
  qed
qed

interpretation watch_ring: ring_reader watchRingGet
proof unfold_locales
  fix r :: "'e HitRing" and es i
  assume h: "ringHolds r es"
  then have b: "ringSize r \<noteq> 0" "unat (ringCount r) = length es" by (auto simp: ringHolds_def)
  show "watchRingGet r i =
      (if unat i < length es then Some (ringSlots r ! ringPos r (unat i)) else None)"
    using b ring_pos_word [OF h, of i]
    by (auto simp: watchRingGet_def Let_def word_le_nat_alt)
qed

text \<open>
  C12: a ring of \<open>n\<close> slots keeps the last \<open>n\<close> hits.  After any number of recorded hits,
  index 0 of the tracer's and of the watchpoint's reader is the oldest kept hit and every later
  index the next one, and an index past the kept hits is refused.
\<close>

theorem ring_keeps_last_hits:
  assumes "0 < unat n" and "unat n \<le> 64" and "unat n \<le> length slots"
  shows "traceRingGet (foldl ringPush (ringEmpty n slots) hits) i =
      (let kept = keepLast (unat n) hits in if unat i < length kept then Some (kept ! unat i) else None)
    \<and> watchRingGet (foldl ringPush (ringEmpty n slots) hits) i =
      (let kept = keepLast (unat n) hits in if unat i < length kept then Some (kept ! unat i) else None)"
  by (intro conjI trace_ring.get_recorded [OF assms] watch_ring.get_recorded [OF assms])

lemma ring_keeps_last_hits_witness:
  "traceRingGet (foldl ringPush (ringEmpty 3 (replicate 64 0)) [1, 2, 3, 4, 5 :: nat]) 0 = Some 3
    \<and> watchRingGet (foldl ringPush (ringEmpty 3 (replicate 64 0)) [1, 2, 3, 4, 5 :: nat]) 2 = Some 5"
  using ring_keeps_last_hits [of 3 "replicate 64 0" "[1, 2, 3, 4, 5 :: nat]"]
  by (simp add: keepLast_def del: foldl.simps)

end
