(* ===== verification/IniText.thy ===== *)
theory IniText
  imports NumParse
begin

text \<open>
  The INI reader that \<open>ftp_config.c\<close> and \<open>boot_unlock_config.c\<close> write out in the same words:
  lines split at CR and LF, blank lines and comment lines skipped, one section of interest, and
  \<open>key=value\<close> lines in it.  The two files differ in the section they look for, in what they
  do to a value, and in their keys; these are the parameters of \<open>iniLoop\<close>.

  The first bad line ends the loop: the flag of the result is \<open>False\<close>, and the configuration is
  what the lines before it made of it.
\<close>

definition trim :: "string \<Rightarrow> string" where
  "trim value = rev (dropWhile isspace (rev (dropWhile isspace value)))"

definition isLineEnd :: "char \<Rightarrow> bool" where
  "isLineEnd c \<longleftrightarrow> c = CHR 0x0D \<or> c = CHR 0x0A"

fun iniLoop ::
  "(string \<Rightarrow> bool) \<Rightarrow> (string \<Rightarrow> string) \<Rightarrow> (string \<Rightarrow> string \<Rightarrow> 'c \<Rightarrow> 'c option)
    \<Rightarrow> string list \<Rightarrow> bool \<Rightarrow> 'c \<Rightarrow> bool \<times> 'c" where
  "iniLoop isSection clean setKey [] inSection config = (True, config)"
| "iniLoop isSection clean setKey (raw # rest) inSection config =
    (let line = trim raw
     in if line = [] \<or> hd line = CHR ''#'' \<or> hd line = CHR '';''
        then iniLoop isSection clean setKey rest inSection config
        else if hd line = CHR ''[''
        then (case strchrSplit (CHR '']'') line of
                None \<Rightarrow> (False, config)
              | Some (front, _) \<Rightarrow>
                  iniLoop isSection clean setKey rest (isSection (trim (tl front))) config)
        else if \<not> inSection then iniLoop isSection clean setKey rest inSection config
        else (case strchrSplit (CHR ''='') line of
                None \<Rightarrow> (False, config)
              | Some (key, value) \<Rightarrow>
                  (case setKey (trim key) (clean (trim value)) config of
                     None \<Rightarrow> (False, config)
                   | Some config' \<Rightarrow> iniLoop isSection clean setKey rest inSection config')))"

text \<open>A file as the loaders see it: what \<open>fopen\<close> and \<open>fread\<close> report, and its bytes.\<close>

datatype FileRead =
    FileMissing
  | FileOpenFailed
  | FileReadFailed
  | FileBytes string

subsection \<open>Trimming\<close>

lemma trim_idle: "s \<noteq> [] \<Longrightarrow> \<not> isspace (hd s) \<Longrightarrow> \<not> isspace (last s) \<Longrightarrow> trim s = s"
proof -
  assume a: "s \<noteq> []" "\<not> isspace (hd s)" "\<not> isspace (last s)"
  then have "dropWhile isspace s = s" by (cases s) auto
  moreover have "rev s \<noteq> []" "\<not> isspace (hd (rev s))" using a by (auto simp: hd_rev)
  then have "dropWhile isspace (rev s) = rev s" by (cases "rev s") auto
  ultimately show ?thesis by (simp add: trim_def)
qed

lemma trim_Nil [simp]: "trim [] = []"
  by (simp add: trim_def)

lemma trim_no_space: "list_all (\<lambda>c. \<not> isspace c) s \<Longrightarrow> trim s = s"
  by (cases "s = []") (auto intro!: trim_idle simp: list_all_iff)

subsection \<open>Splitting\<close>

lemma strtokAll_tok:
  assumes "t \<noteq> []" and "\<forall>c \<in> set t. \<not> d c" and "s = [] \<or> d (hd s)"
  shows "strtokAll d (t @ s) = t # strtokAll d s"
proof -
  obtain c cs where t: "t = c # cs" using assms(1) by (cases t) auto
  have d: "dropWhile d (t @ s) = c # (cs @ s)" using assms(2) t by simp
  have "takeWhile (\<lambda>c. \<not> d c) (t @ s) = t" and "dropWhile (\<lambda>c. \<not> d c) (t @ s) = s"
    using assms(2,3) by (cases s; simp add: takeWhile_append dropWhile_append)+
  moreover have "t @ s = c # cs @ s" by (simp add: t)
  ultimately show ?thesis using strtokAll_Cons [OF d] by metis
qed

lemma strtokAll_skip: "d c \<Longrightarrow> strtokAll d (c # cs) = strtokAll d cs"
  by (simp add: strtokAll.simps [of d "c # cs"] strtokAll.simps [of d cs])

lemma strtokAll_lines:
  assumes "\<forall>l \<in> set ls. l \<noteq> [] \<and> (\<forall>c \<in> set l. \<not> isLineEnd c)"
  shows "strtokAll isLineEnd (concat (map (\<lambda>l. l @ [CHR 0x0A]) ls)) = ls"
  using assms
proof (induction ls)
  case Nil
  show ?case by (simp add: strtokAll_Nil)
next
  case (Cons l ls)
  have nl: "isLineEnd (CHR 0x0A)" by (simp add: isLineEnd_def)
  have "strtokAll isLineEnd (l @ CHR 0x0A # concat (map (\<lambda>l. l @ [CHR 0x0A]) ls))
      = l # strtokAll isLineEnd (CHR 0x0A # concat (map (\<lambda>l. l @ [CHR 0x0A]) ls))"
    using Cons.prems nl by (intro strtokAll_tok) auto
  with Cons nl show ?case by (simp add: strtokAll_skip)
qed

lemma strchrSplit_first:
  "c \<notin> set front \<Longrightarrow> strchrSplit c (front @ c # back) = Some (front, back)"
proof -
  assume c: "c \<notin> set front"
  then have "\<forall>x \<in> set front. x \<noteq> c" by auto
  then have "takeWhile (\<lambda>x. x \<noteq> c) (front @ c # back) = front"
    and "dropWhile (\<lambda>x. x \<noteq> c) (front @ c # back) = c # back" by simp_all
  then show ?thesis by (simp add: strchrSplit_def)
qed

subsection \<open>Reading a written section\<close>

text \<open>A key and a value that survive the line syntax.\<close>

definition plainKey :: "string \<Rightarrow> bool" where
  "plainKey k \<longleftrightarrow> k \<noteq> [] \<and> list_all (\<lambda>c. \<not> isspace c \<and> c \<noteq> CHR ''='') k
    \<and> hd k \<notin> {CHR ''#'', CHR '';'', CHR ''[''}"

definition plainValue :: "string \<Rightarrow> bool" where
  "plainValue v \<longleftrightarrow> list_all (\<lambda>c. \<not> isLineEnd c) v
    \<and> (v = [] \<or> \<not> isspace (hd v) \<and> \<not> isspace (last v))"

definition iniLine :: "string \<times> string \<Rightarrow> string" where
  "iniLine kv = fst kv @ CHR ''='' # snd kv"

definition iniFile :: "string \<Rightarrow> (string \<times> string) list \<Rightarrow> string" where
  "iniFile section kvs =
    concat (map (\<lambda>l. l @ [CHR 0x0A]) ((CHR ''['' # section @ '']'') # map iniLine kvs))"

fun setKeys :: "(string \<Rightarrow> string \<Rightarrow> 'c \<Rightarrow> 'c option) \<Rightarrow> (string \<Rightarrow> string) \<Rightarrow> (string \<times> string) list
    \<Rightarrow> 'c \<Rightarrow> 'c option" where
  "setKeys setKey clean [] config = Some config"
| "setKeys setKey clean ((k, v) # kvs) config =
    (case setKey k (clean v) config of None \<Rightarrow> None | Some c \<Rightarrow> setKeys setKey clean kvs c)"

lemma not_space_eq: "\<not> isspace (CHR ''='')" "\<not> isspace (CHR ''['')" "\<not> isspace (CHR '']'')"
  by (simp_all add: isspace_def)

lemma isLineEnd_space: "isLineEnd c \<Longrightarrow> isspace c"
  by (auto simp: isLineEnd_def isspace_def)

lemma trim_iniLine:
  assumes "plainKey k" and "plainValue v"
  shows "trim (iniLine (k, v)) = iniLine (k, v)"
proof (rule trim_idle)
  show "\<not> isspace (hd (iniLine (k, v)))"
    using assms(1) by (cases k) (auto simp: plainKey_def iniLine_def)
  show "\<not> isspace (last (iniLine (k, v)))"
    using assms(2) not_space_eq by (auto simp: plainValue_def iniLine_def)
qed (simp add: iniLine_def)

lemma iniLoop_line:
  assumes "plainKey k" and "plainValue v"
  shows "iniLoop isSection clean setKey (iniLine (k, v) # rest) True config =
    (case setKey k (clean v) config of
       None \<Rightarrow> (False, config)
     | Some config' \<Rightarrow> iniLoop isSection clean setKey rest True config')"
proof -
  have k: "k \<noteq> []" "CHR ''='' \<notin> set k" "hd k \<notin> {CHR ''#'', CHR '';'', CHR ''[''}"
    using assms(1) by (auto simp: plainKey_def list_all_iff)
  have tk: "trim k = k" using assms(1) by (intro trim_no_space) (auto simp: plainKey_def list_all_iff)
  have tv: "trim v = v" using assms(2) by (cases "v = []") (auto simp: plainValue_def intro: trim_idle)
  have line: "iniLine (k, v) = k @ CHR ''='' # v" by (simp add: iniLine_def)
  have hd: "hd (iniLine (k, v)) = hd k" "iniLine (k, v) \<noteq> []" using k(1) by (simp_all add: line)
  have split: "strchrSplit (CHR ''='') (iniLine (k, v)) = Some (k, v)"
    unfolding line using k(2) by (rule strchrSplit_first)
  show ?thesis
    using k hd by (simp add: trim_iniLine [OF assms] split tk tv)
qed

lemma iniLoop_lines:
  assumes "list_all (\<lambda>(k, v). plainKey k \<and> plainValue v) kvs"
    and "setKeys setKey clean kvs config = Some config'"
  shows "iniLoop isSection clean setKey (map iniLine kvs) True config = (True, config')"
  using assms
proof (induction kvs arbitrary: config)
  case (Cons kv kvs)
  obtain k v where kv: "kv = (k, v)" by force
  with Cons.prems obtain c where c: "setKey k (clean v) config = Some c"
    "setKeys setKey clean kvs c = Some config'" by (auto split: option.splits)
  with Cons kv show ?case by (simp add: iniLoop_line del: iniLoop.simps(2))
qed simp

lemma iniLine_plain:
  assumes "plainKey k" and "plainValue v"
  shows "iniLine (k, v) \<noteq> [] \<and> (\<forall>c \<in> set (iniLine (k, v)). \<not> isLineEnd c)"
proof -
  have "\<forall>c \<in> set k. \<not> isLineEnd c"
    using assms(1) isLineEnd_space by (auto simp: plainKey_def list_all_iff)
  moreover have "\<forall>c \<in> set v. \<not> isLineEnd c" using assms(2) by (simp add: plainValue_def list_all_iff)
  moreover have "\<not> isLineEnd (CHR ''='')" by (simp add: isLineEnd_def)
  ultimately show ?thesis by (auto simp: iniLine_def)
qed

lemma iniFile_lines:
  assumes "list_all (\<lambda>(k, v). plainKey k \<and> plainValue v) kvs"
    and "list_all (\<lambda>c. \<not> isspace c \<and> c \<noteq> CHR '']'') section"
  shows "strtokAll isLineEnd (iniFile section kvs) = (CHR ''['' # section @ '']'') # map iniLine kvs"
  unfolding iniFile_def
proof (rule strtokAll_lines, rule ballI)
  fix l assume l: "l \<in> set ((CHR ''['' # section @ '']'') # map iniLine kvs)"
  show "l \<noteq> [] \<and> (\<forall>c \<in> set l. \<not> isLineEnd c)"
  proof (cases "l = CHR ''['' # section @ '']''")
    case True
    have "\<forall>c \<in> set section. \<not> isLineEnd c"
      using assms(2) isLineEnd_space by (auto simp: list_all_iff)
    then show ?thesis using True by (auto simp: isLineEnd_def)
  next
    case False
    then obtain kv where "kv \<in> set kvs" "l = iniLine kv" using l by auto
    then show ?thesis
      using assms(1) iniLine_plain [of "fst kv" "snd kv"] by (auto simp: list_all_iff)
  qed
qed

lemma iniLoop_file:
  assumes "list_all (\<lambda>(k, v). plainKey k \<and> plainValue v) kvs"
    and "list_all (\<lambda>c. \<not> isspace c \<and> c \<noteq> CHR '']'') section" and "isSection section"
    and "setKeys setKey clean kvs config = Some config'"
  shows "iniLoop isSection clean setKey (strtokAll isLineEnd (iniFile section kvs)) False config
    = (True, config')"
proof -
  have trim: "trim (CHR ''['' # section @ '']'') = CHR ''['' # section @ '']''"
    by (rule trim_idle) (simp_all add: not_space_eq)
  have "trim section = section" using assms(2) by (intro trim_no_space) (simp add: list_all_iff)
  moreover have "strchrSplit (CHR '']'') (CHR ''['' # section @ '']'') = Some (CHR ''['' # section, [])"
    using strchrSplit_first [of "CHR '']''" "CHR ''['' # section" "[]"] assms(2)
    by (auto simp: list_all_iff)
  ultimately show ?thesis
    using assms(3) iniLoop_lines [OF assms(1,4), of isSection]
    by (simp add: iniFile_lines [OF assms(1,2)] trim)
qed

text \<open>A property that every key keeps holds of the final configuration.\<close>

lemma iniLoop_invariant:
  assumes "\<And>k v c c'. P c \<Longrightarrow> setKey k v c = Some c' \<Longrightarrow> P c'"
  shows "P config \<Longrightarrow> iniLoop isSection clean setKey ls inSection config = (ok, config') \<Longrightarrow> P config'"
proof (induction ls arbitrary: inSection config)
  case (Cons raw rest)
  from Cons.prems show ?case
    by (auto simp: Let_def split: if_splits option.splits prod.splits
        intro: Cons.IH dest: assms [OF Cons.prems(1)])
qed simp

end
