(* ===== verification/FtpPath.thy ===== *)
theory FtpPath
  imports IniText
begin

text \<open>
  \<open>ftp_path.c\<close>: mapping an FTP path to a path on the SD card, and the guard that keeps FTP
  clients away from the search session files while a search runs.
\<close>

definition FTP_SD_PREFIX :: string where "FTP_SD_PREFIX = ''sdmc:''"
definition FTP_SEARCH_PATH :: string where "FTP_SEARCH_PATH = ''/switch/sys-agent/search''"

text \<open>The loop over the segments between slashes: true when one of them is \<open>..\<close>.\<close>

function hasParentSegment :: "string \<Rightarrow> bool" where
  "hasParentSegment segment =
    (if segment = [] then False
     else
       (let seg = takeWhile (\<lambda>c. c \<noteq> CHR ''/'') segment; rest = dropWhile (\<lambda>c. c \<noteq> CHR ''/'') segment
        in if seg = ''..'' then True else hasParentSegment (tl rest)))"
  by pat_completeness auto
termination
proof (relation "measure length")
  fix segment :: string and x xa
  assume "segment \<noteq> []" and xa: "xa = dropWhile (\<lambda>c. c \<noteq> CHR ''/'') segment"
  then have "0 < length segment" by simp
  moreover have "length xa \<le> length segment" unfolding xa by (rule length_dropWhile_le)
  ultimately have "length (tl xa) < length segment" by (cases xa; cases segment) simp_all
  then show "(tl xa, segment) \<in> measure length" by simp
qed simp

declare hasParentSegment.simps [simp del]

definition ftpPathResolve :: "string option \<Rightarrow> nat \<Rightarrow> string option" where
  "ftpPathResolve ftpPath outputSize =
    (case ftpPath of
       None \<Rightarrow> None
     | Some path \<Rightarrow>
         if path = [] \<or> hd path \<noteq> CHR ''/'' \<or> CHR '':'' \<in> set path then None
         else if hasParentSegment (tl path) then None
         else if length FTP_SD_PREFIX + length path + 1 > outputSize then None
         else Some (FTP_SD_PREFIX @ path))"

definition ftpPathIsSearchStorage :: "string option \<Rightarrow> bool" where
  "ftpPathIsSearchStorage ftpPath =
    (case ftpPath of
       None \<Rightarrow> False
     | Some path \<Rightarrow>
         take (length FTP_SEARCH_PATH) path = FTP_SEARCH_PATH
         \<and> (drop (length FTP_SEARCH_PATH) path = []
            \<or> hd (drop (length FTP_SEARCH_PATH) path) = CHR ''/''))"

definition ftpPathCanMutate :: "string option \<Rightarrow> bool \<Rightarrow> bool" where
  "ftpPathCanMutate ftpPath searchActive \<longleftrightarrow> \<not> searchActive \<or> \<not> ftpPathIsSearchStorage ftpPath"

subsection \<open>Segments\<close>

text \<open>A path as the file system reads it: its segments, empty ones and \<open>.\<close> left out.\<close>

definition segments :: "string \<Rightarrow> string list" where
  "segments path = filter (\<lambda>s. s \<noteq> ''.'') (strtokAll (\<lambda>c. c = CHR ''/'') path)"

lemma strtokAll_slash:
  "strtokAll (\<lambda>c. c = CHR ''/'') segment =
    (let seg = takeWhile (\<lambda>c. c \<noteq> CHR ''/'') segment;
         rest = tl (dropWhile (\<lambda>c. c \<noteq> CHR ''/'') segment)
     in if segment = [] then []
        else if seg = [] then strtokAll (\<lambda>c. c = CHR ''/'') rest
        else seg # strtokAll (\<lambda>c. c = CHR ''/'') rest)"
proof (cases segment)
  case Nil
  then show ?thesis by (simp add: strtokAll_Nil)
next
  case (Cons c cs)
  let ?d = "\<lambda>c. c = CHR ''/''"
  have skip: "strtokAll ?d s = strtokAll ?d (tl s)" if "s = [] \<or> hd s = CHR ''/''" for s
    using that by (cases s) (auto simp: strtokAll_skip strtokAll_Nil)
  have rest: "dropWhile (\<lambda>c. c \<noteq> CHR ''/'') segment = []
      \<or> hd (dropWhile (\<lambda>c. c \<noteq> CHR ''/'') segment) = CHR ''/''"
    using hd_dropWhile [of "\<lambda>c. c \<noteq> CHR ''/''" segment] by blast
  show ?thesis
  proof (cases "c = CHR ''/''")
    case True
    then show ?thesis using Cons by (simp add: strtokAll_skip)
  next
    case False
    then have "dropWhile ?d segment = c # cs" using Cons by simp
    from strtokAll_Cons [OF this] skip [OF rest] Cons False show ?thesis by simp
  qed
qed

lemma hasParentSegment_iff:
  "hasParentSegment p \<longleftrightarrow> ''..'' \<in> set (strtokAll (\<lambda>c. c = CHR ''/'') p)"
proof (induction p rule: hasParentSegment.induct)
  case (1 p)
  show ?case
  proof (cases "p = []")
    case True
    then show ?thesis by (simp add: hasParentSegment.simps [of "[]"] strtokAll_Nil)
  next
    case False
    let ?seg = "takeWhile (\<lambda>c. c \<noteq> CHR ''/'') p" and ?rest = "dropWhile (\<lambda>c. c \<noteq> CHR ''/'') p"
    have "?seg \<noteq> ''..'' \<Longrightarrow>
        hasParentSegment (tl ?rest) \<longleftrightarrow> ''..'' \<in> set (strtokAll (\<lambda>c. c = CHR ''/'') (tl ?rest))"
      by (rule "1.IH" [OF False refl refl])
    then show ?thesis
      using False
      by (subst hasParentSegment.simps, subst strtokAll_slash) (auto simp: Let_def)
  qed
qed

text \<open>
  C13: a resolved path stays on the SD card.  \<open>ftpPathResolve\<close> succeeds exactly for absolute
  paths without a device colon and without a \<open>..\<close> segment that fit the buffer with their
  NUL, and the result is the path under the \<open>sdmc:\<close> prefix.
\<close>

theorem ftpPathResolve_iff:
  "ftpPathResolve (Some path) outputSize = Some out \<longleftrightarrow>
    (\<exists>rest. path = CHR ''/'' # rest) \<and> CHR '':'' \<notin> set path \<and> ''..'' \<notin> set (segments path)
    \<and> out = ''sdmc:'' @ path \<and> length out < outputSize"
proof (cases "\<exists>rest. path = CHR ''/'' # rest")
  case True
  then obtain rest where path: "path = CHR ''/'' # rest" by blast
  have "segments path = filter (\<lambda>s. s \<noteq> ''.'') (strtokAll (\<lambda>c. c = CHR ''/'') rest)"
    by (simp add: segments_def path strtokAll_skip)
  then have "''..'' \<in> set (segments path) \<longleftrightarrow> hasParentSegment rest"
    by (simp add: hasParentSegment_iff)
  then show ?thesis
    by (auto simp: ftpPathResolve_def path FTP_SD_PREFIX_def)
next
  case False
  then show ?thesis by (cases path) (auto simp: ftpPathResolve_def)
qed

text \<open>A path is under the search directory when the segments of that directory begin its own.\<close>

definition underSearchDirectory :: "string \<Rightarrow> bool" where
  "underSearchDirectory path \<longleftrightarrow> take 3 (segments path) = [''switch'', ''sys-agent'', ''search'']"

text \<open>
  The guard has a hole.  The file system collapses repeated slashes and \<open>.\<close> segments, the
  guard compares bytes: these three paths name the search directory, resolve, and may be changed
  while a search is active.
\<close>

theorem search_guard_bypass:
  "list_all (\<lambda>path. underSearchDirectory path \<and> ftpPathCanMutate (Some path) True
      \<and> ftpPathResolve (Some path) 256 = Some (''sdmc:'' @ path))
    [''//switch/sys-agent/search/session.bin'', ''/./switch/sys-agent/search'',
     ''/switch//sys-agent/search/a'']"
  by code_simp

lemma search_guard_holds:
  "ftpPathIsSearchStorage (Some path) \<Longrightarrow> underSearchDirectory path"
proof -
  assume a: "ftpPathIsSearchStorage (Some path)"
  let ?n = "length FTP_SEARCH_PATH" and ?d = "\<lambda>c. c = CHR ''/''"
  define rest where "rest = drop ?n path"
  have path: "path = FTP_SEARCH_PATH @ rest" and rest: "rest = [] \<or> hd rest = CHR ''/''"
    using a append_take_drop_id [of ?n path] by (auto simp: ftpPathIsSearchStorage_def rest_def)
  have step: "strtokAll ?d (CHR ''/'' # t @ s) = t # strtokAll ?d s"
    if "t \<noteq> []" "\<forall>c \<in> set t. c \<noteq> CHR ''/''" "s = [] \<or> hd s = CHR ''/''" for t s
    using that by (simp add: strtokAll_skip strtokAll_tok)
  have "strtokAll ?d path = ''switch'' # ''sys-agent'' # ''search'' # strtokAll ?d rest"
    using step [of "''search''" rest] step [of "''sys-agent''" "''/search'' @ rest"]
      step [of "''switch''" "''/sys-agent/search'' @ rest"] rest
    by (simp add: path FTP_SEARCH_PATH_def)
  then show "underSearchDirectory path" by (simp add: underSearchDirectory_def segments_def)
qed

end
