(* ===== verification/FtpConfig.thy ===== *)
theory FtpConfig
  imports IniText
begin

text \<open>
  \<open>ftp_config.c\<close>: the configuration of the FTP server.  A character array of the struct is the
  C string it holds.
\<close>

definition FTP_CONFIG_FILE_LIMIT :: nat where "FTP_CONFIG_FILE_LIMIT = 4096"
definition FTP_CREDENTIAL_SIZE :: nat where "FTP_CREDENTIAL_SIZE = 128"
definition FTP_DEFAULT_PORT :: u16 where "FTP_DEFAULT_PORT = 6001"
definition FTP_DEFAULT_TIMEOUT :: u32 where "FTP_DEFAULT_TIMEOUT = 30"

record FtpConfig =
  ftpEnabled :: bool
  ftpPort :: u16
  ftpAnonymous :: bool
  ftpUsername :: string
  ftpPassword :: string
  ftpTimeout :: u32
  ftpUseLocaltime :: bool

datatype FtpConfigResult =
    FtpConfigOk
  | FtpConfigInvalidValue
  | FtpConfigCredentialsRequired
  | FtpConfigIoError

definition parseBool :: "string \<Rightarrow> bool option" where
  "parseBool value =
    (if value = ''1'' \<or> value = ''true'' then Some True
     else if value = ''0'' \<or> value = ''false'' then Some False
     else None)"

definition copyCredential :: "string \<Rightarrow> string option" where
  "copyCredential value =
    (if length value \<ge> FTP_CREDENTIAL_SIZE then None
     else
       (let inner = (if length value \<ge> 2 \<and> hd value = CHR 0x22 \<and> last value = CHR 0x22
                     then butlast (tl value) else value)
        in if length inner \<ge> FTP_CREDENTIAL_SIZE then None else Some inner))"

definition ftpConfigDefaults :: FtpConfig where
  "ftpConfigDefaults =
    \<lparr>ftpEnabled = True, ftpPort = FTP_DEFAULT_PORT, ftpAnonymous = True, ftpUsername = [],
     ftpPassword = [], ftpTimeout = FTP_DEFAULT_TIMEOUT, ftpUseLocaltime = True\<rparr>"

text \<open>The number of a \<open>port\<close> or \<open>timeout\<close> line; spaces may follow it.\<close>

definition ftpNumber :: "string \<Rightarrow> int option" where
  "ftpNumber value =
    (let r = strtoull value 10
     in if stRange r \<or> value = [] \<or> trim (stRest r) \<noteq> [] then None else Some (stValue r))"

definition ftpSetKey :: "string \<Rightarrow> string \<Rightarrow> FtpConfig \<Rightarrow> FtpConfig option" where
  "ftpSetKey key value config =
    (if key = ''enabled'' then map_option (\<lambda>b. config\<lparr>ftpEnabled := b\<rparr>) (parseBool value)
     else if key = ''anonymous'' then map_option (\<lambda>b. config\<lparr>ftpAnonymous := b\<rparr>) (parseBool value)
     else if key = ''port'' then
       (case ftpNumber value of
          None \<Rightarrow> None
        | Some port \<Rightarrow>
            if port = 0 \<or> port > 65535 then None else Some (config\<lparr>ftpPort := word_of_int port\<rparr>))
     else if key = ''timeout'' then
       (case ftpNumber value of
          None \<Rightarrow> None
        | Some timeout \<Rightarrow>
            if timeout > 4294967295 then None else Some (config\<lparr>ftpTimeout := word_of_int timeout\<rparr>))
     else if key = ''use_localtime'' then
       map_option (\<lambda>b. config\<lparr>ftpUseLocaltime := b\<rparr>) (parseBool value)
     else if key = ''username'' then
       map_option (\<lambda>s. config\<lparr>ftpUsername := s\<rparr>) (copyCredential value)
     else if key = ''password'' then
       map_option (\<lambda>s. config\<lparr>ftpPassword := s\<rparr>) (copyCredential value)
     else Some config)"

definition ftpConfigParseText :: "string option \<Rightarrow> FtpConfig \<Rightarrow> FtpConfigResult \<times> FtpConfig" where
  "ftpConfigParseText arg config0 =
    (case arg of
       None \<Rightarrow> (FtpConfigInvalidValue, config0)
     | Some text \<Rightarrow>
         let (ok, config) = iniLoop (\<lambda>s. s = ''ftp'') id ftpSetKey (strtokAll isLineEnd text)
                              False ftpConfigDefaults
         in if \<not> ok then (FtpConfigInvalidValue, config)
            else if \<not> ftpAnonymous config \<and> (ftpUsername config = [] \<or> ftpPassword config = [])
            then (FtpConfigCredentialsRequired, config)
            else (FtpConfigOk, config))"

text \<open>The text ends at its first NUL; at most 4096 bytes are read.\<close>

definition ftpConfigLoad :: "FileRead \<Rightarrow> FtpConfig \<Rightarrow> FtpConfigResult \<times> FtpConfig" where
  "ftpConfigLoad file config0 =
    (case file of
       FileMissing \<Rightarrow> (FtpConfigOk, ftpConfigDefaults)
     | FileOpenFailed \<Rightarrow> (FtpConfigIoError, config0)
     | FileReadFailed \<Rightarrow> (FtpConfigIoError, config0)
     | FileBytes bytes \<Rightarrow>
         if length bytes > FTP_CONFIG_FILE_LIMIT then (FtpConfigIoError, config0)
         else ftpConfigParseText (Some (takeWhile (\<lambda>c. c \<noteq> NUL) bytes)) config0)"

fun ftpConfigResultName :: "FtpConfigResult \<Rightarrow> string" where
  "ftpConfigResultName FtpConfigOk = ''OK''"
| "ftpConfigResultName FtpConfigInvalidValue = ''invalid_value''"
| "ftpConfigResultName FtpConfigCredentialsRequired = ''credentials_required''"
| "ftpConfigResultName FtpConfigIoError = ''io_error''"

subsection \<open>What an accepted configuration satisfies\<close>

definition ftpConfigOk :: "FtpConfig \<Rightarrow> bool" where
  "ftpConfigOk c \<longleftrightarrow> ftpPort c \<noteq> 0
    \<and> length (ftpUsername c) < FTP_CREDENTIAL_SIZE \<and> length (ftpPassword c) < FTP_CREDENTIAL_SIZE"

lemma copyCredential_length: "copyCredential v = Some s \<Longrightarrow> length s < FTP_CREDENTIAL_SIZE"
  by (auto simp: copyCredential_def Let_def split: if_splits)

lemma port_nonzero: "0 \<le> p \<Longrightarrow> p \<noteq> 0 \<Longrightarrow> \<not> p > 65535 \<Longrightarrow> (word_of_int p :: u16) \<noteq> 0"
proof
  assume p: "0 \<le> p" "p \<noteq> 0" "\<not> p > 65535" and "(word_of_int p :: u16) = 0"
  then have "uint (word_of_int p :: u16) = 0" by simp
  moreover have "uint (word_of_int p :: u16) = p"
    using p by (simp add: unsigned_of_int take_bit_int_eq_self)
  ultimately show False using p by simp
qed

lemma ftpNumber_nonneg: "ftpNumber v = Some n \<Longrightarrow> 0 \<le> n"
  using strtoull_value_range [of v 10] by (auto simp: ftpNumber_def Let_def split: if_splits)

lemma port_accepted:
  "ftpNumber v = Some p \<Longrightarrow> p \<noteq> 0 \<Longrightarrow> \<not> p > 65535 \<Longrightarrow> (word_of_int p :: u16) \<noteq> 0"
  using ftpNumber_nonneg port_nonzero by blast

lemma ftpSetKey_ok: "ftpConfigOk c \<Longrightarrow> ftpSetKey k v c = Some c' \<Longrightarrow> ftpConfigOk c'"
  by (auto simp: ftpSetKey_def ftpConfigOk_def dest: copyCredential_length port_accepted
      split: if_splits option.splits)

text \<open>
  C14: every configuration the loader accepts is usable: the port is not 0, both credentials fit
  their buffers, and a server that is not anonymous has a user name and a password.
\<close>

theorem ftpConfigLoad_safe:
  assumes "ftpConfigLoad file config0 = (FtpConfigOk, config)"
  shows "ftpPort config \<noteq> 0
    \<and> length (ftpUsername config) < FTP_CREDENTIAL_SIZE \<and> length (ftpPassword config) < FTP_CREDENTIAL_SIZE
    \<and> (\<not> ftpAnonymous config \<longrightarrow> ftpUsername config \<noteq> [] \<and> ftpPassword config \<noteq> [])"
proof -
  have dflt: "ftpConfigOk ftpConfigDefaults"
    by (simp add: ftpConfigOk_def ftpConfigDefaults_def FTP_CREDENTIAL_SIZE_def FTP_DEFAULT_PORT_def)
  have parsed: "ftpConfigOk config \<and> (ftpAnonymous config
      \<or> ftpUsername config \<noteq> [] \<and> ftpPassword config \<noteq> [])"
    if p: "ftpConfigParseText (Some s) config0 = (FtpConfigOk, config)" for s
  proof -
    obtain ok c where run: "iniLoop (\<lambda>s. s = ''ftp'') id ftpSetKey (strtokAll isLineEnd s) False
        ftpConfigDefaults = (ok, c)" by force
    from iniLoop_invariant [of ftpConfigOk ftpSetKey, OF ftpSetKey_ok dflt run] run p
    show ?thesis by (auto simp: ftpConfigParseText_def split: if_splits)
  qed
  have "ftpConfigOk config \<and> (ftpAnonymous config
      \<or> ftpUsername config \<noteq> [] \<and> ftpPassword config \<noteq> [])"
    using assms parsed dflt
    by (auto simp: ftpConfigLoad_def ftpConfigDefaults_def split: FileRead.splits if_splits)
  then show ?thesis by (auto simp: ftpConfigOk_def)
qed


lemma ftpConfigLoad_safe_witness:
  "ftpConfigLoad (FileBytes ''[ftp]'') ftpConfigDefaults = (FtpConfigOk, ftpConfigDefaults)
    \<and> ftpPort ftpConfigDefaults \<noteq> 0"
proof -
  have load: "ftpConfigLoad (FileBytes ''[ftp]'') ftpConfigDefaults = (FtpConfigOk, ftpConfigDefaults)"
    by code_simp
  with ftpConfigLoad_safe [OF load] show ?thesis by simp
qed

subsection \<open>Writing and reading back\<close>

definition showBool :: "bool \<Rightarrow> string" where
  "showBool b = (if b then ''1'' else ''0'')"

definition quoted :: "string \<Rightarrow> string" where
  "quoted s = CHR 0x22 # s @ [CHR 0x22]"

definition ftpKeys :: "FtpConfig \<Rightarrow> (string \<times> string) list" where
  "ftpKeys c =
    [(''enabled'', showBool (ftpEnabled c)), (''port'', printNat 10 (unat (ftpPort c))),
     (''anonymous'', showBool (ftpAnonymous c)), (''username'', quoted (ftpUsername c)),
     (''password'', quoted (ftpPassword c)), (''timeout'', printNat 10 (unat (ftpTimeout c))),
     (''use_localtime'', showBool (ftpUseLocaltime c))]"

lemma digits_plainValue:
  assumes "list_all (isDigitOf 10) s"
  shows "plainValue s"
proof -
  have ns: "\<forall>c \<in> set s. \<not> isspace c" using assms isDigitOf_not_special by (auto simp: list_all_iff)
  then have "\<forall>c \<in> set s. \<not> isLineEnd c" using isLineEnd_space by blast
  with ns show ?thesis by (auto simp: plainValue_def list_all_iff)
qed

lemma ftpNumber_printNat: "n < 2 ^ 64 \<Longrightarrow> ftpNumber (printNat 10 n) = Some (int n)"
  using strtoull_digits [of 10 "printNat 10 n"] printNat_digits [of 10 n]
  by (simp add: ftpNumber_def Let_def)

lemma quoted_facts:
  assumes "list_all (\<lambda>c. \<not> isLineEnd c) s" and "length s + 2 < FTP_CREDENTIAL_SIZE"
  shows "plainValue (quoted s)" and "copyCredential (quoted s) = Some s"
proof -
  have "\<not> isspace (CHR 0x22)" "\<not> isLineEnd (CHR 0x22)" by (simp_all add: isspace_def isLineEnd_def)
  with assms(1) show "plainValue (quoted s)" by (simp add: plainValue_def quoted_def)
  show "copyCredential (quoted s) = Some s"
    using assms(2) by (simp add: copyCredential_def quoted_def Let_def)
qed

text \<open>
  C15: the configuration file round trip.  Any configuration whose port is not 0, whose credentials
  leave room for the quotes and hold no line break, and which has credentials unless it is
  anonymous, is read back field by field from its written form.
\<close>

theorem ftpConfig_roundtrip:
  assumes "ftpPort c \<noteq> 0"
    and "list_all (\<lambda>x. \<not> isLineEnd x) (ftpUsername c)" and "length (ftpUsername c) + 2 < FTP_CREDENTIAL_SIZE"
    and "list_all (\<lambda>x. \<not> isLineEnd x) (ftpPassword c)" and "length (ftpPassword c) + 2 < FTP_CREDENTIAL_SIZE"
    and "\<not> ftpAnonymous c \<longrightarrow> ftpUsername c \<noteq> [] \<and> ftpPassword c \<noteq> []"
  shows "ftpConfigParseText (Some (iniFile ''ftp'' (ftpKeys c))) config0 = (FtpConfigOk, c)"
proof -
  note user = quoted_facts [OF assms(2,3)] and pass = quoted_facts [OF assms(4,5)]
  have "uint (ftpPort c) < 2 ^ LENGTH(16)" and "uint (ftpTimeout c) < 2 ^ LENGTH(32)"
    by (rule unsigned_less)+
  then have port: "uint (ftpPort c) \<noteq> 0" "\<not> uint (ftpPort c) > 65535"
    and time: "\<not> uint (ftpTimeout c) > 4294967295"
    using assms(1) by (auto simp: word_uint_eq_iff)
  have bool: "parseBool (showBool b) = Some b" "plainValue (showBool b)" for b
    by (auto simp: parseBool_def showBool_def plainValue_def isspace_def isLineEnd_def)
  have number: "ftpNumber (printNat 10 (unat (ftpPort c))) = Some (uint (ftpPort c))"
    "ftpNumber (printNat 10 (unat (ftpTimeout c))) = Some (uint (ftpTimeout c))"
    using ftpNumber_printNat [of "unat (ftpPort c)"] ftpNumber_printNat [of "unat (ftpTimeout c)"]
      unat_u16_lt [of "ftpPort c"] unat_u32_lt [of "ftpTimeout c"] by simp_all
  have "list_all (\<lambda>(k, v). plainKey k \<and> plainValue v) (ftpKeys c)"
    using bool user pass digits_plainValue printNat_digits(1) [of 10]
    by (simp add: ftpKeys_def plainKey_def isspace_def)
  moreover have "setKeys ftpSetKey id (ftpKeys c) ftpConfigDefaults = Some c"
  proof -
    have eta: "\<lparr>ftpEnabled = ftpEnabled c, ftpPort = ftpPort c, ftpAnonymous = ftpAnonymous c,
      ftpUsername = ftpUsername c, ftpPassword = ftpPassword c, ftpTimeout = ftpTimeout c,
      ftpUseLocaltime = ftpUseLocaltime c\<rparr> = c" by (cases c) simp
    show ?thesis
      using port time
      by (simp add: ftpKeys_def ftpSetKey_def bool number user pass ftpConfigDefaults_def
          eta)
  qed
  ultimately have "iniLoop (\<lambda>s. s = ''ftp'') id ftpSetKey
      (strtokAll isLineEnd (iniFile ''ftp'' (ftpKeys c))) False ftpConfigDefaults = (True, c)"
    by (intro iniLoop_file) (simp_all add: isspace_def)
  then show ?thesis using assms(6) by (auto simp: ftpConfigParseText_def)
qed

lemma ftpConfig_roundtrip_witness:
  "let c = \<lparr>ftpEnabled = True, ftpPort = 2121, ftpAnonymous = False, ftpUsername = ''me'',
      ftpPassword = '' a b '', ftpTimeout = 60, ftpUseLocaltime = False\<rparr>
   in ftpConfigParseText (Some (iniFile ''ftp'' (ftpKeys c))) ftpConfigDefaults = (FtpConfigOk, c)"
  unfolding Let_def
  by (rule ftpConfig_roundtrip) (simp_all add: isLineEnd_def FTP_CREDENTIAL_SIZE_def)

end
