(* ===== verification/BootUnlockConfig.thy ===== *)
theory BootUnlockConfig
  imports FtpConfig
begin

text \<open>
  \<open>boot_unlock_config.c\<close>: the schedule of the boot unlock.  A value may be followed by a
  comment; the numbers have a maximum each, and a final check refuses schedules that would leave
  the worker nothing to do or spread its burst over more than a second.
\<close>

datatype BootUnlockMode = BootUnlockModeOff | BootUnlockModeArmed | BootUnlockModeEveryBoot

record BootUnlockConfig =
  buMode :: BootUnlockMode
  buFirstDelayMs :: u32
  buWakeAttempts :: u32
  buWakeDelayMs :: u32
  buVerifyDelayMs :: u32
  buPressGapMs :: u32
  buBurstPresses :: u32
  buMaxRounds :: u32
  buDeadlineMs :: u32

datatype BootUnlockConfigResult =
    BootUnlockConfigOk
  | BootUnlockConfigNotFound
  | BootUnlockConfigInvalidValue
  | BootUnlockConfigIoError

definition BOOT_UNLOCK_CONFIG_FILE_LIMIT :: nat where "BOOT_UNLOCK_CONFIG_FILE_LIMIT = 4096"

definition parseUnsigned :: "string \<Rightarrow> u32 \<Rightarrow> u32 option" where
  "parseUnsigned value maxValue =
    (if value = [] then None
     else
       (let r = strtoull value 10
        in if \<not> stConverted r \<or> stRest r \<noteq> [] then None
           else if stValue r > uint maxValue then None
           else Some (word_of_int (stValue r))))"

definition bootUnlockConfigDefaults :: BootUnlockConfig where
  "bootUnlockConfigDefaults =
    \<lparr>buMode = BootUnlockModeArmed, buFirstDelayMs = 2000, buWakeAttempts = 4, buWakeDelayMs = 600,
     buVerifyDelayMs = 1500, buPressGapMs = 250, buBurstPresses = 3, buMaxRounds = 8,
     buDeadlineMs = 90000\<rparr>"

fun bootUnlockModeName :: "BootUnlockMode \<Rightarrow> string" where
  "bootUnlockModeName BootUnlockModeOff = ''off''"
| "bootUnlockModeName BootUnlockModeArmed = ''armed''"
| "bootUnlockModeName BootUnlockModeEveryBoot = ''everyBoot''"

definition bootUnlockModeFromName :: "string \<Rightarrow> BootUnlockMode option" where
  "bootUnlockModeFromName name =
    (if name = ''off'' then Some BootUnlockModeOff
     else if name = ''armed'' then Some BootUnlockModeArmed
     else if name = ''everyBoot'' \<or> name = ''every-boot'' \<or> name = ''always''
     then Some BootUnlockModeEveryBoot
     else None)"

text \<open>
  The comment loop: the value is cut at the first \<open>#\<close> or \<open>;\<close> that starts it or
  follows a space.
\<close>

fun cutComment :: "bool \<Rightarrow> string \<Rightarrow> string" where
  "cutComment afterSpace [] = []"
| "cutComment afterSpace (c # cs) =
    (if (c = CHR ''#'' \<or> c = CHR '';'') \<and> afterSpace then []
     else c # cutComment (isspace c) cs)"

definition bootCleanValue :: "string \<Rightarrow> string" where
  "bootCleanValue value = trim (cutComment True value)"

definition bootSetKey :: "string \<Rightarrow> string \<Rightarrow> BootUnlockConfig \<Rightarrow> BootUnlockConfig option" where
  "bootSetKey key value config =
    (if key = ''mode'' then map_option (\<lambda>m. config\<lparr>buMode := m\<rparr>) (bootUnlockModeFromName value)
     else if key = ''firstDelayMs'' then
       map_option (\<lambda>n. config\<lparr>buFirstDelayMs := n\<rparr>) (parseUnsigned value 600000)
     else if key = ''wakeDelayMs'' then
       map_option (\<lambda>n. config\<lparr>buWakeDelayMs := n\<rparr>) (parseUnsigned value 60000)
     else if key = ''wakeAttempts'' then
       map_option (\<lambda>n. config\<lparr>buWakeAttempts := n\<rparr>) (parseUnsigned value 10)
     else if key = ''verifyDelayMs'' then
       map_option (\<lambda>n. config\<lparr>buVerifyDelayMs := n\<rparr>) (parseUnsigned value 60000)
     else if key = ''pressGapMs'' then
       map_option (\<lambda>n. config\<lparr>buPressGapMs := n\<rparr>) (parseUnsigned value 1000)
     else if key = ''burstPresses'' then
       map_option (\<lambda>n. config\<lparr>buBurstPresses := n\<rparr>) (parseUnsigned value 10)
     else if key = ''maxRounds'' then
       map_option (\<lambda>n. config\<lparr>buMaxRounds := n\<rparr>) (parseUnsigned value 32)
     else if key = ''deadlineMs'' then
       map_option (\<lambda>n. config\<lparr>buDeadlineMs := n\<rparr>) (parseUnsigned value 600000)
     else Some config)"

definition bootUnlockConfigParseText ::
  "string option \<Rightarrow> BootUnlockConfig \<Rightarrow> BootUnlockConfigResult \<times> BootUnlockConfig" where
  "bootUnlockConfigParseText arg config0 =
    (case arg of
       None \<Rightarrow> (BootUnlockConfigInvalidValue, config0)
     | Some text \<Rightarrow>
         let (ok, config) = iniLoop (\<lambda>s. s = ''boot-unlock'' \<or> s = ''bootunlock'') bootCleanValue
                              bootSetKey (strtokAll isLineEnd text) False bootUnlockConfigDefaults
         in if \<not> ok then (BootUnlockConfigInvalidValue, config)
            else if buMaxRounds config = 0 \<or> buBurstPresses config = 0 \<or> buPressGapMs config = 0
                    \<or> buDeadlineMs config = 0 \<or> buPressGapMs config \<ge> 1000
            then (BootUnlockConfigInvalidValue, config)
            else (BootUnlockConfigOk, config))"

definition bootUnlockConfigLoad :: "FileRead \<Rightarrow> BootUnlockConfigResult \<times> BootUnlockConfig" where
  "bootUnlockConfigLoad file =
    (case file of
       FileMissing \<Rightarrow> (BootUnlockConfigNotFound, bootUnlockConfigDefaults)
     | FileOpenFailed \<Rightarrow> (BootUnlockConfigIoError, bootUnlockConfigDefaults)
     | FileReadFailed \<Rightarrow> (BootUnlockConfigIoError, bootUnlockConfigDefaults)
     | FileBytes bytes \<Rightarrow>
         if length bytes > BOOT_UNLOCK_CONFIG_FILE_LIMIT
         then (BootUnlockConfigIoError, bootUnlockConfigDefaults)
         else bootUnlockConfigParseText (Some (takeWhile (\<lambda>c. c \<noteq> NUL) bytes))
                bootUnlockConfigDefaults)"

fun bootUnlockConfigResultName :: "BootUnlockConfigResult \<Rightarrow> string" where
  "bootUnlockConfigResultName BootUnlockConfigOk = ''ok''"
| "bootUnlockConfigResultName BootUnlockConfigNotFound = ''not_found''"
| "bootUnlockConfigResultName BootUnlockConfigInvalidValue = ''invalid_value''"
| "bootUnlockConfigResultName BootUnlockConfigIoError = ''io_error''"

subsection \<open>Limits\<close>

definition withinMaxima :: "BootUnlockConfig \<Rightarrow> bool" where
  "withinMaxima c \<longleftrightarrow> buFirstDelayMs c \<le> 600000 \<and> buWakeAttempts c \<le> 10 \<and> buWakeDelayMs c \<le> 60000
    \<and> buVerifyDelayMs c \<le> 60000 \<and> buPressGapMs c \<le> 1000 \<and> buBurstPresses c \<le> 10
    \<and> buMaxRounds c \<le> 32 \<and> buDeadlineMs c \<le> 600000"

text \<open>What the worker relies on.\<close>

definition usableSchedule :: "BootUnlockConfig \<Rightarrow> bool" where
  "usableSchedule c \<longleftrightarrow> withinMaxima c \<and> buMaxRounds c > 0 \<and> buBurstPresses c > 0
    \<and> buPressGapMs c > 0 \<and> buPressGapMs c < 1000 \<and> buDeadlineMs c > 0"

lemma parseUnsigned_le: "parseUnsigned v m = Some n \<Longrightarrow> n \<le> m"
proof -
  assume p: "parseUnsigned v m = Some n"
  let ?x = "stValue (strtoull v 10)"
  from p have n: "n = word_of_int ?x" and le: "?x \<le> uint m"
    by (auto simp: parseUnsigned_def Let_def split: if_splits)
  have "0 \<le> ?x" using strtoull_value_range by simp
  moreover have "uint m < 2 ^ LENGTH(32)" by (rule unsigned_less)
  ultimately have "uint n = ?x" using le unfolding n by (simp add: unsigned_of_int take_bit_int_eq_self)
  with le show ?thesis by (simp add: word_le_def)
qed

lemma bootSetKey_within: "withinMaxima c \<Longrightarrow> bootSetKey k v c = Some c' \<Longrightarrow> withinMaxima c'"
  by (auto simp: bootSetKey_def withinMaxima_def dest: parseUnsigned_le split: if_splits)

text \<open>
  C16: a schedule the loader accepts, or falls back to when there is no file, is one the worker can
  run: at least one round and one press, a burst gap below one second, and every number within
  its documented maximum.
\<close>

theorem bootUnlockConfigLoad_usable:
  assumes "bootUnlockConfigLoad file = (r, c)" and "r \<in> {BootUnlockConfigOk, BootUnlockConfigNotFound}"
  shows "usableSchedule c"
proof -
  have dflt: "withinMaxima bootUnlockConfigDefaults" "usableSchedule bootUnlockConfigDefaults"
    by (simp_all add: usableSchedule_def withinMaxima_def bootUnlockConfigDefaults_def)
  have parsed: "usableSchedule c \<or> r = BootUnlockConfigInvalidValue"
    if p: "bootUnlockConfigParseText (Some s) c0 = (r, c)" for s c0
  proof -
    obtain ok c1 where run: "iniLoop (\<lambda>s. s = ''boot-unlock'' \<or> s = ''bootunlock'') bootCleanValue
        bootSetKey (strtokAll isLineEnd s) False bootUnlockConfigDefaults = (ok, c1)" by force
    have "withinMaxima c1"
      using iniLoop_invariant [of withinMaxima bootSetKey, OF bootSetKey_within dflt(1) run] .
    with run p show ?thesis
      by (auto simp: bootUnlockConfigParseText_def usableSchedule_def word_gt_0 split: if_splits)
  qed
  show ?thesis
    using assms dflt(2) parsed
    by (auto simp: bootUnlockConfigLoad_def split: FileRead.splits if_splits)
qed

lemma bootUnlockConfigLoad_usable_witness:
  "usableSchedule (snd (bootUnlockConfigLoad (FileBytes ''[boot-unlock]'')))"
proof -
  have "bootUnlockConfigLoad (FileBytes ''[boot-unlock]'') = (BootUnlockConfigOk, bootUnlockConfigDefaults)"
    by code_simp
  from bootUnlockConfigLoad_usable [OF this] this show ?thesis by simp
qed

lemma bootUnlockMode_roundtrip: "bootUnlockModeFromName (bootUnlockModeName m) = Some m"
  by (cases m) (simp_all add: bootUnlockModeFromName_def)

subsection \<open>Writing and reading back\<close>

definition bootKeys :: "BootUnlockConfig \<Rightarrow> (string \<times> string) list" where
  "bootKeys c =
    [(''mode'', bootUnlockModeName (buMode c)), (''firstDelayMs'', printNat 10 (unat (buFirstDelayMs c))),
     (''wakeDelayMs'', printNat 10 (unat (buWakeDelayMs c))),
     (''wakeAttempts'', printNat 10 (unat (buWakeAttempts c))),
     (''verifyDelayMs'', printNat 10 (unat (buVerifyDelayMs c))),
     (''pressGapMs'', printNat 10 (unat (buPressGapMs c))),
     (''burstPresses'', printNat 10 (unat (buBurstPresses c))),
     (''maxRounds'', printNat 10 (unat (buMaxRounds c))),
     (''deadlineMs'', printNat 10 (unat (buDeadlineMs c)))]"

lemma cutComment_plain:
  "\<forall>c \<in> set s. c \<noteq> CHR ''#'' \<and> c \<noteq> CHR '';'' \<Longrightarrow> cutComment b s = s"
  by (induction s arbitrary: b) auto

lemma bootClean_digits: "list_all (isDigitOf 10) s \<Longrightarrow> bootCleanValue s = s"
proof -
  assume s: "list_all (isDigitOf 10) s"
  have "c \<noteq> CHR ''#'' \<and> c \<noteq> CHR '';'' \<and> \<not> isspace c" if "c \<in> set s" for c
  proof -
    have d: "isDigitOf 10 c" using s that by (simp add: list_all_iff)
    then show ?thesis using isDigitOf_not_special [OF d]
      by (auto simp: isDigitOf_def digitVal_def Let_def)
  qed
  then have "cutComment True s = s" "trim s = s"
    by (auto intro!: cutComment_plain trim_no_space simp: list_all_iff)
  then show ?thesis by (simp add: bootCleanValue_def)
qed

lemma bootClean_mode: "bootCleanValue (bootUnlockModeName m) = bootUnlockModeName m"
  by (cases m) (simp_all add: bootCleanValue_def trim_def isspace_def)

lemma parseUnsigned_printNat:
  assumes "w \<le> m"
  shows "parseUnsigned (printNat 10 (unat w)) m = Some w"
proof -
  note d = printNat_digits [of 10 "unat w"]
  have "strtoull (printNat 10 (unat w)) 10 =
      \<lparr>stValue = int (unat w), stRest = [], stConverted = True, stRange = False\<rparr>"
    using strtoull_digits [of 10 "printNat 10 (unat w)"] d unat_u32_lt [of w] by simp
  then show ?thesis using assms d(3) by (simp add: parseUnsigned_def word_le_def)
qed

text \<open>
  C17: every usable schedule survives being written to the configuration file and read back.
\<close>

theorem bootUnlockConfig_roundtrip:
  assumes "usableSchedule c"
  shows "bootUnlockConfigParseText (Some (iniFile ''boot-unlock'' (bootKeys c))) config0
    = (BootUnlockConfigOk, c)"
proof -
  have m: "withinMaxima c" using assms by (simp add: usableSchedule_def)
  have digits: "list_all (isDigitOf 10) (printNat 10 n)" for n by (rule printNat_digits) simp_all
  have mode: "plainValue (bootUnlockModeName md)" for md
    by (cases md) (simp_all add: plainValue_def isspace_def isLineEnd_def)
  have "list_all (\<lambda>(k, v). plainKey k \<and> plainValue v) (bootKeys c)"
    using digits_plainValue [OF digits] mode by (simp add: bootKeys_def plainKey_def isspace_def)
  moreover have "setKeys bootSetKey bootCleanValue (bootKeys c) bootUnlockConfigDefaults = Some c"
  proof -
    have eta: "\<lparr>buMode = buMode c, buFirstDelayMs = buFirstDelayMs c, buWakeAttempts = buWakeAttempts c,
      buWakeDelayMs = buWakeDelayMs c, buVerifyDelayMs = buVerifyDelayMs c, buPressGapMs = buPressGapMs c,
      buBurstPresses = buBurstPresses c, buMaxRounds = buMaxRounds c, buDeadlineMs = buDeadlineMs c\<rparr> = c"
      by (cases c) simp
    show ?thesis
      using m by (simp add: bootKeys_def bootSetKey_def bootClean_digits [OF digits] bootClean_mode
          bootUnlockMode_roundtrip parseUnsigned_printNat withinMaxima_def
          bootUnlockConfigDefaults_def eta)
  qed
  ultimately have "iniLoop (\<lambda>s. s = ''boot-unlock'' \<or> s = ''bootunlock'') bootCleanValue bootSetKey
      (strtokAll isLineEnd (iniFile ''boot-unlock'' (bootKeys c))) False bootUnlockConfigDefaults = (True, c)"
    by (intro iniLoop_file) (simp_all add: isspace_def)
  then show ?thesis using assms by (auto simp: bootUnlockConfigParseText_def usableSchedule_def)
qed

lemma bootUnlockConfig_roundtrip_witness:
  "bootUnlockConfigParseText (Some (iniFile ''boot-unlock'' (bootKeys bootUnlockConfigDefaults))) bootUnlockConfigDefaults
    = (BootUnlockConfigOk, bootUnlockConfigDefaults)"
  by (rule bootUnlockConfig_roundtrip)
    (simp add: usableSchedule_def withinMaxima_def bootUnlockConfigDefaults_def)

end
