(* ===== verification/HekateConfig.thy ===== *)
theory HekateConfig
  imports IniText
begin

text \<open>
  \<open>hekate_config.c\<close>: finding the boot entry of hekate's main configuration that carries a
  given \<open>id\<close>; its position is what the reboot request passes to the bootloader.

  The counters are natural numbers: a file with \<open>2^32\<close> section lines is not readable on the
  target.
\<close>

definition HEKATE_LINE_MAX :: nat where "HEKATE_LINE_MAX = 512"
definition HEKATE_RTC_INDEX_MAX :: nat where "HEKATE_RTC_INDEX_MAX = 15"

datatype HekateConfigResult =
    HekateConfigOk
  | HekateConfigOpenFailed
  | HekateConfigNotFound
  | HekateConfigDuplicateId
  | HekateConfigIndexOutOfRange

fun hekateConfigResultName :: "HekateConfigResult \<Rightarrow> string" where
  "hekateConfigResultName HekateConfigOk = ''OK''"
| "hekateConfigResultName HekateConfigOpenFailed = ''OPEN_FAILED''"
| "hekateConfigResultName HekateConfigNotFound = ''ID_NOT_FOUND''"
| "hekateConfigResultName HekateConfigDuplicateId = ''DUPLICATE_ID''"
| "hekateConfigResultName HekateConfigIndexOutOfRange = ''INDEX_OUT_OF_RANGE''"

text \<open>
  The lines \<open>fgets\<close> delivers: up to and including a newline, but at most
  \<open>HEKATE_LINE_MAX - 1\<close> bytes, so a longer line comes in pieces.  As a C string, a piece ends
  at its first NUL.
\<close>

function fgetsLines :: "string \<Rightarrow> string list" where
  "fgetsLines bytes =
    (if bytes = [] then []
     else
       (let n = min (HEKATE_LINE_MAX - 1) (Suc (length (takeWhile (\<lambda>c. c \<noteq> CHR 0x0A) bytes)))
        in takeWhile (\<lambda>c. c \<noteq> NUL) (take n bytes) # fgetsLines (drop n bytes)))"
  by pat_completeness auto
termination
  by (relation "measure length") (auto simp: HEKATE_LINE_MAX_def)

declare fgetsLines.simps [simp del]

text \<open>
  The loop over the lines.  \<open>found\<close> is the index of the entry whose id matched, if one did.
\<close>

fun hekateLoop ::
  "string \<Rightarrow> string list \<Rightarrow> nat \<Rightarrow> nat \<Rightarrow> bool \<Rightarrow> nat option \<Rightarrow> HekateConfigResult + nat option" where
  "hekateLoop wantedId [] index currentIndex inBootEntry found = Inr found"
| "hekateLoop wantedId (line # rest) index currentIndex inBootEntry found =
    (let text = trim line
     in if text = [] \<or> hd text = CHR ''#'' \<or> hd text = CHR '';'' \<or> hd text = CHR ''{''
        then hekateLoop wantedId rest index currentIndex inBootEntry found
        else if hd text = CHR ''['' \<and> length text \<ge> 3 \<and> last text = CHR '']''
        then (let boot = (trim (butlast (tl text)) \<noteq> ''config'')
              in if boot then hekateLoop wantedId rest (index + 1) (index + 1) True found
                 else hekateLoop wantedId rest index currentIndex False found)
        else if \<not> inBootEntry then hekateLoop wantedId rest index currentIndex inBootEntry found
        else
          (case strchrSplit (CHR ''='') text of
             None \<Rightarrow> hekateLoop wantedId rest index currentIndex inBootEntry found
           | Some (key, value) \<Rightarrow>
               if trim key \<noteq> ''id'' \<or> trim value \<noteq> wantedId
               then hekateLoop wantedId rest index currentIndex inBootEntry found
               else if found \<noteq> None then Inl HekateConfigDuplicateId
               else hekateLoop wantedId rest index currentIndex inBootEntry (Some currentIndex)))"

text \<open>The file is \<open>None\<close> when it cannot be opened.\<close>

definition hekateFindMainConfigId :: "string option \<Rightarrow> string \<Rightarrow> HekateConfigResult \<times> nat option" where
  "hekateFindMainConfigId file wantedId =
    (if wantedId = [] then (HekateConfigNotFound, None)
     else
       (case file of
          None \<Rightarrow> (HekateConfigOpenFailed, None)
        | Some bytes \<Rightarrow>
            (case hekateLoop wantedId (fgetsLines bytes) 0 0 False None of
               Inl e \<Rightarrow> (e, None)
             | Inr None \<Rightarrow> (HekateConfigNotFound, None)
             | Inr (Some foundIndex) \<Rightarrow>
                 if foundIndex = 0 \<or> foundIndex > HEKATE_RTC_INDEX_MAX
                 then (HekateConfigIndexOutOfRange, None)
                 else (HekateConfigOk, Some foundIndex))))"

subsection \<open>The file as a list of entries\<close>

text \<open>What one line says.\<close>

datatype hekateLine =
    OtherLine
  | ConfigSection
  | BootSection
  | KeyLine string string

definition readLine :: "string \<Rightarrow> hekateLine" where
  "readLine line =
    (let text = trim line
     in if text = [] \<or> hd text \<in> {CHR ''#'', CHR '';'', CHR ''{''} then OtherLine
        else if hd text = CHR ''['' \<and> length text \<ge> 3 \<and> last text = CHR '']''
        then (if trim (butlast (tl text)) = ''config'' then ConfigSection else BootSection)
        else (case strchrSplit (CHR ''='') text of
                None \<Rightarrow> OtherLine
              | Some (k, v) \<Rightarrow> KeyLine (trim k) (trim v)))"

text \<open>The numbers of the boot entries that carry the id, once per line that does.\<close>

fun idOccurrences :: "string \<Rightarrow> hekateLine list \<Rightarrow> nat \<Rightarrow> bool \<Rightarrow> nat list" where
  "idOccurrences wanted [] n boot = []"
| "idOccurrences wanted (OtherLine # ls) n boot = idOccurrences wanted ls n boot"
| "idOccurrences wanted (ConfigSection # ls) n boot = idOccurrences wanted ls n False"
| "idOccurrences wanted (BootSection # ls) n boot = idOccurrences wanted ls (n + 1) True"
| "idOccurrences wanted (KeyLine k v # ls) n boot =
    (if boot \<and> k = ''id'' \<and> v = wanted then n # idOccurrences wanted ls n boot
     else idOccurrences wanted ls n boot)"

definition found_result :: "nat option \<Rightarrow> nat list \<Rightarrow> HekateConfigResult + nat option" where
  "found_result found occ =
    (case (case found of None \<Rightarrow> occ | Some i \<Rightarrow> i # occ) of
       [] \<Rightarrow> Inr None
     | [i] \<Rightarrow> Inr (Some i)
     | _ \<Rightarrow> Inl HekateConfigDuplicateId)"

lemma hekateLoop_occurrences:
  "boot \<longrightarrow> cur = n \<Longrightarrow>
    hekateLoop wanted ls n cur boot found = found_result found (idOccurrences wanted (map readLine ls) n boot)"
proof (induction ls arbitrary: n cur boot found)
  case Nil
  then show ?case by (cases found) (simp_all add: found_result_def)
next
  case (Cons l ls)
  show ?case
  proof (cases "readLine l")
    case OtherLine
    with Cons show ?thesis
      by (auto simp: readLine_def Let_def split: if_splits option.splits)
  next
    case ConfigSection
    with Cons show ?thesis
      by (auto simp: readLine_def Let_def split: if_splits option.splits)
  next
    case BootSection
    with Cons show ?thesis
      by (auto simp: readLine_def Let_def split: if_splits option.splits)
  next
    case (KeyLine k v)
    then obtain k' v' where line: "trim l \<noteq> []" "hd (trim l) \<notin> {CHR ''#'', CHR '';'', CHR ''{''}"
      "\<not> (hd (trim l) = CHR ''['' \<and> length (trim l) \<ge> 3 \<and> last (trim l) = CHR '']'')"
      "strchrSplit (CHR ''='') (trim l) = Some (k', v')" "k = trim k'" "v = trim v'"
      by (auto simp: readLine_def Let_def split: if_splits option.splits)
    show ?thesis
    proof (cases "boot \<and> k = ''id'' \<and> v = wanted")
      case True
      have two: "found_result (Some i) (j # occ) = Inl HekateConfigDuplicateId" for i j occ
        by (simp add: found_result_def)
      have one: "found_result None (n # occ) = found_result (Some n) occ" for occ
        by (simp add: found_result_def)
      have cur: "cur = n" using Cons.prems True by simp
      have "hekateLoop wanted (l # ls) n cur boot found =
          (if found \<noteq> None then Inl HekateConfigDuplicateId
           else hekateLoop wanted ls n cur boot (Some n))"
        using True line(1,2,4,5,6) cur
        by (simp only: hekateLoop.simps Let_def line(3)) auto
      with True KeyLine Cons.IH [OF Cons.prems] show ?thesis
        by (cases found) (simp_all add: two one)
    next
      case False
      then have "hekateLoop wanted (l # ls) n cur boot found = hekateLoop wanted ls n cur boot found"
        using line(1,2,4,5,6) by (simp only: hekateLoop.simps Let_def line(3)) auto
      with False KeyLine Cons.IH [OF Cons.prems] show ?thesis by auto
    qed
  qed
qed

text \<open>
  C18: the lookup is exact.  The id is resolved exactly when one line of one boot entry carries it and
  the entry's number is between 1 and 15; no line is \<open>ID_NOT_FOUND\<close>, two or more are
  \<open>DUPLICATE_ID\<close>, wherever they stand, and an entry past the fifteenth is out of range.
\<close>

theorem hekateFind_exact:
  assumes "wanted \<noteq> []"
  shows "hekateFindMainConfigId (Some bytes) wanted =
    (case idOccurrences wanted (map readLine (fgetsLines bytes)) 0 False of
       [] \<Rightarrow> (HekateConfigNotFound, None)
     | [i] \<Rightarrow> if 1 \<le> i \<and> i \<le> 15 then (HekateConfigOk, Some i) else (HekateConfigIndexOutOfRange, None)
     | _ \<Rightarrow> (HekateConfigDuplicateId, None))"
  using assms
  by (auto simp: hekateFindMainConfigId_def hekateLoop_occurrences found_result_def
      HEKATE_RTC_INDEX_MAX_def split: list.splits)

lemma hekateFind_exact_witness:
  "hekateFindMainConfigId
      (Some (concat (map (\<lambda>l. l @ [CHR 0x0A]) [''[config]'', ''[A]'', ''id=x'', ''[ B ]'', ''id = cfw''])))
      ''cfw'' = (HekateConfigOk, Some 2)"
proof -
  let ?bytes = "concat (map (\<lambda>l. l @ [CHR 0x0A]) [''[config]'', ''[A]'', ''id=x'', ''[ B ]'', ''id = cfw''])"
  have "idOccurrences ''cfw'' (map readLine (fgetsLines ?bytes)) 0 False = [2]" by code_simp
  with hekateFind_exact [of "''cfw''" ?bytes] show ?thesis by simp
qed

subsection \<open>Written configurations\<close>

text \<open>A short line of text, as the next line of the file.\<close>

lemma fgetsLines_line:
  assumes "list_all (\<lambda>c. c \<noteq> CHR 0x0A \<and> c \<noteq> NUL) l" and "length l + 1 < HEKATE_LINE_MAX"
  shows "fgetsLines (l @ CHR 0x0A # rest) = (l @ [CHR 0x0A]) # fgetsLines rest"
proof -
  let ?bytes = "l @ CHR 0x0A # rest"
  have all: "\<forall>c \<in> set l. c \<noteq> CHR 0x0A" "\<forall>c \<in> set l. c \<noteq> NUL"
    using assms(1) by (auto simp: list_all_iff)
  have "takeWhile (\<lambda>c. c \<noteq> CHR 0x0A) ?bytes = l"
    using all(1) by (simp add: takeWhile_append)
  then have n: "min (HEKATE_LINE_MAX - 1) (Suc (length (takeWhile (\<lambda>c. c \<noteq> CHR 0x0A) ?bytes)))
      = Suc (length l)" using assms(2) by simp
  have "takeWhile (\<lambda>c. c \<noteq> NUL) (l @ [CHR 0x0A]) = l @ [CHR 0x0A]"
    using all(2) by (simp add: takeWhile_append)
  then show ?thesis
    by (subst fgetsLines.simps) (simp only: n Let_def, simp)
qed

definition plainText :: "string \<Rightarrow> bool" where
  "plainText s \<longleftrightarrow> s \<noteq> [] \<and> length s < 500 \<and> list_all (\<lambda>c. \<not> isspace c \<and> c \<noteq> NUL) s"

definition writeEntries :: "(string \<times> string) list \<Rightarrow> string" where
  "writeEntries es =
    concat (map (\<lambda>(name, id). (CHR ''['' # name @ '']'') @ CHR 0x0A # (''id='' @ id) @ [CHR 0x0A]) es)"

lemma readLine_section:
  assumes "plainText name" and "name \<noteq> ''config''"
  shows "readLine ((CHR ''['' # name @ '']'') @ [CHR 0x0A]) = BootSection"
proof -
  let ?l = "CHR ''['' # name @ '']''"
  have "trim (?l @ [CHR 0x0A]) = ?l"
    by (simp add: trim_def isspace_def)
  moreover have "trim name = name"
    using assms(1) by (intro trim_no_space) (auto simp: plainText_def list_all_iff)
  moreover have "length ?l \<ge> 3" using assms(1) by (cases name) (auto simp: plainText_def)
  ultimately show ?thesis using assms(2) by (simp add: readLine_def butlast_append)
qed

lemma isspace_nl: "isspace (CHR 0x0A)"
  by (simp add: isspace_def)

lemma readLine_id:
  assumes "plainText i"
  shows "readLine ((''id='' @ i) @ [CHR 0x0A]) = KeyLine ''id'' i"
proof -
  have i: "i \<noteq> []" "\<not> isspace (last i)" using assms by (auto simp: plainText_def list_all_iff)
  then have "rev i \<noteq> []" "\<not> isspace (hd (rev i))" by (simp_all add: hd_rev)
  then have "dropWhile isspace (rev i @ s) = rev i @ s" for s by (cases "rev i") auto
  then have t: "trim (CHR ''i'' # CHR ''d'' # CHR ''='' # i @ [CHR 0x0A]) = CHR ''i'' # CHR ''d'' # CHR ''='' # i"
    by (simp add: trim_def isspace_nl) (simp add: isspace_def)
  have "trim i = i" using assms by (intro trim_no_space) (auto simp: plainText_def list_all_iff)
  moreover have "trim ''id'' = ''id''" by (simp add: trim_def isspace_def)
  moreover have "strchrSplit (CHR ''='') (CHR ''i'' # CHR ''d'' # CHR ''='' # i) = Some (''id'', i)"
    using strchrSplit_first [of "CHR ''=''" "''id''" i] by simp
  ultimately show ?thesis by (simp add: readLine_def t)
qed

lemma idOccurrences_written:
  assumes "list_all (\<lambda>(name, i). plainText name \<and> name \<noteq> ''config'' \<and> plainText i) es"
  shows "idOccurrences wanted (map readLine (fgetsLines (writeEntries es))) n boot =
    map (\<lambda>k. n + 1 + k) (filter (\<lambda>k. snd (es ! k) = wanted) [0..<length es])"
  using assms
proof (induction es arbitrary: n boot)
  case Nil
  then show ?case by (simp add: writeEntries_def fgetsLines.simps)
next
  case (Cons e es)
  obtain name i where e: "e = (name, i)" by force
  with Cons.prems have p: "plainText name" "name \<noteq> ''config''" "plainText i"
    "list_all (\<lambda>(name, i). plainText name \<and> name \<noteq> ''config'' \<and> plainText i) es" by auto
  have line: "list_all (\<lambda>c. c \<noteq> CHR 0x0A \<and> c \<noteq> NUL) s" if "plainText s" for s
    using that isspace_nl by (auto simp: plainText_def list_all_iff)
  have entry: "fgetsLines (writeEntries (e # es))
      = ((CHR ''['' # name @ '']'') @ [CHR 0x0A]) # ((''id='' @ i) @ [CHR 0x0A]) # fgetsLines (writeEntries es)"
  proof -
    have "writeEntries (e # es) = (CHR ''['' # name @ '']'') @ CHR 0x0A # ((''id='' @ i) @ CHR 0x0A # writeEntries es)"
      by (simp add: writeEntries_def e)
    moreover have "fgetsLines ((CHR ''['' # name @ '']'') @ CHR 0x0A # ((''id='' @ i) @ CHR 0x0A # writeEntries es))
        = ((CHR ''['' # name @ '']'') @ [CHR 0x0A]) # fgetsLines ((''id='' @ i) @ CHR 0x0A # writeEntries es)"
      by (rule fgetsLines_line) (use line [OF p(1)] p(1) in \<open>simp_all add: plainText_def HEKATE_LINE_MAX_def\<close>)
    moreover have "fgetsLines ((''id='' @ i) @ CHR 0x0A # writeEntries es)
        = ((''id='' @ i) @ [CHR 0x0A]) # fgetsLines (writeEntries es)"
      by (rule fgetsLines_line) (use line [OF p(3)] p(3) in \<open>simp_all add: plainText_def HEKATE_LINE_MAX_def\<close>)
    ultimately show ?thesis by simp
  qed
  have shift: "filter (\<lambda>k. snd ((e # es) ! k) = wanted) [0..<Suc (length es)]
      = (if i = wanted then [0] else []) @ map Suc (filter (\<lambda>k. snd (es ! k) = wanted) [0..<length es])"
    by (simp add: upt_conv_Cons map_Suc_upt [symmetric] filter_map comp_def e del: upt_Suc)
  show ?case
    unfolding entry
    using Cons.IH [OF p(4), of "n + 1" True]
    by (simp add: readLine_section [OF p(1,2)] readLine_id [OF p(3)] shift comp_def del: upt_Suc
        append_Cons append_Nil append_assoc)
qed

lemma filter_one_index: "k < n \<Longrightarrow> filter (\<lambda>j. j = k) [0..<n] = [k]"
proof (induction n)
  case (Suc n)
  then show ?case by (cases "k = n") (auto simp: filter_empty_conv)
qed simp

text \<open>
  In a written configuration every entry is found.  With distinct ids, entry number \<open>k + 1\<close> is
  what the lookup of its id returns, for each of the first fifteen entries.
\<close>

theorem hekateFind_written:
  assumes "list_all (\<lambda>(name, i). plainText name \<and> name \<noteq> ''config'' \<and> plainText i) es"
    and "distinct (map snd es)" and "k < length es" and "k < 15"
  shows "hekateFindMainConfigId (Some (writeEntries es)) (snd (es ! k)) = (HekateConfigOk, Some (k + 1))"
proof -
  have ne: "snd (es ! k) \<noteq> []"
    using assms(1,3) by (auto simp: list_all_length plainText_def split_beta)
  have "filter (\<lambda>j. snd (es ! j) = snd (es ! k)) [0..<length es] = [k]"
  proof -
    have "snd (es ! j) = snd (es ! k) \<longleftrightarrow> j = k" if "j < length es" for j
      using assms(2,3) that nth_eq_iff_index_eq [of "map snd es" j k] by auto
    then have "filter (\<lambda>j. snd (es ! j) = snd (es ! k)) [0..<length es] = filter (\<lambda>j. j = k) [0..<length es]"
      by (intro filter_cong) auto
    also have "\<dots> = [k]" using assms(3) by (rule filter_one_index)
    finally show ?thesis .
  qed
  with idOccurrences_written [OF assms(1), of "snd (es ! k)" 0 False]
  have "idOccurrences (snd (es ! k)) (map readLine (fgetsLines (writeEntries es))) 0 False = [k + 1]" by simp
  with assms(4) show ?thesis
    by (simp add: hekateFindMainConfigId_def ne hekateLoop_occurrences found_result_def HEKATE_RTC_INDEX_MAX_def)
qed

lemma hekateFind_written_witness:
  "hekateFindMainConfigId (Some (writeEntries [(''A'', ''stock''), (''B'', ''cfw'')])) ''cfw''
    = (HekateConfigOk, Some 2)"
  using hekateFind_written [of "[(''A'', ''stock''), (''B'', ''cfw'')]" 1]
  by (simp add: plainText_def isspace_def)

end
