(* ===== verification/Directories.thy ===== *)
theory Directories
  imports Prelude
begin

text \<open>
  The directories that \<open>searchStorePrepareDirectory\<close> of \<open>search_store.c\<close> makes on the way to a path; the
  session store and the boot unlock call it.
\<close>

definition SEARCH_STORE_PATH_MAX :: nat where "SEARCH_STORE_PATH_MAX = 256"

text \<open>
  The directories made on the way to \<open>path\<close>, in order: one for each slash behind the start (behind
  the device prefix, or behind the first character), then the path itself.  \<open>devicePrefix\<close> is
  the length of the part up to and including the first \<open>:/\<close>.
\<close>

fun devicePrefix :: "string \<Rightarrow> nat \<Rightarrow> nat option" where
  "devicePrefix (a # b # rest) n =
    (if a = CHR '':'' \<and> b = CHR ''/'' then Some (n + 2) else devicePrefix (b # rest) (n + 1))"
| "devicePrefix s n = None"

definition directoriesOf :: "string \<Rightarrow> string list" where
  "directoriesOf path =
    (let start = (case devicePrefix path 0 of None \<Rightarrow> 1 | Some n \<Rightarrow> n)
     in map (\<lambda>i. take i path) (filter (\<lambda>i. path ! i = CHR ''/'') [start..<length path]) @ [path])"

end
