(* ===== verification/Effects.thy ===== *)
theory Effects
  imports Prelude "HOL-Library.State_Monad" "HOL-Library.Monad_Syntax"
begin

text \<open>
  Code with effects is a \<open>state\<close> computation over the world it acts on; the components differ in
  the world (the card, the kernel).  \<open>wp m w Q\<close> says that running \<open>m\<close> from \<open>w\<close> ends with a
  result and a world that satisfy \<open>Q\<close>.  The rules below turn a goal about a \<open>do\<close> block into
  goals about its calls, in the order of the code.
\<close>

definition wp :: "('w, 'a) state \<Rightarrow> 'w \<Rightarrow> ('a \<Rightarrow> 'w \<Rightarrow> bool) \<Rightarrow> bool" where
  "wp m w Q \<longleftrightarrow> (case run_state m w of (a, w') \<Rightarrow> Q a w')"

named_theorems wp_rules "weakest preconditions of the calls"

lemma wp_return [simp]: "wp (State_Monad.return a) w Q \<longleftrightarrow> Q a w"
  by (simp add: wp_def)

lemma wp_bind [simp]: "wp (State_Monad.bind m f) w Q \<longleftrightarrow> wp m w (\<lambda>a w'. wp (f a) w' Q)"
  by (simp add: wp_def split: prod.splits)

lemma wp_True [simp]: "wp m w (\<lambda>a w'. True)"
  by (simp add: wp_def split: prod.split)

lemma wp_mono: "wp m w P \<Longrightarrow> (\<And>a w'. P a w' \<Longrightarrow> Q a w') \<Longrightarrow> wp m w Q"
  by (auto simp: wp_def)

lemma wp_conj: "wp m w P \<Longrightarrow> wp m w Q \<Longrightarrow> wp m w (\<lambda>a w'. P a w' \<and> Q a w')"
  by (auto simp: wp_def)

lemma wp_run: "wp m w Q \<longleftrightarrow> Q (fst (run_state m w)) (snd (run_state m w))"
  by (simp add: wp_def split_beta)

lemma wp_runI: "wp m w Q \<Longrightarrow> run_state m w = (a, w') \<Longrightarrow> Q a w'"
  by (simp add: wp_def)

lemma wp_if [simp]: "wp (if b then m else n) w Q \<longleftrightarrow> (if b then wp m w Q else wp n w Q)"
  by simp

lemma wp_case_prod [simp]:
  "wp (case p of (a, b) \<Rightarrow> f a b) w Q \<longleftrightarrow> (case p of (a, b) \<Rightarrow> wp (f a b) w Q)"
  by (simp split: prod.split)

text \<open>A step whose outcome does not matter.\<close>

lemma wp_any: "(\<And>a m'. wp (f a) m' Q) \<Longrightarrow> wp (State_Monad.bind p f) m Q"
  unfolding wp_bind by (rule wp_mono [OF wp_True])

lemma wp_ifI: "(b \<Longrightarrow> wp p m Q) \<Longrightarrow> (\<not> b \<Longrightarrow> wp q m Q) \<Longrightarrow> wp (if b then p else q) m Q"
  by simp

lemma wp_split_eqI: "(\<And>a b. x = (a, b) \<Longrightarrow> wp (f a b) m Q) \<Longrightarrow> wp (case x of (a, b) \<Rightarrow> f a b) m Q"
  by (cases x) simp

lemma wp_splitI: "(\<And>a b. wp (f a b) m Q) \<Longrightarrow> wp (case x of (a, b) \<Rightarrow> f a b) m Q"
  by (cases x) simp

text \<open>The conjunction of C: the second call happens only when the first one succeeds.\<close>

definition andThen :: "('w, bool) state \<Rightarrow> ('w, bool) state \<Rightarrow> ('w, bool) state" where
  "andThen m n = do { ok \<leftarrow> m; if ok then n else State_Monad.return False }"

lemma wp_andThen [simp]:
  "wp (andThen m n) w Q \<longleftrightarrow> wp m w (\<lambda>ok w'. if ok then wp n w' Q else Q False w')"
  by (simp add: andThen_def)

text \<open>One step of the code, once the outcome of the call before is known.\<close>

lemmas wp_steps = wp_case_prod wp_bind wp_return wp_andThen if_True if_False not_True_eq_False
  not_False_eq_True option.case prod.case Let_def simp_thms

subsection \<open>Invariants of a step\<close>

definition obeys :: "('w \<Rightarrow> bool) \<Rightarrow> ('w, 'a) state \<Rightarrow> bool" where
  "obeys P p \<longleftrightarrow> (\<forall>m. P m \<longrightarrow> wp p m (\<lambda>_ m'. P m'))"

named_theorems obey

lemma obeysI: "(\<And>m. P m \<Longrightarrow> wp p m (\<lambda>_ m'. P m')) \<Longrightarrow> obeys P p"
  by (simp add: obeys_def)

lemma obeysD: "obeys P p \<Longrightarrow> P m \<Longrightarrow> wp p m (\<lambda>_ m'. P m')"
  by (simp add: obeys_def)

lemma obeys_bind [obey]: "obeys P p \<Longrightarrow> (\<And>a. obeys P (f a)) \<Longrightarrow> obeys P (State_Monad.bind p f)"
  by (rule obeysI) (auto intro: wp_mono [OF obeysD] obeysD)

lemma obeys_then:
  "obeys P p \<Longrightarrow> P m \<Longrightarrow> (\<And>a m'. P m' \<Longrightarrow> wp (f a) m' Q) \<Longrightarrow> wp (State_Monad.bind p f) m Q"
  unfolding wp_bind by (rule wp_mono [OF obeysD])

lemma obeys_if [obey]: "(b \<Longrightarrow> obeys P p) \<Longrightarrow> (\<not> b \<Longrightarrow> obeys P q) \<Longrightarrow> obeys P (if b then p else q)"
  by simp

lemma obeys_case [obey]: "(\<And>a b. obeys P (f a b)) \<Longrightarrow> obeys P (case x of (a, b) \<Rightarrow> f a b)"
  by (cases x) simp

lemma obeys_return [obey]: "obeys P (State_Monad.return a)"
  by (rule obeysI) simp

end
