(* ===== verification/StdioDisk.thy ===== *)
theory StdioDisk
  imports Bytes Effects
begin

text \<open>
  The card as \<open>search_store.c\<close> uses it through the C library: files as byte strings, open
  streams with a position, and the calls on them.  Every call may fail: \<open>dkFault\<close> gives the
  outcome of the \<open>n\<close>-th call, \<open>None\<close> when it works and \<open>Some k\<close> when it fails, a read or
  a write after \<open>k\<close> bytes.  The theorems hold for every such sequence of outcomes.

  \<open>dkReplaces\<close> tells whether \<open>rename\<close> replaces an existing target, which the C standard
  leaves to the implementation.
\<close>

record Disk =
  dkFiles :: "string \<Rightarrow> u8 list option"
  dkOpen :: "nat \<Rightarrow> (string \<times> nat) option"
  dkNext :: nat
  dkFault :: "nat \<Rightarrow> nat option"
  dkTick :: nat
  dkReplaces :: bool

type_synonym 'a disk = "(Disk, 'a) state"

text \<open>The outcome of the next call, and the disk with that call counted.\<close>

definition outcome :: "Disk \<Rightarrow> nat option" where
  "outcome d = dkFault d (dkTick d)"

definition counted :: "Disk \<Rightarrow> Disk" where
  "counted d = d\<lparr>dkTick := dkTick d + 1\<rparr>"

subsection \<open>The calls\<close>

text \<open>A call without effect on the disk that can fail: \<open>malloc\<close>, \<open>fflush\<close>, \<open>fsync\<close>.\<close>

definition mayFail :: "bool disk" where
  "mayFail = State (\<lambda>d. (outcome d = None, counted d))"

definition fopenWrite :: "string \<Rightarrow> nat option disk" where
  "fopenWrite path = State (\<lambda>d.
    if outcome d \<noteq> None then (None, counted d)
    else (Some (dkNext d),
      (counted d)\<lparr>dkFiles := (dkFiles d)(path \<mapsto> []),
                  dkOpen := (dkOpen d)(dkNext d \<mapsto> (path, 0)),
                  dkNext := dkNext d + 1\<rparr>))"

definition fopenRead :: "string \<Rightarrow> nat option disk" where
  "fopenRead path = State (\<lambda>d.
    if outcome d \<noteq> None \<or> dkFiles d path = None then (None, counted d)
    else (Some (dkNext d),
      (counted d)\<lparr>dkOpen := (dkOpen d)(dkNext d \<mapsto> (path, 0)), dkNext := dkNext d + 1\<rparr>))"

definition fclose :: "nat \<Rightarrow> bool disk" where
  "fclose h = State (\<lambda>d. (outcome d = None, (counted d)\<lparr>dkOpen := (dkOpen d)(h := None)\<rparr>))"

definition overwrite :: "u8 list \<Rightarrow> nat \<Rightarrow> u8 list \<Rightarrow> u8 list" where
  "overwrite content pos bytes =
    take pos content @ replicate (pos - length content) 0 @ bytes @ drop (pos + length bytes) content"

text \<open>\<open>fwrite(bytes, size, 1, file) == 1\<close>; writing nothing counts as failure there.\<close>

definition fwriteAll :: "nat \<Rightarrow> u8 list \<Rightarrow> bool disk" where
  "fwriteAll h bytes = State (\<lambda>d.
    (case dkOpen d h of
       None \<Rightarrow> (False, counted d)
     | Some (path, pos) \<Rightarrow>
         (case dkFiles d path of
            None \<Rightarrow> (False, counted d)
          | Some content \<Rightarrow>
              (let written = (case outcome d of None \<Rightarrow> bytes | Some k \<Rightarrow> take k bytes)
               in (outcome d = None \<and> bytes \<noteq> [],
                   (counted d)\<lparr>dkFiles := (dkFiles d)(path \<mapsto> overwrite content pos written),
                               dkOpen := (dkOpen d)(h \<mapsto> (path, pos + length written))\<rparr>)))))"

text \<open>\<open>fread(buffer, size, 1, file) == 1\<close>, with the bytes read.\<close>

definition freadAll :: "nat \<Rightarrow> nat \<Rightarrow> u8 list option disk" where
  "freadAll h n = State (\<lambda>d.
    (case dkOpen d h of
       None \<Rightarrow> (None, counted d)
     | Some (path, pos) \<Rightarrow>
         (let content = (case dkFiles d path of None \<Rightarrow> [] | Some c \<Rightarrow> c);
              got = take n (drop pos content);
              got' = (case outcome d of None \<Rightarrow> got | Some k \<Rightarrow> take k got)
          in (if outcome d = None \<and> length got = n \<and> n > 0 then Some got else None,
              (counted d)\<lparr>dkOpen := (dkOpen d)(h \<mapsto> (path, pos + length got'))\<rparr>))))"

text \<open>\<open>fseek(file, (long)offset, SEEK_SET) == 0\<close>; from \<open>2^63\<close> on the offset is negative.\<close>

definition fseekSet :: "nat \<Rightarrow> u64 \<Rightarrow> bool disk" where
  "fseekSet h offset = State (\<lambda>d.
    (case dkOpen d h of
       None \<Rightarrow> (False, counted d)
     | Some (path, pos) \<Rightarrow>
         if outcome d \<noteq> None \<or> bit offset 63 then (False, counted d)
         else (True, (counted d)\<lparr>dkOpen := (dkOpen d)(h \<mapsto> (path, unat offset))\<rparr>)))"

definition fseekEnd :: "nat \<Rightarrow> bool disk" where
  "fseekEnd h = State (\<lambda>d.
    (case dkOpen d h of
       None \<Rightarrow> (False, counted d)
     | Some (path, pos) \<Rightarrow>
         if outcome d \<noteq> None then (False, counted d)
         else (True, (counted d)\<lparr>dkOpen := (dkOpen d)(h \<mapsto>
                (path, case dkFiles d path of None \<Rightarrow> 0 | Some c \<Rightarrow> length c))\<rparr>)))"

definition ftell :: "nat \<Rightarrow> int disk" where
  "ftell h = State (\<lambda>d.
    (case dkOpen d h of
       None \<Rightarrow> (-1, counted d)
     | Some (path, pos) \<Rightarrow> (if outcome d \<noteq> None then -1 else int pos, counted d)))"

definition removeFile :: "string \<Rightarrow> bool disk" where
  "removeFile path = State (\<lambda>d.
    if outcome d \<noteq> None \<or> dkFiles d path = None then (False, counted d)
    else (True, (counted d)\<lparr>dkFiles := (dkFiles d)(path := None)\<rparr>))"

definition renameFile :: "string \<Rightarrow> string \<Rightarrow> bool disk" where
  "renameFile old new = State (\<lambda>d.
    if outcome d \<noteq> None \<or> dkFiles d old = None \<or> (dkFiles d new \<noteq> None \<and> \<not> dkReplaces d)
    then (False, counted d)
    else (True, (counted d)\<lparr>dkFiles := (dkFiles d)(old := None, new := dkFiles d old)\<rparr>))"

subsection \<open>What the calls do to one open stream\<close>

text \<open>The stream \<open>h\<close> is open on \<open>path\<close>, at \<open>pos\<close>, and the file holds \<open>content\<close>.\<close>

definition stream :: "Disk \<Rightarrow> nat \<Rightarrow> string \<Rightarrow> nat \<Rightarrow> u8 list \<Rightarrow> bool" where
  "stream d h path pos content \<longleftrightarrow> dkOpen d h = Some (path, pos) \<and> dkFiles d path = Some content"

text \<open>No call fails.\<close>

definition faultless :: "Disk \<Rightarrow> bool" where
  "faultless d \<longleftrightarrow> dkFault d = (\<lambda>_. None)"

lemma faultless_outcome [simp]: "faultless d \<Longrightarrow> outcome d = None"
  by (simp add: faultless_def outcome_def)

lemma outcome_Some [simp]: "outcome d = Some k \<Longrightarrow> \<not> faultless d"
  by auto

lemma dkFault_counted [simp]: "dkFault (counted d) = dkFault d"
  by (simp add: counted_def)

lemma counted_simps [simp]:
  "dkFiles (counted d) = dkFiles d" "dkOpen (counted d) = dkOpen d" "dkNext (counted d) = dkNext d"
  "dkReplaces (counted d) = dkReplaces d"
  by (simp_all add: counted_def)

lemma faultless_simps [simp]:
  "faultless (counted d) = faultless d"
  "faultless (d\<lparr>dkFiles := a\<rparr>) = faultless d" "faultless (d\<lparr>dkOpen := b\<rparr>) = faultless d"
  "faultless (d\<lparr>dkNext := c\<rparr>) = faultless d"
  by (simp_all add: faultless_def)

lemma overwrite_end: "pos = length content \<Longrightarrow> overwrite content pos bytes = content @ bytes"
  by (simp add: overwrite_def)

lemma overwrite_front:
  "length old = length new \<Longrightarrow> overwrite (old @ rest) 0 new = new @ rest"
  by (simp add: overwrite_def)

lemma wp_mayFail [wp_rules]:
  assumes "\<And>d'. faultless d' = faultless d \<Longrightarrow> dkFiles d' = dkFiles d \<Longrightarrow> dkOpen d' = dkOpen d
      \<Longrightarrow> Q True d'"
    and "\<And>d'. \<not> faultless d \<Longrightarrow> dkFiles d' = dkFiles d \<Longrightarrow> dkOpen d' = dkOpen d \<Longrightarrow> Q False d'"
  shows "wp mayFail d Q"
  by (cases "outcome d") (auto simp: wp_def mayFail_def intro!: assms)

lemma wp_mayFail_stream:
  assumes "stream d h path pos content"
    and "\<And>d'. faultless d' = faultless d \<Longrightarrow> stream d' h path pos content
      \<Longrightarrow> dkFiles d' = dkFiles d \<Longrightarrow> Q True d'"
    and "\<And>d'. \<not> faultless d \<Longrightarrow> dkFiles d' = dkFiles d \<Longrightarrow> Q False d'"
  shows "wp mayFail d Q"
  by (rule wp_mayFail) (use assms in \<open>auto simp: stream_def\<close>)

lemma wp_fwriteAll [wp_rules]:
  assumes "stream d h path pos content" and "bytes \<noteq> []"
    and "\<And>d'. faultless d' = faultless d
      \<Longrightarrow> stream d' h path (pos + length bytes) (overwrite content pos bytes) \<Longrightarrow> Q True d'"
    and "\<And>d'. \<not> faultless d \<Longrightarrow> Q False d'"
  shows "wp (fwriteAll h bytes) d Q"
  using assms faultless_outcome [of d]
  by (cases "outcome d") (auto simp: wp_def fwriteAll_def stream_def Let_def)

lemma wp_freadAll [wp_rules]:
  assumes "stream d h path pos content"
    and "\<And>d'. faultless d' = faultless d \<Longrightarrow> stream d' h path (pos + n) content
      \<Longrightarrow> dkFiles d' = dkFiles d \<Longrightarrow> 0 < n \<Longrightarrow> pos + n \<le> length content
      \<Longrightarrow> Q (Some (take n (drop pos content))) d'"
    and "\<And>d'. \<not> (faultless d \<and> 0 < n \<and> pos + n \<le> length content) \<Longrightarrow> dkFiles d' = dkFiles d
      \<Longrightarrow> Q None d'"
  shows "wp (freadAll h n) d Q"
proof (cases "outcome d = None \<and> length (take n (drop pos content)) = n \<and> n > 0")
  case True
  then have "pos + n \<le> length content" by auto
  with True assms(1,2) show ?thesis
    by (auto simp: wp_def freadAll_def stream_def Let_def min_def split: if_splits)
next
  case False
  have "\<not> (faultless d \<and> 0 < n \<and> pos + n \<le> length content)"
    using False by (cases "outcome d") (auto simp: min_def split: if_splits)
  from assms(3) [OF this] False assms(1) show ?thesis
    by (cases "outcome d") (auto simp: wp_def freadAll_def stream_def Let_def)
qed

lemma wp_fseekSet [wp_rules]:
  assumes "stream d h path pos content"
    and "\<And>d'. faultless d' = faultless d \<Longrightarrow> stream d' h path (unat offset) content
      \<Longrightarrow> dkFiles d' = dkFiles d \<Longrightarrow> Q True d'"
    and "\<And>d'. \<not> (faultless d \<and> unat offset < 2 ^ 63) \<Longrightarrow> dkFiles d' = dkFiles d \<Longrightarrow> Q False d'"
  shows "wp (fseekSet h offset) d Q"
proof -
  have "bit (unat offset) 63 \<longleftrightarrow> bit offset 63"
    using bit_imp_le_length [of offset 63] by (auto simp: bit_unsigned_iff)
  then have "unat offset < 2 ^ 63 \<Longrightarrow> \<not> bit offset 63"
    by (simp only: bit_iff_odd div_less) simp
  then show ?thesis using assms
    by (cases "unat offset < 2 ^ 63"; cases "outcome d") (auto simp: wp_def fseekSet_def stream_def)
qed

lemma wp_fseekEnd [wp_rules]:
  assumes "stream d h path pos content"
    and "\<And>d'. faultless d' = faultless d \<Longrightarrow> stream d' h path (length content) content
      \<Longrightarrow> dkFiles d' = dkFiles d \<Longrightarrow> Q True d'"
    and "\<And>d'. \<not> faultless d \<Longrightarrow> dkFiles d' = dkFiles d \<Longrightarrow> Q False d'"
  shows "wp (fseekEnd h) d Q"
  using assms by (cases "outcome d") (auto simp: wp_def fseekEnd_def stream_def)

lemma wp_ftell [wp_rules]:
  assumes "stream d h path pos content"
    and "\<And>d'. faultless d' = faultless d \<Longrightarrow> stream d' h path pos content
      \<Longrightarrow> dkFiles d' = dkFiles d \<Longrightarrow> Q (int pos) d'"
    and "\<And>d'. \<not> faultless d \<Longrightarrow> dkFiles d' = dkFiles d \<Longrightarrow> Q (-1) d'"
  shows "wp (ftell h) d Q"
  using assms by (cases "outcome d") (auto simp: wp_def ftell_def stream_def)

lemma wp_fclose [wp_rules]:
  assumes "\<And>d'. faultless d' = faultless d \<Longrightarrow> dkFiles d' = dkFiles d \<Longrightarrow> Q True d'"
    and "\<And>d'. \<not> faultless d \<Longrightarrow> dkFiles d' = dkFiles d \<Longrightarrow> Q False d'"
  shows "wp (fclose h) d Q"
  using assms by (cases "outcome d") (auto simp: wp_def fclose_def)

lemma wp_fopenWrite [wp_rules]:
  assumes "\<And>h d'. faultless d' = faultless d \<Longrightarrow> stream d' h path 0 [] \<Longrightarrow> Q (Some h) d'"
    and "\<And>d'. \<not> faultless d \<Longrightarrow> Q None d'"
  shows "wp (fopenWrite path) d Q"
  using assms by (cases "outcome d") (auto simp: wp_def fopenWrite_def stream_def)

lemma wp_fopenRead [wp_rules]:
  assumes "dkFiles d path = Some content"
    and "\<And>h d'. faultless d' = faultless d \<Longrightarrow> stream d' h path 0 content
      \<Longrightarrow> dkFiles d' = dkFiles d \<Longrightarrow> Q (Some h) d'"
    and "\<And>d'. \<not> faultless d \<Longrightarrow> dkFiles d' = dkFiles d \<Longrightarrow> Q None d'"
  shows "wp (fopenRead path) d Q"
  using assms by (cases "outcome d") (auto simp: wp_def fopenRead_def stream_def)

end
