(* ===== verification/SearchStore.thy ===== *)
theory SearchStore
  imports Directories StdioDisk Checksums
begin

text \<open>
  \<open>search_store.c\<close>, the writing side: the file of a search session.  A header, then one block
  per scanned span (its header and its payload), then an index with one entry per block.  A block
  keeps its candidate slots in the cheapest of three representations.

  The structures go to the card as they lie in memory: little-endian, without padding on the
  target (160, 40 and 32 bytes).
\<close>

definition SEARCH_STORE_MAGIC :: u32 where "SEARCH_STORE_MAGIC = 0x53425343"
definition SEARCH_STORE_VERSION :: u16 where "SEARCH_STORE_VERSION = 1"
definition SEARCH_STORE_BLOCK_MAGIC :: u32 where "SEARCH_STORE_BLOCK_MAGIC = 0x4B4C4243"
definition StoreRepresentationAll :: u8 where "StoreRepresentationAll = 1"
definition StoreRepresentationBitmap :: u8 where "StoreRepresentationBitmap = 2"
definition StoreRepresentationSparse :: u8 where "StoreRepresentationSparse = 3"
definition StoreMaximumPayload :: u32 where "StoreMaximumPayload = 0x50000"

abbreviation headerBytes :: nat where "headerBytes \<equiv> 160"
abbreviation blockHeaderBytes :: nat where "blockHeaderBytes \<equiv> 40"
abbreviation indexEntryBytes :: nat where "indexEntryBytes \<equiv> 32"

record SearchStoreMetadata =
  smProcessId :: u64
  smTitleId :: u64
  smStart :: u64
  smEnd :: u64
  smRegionBase :: u64
  smRegionOffset :: u64
  smAlignment :: u64
  smGeneration :: u64
  smType :: u32
  smRegion :: u32
  smBackend :: u32
  smWidth :: u32
  smBuildId :: "u8 list"

record SearchStoreHeader =
  shMagic :: u32
  shVersion :: u16
  shHeaderSize :: u16
  shMetadata :: SearchStoreMetadata
  shCandidateCount :: u64
  shBlockCount :: u64
  shIndexOffset :: u64
  shDataBytes :: u64
  shHeaderCrc :: u32
  shReserved :: u32

record SearchStoreBlockHeader =
  bhMagic :: u32
  bhRepresentation :: u8
  bhWidth :: u8
  bhReserved :: u16
  bhBase :: u64
  bhCumulative :: u64
  bhSlotCount :: u32
  bhCandidateCount :: u32
  bhPayloadSize :: u32
  bhPayloadCrc :: u32

record SearchStoreIndexEntry =
  ieFileOffset :: u64
  ieCumulative :: u64
  ieBase :: u64
  ieSlotCount :: u32
  ieCandidateCount :: u32

subsection \<open>The structures as bytes\<close>

definition putWord :: "'a::len word \<Rightarrow> u8 list" where
  "putWord w = leBytes (LENGTH('a) div 8) (unat w)"

definition getWord :: "u8 list \<Rightarrow> nat \<Rightarrow> 'a::len word" where
  "getWord bytes offset = of_nat (leVal (take (LENGTH('a) div 8) (drop offset bytes)))"

definition encMetadata :: "SearchStoreMetadata \<Rightarrow> u8 list" where
  "encMetadata m =
    putWord (smProcessId m) @ putWord (smTitleId m) @ putWord (smStart m) @ putWord (smEnd m)
    @ putWord (smRegionBase m) @ putWord (smRegionOffset m) @ putWord (smAlignment m)
    @ putWord (smGeneration m) @ putWord (smType m) @ putWord (smRegion m) @ putWord (smBackend m)
    @ putWord (smWidth m) @ smBuildId m"

definition decMetadata :: "u8 list \<Rightarrow> SearchStoreMetadata" where
  "decMetadata b =
    \<lparr>smProcessId = getWord b 0, smTitleId = getWord b 8, smStart = getWord b 16,
     smEnd = getWord b 24, smRegionBase = getWord b 32, smRegionOffset = getWord b 40,
     smAlignment = getWord b 48, smGeneration = getWord b 56, smType = getWord b 64,
     smRegion = getWord b 68, smBackend = getWord b 72, smWidth = getWord b 76,
     smBuildId = take 32 (drop 80 b)\<rparr>"

definition encHeader :: "SearchStoreHeader \<Rightarrow> u8 list" where
  "encHeader h =
    putWord (shMagic h) @ putWord (shVersion h) @ putWord (shHeaderSize h)
    @ encMetadata (shMetadata h) @ putWord (shCandidateCount h) @ putWord (shBlockCount h)
    @ putWord (shIndexOffset h) @ putWord (shDataBytes h) @ putWord (shHeaderCrc h)
    @ putWord (shReserved h)"

definition decHeader :: "u8 list \<Rightarrow> SearchStoreHeader" where
  "decHeader b =
    \<lparr>shMagic = getWord b 0, shVersion = getWord b 4, shHeaderSize = getWord b 6,
     shMetadata = decMetadata (drop 8 b), shCandidateCount = getWord b 120,
     shBlockCount = getWord b 128, shIndexOffset = getWord b 136, shDataBytes = getWord b 144,
     shHeaderCrc = getWord b 152, shReserved = getWord b 156\<rparr>"

definition encBlockHeader :: "SearchStoreBlockHeader \<Rightarrow> u8 list" where
  "encBlockHeader b =
    putWord (bhMagic b) @ putWord (bhRepresentation b) @ putWord (bhWidth b)
    @ putWord (bhReserved b) @ putWord (bhBase b) @ putWord (bhCumulative b)
    @ putWord (bhSlotCount b) @ putWord (bhCandidateCount b) @ putWord (bhPayloadSize b)
    @ putWord (bhPayloadCrc b)"

definition decBlockHeader :: "u8 list \<Rightarrow> SearchStoreBlockHeader" where
  "decBlockHeader b =
    \<lparr>bhMagic = getWord b 0, bhRepresentation = getWord b 4, bhWidth = getWord b 5,
     bhReserved = getWord b 6, bhBase = getWord b 8, bhCumulative = getWord b 16,
     bhSlotCount = getWord b 24, bhCandidateCount = getWord b 28, bhPayloadSize = getWord b 32,
     bhPayloadCrc = getWord b 36\<rparr>"

definition encIndexEntry :: "SearchStoreIndexEntry \<Rightarrow> u8 list" where
  "encIndexEntry e =
    putWord (ieFileOffset e) @ putWord (ieCumulative e) @ putWord (ieBase e)
    @ putWord (ieSlotCount e) @ putWord (ieCandidateCount e)"

definition decIndexEntry :: "u8 list \<Rightarrow> SearchStoreIndexEntry" where
  "decIndexEntry b =
    \<lparr>ieFileOffset = getWord b 0, ieCumulative = getWord b 8, ieBase = getWord b 16,
     ieSlotCount = getWord b 24, ieCandidateCount = getWord b 28\<rparr>"

definition headerCrc :: "SearchStoreHeader \<Rightarrow> u32" where
  "headerCrc header = searchStoreCrc32 (encHeader (header\<lparr>shHeaderCrc := 0\<rparr>))"

lemma putWord_lengths [simp]:
  "length (putWord (a :: u8)) = 1" "length (putWord (b :: u16)) = 2"
  "length (putWord (c :: u32)) = 4" "length (putWord (d :: u64)) = 8"
  by (simp_all add: putWord_def)

lemma getWord_putWord:
  fixes w :: "'a::len word"
  assumes "LENGTH('a) mod 8 = 0"
  shows "getWord (putWord w @ bs) 0 = w"
proof -
  have "256 ^ (LENGTH('a) div 8) = (2::nat) ^ LENGTH('a)"
    using assms by (simp only: pow_256) (metis add.right_neutral div_mult_mod_eq)
  moreover have "unat w < 2 ^ LENGTH('a)" by (rule unsigned_less)
  ultimately show ?thesis by (simp add: getWord_def putWord_def leVal_leBytes)
qed

lemma getWord_put8 [simp]: "getWord (putWord (w :: u8) @ bs) 0 = w" by (rule getWord_putWord) simp
lemma getWord_put16 [simp]: "getWord (putWord (w :: u16) @ bs) 0 = w" by (rule getWord_putWord) simp
lemma getWord_put32 [simp]: "getWord (putWord (w :: u32) @ bs) 0 = w" by (rule getWord_putWord) simp
lemma getWord_put64 [simp]: "getWord (putWord (w :: u64) @ bs) 0 = w" by (rule getWord_putWord) simp

lemma getWord_last [simp]: "getWord (putWord (w :: u32)) 0 = w"
  using getWord_put32 [of w "[]"] by simp

lemma getWord_skip:
  "length xs \<le> offset \<Longrightarrow> getWord (xs @ ys) offset = getWord ys (offset - length xs)"
  by (simp add: getWord_def)

lemma length_encMetadata [simp]: "length (smBuildId m) = 32 \<Longrightarrow> length (encMetadata m) = 112"
  by (simp add: encMetadata_def)

lemma length_encHeader [simp]: "length (smBuildId (shMetadata h)) = 32 \<Longrightarrow> length (encHeader h) = 160"
  by (simp add: encHeader_def)

lemma length_encBlockHeader [simp]: "length (encBlockHeader b) = 40"
  by (simp add: encBlockHeader_def)

lemma length_encIndexEntry [simp]: "length (encIndexEntry e) = 32"
  by (simp add: encIndexEntry_def)

lemma decMetadata_enc: "length (smBuildId m) = 32 \<Longrightarrow> decMetadata (encMetadata m @ bs) = m"
  by (simp add: decMetadata_def encMetadata_def getWord_skip)

lemma decHeader_enc: "length (smBuildId (shMetadata h)) = 32 \<Longrightarrow> decHeader (encHeader h) = h"
  by (simp add: decHeader_def encHeader_def getWord_skip decMetadata_enc)

lemma decBlockHeader_enc: "decBlockHeader (encBlockHeader b) = b"
  by (simp add: decBlockHeader_def encBlockHeader_def getWord_skip)

lemma decIndexEntry_enc: "decIndexEntry (encIndexEntry e) = e"
  by (simp add: decIndexEntry_def encIndexEntry_def getWord_skip)

subsection \<open>The writer\<close>

record SearchStoreWriter =
  wrFile :: "nat option"
  wrHeader :: SearchStoreHeader
  wrPath :: string
  wrFailed :: bool

definition zeroMetadata :: SearchStoreMetadata where
  "zeroMetadata =
    \<lparr>smProcessId = 0, smTitleId = 0, smStart = 0, smEnd = 0, smRegionBase = 0, smRegionOffset = 0,
     smAlignment = 0, smGeneration = 0, smType = 0, smRegion = 0, smBackend = 0, smWidth = 0,
     smBuildId = replicate 32 0\<rparr>"

definition zeroHeader :: SearchStoreHeader where
  "zeroHeader =
    \<lparr>shMagic = 0, shVersion = 0, shHeaderSize = 0, shMetadata = zeroMetadata,
     shCandidateCount = 0, shBlockCount = 0, shIndexOffset = 0, shDataBytes = 0, shHeaderCrc = 0,
     shReserved = 0\<rparr>"

definition zeroWriter :: SearchStoreWriter where
  "zeroWriter = \<lparr>wrFile = None, wrHeader = zeroHeader, wrPath = [], wrFailed = False\<rparr>"

definition searchStoreWriterAbort :: "SearchStoreWriter \<Rightarrow> SearchStoreWriter disk" where
  "searchStoreWriterAbort writer = do {
     _ \<leftarrow> (case wrFile writer of None \<Rightarrow> State_Monad.return True | Some h \<Rightarrow> fclose h);
     _ \<leftarrow> (if wrPath writer \<noteq> [] then removeFile (wrPath writer) else State_Monad.return True);
     State_Monad.return (writer\<lparr>wrFile := None\<rparr>)
   }"

definition firstHeader :: "SearchStoreMetadata \<Rightarrow> SearchStoreHeader" where
  "firstHeader metadata =
    zeroHeader\<lparr>shMagic := SEARCH_STORE_MAGIC, shVersion := SEARCH_STORE_VERSION,
               shHeaderSize := of_nat headerBytes, shMetadata := metadata\<rparr>"

definition searchStoreWriterOpen ::
  "string \<Rightarrow> SearchStoreMetadata \<Rightarrow> (bool \<times> SearchStoreWriter) disk" where
  "searchStoreWriterOpen path metadata =
    (if length path \<ge> SEARCH_STORE_PATH_MAX then State_Monad.return (False, zeroWriter)
     else do {
       f \<leftarrow> fopenWrite path;
       (case f of
          None \<Rightarrow> State_Monad.return (False, zeroWriter\<lparr>wrPath := path\<rparr>)
        | Some h \<Rightarrow> do {
            let writer = zeroWriter\<lparr>wrPath := path, wrFile := Some h, wrHeader := firstHeader metadata\<rparr>;
            ok \<leftarrow> fwriteAll h (encHeader (wrHeader writer));
            if ok then State_Monad.return (True, writer)
            else do {
              writer' \<leftarrow> searchStoreWriterAbort writer;
              State_Monad.return (False, writer')
            }
          })
     })"

text \<open>The counting loop over the mask.\<close>

definition maskCount :: "u8 list \<Rightarrow> u32 \<Rightarrow> u32" where
  "maskCount bits slotCount =
    foldl (\<lambda>n slot. n + (if bitIsSet bits slot then 1 else 0)) 0 [0..<unat slotCount]"

definition candidatesOf :: "u32 \<Rightarrow> u8 list option \<Rightarrow> u32" where
  "candidatesOf slotCount candidateMask =
    (case candidateMask of None \<Rightarrow> slotCount | Some bits \<Rightarrow> maskCount bits slotCount)"

text \<open>The representation and the payload size.\<close>

definition blockSizes :: "u32 \<Rightarrow> u32 \<Rightarrow> u32 \<Rightarrow> u8 \<times> u64" where
  "blockSizes width slotCount candidateCount =
    (let allSize = ucast slotCount * ucast width :: u64;
         bitmapSize = of_nat (maskBytes slotCount) + allSize;
         sparseSize = ucast candidateCount * (4 + ucast width) :: u64
     in if candidateCount \<noteq> slotCount
        then (if sparseSize < bitmapSize then (StoreRepresentationSparse, sparseSize)
              else (StoreRepresentationBitmap, bitmapSize))
        else (StoreRepresentationAll, allSize))"

definition sparseCell :: "u32 \<Rightarrow> u8 list \<Rightarrow> nat \<Rightarrow> u8 list" where
  "sparseCell width values slot =
    putWord (of_nat slot :: u32) @ take (unat width) (drop (slot * unat width) values)"

definition blockPayload :: "u8 \<Rightarrow> u32 \<Rightarrow> u32 \<Rightarrow> u8 list \<Rightarrow> u8 list option \<Rightarrow> u8 list" where
  "blockPayload representation width slotCount values candidateMask =
    (let allSize = unat slotCount * unat width;
         bits = (case candidateMask of None \<Rightarrow> [] | Some m \<Rightarrow> m)
     in if representation = StoreRepresentationAll then take allSize values
        else if representation = StoreRepresentationBitmap
        then take (maskBytes slotCount) bits @ take allSize values
        else concat (map (sparseCell width values) (filter (bitIsSet bits) [0..<unat slotCount])))"

definition blockHeader ::
  "u32 \<Rightarrow> u64 \<Rightarrow> u64 \<Rightarrow> u32 \<Rightarrow> u32 \<Rightarrow> u8 \<Rightarrow> u8 list \<Rightarrow> u64 \<Rightarrow> SearchStoreBlockHeader" where
  "blockHeader width cumulative base slotCount candidateCount representation payload payloadSize =
    \<lparr>bhMagic = SEARCH_STORE_BLOCK_MAGIC, bhRepresentation = representation, bhWidth = ucast width,
     bhReserved = 0, bhBase = base, bhCumulative = cumulative, bhSlotCount = slotCount,
     bhCandidateCount = candidateCount, bhPayloadSize = ucast payloadSize,
     bhPayloadCrc = searchStoreCrc32 payload\<rparr>"

definition searchStoreWriterAddBlock ::
  "SearchStoreWriter \<Rightarrow> u64 \<Rightarrow> u32 \<Rightarrow> u8 list \<Rightarrow> u8 list option \<Rightarrow> (bool \<times> SearchStoreWriter) disk" where
  "searchStoreWriterAddBlock writer base slotCount values candidateMask =
    (case wrFile writer of
       None \<Rightarrow> State_Monad.return (False, writer)
     | Some h \<Rightarrow>
         if wrFailed writer \<or> slotCount = 0 then State_Monad.return (False, writer)
         else
           (let header = wrHeader writer;
                width = smWidth (shMetadata header);
                candidateCount = candidatesOf slotCount candidateMask
            in if candidateCount = 0 then State_Monad.return (True, writer)
               else
                 (let (representation, payloadSize) = blockSizes width slotCount candidateCount
                  in if payloadSize > ucast U32_MAX
                     then State_Monad.return (False, writer\<lparr>wrFailed := True\<rparr>)
                     else do {
                       allocated \<leftarrow> mayFail;
                       if \<not> allocated then State_Monad.return (False, writer\<lparr>wrFailed := True\<rparr>)
                       else do {
                         let payload = blockPayload representation width slotCount values candidateMask;
                         let block = blockHeader width (shCandidateCount header) base slotCount
                                       candidateCount representation payload payloadSize;
                         ok \<leftarrow> andThen (fwriteAll h (encBlockHeader block)) (fwriteAll h payload);
                         if \<not> ok then State_Monad.return (False, writer\<lparr>wrFailed := True\<rparr>)
                         else State_Monad.return (True, writer\<lparr>wrHeader := header
                           \<lparr>shCandidateCount := shCandidateCount header + ucast candidateCount,
                            shBlockCount := shBlockCount header + 1,
                            shDataBytes := shDataBytes header + (of_nat blockHeaderBytes + payloadSize)\<rparr>\<rparr>)
                       }
                     })))"

text \<open>\<open>writeIndex\<close>: one entry per block, from the block headers in the file.\<close>

definition indexEntryOf :: "u64 \<Rightarrow> SearchStoreBlockHeader \<Rightarrow> SearchStoreIndexEntry" where
  "indexEntryOf offset block =
    \<lparr>ieFileOffset = offset, ieCumulative = bhCumulative block, ieBase = bhBase block,
     ieSlotCount = bhSlotCount block, ieCandidateCount = bhCandidateCount block\<rparr>"

fun indexLoop :: "nat \<Rightarrow> nat \<Rightarrow> u64 \<Rightarrow> bool disk" where
  "indexLoop h 0 offset = State_Monad.return True"
| "indexLoop h (Suc remaining) offset = do {
     sought \<leftarrow> fseekSet h offset;
     if \<not> sought then State_Monad.return False
     else do {
       bytes \<leftarrow> freadAll h blockHeaderBytes;
       (case bytes of
          None \<Rightarrow> State_Monad.return False
        | Some b \<Rightarrow>
            (let block = decBlockHeader b
             in if bhMagic block \<noteq> SEARCH_STORE_BLOCK_MAGIC then State_Monad.return False
                else do {
                  ok \<leftarrow> andThen (fseekEnd h) (fwriteAll h (encIndexEntry (indexEntryOf offset block)));
                  if \<not> ok then State_Monad.return False
                  else indexLoop h remaining (offset + (of_nat blockHeaderBytes + ucast (bhPayloadSize block)))
                }))
     }
   }"

definition writeIndex :: "nat \<Rightarrow> SearchStoreWriter \<Rightarrow> (bool \<times> SearchStoreWriter) disk" where
  "writeIndex h writer =
    (let header = (wrHeader writer)\<lparr>shIndexOffset := of_nat headerBytes + shDataBytes (wrHeader writer)\<rparr>
     in do {
       ok \<leftarrow> indexLoop h (unat (shBlockCount header)) (of_nat headerBytes);
       State_Monad.return (ok, writer\<lparr>wrHeader := header\<rparr>)
     })"

definition searchStoreWriterFinish :: "SearchStoreWriter \<Rightarrow> (bool \<times> SearchStoreWriter) disk" where
  "searchStoreWriterFinish writer =
    (case (if wrFailed writer then None else wrFile writer) of
       None \<Rightarrow> do { w \<leftarrow> searchStoreWriterAbort writer; State_Monad.return (False, w) }
     | Some h \<Rightarrow> do {
         (indexed, writer1) \<leftarrow> writeIndex h writer;
         if \<not> indexed then do { w \<leftarrow> searchStoreWriterAbort writer1; State_Monad.return (False, w) }
         else do {
           let header = (wrHeader writer1)\<lparr>shHeaderCrc := headerCrc (wrHeader writer1)\<rparr>;
           ok \<leftarrow> andThen (fseekSet h 0) (andThen (fwriteAll h (encHeader header))
                  (andThen mayFail (andThen mayFail (fclose h))));
           let writer2 = writer1\<lparr>wrHeader := header, wrFile := None\<rparr>;
           if \<not> ok then do { _ \<leftarrow> removeFile (wrPath writer2); State_Monad.return (False, writer2) }
           else State_Monad.return (True, writer2)
         }
       })"

subsection \<open>Replacing the current session\<close>

definition searchStoreCommit :: "string \<Rightarrow> string \<Rightarrow> string \<Rightarrow> bool \<Rightarrow> bool disk" where
  "searchStoreCommit temporary current backup currentExists = do {
     _ \<leftarrow> removeFile backup;
     saved \<leftarrow> (if currentExists then renameFile current backup else State_Monad.return True);
     if \<not> saved then State_Monad.return False
     else do {
       moved \<leftarrow> renameFile temporary current;
       if \<not> moved then do {
         _ \<leftarrow> (if currentExists then renameFile backup current else State_Monad.return True);
         State_Monad.return False
       }
       else do {
         _ \<leftarrow> (if currentExists then removeFile backup else State_Monad.return True);
         State_Monad.return True
       }
     }
   }"

end
