(* ===== verification/SearchStoreRead.thy ===== *)
theory SearchStoreRead
  imports SearchStore
begin

text \<open>
  \<open>search_store.c\<close>, the reading side: opening a session file, reading its blocks one after the
  other (\<open>searchStoreReaderNext\<close>), and reading a page of candidate addresses through the index
  (\<open>searchStoreReadAddresses\<close>).

  The second reader does not check the payload size against the representation, so its accesses to
  the payload can leave it; that is an outcome of its own here (\<open>ReadOverrun\<close>).
\<close>

record SearchStoreReader =
  rdFile :: "nat option"
  rdHeader :: SearchStoreHeader
  rdNextBlock :: u64
  rdNextOffset :: u64

definition zeroReader :: SearchStoreReader where
  "zeroReader = \<lparr>rdFile = None, rdHeader = zeroHeader, rdNextBlock = 0, rdNextOffset = 0\<rparr>"

definition searchStoreReaderClose :: "SearchStoreReader \<Rightarrow> SearchStoreReader disk" where
  "searchStoreReaderClose reader = do {
     _ \<leftarrow> (case rdFile reader of None \<Rightarrow> State_Monad.return True | Some h \<Rightarrow> fclose h);
     State_Monad.return (reader\<lparr>rdFile := None\<rparr>)
   }"

definition readerRefuse :: "SearchStoreReader \<Rightarrow> (bool \<times> SearchStoreReader) disk" where
  "readerRefuse reader = do {
     r \<leftarrow> searchStoreReaderClose reader;
     State_Monad.return (False, r)
   }"

definition headerAccepted :: "SearchStoreHeader \<Rightarrow> bool" where
  "headerAccepted header \<longleftrightarrow>
    \<not> (shMagic header \<noteq> SEARCH_STORE_MAGIC \<or> shVersion header \<noteq> SEARCH_STORE_VERSION
       \<or> shHeaderSize header \<noteq> of_nat headerBytes \<or> shHeaderCrc header \<noteq> headerCrc header
       \<or> smWidth (shMetadata header) = 0 \<or> smWidth (shMetadata header) > 8)"

definition sizesAccepted :: "SearchStoreHeader \<Rightarrow> int \<Rightarrow> bool" where
  "sizesAccepted header fileSize \<longleftrightarrow>
    \<not> (shIndexOffset header \<noteq> of_nat headerBytes + shDataBytes header
       \<or> shBlockCount header > U64_MAX div of_nat indexEntryBytes
       \<or> shIndexOffset header > U64_MAX - shBlockCount header * of_nat indexEntryBytes)
    \<and> \<not> (fileSize < 0
         \<or> word_of_int fileSize \<noteq> shIndexOffset header + shBlockCount header * of_nat indexEntryBytes)"

definition searchStoreReaderOpen :: "string \<Rightarrow> (bool \<times> SearchStoreReader) disk" where
  "searchStoreReaderOpen path = do {
     f \<leftarrow> fopenRead path;
     (case f of
        None \<Rightarrow> State_Monad.return (False, zeroReader)
      | Some h \<Rightarrow> do {
          bytes \<leftarrow> freadAll h headerBytes;
          (case bytes of
             None \<Rightarrow> readerRefuse (zeroReader\<lparr>rdFile := Some h\<rparr>)
           | Some b \<Rightarrow>
               (let header = decHeader b;
                    reader = zeroReader\<lparr>rdFile := Some h, rdHeader := header\<rparr>
                in if \<not> headerAccepted header then readerRefuse reader
                   else do {
                     sought \<leftarrow> fseekEnd h;
                     if \<not> sought then readerRefuse reader
                     else do {
                       fileSize \<leftarrow> ftell h;
                       if \<not> sizesAccepted header fileSize then readerRefuse reader
                       else State_Monad.return (True, reader\<lparr>rdNextOffset := of_nat headerBytes\<rparr>)
                     }
                   }))
        })
   }"

subsection \<open>Block after block\<close>

text \<open>The checks of a block header against the space before the index.\<close>

definition blockFits :: "SearchStoreHeader \<Rightarrow> u64 \<Rightarrow> SearchStoreBlockHeader \<Rightarrow> bool" where
  "blockFits header offset block \<longleftrightarrow>
    \<not> (bhMagic block \<noteq> SEARCH_STORE_BLOCK_MAGIC
       \<or> ucast (bhWidth block) \<noteq> smWidth (shMetadata header)
       \<or> bhSlotCount block = 0 \<or> bhCandidateCount block = 0
       \<or> bhCandidateCount block > bhSlotCount block
       \<or> bhPayloadSize block = 0 \<or> bhPayloadSize block > StoreMaximumPayload
       \<or> offset > shIndexOffset header
       \<or> of_nat blockHeaderBytes + ucast (bhPayloadSize block) > shIndexOffset header - offset)"

text \<open>The mask of a block all of whose slots are candidates.\<close>

definition fullMask :: "u32 \<Rightarrow> u8 list" where
  "fullMask slotCount =
    (let n = maskBytes slotCount;
         m = replicate n (0xFF :: u8)
     in if slotCount AND 7 \<noteq> 0
        then m[n - 1 := m ! (n - 1) AND (push_bit (unat (slotCount AND 7)) 1 - 1)]
        else m)"

text \<open>The sparse cells, written into the slot values and the mask.\<close>

fun sparseLoop ::
  "u8 list \<Rightarrow> u32 \<Rightarrow> nat \<Rightarrow> nat \<Rightarrow> nat \<Rightarrow> u32 option \<Rightarrow> u8 list \<Rightarrow> u8 list \<Rightarrow> (u8 list \<times> u8 list) option" where
  "sparseLoop payload slotCount width 0 cursor previous values bits = Some (values, bits)"
| "sparseLoop payload slotCount width (Suc remaining) cursor previous values bits =
    (let slot = getWord payload cursor :: u32
     in if slot \<ge> slotCount \<or> (case previous of None \<Rightarrow> False | Some p \<Rightarrow> slot \<le> p) then None
        else sparseLoop payload slotCount width remaining (cursor + 4 + width) (Some slot)
               (overwrite values (unat slot * width) (take width (drop (cursor + 4) payload)))
               (bitSet bits (unat slot)))"

definition decodePayload :: "SearchStoreBlockHeader \<Rightarrow> u8 list \<Rightarrow> (u8 list \<times> u8 list) option" where
  "decodePayload block payload =
    (let width = unat (bhWidth block);
         valueBytes = unat (bhSlotCount block) * width;
         bitBytes = maskBytes (bhSlotCount block);
         size = unat (bhPayloadSize block)
     in if bhRepresentation block = StoreRepresentationAll \<and> size = valueBytes
        then Some (take valueBytes payload, fullMask (bhSlotCount block))
        else if bhRepresentation block = StoreRepresentationBitmap \<and> size = bitBytes + valueBytes
        then Some (take valueBytes (drop bitBytes payload), take bitBytes payload)
        else if bhRepresentation block = StoreRepresentationSparse
             \<and> size = unat (bhCandidateCount block) * (4 + width)
        then sparseLoop payload (bhSlotCount block) width (unat (bhCandidateCount block)) 0 None
               (replicate valueBytes 0) (replicate bitBytes 0)
        else None)"

definition searchStoreReaderNext ::
  "SearchStoreReader \<Rightarrow> nat \<Rightarrow> nat
    \<Rightarrow> ((SearchStoreBlockHeader \<times> u8 list \<times> u8 list) option \<times> SearchStoreReader) disk" where
  "searchStoreReaderNext reader valuesCapacity maskCapacity =
    (case rdFile reader of
       None \<Rightarrow> State_Monad.return (None, reader)
     | Some h \<Rightarrow>
         if rdNextBlock reader \<ge> shBlockCount (rdHeader reader) then State_Monad.return (None, reader)
         else do {
           sought \<leftarrow> fseekSet h (rdNextOffset reader);
           if \<not> sought then State_Monad.return (None, reader)
           else do {
             bytes \<leftarrow> freadAll h blockHeaderBytes;
             (case bytes of
                None \<Rightarrow> State_Monad.return (None, reader)
              | Some b \<Rightarrow>
                  (let block = decBlockHeader b
                   in if \<not> blockFits (rdHeader reader) (rdNextOffset reader) block
                      then State_Monad.return (None, reader)
                      else do {
                        allocated \<leftarrow> mayFail;
                        if \<not> allocated then State_Monad.return (None, reader)
                        else do {
                          got \<leftarrow> freadAll h (unat (bhPayloadSize block));
                          (case got of
                             None \<Rightarrow> State_Monad.return (None, reader)
                           | Some payload \<Rightarrow>
                               if searchStoreCrc32 payload \<noteq> bhPayloadCrc block
                                  \<or> unat (bhSlotCount block) * unat (bhWidth block) > valuesCapacity
                                  \<or> maskBytes (bhSlotCount block) > maskCapacity
                               then State_Monad.return (None, reader)
                               else
                                 (case decodePayload block payload of
                                    None \<Rightarrow> State_Monad.return (None, reader)
                                  | Some (values, bits) \<Rightarrow>
                                      State_Monad.return (Some (block, values, bits), reader
                                        \<lparr>rdNextOffset := rdNextOffset reader
                                           + (of_nat blockHeaderBytes + ucast (bhPayloadSize block)),
                                         rdNextBlock := rdNextBlock reader + 1\<rparr>)))
                        }
                      }))
           }
         })"

subsection \<open>A page of addresses\<close>

datatype ReadResult =
    ReadFail
  | ReadOverrun
  | ReadDone "u64 list"

definition entryFits :: "SearchStoreHeader \<Rightarrow> SearchStoreIndexEntry \<Rightarrow> bool" where
  "entryFits header entry \<longleftrightarrow>
    \<not> (ieCumulative entry > shCandidateCount header
       \<or> ucast (ieCandidateCount entry) > shCandidateCount header - ieCumulative entry)"

definition readIndexEntry :: "nat \<Rightarrow> SearchStoreHeader \<Rightarrow> u64 \<Rightarrow> SearchStoreIndexEntry option disk" where
  "readIndexEntry h header index = do {
     sought \<leftarrow> fseekSet h (shIndexOffset header + index * of_nat indexEntryBytes);
     if \<not> sought then State_Monad.return None
     else do {
       bytes \<leftarrow> freadAll h indexEntryBytes;
       State_Monad.return (map_option decIndexEntry bytes)
     }
   }"

text \<open>The binary search for the first block that reaches past the requested offset.\<close>

function lowerBlock :: "nat \<Rightarrow> SearchStoreHeader \<Rightarrow> u64 \<Rightarrow> u64 \<Rightarrow> u64 \<Rightarrow> u64 option disk" where
  "lowerBlock h header offset low high =
    (if low < high then do {
       entry \<leftarrow> readIndexEntry h header (low + (high - low) div 2);
       (case entry of
          None \<Rightarrow> State_Monad.return None
        | Some e \<Rightarrow>
            if \<not> entryFits header e then State_Monad.return None
            else if offset \<ge> ieCumulative e + ucast (ieCandidateCount e)
            then lowerBlock h header offset (low + (high - low) div 2 + 1) high
            else lowerBlock h header offset low (low + (high - low) div 2))
     }
     else State_Monad.return (Some low))"
  by pat_completeness auto

lemma middle_bounds:
  fixes low high :: u64
  assumes "low < high"
  shows "unat (low + (high - low) div 2) = (unat low + unat high) div 2"
    and "unat (low + (high - low) div 2) < unat high"
    and "unat (low + (high - low) div 2 + 1) = (unat low + unat high) div 2 + 1"
proof -
  have lh: "unat low < unat high" using assms by (simp add: word_less_nat_alt)
  have d: "unat (high - low) = unat high - unat low"
    using assms by (simp add: unat_sub_if_size word_le_nat_alt word_less_nat_alt)
  have hd: "unat ((high - low) div 2) = (unat high - unat low) div 2"
    using d by (simp add: unat_div)
  have h64: "unat high < 2 ^ 64" by (rule unat_u64_lt)
  have sum: "unat low + (unat high - unat low) div 2 = (unat low + unat high) div 2"
    using lh by linarith
  have "unat low + unat ((high - low) div 2) < 2 ^ LENGTH(64)"
    using lh h64 hd sum by simp
  then show m: "unat (low + (high - low) div 2) = (unat low + unat high) div 2"
    using hd sum by (simp add: unat_add_no_wrap)
  then show "unat (low + (high - low) div 2) < unat high" using lh by linarith
  then show "unat (low + (high - low) div 2 + 1) = (unat low + unat high) div 2 + 1"
    using m h64 by (subst unat_add_no_wrap) simp_all
qed

termination lowerBlock
proof (relation "measure (\<lambda>(h, header, offset, low, high). unat high - unat low)", goal_cases)
  case (2 h header offset low high)
  with middle_bounds(3) [of low high] show ?case by (auto simp: word_less_nat_alt)
next
  case (3 h header offset low high)
  with middle_bounds(1,2) [of low high] show ?case by (auto simp: word_less_nat_alt)
qed simp

declare lowerBlock.simps [simp del]

text \<open>What is the same for all candidates of one request.\<close>

record PageRequest =
  pgOffset :: u64
  pgCount :: u64
  pgAlignment :: u64

definition pageAddress :: "PageRequest \<Rightarrow> SearchStoreBlockHeader \<Rightarrow> u32 \<Rightarrow> u64" where
  "pageAddress req block slot = bhBase block + ucast slot * pgAlignment req"

fun pageSparse ::
  "PageRequest \<Rightarrow> SearchStoreBlockHeader \<Rightarrow> u8 list \<Rightarrow> nat \<Rightarrow> nat \<Rightarrow> u32 option \<Rightarrow> u64 \<Rightarrow> u64 list \<Rightarrow> ReadResult" where
  "pageSparse req block payload 0 cursor previous ordinal copied = ReadDone copied"
| "pageSparse req block payload (Suc remaining) cursor previous ordinal copied =
    (if cursor + 4 > length payload then ReadOverrun
     else
       (let slot = getWord payload cursor :: u32
        in if slot \<ge> bhSlotCount block \<or> (case previous of None \<Rightarrow> False | Some p \<Rightarrow> slot \<le> p)
           then ReadFail
           else pageSparse req block payload remaining (cursor + 4 + unat (bhWidth block)) (Some slot)
                  (ordinal + 1)
                  (if ordinal \<ge> pgOffset req \<and> length copied < unat (pgCount req)
                   then copied @ [pageAddress req block slot] else copied)))"

fun pageDense ::
  "PageRequest \<Rightarrow> SearchStoreBlockHeader \<Rightarrow> u8 list option \<Rightarrow> nat \<Rightarrow> nat \<Rightarrow> u64 \<Rightarrow> u64 list \<Rightarrow> ReadResult" where
  "pageDense req block bits 0 slot ordinal copied = ReadDone copied"
| "pageDense req block bits (Suc remaining) slot ordinal copied =
    (if \<not> length copied < unat (pgCount req) then ReadDone copied
     else
       (case bits of
          Some m \<Rightarrow>
            if slot div 8 \<ge> length m then ReadOverrun
            else if \<not> bitIsSet m slot
            then pageDense req block bits remaining (slot + 1) ordinal copied
            else pageDense req block bits remaining (slot + 1) (ordinal + 1)
                   (if ordinal \<ge> pgOffset req
                    then copied @ [pageAddress req block (of_nat slot)] else copied)
        | None \<Rightarrow>
            pageDense req block bits remaining (slot + 1) (ordinal + 1)
              (if ordinal \<ge> pgOffset req
               then copied @ [pageAddress req block (of_nat slot)] else copied)))"

definition pageBlock ::
  "PageRequest \<Rightarrow> SearchStoreBlockHeader \<Rightarrow> u8 list \<Rightarrow> u64 list \<Rightarrow> ReadResult" where
  "pageBlock req block payload copied =
    (if bhRepresentation block = StoreRepresentationSparse
     then pageSparse req block payload (unat (bhCandidateCount block)) 0 None (bhCumulative block) copied
     else pageDense req block
            (if bhRepresentation block = StoreRepresentationBitmap then Some payload else None)
            (unat (bhSlotCount block)) 0 (bhCumulative block) copied)"

text \<open>The checks of a block header against its index entry.\<close>

definition entryMatches :: "SearchStoreHeader \<Rightarrow> SearchStoreIndexEntry \<Rightarrow> SearchStoreBlockHeader \<Rightarrow> bool" where
  "entryMatches header entry block \<longleftrightarrow>
    blockFits header (ieFileOffset entry) block
    \<and> ieCumulative entry = bhCumulative block \<and> ieBase entry = bhBase block
    \<and> ieSlotCount entry = bhSlotCount block \<and> ieCandidateCount entry = bhCandidateCount block
    \<and> entryFits header entry"

definition readBlockAt ::
  "nat \<Rightarrow> SearchStoreHeader \<Rightarrow> SearchStoreIndexEntry \<Rightarrow> (SearchStoreBlockHeader \<times> u8 list) option disk" where
  "readBlockAt h header entry = do {
     sought \<leftarrow> fseekSet h (ieFileOffset entry);
     if \<not> sought then State_Monad.return None
     else do {
       bytes \<leftarrow> freadAll h blockHeaderBytes;
       (case bytes of
          None \<Rightarrow> State_Monad.return None
        | Some b \<Rightarrow>
            (let block = decBlockHeader b
             in if \<not> entryMatches header entry block then State_Monad.return None
                else do {
                  allocated \<leftarrow> mayFail;
                  if \<not> allocated then State_Monad.return None
                  else do {
                    got \<leftarrow> freadAll h (unat (bhPayloadSize block));
                    (case got of
                       None \<Rightarrow> State_Monad.return None
                     | Some payload \<Rightarrow>
                         if searchStoreCrc32 payload \<noteq> bhPayloadCrc block then State_Monad.return None
                         else State_Monad.return (Some (block, payload)))
                  }
                }))
     }
   }"

fun pageLoop ::
  "nat \<Rightarrow> SearchStoreHeader \<Rightarrow> PageRequest \<Rightarrow> nat \<Rightarrow> u64 \<Rightarrow> u64 list \<Rightarrow> ReadResult disk" where
  "pageLoop h header req 0 index copied = State_Monad.return (ReadDone copied)"
| "pageLoop h header req (Suc remaining) index copied =
    (if \<not> length copied < unat (pgCount req) then State_Monad.return (ReadDone copied)
     else do {
       entry \<leftarrow> readIndexEntry h header index;
       (case entry of
          None \<Rightarrow> State_Monad.return ReadFail
        | Some e \<Rightarrow>
            if pgOffset req \<ge> ieCumulative e + ucast (ieCandidateCount e)
            then pageLoop h header req remaining (index + 1) copied
            else do {
              found \<leftarrow> readBlockAt h header e;
              (case found of
                 None \<Rightarrow> State_Monad.return ReadFail
               | Some (block, payload) \<Rightarrow>
                   (case pageBlock req block payload copied of
                      ReadDone copied' \<Rightarrow> pageLoop h header req remaining (index + 1) copied'
                    | stop \<Rightarrow> State_Monad.return stop))
            })
     })"

text \<open>The result and the total; the total is only set once the file is open.\<close>

definition searchStoreReadAddresses ::
  "string \<Rightarrow> u64 \<Rightarrow> u64 \<Rightarrow> (ReadResult \<times> u64 option) disk" where
  "searchStoreReadAddresses path offset count = do {
     (opened, reader) \<leftarrow> searchStoreReaderOpen path;
     (case (if opened then rdFile reader else None) of
        None \<Rightarrow> State_Monad.return (ReadFail, None)
      | Some h \<Rightarrow>
          (let header = rdHeader reader;
               total = shCandidateCount header;
               req = \<lparr>pgOffset = offset, pgCount = count, pgAlignment = smAlignment (shMetadata header)\<rparr>
           in if offset \<ge> total \<or> count = 0 then do {
                _ \<leftarrow> searchStoreReaderClose reader;
                State_Monad.return (ReadDone [], Some total)
              }
              else do {
                start \<leftarrow> lowerBlock h header offset 0 (shBlockCount header);
                result \<leftarrow> (case start of
                   None \<Rightarrow> State_Monad.return ReadFail
                 | Some low \<Rightarrow> pageLoop h header req (unat (shBlockCount header) - unat low) low []);
                _ \<leftarrow> searchStoreReaderClose reader;
                State_Monad.return (result, Some total)
              }))
   }"

end
