(* ===== verification/SearchStoreImage.thy ===== *)
theory SearchStoreImage
  imports SearchStoreRead
begin

text \<open>
  What a session file holds: \<open>storeImage\<close> is the file as a function of the metadata and the
  blocks handed to the writer.  The writer, under any failures of the card, produces exactly this
  file or reports failure.
\<close>

text \<open>One call of the writer: base address, slot count, slot values, and the candidate mask.\<close>

type_synonym StoreBlock = "u64 \<times> u32 \<times> u8 list \<times> u8 list option"

fun slotsOf :: "StoreBlock \<Rightarrow> nat list" where
  "slotsOf (base, n, values, None) = [0..<unat n]"
| "slotsOf (base, n, values, Some bits) = filter (bitIsSet bits) [0..<unat n]"

fun okBlock :: "nat \<Rightarrow> StoreBlock \<Rightarrow> bool" where
  "okBlock width (base, n, values, bits) \<longleftrightarrow>
    length values = unat n * width \<and> (unat n + 7) div 8 + unat n * width \<le> 0x50000
    \<and> (case bits of None \<Rightarrow> True | Some m \<Rightarrow> length m = (unat n + 7) div 8)"

fun storedBlock :: "u32 \<Rightarrow> u64 \<Rightarrow> StoreBlock \<Rightarrow> SearchStoreBlockHeader \<times> u8 list" where
  "storedBlock width cumulative (base, n, values, bits) =
    (let count = candidatesOf n bits;
         (representation, sz) = blockSizes width n count;
         payload = blockPayload representation width n values bits
     in (blockHeader width cumulative base n count representation payload sz, payload))"

fun storedBlocks :: "u32 \<Rightarrow> u64 \<Rightarrow> StoreBlock list \<Rightarrow> (SearchStoreBlockHeader \<times> u8 list) list" where
  "storedBlocks width cumulative [] = []"
| "storedBlocks width cumulative (b # bs) =
    (if slotsOf b = [] then storedBlocks width cumulative bs
     else storedBlock width cumulative b
          # storedBlocks width (cumulative + of_nat (length (slotsOf b))) bs)"

definition encStored :: "SearchStoreBlockHeader \<times> u8 list \<Rightarrow> u8 list" where
  "encStored s = encBlockHeader (fst s) @ snd s"

definition dataOf :: "(SearchStoreBlockHeader \<times> u8 list) list \<Rightarrow> u8 list" where
  "dataOf ss = concat (map encStored ss)"

fun indexEntries :: "nat \<Rightarrow> (SearchStoreBlockHeader \<times> u8 list) list \<Rightarrow> SearchStoreIndexEntry list" where
  "indexEntries offset [] = []"
| "indexEntries offset (s # ss) =
    indexEntryOf (of_nat offset) (fst s) # indexEntries (offset + 40 + length (snd s)) ss"

definition countsHeader :: "SearchStoreMetadata \<Rightarrow> StoreBlock list \<Rightarrow> SearchStoreHeader" where
  "countsHeader md bs =
    (firstHeader md)
      \<lparr>shCandidateCount := of_nat (length (concat (map slotsOf bs))),
       shBlockCount := of_nat (length (storedBlocks (smWidth md) 0 bs)),
       shDataBytes := of_nat (length (dataOf (storedBlocks (smWidth md) 0 bs)))\<rparr>"

definition finalHeader :: "SearchStoreMetadata \<Rightarrow> StoreBlock list \<Rightarrow> SearchStoreHeader" where
  "finalHeader md bs =
    (let h = (countsHeader md bs)\<lparr>shIndexOffset := of_nat headerBytes + shDataBytes (countsHeader md bs)\<rparr>
     in h\<lparr>shHeaderCrc := headerCrc h\<rparr>)"

definition storeImage :: "SearchStoreMetadata \<Rightarrow> StoreBlock list \<Rightarrow> u8 list" where
  "storeImage md bs =
    (let ss = storedBlocks (smWidth md) 0 bs
     in encHeader (finalHeader md bs) @ dataOf ss @ concat (map encIndexEntry (indexEntries headerBytes ss)))"

text \<open>A whole session: open, every block, finish.\<close>

fun addAll :: "SearchStoreWriter \<Rightarrow> StoreBlock list \<Rightarrow> SearchStoreWriter disk" where
  "addAll writer [] = State_Monad.return writer"
| "addAll writer ((base, n, values, bits) # bs) = do {
     (ok, writer') \<leftarrow> searchStoreWriterAddBlock writer base n values bits;
     addAll writer' bs
   }"

definition writeSession :: "string \<Rightarrow> SearchStoreMetadata \<Rightarrow> StoreBlock list \<Rightarrow> bool disk" where
  "writeSession path md bs = do {
     (opened, writer) \<leftarrow> searchStoreWriterOpen path md;
     if \<not> opened then State_Monad.return False
     else do {
       writer' \<leftarrow> addAll writer bs;
       (ok, writer'') \<leftarrow> searchStoreWriterFinish writer';
       State_Monad.return ok
     }
   }"

subsection \<open>One block\<close>

lemma maskCount_filter: "maskCount bits n = of_nat (length (filter (bitIsSet bits) [0..<unat n]))"
proof -
  have "foldl (\<lambda>c slot. c + (if bitIsSet bits slot then 1 else 0)) (of_nat a :: u32) xs
      = of_nat (a + length (filter (bitIsSet bits) xs))" for a xs
  proof (induction xs arbitrary: a)
    case (Cons x xs)
    show ?case using Cons.IH [of "a + 1"] Cons.IH [of a] by (simp add: add.commute)
  qed simp
  from this [of 0 "[0..<unat n]"] show ?thesis by (simp add: maskCount_def)
qed

lemma candidatesOf_slots: "candidatesOf n bits = of_nat (length (slotsOf (base, n, values, bits)))"
  by (cases bits) (simp_all add: candidatesOf_def maskCount_filter)

lemma slotsOf_le: "length (slotsOf (base, n, values, bits)) \<le> unat n"
  by (cases bits) (simp_all add: filter_upt_le)

lemma slotsOf_less: "s \<in> set (slotsOf (base, n, values, bits)) \<Longrightarrow> s < unat n"
  by (cases bits) auto

lemma unat_candidatesOf:
  "unat (candidatesOf n bits) = length (slotsOf (base, n, values, bits))"
proof -
  have "length (slotsOf (base, n, values, bits)) < 2 ^ LENGTH(32)"
    using slotsOf_le [of base n "values" bits] unat_u32_lt [of n] by simp
  then show ?thesis
    by (simp only: candidatesOf_slots [of n bits base "values"]) (rule of_nat_inverse, simp)
qed

lemma candidatesOf_0: "candidatesOf n bits = 0 \<longleftrightarrow> slotsOf (base, n, values, bits) = []"
  by (metis length_0_conv unat_candidatesOf unat_eq_zero)

lemma okBlock_small:
  assumes "okBlock width (base, n, values, bits)" and "0 < width"
  shows "unat n \<le> 0x50000" and "maskBytes n = (unat n + 7) div 8"
proof -
  have "unat n \<le> unat n * width" using assms(2) by simp
  also have "\<dots> \<le> 0x50000" using assms(1) by simp
  finally show "unat n \<le> 0x50000" .
  then show "maskBytes n = (unat n + 7) div 8" by (intro maskBytes_unat) simp
qed

lemma length_sparse:
  assumes "\<forall>s \<in> set ss. s < n" and "length values = n * unat width"
  shows "length (concat (map (sparseCell width values) ss)) = length ss * (4 + unat width)"
  using assms(1)
proof (induction ss)
  case (Cons s ss)
  then have "s * unat width + unat width \<le> length values"
    using assms(2) by (metis add.commute list.set_intros(1) mult_Suc mult_le_mono1 Suc_leI)
  with Cons show ?case by (simp add: sparseCell_def)
qed simp

text \<open>The sizes the code computes are the lengths of the payloads it writes.\<close>

lemma blockSizes_payload:
  assumes ok: "okBlock (unat width) (base, n, values, bits)" and w: "0 < unat width" "unat width \<le> 8"
    and ne: "slotsOf (base, n, values, bits) \<noteq> []"
    and sizes: "blockSizes width n (candidatesOf n bits) = (representation, sz)"
  shows "unat sz = length (blockPayload representation width n values bits)"
    and "unat sz \<le> 0x50000" and "0 < unat sz"
    and "representation = StoreRepresentationAll \<longleftrightarrow> length (slotsOf (base, n, values, bits)) = unat n"
    and "representation \<in> {StoreRepresentationAll, StoreRepresentationBitmap, StoreRepresentationSparse}"
    and "representation \<noteq> StoreRepresentationAll \<Longrightarrow> bits \<noteq> None"
proof -
  let ?slots = "slotsOf (base, n, values, bits)"
  note small = okBlock_small [OF ok w(1)]
  have c: "unat (candidatesOf n bits) = length ?slots" by (rule unat_candidatesOf)
  have le: "length ?slots \<le> unat n" by (rule slotsOf_le)
  have pos: "0 < length ?slots" using ne by simp
  have lenv: "length values = unat n * unat width" using ok by simp
  have fits: "(unat n + 7) div 8 + unat n * unat width \<le> 0x50000" using ok by simp
  have szAll: "unat (ucast n * ucast width :: u64) = unat n * unat width"
    using fits by (subst unat_mult_no_wrap) simp_all
  have nw: "unat n * (4 + unat width) \<le> 0x50000 * 12"
    using small(1) w(2) by (intro mult_le_mono) auto
  have sp_le: "length ?slots * (4 + unat width) \<le> 0x50000 * 12"
    using mult_le_mono1 [OF le] nw by (rule le_trans)
  have w4: "unat (4 + ucast width :: u64) = 4 + unat width"
    using w(2) by (subst unat_add_no_wrap) simp_all
  have szSparse: "unat (ucast (candidatesOf n bits) * (4 + ucast width) :: u64) = length ?slots * (4 + unat width)"
    using sp_le by (subst unat_mult_no_wrap) (simp_all add: w4 c)
  have szBitmap: "unat (of_nat (maskBytes n) + ucast n * ucast width :: u64) = (unat n + 7) div 8 + unat n * unat width"
  proof -
    have "(unat n + 7) div 8 \<le> 0x50000" using fits by simp
    then have "unat (of_nat ((unat n + 7) div 8) :: u64) = (unat n + 7) div 8"
      by (intro of_nat_inverse) simp_all
    then show ?thesis using fits szAll small(2) by (subst unat_add_no_wrap) simp_all
  qed
  have eq: "candidatesOf n bits = n \<longleftrightarrow> length ?slots = unat n"
    using c by (metis word_unat_eq_iff)
  have none: "bits = None \<Longrightarrow> length ?slots = unat n" by simp
  have ls: "length (concat (map (sparseCell width values) (filter (bitIsSet m) [0..<unat n])))
      = length (filter (bitIsSet m) [0..<unat n]) * (4 + unat width)" for m
    by (rule length_sparse [where n = "unat n"]) (use lenv in auto)
  consider (all) "length ?slots = unat n" "representation = StoreRepresentationAll"
      "sz = ucast n * ucast width"
    | (sparse) "length ?slots \<noteq> unat n" "representation = StoreRepresentationSparse"
      "sz = ucast (candidatesOf n bits) * (4 + ucast width)"
      "length ?slots * (4 + unat width) < (unat n + 7) div 8 + unat n * unat width"
    | (bitmap) "length ?slots \<noteq> unat n" "representation = StoreRepresentationBitmap"
      "sz = of_nat (maskBytes n) + ucast n * ucast width"
  proof -
    have "ucast (candidatesOf n bits) * (4 + ucast width) < of_nat (maskBytes n) + (ucast n * ucast width :: u64)
        \<longleftrightarrow> length ?slots * (4 + unat width) < (unat n + 7) div 8 + unat n * unat width"
      by (simp only: word_less_nat_alt szSparse szBitmap)
    with sizes eq show ?thesis
      by (simp only: blockSizes_def Let_def split: if_splits)
        (use that in \<open>auto\<close>)
  qed
  note cases = this
  note reps = StoreRepresentationAll_def StoreRepresentationBitmap_def StoreRepresentationSparse_def
  show "unat sz = length (blockPayload representation width n values bits)"
    using cases
  proof cases
    case all
    then show ?thesis using szAll lenv by (simp add: blockPayload_def)
  next
    case sparse
    then obtain m where m: "bits = Some m" using none by (cases bits) auto
    show ?thesis
      using sparse szSparse ls [of m]
      by (simp add: blockPayload_def m reps)
  next
    case bitmap
    then obtain m where m: "bits = Some m" using none by (cases bits) auto
    then have "length m = (unat n + 7) div 8" using ok by simp
    then show ?thesis
      using bitmap szBitmap lenv small(2) by (simp add: blockPayload_def m reps)
  qed
  show "unat sz \<le> 0x50000" using cases fits szAll szSparse szBitmap by cases simp_all
  have npos: "0 < unat n" using pos le by linarith
  show "0 < unat sz" using cases npos szAll szSparse szBitmap w(1) pos by cases simp_all
  show "representation = StoreRepresentationAll \<longleftrightarrow> length ?slots = unat n"
    using cases by cases (simp_all add: reps)
  show "representation \<in> {StoreRepresentationAll, StoreRepresentationBitmap, StoreRepresentationSparse}"
    using cases by cases simp_all
  show "representation \<noteq> StoreRepresentationAll \<Longrightarrow> bits \<noteq> None"
    using cases by cases (use none in \<open>blast+\<close>)
qed

subsection \<open>The writer produces the image\<close>

lemma storedBlocks_append_data:
  "length (dataOf (s # ss)) = 40 + length (snd s) + length (dataOf ss)"
  by (simp add: dataOf_def encStored_def)

text \<open>The header counters and the file after the blocks \<open>bs\<close>.\<close>

definition written :: "Disk \<Rightarrow> nat \<Rightarrow> string \<Rightarrow> SearchStoreMetadata \<Rightarrow> StoreBlock list \<Rightarrow> SearchStoreWriter \<Rightarrow> bool" where
  "written d h path md bs writer \<longleftrightarrow>
    writer = \<lparr>wrFile = Some h, wrHeader = countsHeader md bs, wrPath = path, wrFailed = False\<rparr>
    \<and> (let content = encHeader (firstHeader md) @ dataOf (storedBlocks (smWidth md) 0 bs)
       in stream d h path (length content) content)"

lemma storedBlocks_snoc:
  "storedBlocks width c (bs @ [b]) = storedBlocks width c bs
    @ (if slotsOf b = [] then [] else [storedBlock width (c + of_nat (length (concat (map slotsOf bs)))) b])"
  by (induction bs arbitrary: c) (simp_all add: add.assoc)

lemma encHeader_ne: "encHeader h \<noteq> []" and encBlockHeader_ne: "encBlockHeader b \<noteq> []"
  and encIndexEntry_ne: "encIndexEntry e \<noteq> []"
  by (auto simp: encHeader_def encBlockHeader_def encIndexEntry_def putWord_def)

lemma wp_addBlock:
  assumes w: "written d h path md bs writer" and ok: "okBlock (unat (smWidth md)) (base, n, values, bits)"
    and width: "0 < unat (smWidth md)" "unat (smWidth md) \<le> 8"
  shows "wp (searchStoreWriterAddBlock writer base n values bits) d (\<lambda>(r, writer') d'.
    (written d' h path md (bs @ [(base, n, values, bits)]) writer' \<and> faultless d' = faultless d)
    \<or> (wrFailed writer' \<and> \<not> faultless d))"
proof -
  let ?b = "(base, n, values, bits)" and ?width = "smWidth md"
  let ?content = "encHeader (firstHeader md) @ dataOf (storedBlocks ?width 0 bs)"
  have writer: "writer = \<lparr>wrFile = Some h, wrHeader = countsHeader md bs, wrPath = path, wrFailed = False\<rparr>"
    and str: "stream d h path (length ?content) ?content"
    using w by (simp_all add: written_def Let_def)
  have md: "shMetadata (countsHeader md bs) = md" by (simp add: countsHeader_def firstHeader_def)
  show ?thesis
  proof (cases "slotsOf ?b = []")
    case True
    then have "written d h path md (bs @ [?b]) writer"
      using w by (simp add: written_def storedBlocks_snoc countsHeader_def)
    moreover have "n = 0 \<or> candidatesOf n bits = 0" using True candidatesOf_0 by blast
    ultimately show ?thesis
      by (auto simp: searchStoreWriterAddBlock_def writer Let_def)
  next
    case False
    obtain representation sz where sizes: "blockSizes ?width n (candidatesOf n bits) = (representation, sz)"
      by force
    note facts = blockSizes_payload [OF ok width False sizes]
    let ?payload = "blockPayload representation ?width n values bits"
    let ?block = "blockHeader ?width (shCandidateCount (countsHeader md bs)) base n (candidatesOf n bits)
        representation ?payload sz"
    have n0: "n \<noteq> 0" "candidatesOf n bits \<noteq> 0"
      using False candidatesOf_0 slotsOf_le [of base n "values" bits] by auto
    have stored: "storedBlocks ?width 0 (bs @ [?b]) = storedBlocks ?width 0 bs @ [(?block, ?payload)]"
      using False by (simp add: storedBlocks_snoc sizes countsHeader_def Let_def)
    have small: "\<not> sz > ucast U32_MAX"
      using facts(2) by (simp add: word_less_nat_alt)
    have pne: "?payload \<noteq> []" using facts(1,3) by auto
    let ?header = "(countsHeader md bs)
        \<lparr>shCandidateCount := shCandidateCount (countsHeader md bs) + ucast (candidatesOf n bits),
         shBlockCount := shBlockCount (countsHeader md bs) + 1,
         shDataBytes := shDataBytes (countsHeader md bs) + (40 + sz)\<rparr>"
    have counts: "ucast (candidatesOf n bits) = (of_nat (length (slotsOf ?b)) :: u64)"
      by (simp only: unat_candidatesOf [symmetric]) simp
    have szw: "sz = of_nat (length ?payload)" by (simp only: facts(1) [symmetric]) simp
    have hdr: "?header = countsHeader md (bs @ [?b])"
      by (simp add: countsHeader_def stored counts dataOf_def encStored_def szw firstHeader_def zeroHeader_def)
    have final: "written d' h path md (bs @ [?b])
          \<lparr>wrFile = Some h, wrHeader = ?header, wrPath = path, wrFailed = False\<rparr>"
      if "stream d' h path p c" "p = length c" "c = ?content @ encBlockHeader ?block @ ?payload" for d' p c
      using that unfolding hdr by (simp add: written_def stored dataOf_def encStored_def)
    show ?thesis
      using n0 small
      apply (simp add: searchStoreWriterAddBlock_def writer md sizes Let_def)
      apply (rule wp_mayFail)
       apply simp
       apply (rule wp_fwriteAll [of _ h path "length ?content" ?content])
          apply (insert str, simp add: stream_def)
         apply (rule encBlockHeader_ne)
        apply simp
        apply (rule wp_fwriteAll [of _ h path _ "?content @ encBlockHeader ?block"])
           apply (simp add: overwrite_end)
          apply (rule pne)
         apply simp
         apply (erule final)
          apply (simp_all add: overwrite_end)
      done
  qed
qed

text \<open>A failed writer stays failed.\<close>

lemma wp_addAll_failed: "wrFailed writer \<Longrightarrow> wp (addAll writer bs) d (\<lambda>writer' d'. wrFailed writer')"
proof (induction bs arbitrary: writer d)
  case (Cons b bs)
  obtain base n v bits where b: "b = (base, n, v, bits)" by (cases b) auto
  have "searchStoreWriterAddBlock writer base n v bits = State_Monad.return (False, writer)"
    using Cons.prems by (auto simp: searchStoreWriterAddBlock_def split: option.splits)
  then show ?case using Cons by (simp add: b)
qed simp

lemma wp_addAll:
  assumes "written d h path md bs writer" and "list_all (okBlock (unat (smWidth md))) bs'"
    and width: "0 < unat (smWidth md)" "unat (smWidth md) \<le> 8"
  shows "wp (addAll writer bs') d (\<lambda>writer' d'.
    (written d' h path md (bs @ bs') writer' \<and> faultless d' = faultless d)
    \<or> (wrFailed writer' \<and> \<not> faultless d))"
  using assms(1,2)
proof (induction bs' arbitrary: bs writer d)
  case Nil
  then show ?case by simp
next
  case (Cons b bs')
  obtain base n v bits where b: "b = (base, n, v, bits)" by (cases b) auto
  have ok: "okBlock (unat (smWidth md)) (base, n, v, bits)" "list_all (okBlock (unat (smWidth md))) bs'"
    using Cons.prems(2) by (simp_all add: b)
  show ?case
  proof (simp add: b, rule wp_mono [OF wp_addBlock [OF Cons.prems(1) ok(1) width]], clarify, erule disjE, goal_cases)
    case (1 r writer' d')
    then show ?case
      using Cons.IH [of d' "bs @ [b]" writer'] ok(2) by (simp add: b)
  next
    case (2 r writer' d')
    then show ?case by (auto intro: wp_mono [OF wp_addAll_failed])
  qed
qed

subsection \<open>The index\<close>

definition storedOk :: "SearchStoreBlockHeader \<times> u8 list \<Rightarrow> bool" where
  "storedOk s \<longleftrightarrow> bhMagic (fst s) = SEARCH_STORE_BLOCK_MAGIC
    \<and> unat (bhPayloadSize (fst s)) = length (snd s)"

lemma unat_of_nat_u64: "k < 2 ^ 63 \<Longrightarrow> unat (of_nat k :: u64) = k"
  by (rule of_nat_inverse) simp_all

lemma wp_indexLoop:
  assumes "stream d h path pos (front @ dataOf ss @ idx)" and "length front + length (dataOf ss) < 2 ^ 63"
    and "list_all storedOk ss"
  shows "wp (indexLoop h (length ss) (of_nat (length front))) d (\<lambda>ok d'.
    (ok \<and> faultless d' = faultless d
      \<and> (\<exists>pos'. stream d' h path pos'
          (front @ dataOf ss @ idx @ concat (map encIndexEntry (indexEntries (length front) ss)))))
    \<or> (\<not> ok \<and> \<not> faultless d))"
  using assms
proof (induction ss arbitrary: front idx d pos)
  case Nil
  then show ?case by (auto simp: dataOf_def)
next
  case (Cons s ss)
  obtain b payload where s: "s = (b, payload)" by force
  let ?content = "front @ dataOf (s # ss) @ idx"
  have at: "take 40 (drop (length front) ?content) = encBlockHeader b"
    by (simp add: dataOf_def encStored_def s)
  have off: "unat (of_nat (length front) :: u64) = length front"
    using Cons.prems(2) by (intro unat_of_nat_u64) simp
  have ok: "bhMagic b = SEARCH_STORE_BLOCK_MAGIC" "unat (bhPayloadSize b) = length payload"
    using Cons.prems(3) by (simp_all add: storedOk_def s)
  let ?front = "front @ encStored s"
  let ?entry = "encIndexEntry (indexEntryOf (of_nat (length front)) b)"
  have lf: "length ?front = length front + 40 + length payload" by (simp add: encStored_def s)
  have next_off: "of_nat (length front) + (40 + ucast (bhPayloadSize b)) = (of_nat (length ?front) :: u64)"
  proof -
    have "ucast (bhPayloadSize b) = (of_nat (length payload) :: u64)"
      by (simp only: ok(2) [symmetric]) simp
    then show ?thesis by (simp add: encStored_def s)
  qed
  have content: "?content @ ?entry = ?front @ dataOf ss @ (idx @ ?entry)"
    by (simp add: dataOf_def)
  have small: "length ?front + length (dataOf ss) < 2 ^ 63"
    using Cons.prems(2) by (simp add: storedBlocks_append_data encStored_def s)
  define Q where "Q = (\<lambda>ok d''.
      (ok \<and> faultless d'' = faultless d
        \<and> (\<exists>pos'. stream d'' h path pos'
            (front @ dataOf (s # ss) @ idx @ concat (map encIndexEntry (indexEntries (length front) (s # ss))))))
      \<or> (\<not> ok \<and> \<not> faultless d))"
  have rest: "wp (indexLoop h (length ss) (of_nat (length ?front))) d' Q"
    if "faultless d' = faultless d" "stream d' h path p (?content @ ?entry)" for d' p
  proof -
    have str: "stream d' h path p (?front @ dataOf ss @ (idx @ ?entry))"
      using that(2) by (simp only: content)
    have oks: "list_all storedOk ss" using Cons.prems(3) by simp
    show ?thesis unfolding Q_def
      by (rule wp_mono [OF Cons.IH [OF str small oks]])
        (use that(1) lf in \<open>auto simp: dataOf_def s encStored_def add.assoc\<close>)
  qed
  have fail: "Q False d'" if "\<not> faultless d" for d' using that by (simp add: Q_def)
  have "wp (indexLoop h (Suc (length ss)) (of_nat (length front))) d Q"
    unfolding indexLoop.simps
    apply (simp only: wp_steps)
    apply (rule wp_fseekSet [OF Cons.prems(1)])
     apply (simp only: wp_steps)
     apply (rule wp_freadAll, assumption)
      apply (simp only: off at decBlockHeader_enc ok(1) wp_steps)
      apply (rule wp_fseekEnd, assumption)
       apply (simp only: wp_steps)
       apply (rule wp_fwriteAll, assumption, rule encIndexEntry_ne)
        apply (simp only: wp_steps of_nat_numeral next_off)
        apply (rule rest, simp, simp add: overwrite_end)
       apply (simp add: fail)
      apply (simp add: fail)
     apply (use Cons.prems(2) off fail in \<open>simp_all add: storedBlocks_append_data\<close>)
    done
  then show ?case unfolding Q_def by simp
qed

lemma unat_ucast_small:
  fixes w :: u64
  assumes "unat w \<le> 0x50000"
  shows "unat (ucast w :: u32) = unat w"
  using assms by (simp add: unsigned_ucast_eq take_bit_nat_eq_self)

lemma storedBlocks_ok:
  assumes "0 < unat width" and "unat width \<le> 8"
  shows "list_all (okBlock (unat width)) bs \<Longrightarrow> list_all storedOk (storedBlocks width c bs)"
proof (induction bs arbitrary: c)
  case (Cons b bs)
  obtain base n v bits where b: "b = (base, n, v, bits)" by (cases b) auto
  show ?case
  proof (cases "slotsOf b = []")
    case False
    obtain representation sz where sizes: "blockSizes width n (candidatesOf n bits) = (representation, sz)"
      by force
    have "okBlock (unat width) (base, n, v, bits)" using Cons.prems by (simp add: b)
    note facts = blockSizes_payload [OF this assms _ sizes]
    with False have "storedOk (storedBlock width c b)"
      by (simp add: storedOk_def b sizes blockHeader_def unat_ucast_small Let_def)
    with Cons False show ?thesis by simp
  qed (use Cons in simp)
qed simp

definition storeFits :: "SearchStoreMetadata \<Rightarrow> StoreBlock list \<Rightarrow> bool" where
  "storeFits md bs \<longleftrightarrow>
    length (smBuildId md) = 32 \<and> 0 < unat (smWidth md) \<and> unat (smWidth md) \<le> 8
    \<and> list_all (okBlock (unat (smWidth md))) bs \<and> length (storeImage md bs) < 2 ^ 63"

lemma length_indexEntries [simp]: "length (indexEntries k ss) = length ss"
  by (induction ss arbitrary: k) simp_all

lemma length_index: "length (concat (map encIndexEntry es)) = 32 * length es"
  by (induction es) simp_all

lemma length_headers [simp]:
  assumes "length (smBuildId md) = 32"
  shows "length (encHeader (firstHeader md)) = 160" "length (encHeader (finalHeader md bs)) = 160"
  using assms by (simp_all add: finalHeader_def countsHeader_def firstHeader_def Let_def)

lemma length_storeImage:
  assumes "length (smBuildId md) = 32"
  shows "length (storeImage md bs) = 160 + length (dataOf (storedBlocks (smWidth md) 0 bs))
    + 32 * length (storedBlocks (smWidth md) 0 bs)"
  using assms by (simp add: storeImage_def Let_def length_index)

lemma encStored_long: "length (dataOf ss) \<ge> 40 * length ss"
  by (induction ss) (simp_all add: dataOf_def encStored_def)

lemma wp_writerFinish:
  assumes w: "written d h path md bs writer" and fits: "storeFits md bs"
  shows "wp (searchStoreWriterFinish writer) d (\<lambda>(ok, writer') d'.
    (ok \<and> faultless d' = faultless d \<and> dkFiles d' path = Some (storeImage md bs))
    \<or> (\<not> ok \<and> \<not> faultless d))"
proof -
  let ?ss = "storedBlocks (smWidth md) 0 bs"
  let ?front = "encHeader (firstHeader md)"
  let ?index = "concat (map encIndexEntry (indexEntries headerBytes ?ss))"
  have id: "length (smBuildId md) = 32" and lf: "length ?front = 160"
    using fits by (simp_all add: storeFits_def)
  have writer: "writer = \<lparr>wrFile = Some h, wrHeader = countsHeader md bs, wrPath = path, wrFailed = False\<rparr>"
    and str: "stream d h path (length (?front @ dataOf ?ss)) (?front @ dataOf ?ss @ [])"
    using w by (simp_all add: written_def Let_def)
  have len: "160 + length (dataOf ?ss) + 32 * length ?ss < 2 ^ 63"
    using fits length_storeImage [OF id] by (simp add: storeFits_def)
  have small: "length ?front + length (dataOf ?ss) < 2 ^ 63" using len lf by simp
  have oks: "list_all storedOk ?ss"
    using fits by (intro storedBlocks_ok) (simp_all add: storeFits_def)
  have count: "unat (shBlockCount (countsHeader md bs)) = length ?ss"
    unfolding countsHeader_def using len by simp (rule unat_of_nat_u64, simp)
  have final: "(countsHeader md bs)\<lparr>shIndexOffset := 160 + shDataBytes (countsHeader md bs),
      shHeaderCrc := headerCrc ((countsHeader md bs)\<lparr>shIndexOffset := 160 + shDataBytes (countsHeader md bs)\<rparr>)\<rparr>
      = finalHeader md bs"
    by (simp add: finalHeader_def Let_def)
  define Q where "Q = (\<lambda>(ok, writer' :: SearchStoreWriter) d'.
    (ok \<and> faultless d' = faultless d \<and> dkFiles d' path = Some (storeImage md bs))
    \<or> (\<not> ok \<and> \<not> faultless d))"
  have fail: "Q (False, w') d'" if "\<not> faultless d" for w' d' using that by (simp add: Q_def)
  have fail': "wp m d' (\<lambda>_ d''. Q (False, w') d'')" if "\<not> faultless d" for m :: "'x disk" and w' d'
    using fail [OF that] by (simp add: wp_def split: prod.split)
  have abort: "wp (do { w \<leftarrow> searchStoreWriterAbort w'; State_Monad.return (False, w) }) d' Q"
    if "\<not> faultless d" for w' d'
    using fail [OF that] by (simp add: wp_def split: prod.split)
  let ?final = "finalHeader md bs"
  have done_: "Q (True, w') d'" if "faultless d' = faultless d" "stream d'' h path p (overwrite (?front @ dataOf ?ss @ ?index) 0 (encHeader ?final))"
      "dkFiles d' = dkFiles d''" for w' d' d'' p
    using that lf id by (simp add: Q_def stream_def overwrite_front storeImage_def Let_def)
  have tail: "wp (do {
           ok \<leftarrow> andThen (fseekSet h 0) (andThen (fwriteAll h (encHeader ?final))
                  (andThen mayFail (andThen mayFail (fclose h))));
           if \<not> ok then do { _ \<leftarrow> removeFile path'; State_Monad.return (False, w') }
           else State_Monad.return (True, w'')
         }) d' Q"
    if "faultless d' = faultless d" "stream d' h path p (?front @ dataOf ?ss @ ?index)" for d' p w' w'' path'
    apply (simp only: wp_steps)
    apply (rule wp_fseekSet [OF that(2)])
     apply (simp only: wp_steps)
     apply (rule wp_fwriteAll, assumption, rule encHeader_ne)
      apply (simp only: wp_steps)
      apply (rule wp_mayFail)
       apply (simp only: wp_steps)
       apply (rule wp_mayFail)
        apply (simp only: wp_steps)
        apply (rule wp_fclose)
         apply (simp only: wp_steps)
         apply (rule done_)
           apply (simp add: that(1))
          apply simp
         apply simp
        apply (simp_all add: that(1) fail' wp_steps)
    done
  have "wp (searchStoreWriterFinish writer) d Q"
    unfolding searchStoreWriterFinish_def writeIndex_def
    apply (simp add: writer Let_def count final del: wp_bind)
    apply (simp only: wp_steps)
    apply (rule wp_mono)
     apply (rule wp_indexLoop [OF str small oks, unfolded lf, simplified])
    apply (erule disjE)
     apply (clarsimp simp del: wp_bind simp: final)
     apply (rule tail, assumption, assumption)
    apply (clarsimp simp del: wp_bind)
    apply (rule abort, assumption)
    done
  then show ?thesis by (simp add: Q_def)
qed

lemma finish_failed:
  "wrFailed writer \<Longrightarrow> wp (searchStoreWriterFinish writer) d (\<lambda>(ok, writer') d'. \<not> ok)"
  by (simp add: searchStoreWriterFinish_def wp_def split: prod.split)

lemma wp_writeSession:
  assumes fits: "storeFits md bs" and path: "length path < SEARCH_STORE_PATH_MAX"
  shows "wp (writeSession path md bs) d (\<lambda>ok d'.
    (ok \<and> faultless d' = faultless d \<and> dkFiles d' path = Some (storeImage md bs))
    \<or> (\<not> ok \<and> \<not> faultless d))"
proof -
  define Q where "Q = (\<lambda>ok d'.
    (ok \<and> faultless d' = faultless d \<and> dkFiles d' path = Some (storeImage md bs))
    \<or> (\<not> ok \<and> \<not> faultless d))"
  have fail: "wp m d' (\<lambda>_ d2. Q False d2)" if "\<not> faultless d" for m :: "'x disk" and d'
    using that by (simp add: Q_def wp_def split: prod.split)
  have rest: "wp (addAll (zeroWriter\<lparr>wrPath := path, wrFile := Some h, wrHeader := firstHeader md\<rparr>) bs) d'
      (\<lambda>w' d2. wp (searchStoreWriterFinish w') d2 (\<lambda>(ok, w2) d3. Q ok d3))"
    if "faultless d' = faultless d" "stream d' h path 160 (encHeader (firstHeader md))" for h d'
  proof -
    have "written d' h path md [] (zeroWriter\<lparr>wrPath := path, wrFile := Some h, wrHeader := firstHeader md\<rparr>)"
      using that fits by (simp add: written_def zeroWriter_def countsHeader_def dataOf_def storeFits_def
          firstHeader_def zeroHeader_def)
    from wp_addAll [OF this, of bs] fits
    have "wp (addAll (zeroWriter\<lparr>wrPath := path, wrFile := Some h, wrHeader := firstHeader md\<rparr>) bs) d'
      (\<lambda>w' d2. (written d2 h path md bs w' \<and> faultless d2 = faultless d')
        \<or> (wrFailed w' \<and> \<not> faultless d'))" by (simp add: storeFits_def)
    then show ?thesis
    proof (rule wp_mono, elim disjE conjE)
      fix w' :: SearchStoreWriter and d2 assume "written d2 h path md bs w'" and f: "faultless d2 = faultless d'"
      from wp_writerFinish [OF this(1) fits] show "wp (searchStoreWriterFinish w') d2 (\<lambda>(ok, w2) d3. Q ok d3)"
        by (rule wp_mono) (use f that(1) in \<open>auto simp: Q_def\<close>)
    next
      fix w' :: SearchStoreWriter and d2 assume "wrFailed w'" and "\<not> faultless d'"
      then show "wp (searchStoreWriterFinish w') d2 (\<lambda>(ok, w2) d3. Q ok d3)"
        using that(1) by (intro wp_mono [OF finish_failed]) (auto simp: Q_def)
    qed
  qed
  have "wp (writeSession path md bs) d Q"
    unfolding writeSession_def searchStoreWriterOpen_def
    using path
    apply (simp only: linorder_not_le [symmetric] wp_steps)
    apply (rule wp_fopenWrite)
     apply (simp only: wp_steps)
     apply (rule wp_fwriteAll, assumption, rule encHeader_ne)
      apply (simp only: wp_steps)
      apply (rule wp_mono [OF rest])
        apply (simp add: zeroWriter_def)
       apply (use fits in \<open>simp add: storeFits_def overwrite_def zeroWriter_def\<close>)
      apply (erule wp_mono, simp add: split_beta)
     apply (simp add: Q_def)
    apply (simp only: wp_steps, simp add: Q_def)
    done
  then show ?thesis by (simp add: Q_def)
qed

end
