(* ===== verification/SearchStorePages.thy ===== *)
theory SearchStorePages
  imports SearchStoreImage
begin

text \<open>
  The readers on a session file: what \<open>searchStoreReadAddresses\<close> and
  \<open>searchStoreReaderNext\<close> return on the image of a session, under any failures of the card.
\<close>

subsection \<open>The candidates of one block\<close>

definition slotAddress :: "u64 \<Rightarrow> u64 \<Rightarrow> nat \<Rightarrow> u64" where
  "slotAddress alignment base slot = base + of_nat slot * alignment"

definition blockAddresses :: "u64 \<Rightarrow> StoreBlock \<Rightarrow> u64 list" where
  "blockAddresses alignment b = map (slotAddress alignment (fst b)) (slotsOf b)"

definition pageOf :: "PageRequest \<Rightarrow> nat \<Rightarrow> u64 list \<Rightarrow> u64 list \<Rightarrow> u64 list" where
  "pageOf req ordinal addresses copied =
    copied @ take (unat (pgCount req) - length copied) (drop (unat (pgOffset req) - ordinal) addresses)"

lemma pageOf_Nil [simp]: "pageOf req k [] copied = copied"
  by (simp add: pageOf_def)

lemma pageOf_full: "unat (pgCount req) \<le> length copied \<Longrightarrow> pageOf req k xs copied = copied"
  by (simp add: pageOf_def)

lemma pageOf_Cons:
  "pageOf req k (x # xs) copied =
    pageOf req (Suc k) xs
      (if unat (pgOffset req) \<le> k \<and> length copied < unat (pgCount req) then copied @ [x] else copied)"
proof (cases "unat (pgOffset req) \<le> k")
  case True
  then show ?thesis
    by (auto simp: pageOf_def take_Cons')
next
  case False
  then have "unat (pgOffset req) - k = Suc (unat (pgOffset req) - Suc k)" by simp
  with False show ?thesis by (simp add: pageOf_def)
qed

lemma pageAddress_slot:
  "slot < 2 ^ 32 \<Longrightarrow> pageAddress req block (of_nat slot) = slotAddress (pgAlignment req) (bhBase block) slot"
proof -
  assume "slot < 2 ^ 32"
  then have "unat (of_nat slot :: u32) = slot" by (intro of_nat_inverse) simp_all
  then have "ucast (of_nat slot :: u32) = (of_nat slot :: u64)"
    by (metis of_nat_unat)
  then show ?thesis by (simp add: pageAddress_def slotAddress_def)
qed

lemma unat_Suc_word:
  fixes w :: u64
  assumes "unat w + 1 < 2 ^ 64"
  shows "unat (w + 1) = Suc (unat w)"
  using assms by (subst unat_add_no_wrap) simp_all

lemma pageDense_slots:
  assumes "case bits of None \<Rightarrow> True | Some m \<Rightarrow> slot + remaining \<le> 8 * length m"
    and "unat ordinal + remaining < 2 ^ 64" and "slot + remaining \<le> 2 ^ 32"
  shows "pageDense req block bits remaining slot ordinal copied =
    ReadDone (pageOf req (unat ordinal)
      (map (slotAddress (pgAlignment req) (bhBase block))
        (filter (case bits of None \<Rightarrow> (\<lambda>_. True) | Some m \<Rightarrow> bitIsSet m) [slot..<slot + remaining])) copied)"
  using assms
proof (induction remaining arbitrary: slot ordinal copied)
  case 0
  then show ?case by simp
next
  case (Suc r)
  have up: "[slot..<Suc (slot + r)] = slot # [Suc slot..<Suc (slot + r)]"
    by (simp add: upt_conv_Cons del: upt_Suc)
  have addr: "pageAddress req block (of_nat slot) = slotAddress (pgAlignment req) (bhBase block) slot"
    by (rule pageAddress_slot) (use Suc.prems(3) in simp)
  have ord: "unat (ordinal + 1) = Suc (unat ordinal)"
    by (rule unat_Suc_word) (use Suc.prems(2) in simp)
  have le: "pgOffset req \<le> ordinal \<longleftrightarrow> unat (pgOffset req) \<le> unat ordinal"
    by (simp add: word_le_nat_alt)
  show ?case
  proof (cases "length copied < unat (pgCount req)")
    case False
    then show ?thesis by (simp add: pageOf_full)
  next
    case True
    show ?thesis
    proof (cases bits)
      case None
      with Suc.IH [of "Suc slot" "ordinal + 1"] Suc.prems True show ?thesis
        by (simp add: up addr ord le pageOf_Cons del: upt_Suc)
    next
      case (Some m)
      then have "slot div 8 < length m" using Suc.prems(1) by auto
      with Some Suc.IH [of "Suc slot" "ordinal + 1"] Suc.IH [of "Suc slot" ordinal] Suc.prems True
      show ?thesis by (simp add: up addr ord le pageOf_Cons del: upt_Suc)
    qed
  qed
qed

lemma getWord_cell:
  "getWord (front @ putWord (w :: u32) @ rest) (length front) = w"
  by (simp add: getWord_skip)

lemma pageSparse_slots:
  assumes "\<forall>s \<in> set todo. s < unat (bhSlotCount block) \<and> (case previous of None \<Rightarrow> True | Some p \<Rightarrow> unat p < s)"
    and "sorted_wrt (<) todo" and "unat ordinal + length todo < 2 ^ 64"
    and "\<forall>s \<in> set todo. (s + 1) * unat width \<le> length values"
    and "unat (bhWidth block) = unat width"
  shows "pageSparse req block (front @ concat (map (sparseCell width values) todo)) (length todo)
      (length front) previous ordinal copied =
    ReadDone (pageOf req (unat ordinal) (map (slotAddress (pgAlignment req) (bhBase block)) todo) copied)"
  using assms(1-4)
proof (induction todo arbitrary: front previous ordinal copied)
  case Nil
  then show ?case by simp
next
  case (Cons s todo)
  let ?cell = "take (unat width) (drop (s * unat width) values)"
  let ?payload = "front @ concat (map (sparseCell width values) (s # todo))"
  have s32: "s < 2 ^ 32" using Cons.prems(1) unat_u32_lt [of "bhSlotCount block"] by auto
  then have us: "unat (of_nat s :: u32) = s" by (intro of_nat_inverse) simp_all
  have payload: "?payload = front @ putWord (of_nat s :: u32) @ (?cell @ concat (map (sparseCell width values) todo))"
    by (simp add: sparseCell_def)
  have slot: "getWord ?payload (length front) = (of_nat s :: u32)"
    unfolding payload by (rule getWord_cell)
  have long: "\<not> length front + 4 > length ?payload" unfolding payload by simp
  have bound: "\<not> (of_nat s :: u32) \<ge> bhSlotCount block"
    using Cons.prems(1) us by (simp add: word_le_nat_alt)
  have prev: "\<not> (case previous of None \<Rightarrow> False | Some p \<Rightarrow> (of_nat s :: u32) \<le> p)"
    using Cons.prems(1) us by (cases previous) (auto simp: word_le_nat_alt)
  have "s * unat width + unat width \<le> length values"
    using Cons.prems(4) by simp
  then have lc: "length ?cell = unat width" by (auto simp: min_def)
  have again: "pageSparse req block ?payload (length todo) (length front + 4 + unat (bhWidth block))
        (Some (of_nat s)) (ordinal + 1) c =
      ReadDone (pageOf req (unat (ordinal + 1)) (map (slotAddress (pgAlignment req) (bhBase block)) todo) c)" for c
  proof -
    have "length (front @ sparseCell width values s) = length front + 4 + unat (bhWidth block)"
      using lc assms(5) by (simp add: sparseCell_def)
    moreover have "?payload = (front @ sparseCell width values s) @ concat (map (sparseCell width values) todo)"
      by simp
    ultimately show ?thesis
      using Cons.IH [of "Some (of_nat s)" "ordinal + 1" "front @ sparseCell width values s" c] Cons.prems us
      by (simp add: unat_Suc_word add.assoc)
  qed
  have ord: "unat (ordinal + 1) = Suc (unat ordinal)"
    by (rule unat_Suc_word) (use Cons.prems(3) in simp)
  have le: "pgOffset req \<le> ordinal \<longleftrightarrow> unat (pgOffset req) \<le> unat ordinal"
    by (simp add: word_le_nat_alt)
  have "pageSparse req block ?payload (length (s # todo)) (length front) previous ordinal copied
      = pageSparse req block ?payload (length todo) (length front + 4 + unat (bhWidth block))
          (Some (of_nat s)) (ordinal + 1)
          (if ordinal \<ge> pgOffset req \<and> length copied < unat (pgCount req)
           then copied @ [pageAddress req block (of_nat s)] else copied)"
    using long bound prev by (simp only: list.size add_Suc_right add_0_right pageSparse.simps slot Let_def if_False simp_thms)
  also have "\<dots> = ReadDone (pageOf req (unat ordinal) (map (slotAddress (pgAlignment req) (bhBase block)) (s # todo)) copied)"
    by (simp only: again) (simp only: ord le list.map pageOf_Cons pageAddress_slot [OF s32])
  finally show ?case .
qed

text \<open>The block that the writer stored gives exactly its candidates.\<close>

lemma storedBlock_facts:
  assumes ok: "okBlock (unat width) (base, n, v, bits)" and w: "0 < unat width" "unat width \<le> 8"
    and ne: "slotsOf (base, n, v, bits) \<noteq> []"
    and s: "storedBlock width c (base, n, v, bits) = (block, payload)"
  shows "bhMagic block = SEARCH_STORE_BLOCK_MAGIC" and "bhBase block = base"
    and "bhCumulative block = c" and "bhSlotCount block = n" and "bhCandidateCount block = candidatesOf n bits"
    and "unat (bhWidth block) = unat width" and "unat (bhPayloadSize block) = length payload"
    and "bhPayloadCrc block = searchStoreCrc32 payload" and "0 < length payload" and "length payload \<le> 0x50000"
    and "payload = blockPayload (bhRepresentation block) width n v bits"
    and "bhRepresentation block = fst (blockSizes width n (candidatesOf n bits))"
proof -
  obtain representation sz where sizes: "blockSizes width n (candidatesOf n bits) = (representation, sz)"
    by force
  note facts = blockSizes_payload [OF ok w ne sizes]
  have block: "block = blockHeader width c base n (candidatesOf n bits) representation payload sz"
    and payload: "payload = blockPayload representation width n v bits"
    using s by (auto simp: sizes Let_def)
  have "unat (ucast width :: u8) = unat width"
    using w by (simp add: unsigned_ucast_eq take_bit_nat_eq_self)
  then show "unat (bhWidth block) = unat width" by (simp add: block blockHeader_def)
  show "unat (bhPayloadSize block) = length payload"
    using facts(1,2) by (simp add: block blockHeader_def payload unat_ucast_small)
  show "0 < length payload" "length payload \<le> 0x50000" using facts(1-3) by (simp_all add: payload)
qed (use s in \<open>auto simp: blockHeader_def Let_def split: prod.splits\<close>)

lemma sorted_slots: "sorted_wrt (<) (slotsOf b)"
  by (cases b rule: slotsOf.cases) (auto intro: sorted_wrt_filter)

lemma pageBlock_stored:
  assumes ok: "okBlock (unat width) (base, n, v, bits)" and w: "0 < unat width" "unat width \<le> 8"
    and ne: "slotsOf (base, n, v, bits) \<noteq> []"
    and s: "storedBlock width c (base, n, v, bits) = (block, payload)"
    and small: "unat c + unat n < 2 ^ 64"
  shows "pageBlock req block payload copied =
    ReadDone (pageOf req (unat c) (blockAddresses (pgAlignment req) (base, n, v, bits)) copied)"
proof -
  note f = storedBlock_facts [OF ok w ne s]
  note z = okBlock_small [OF ok w(1)]
  obtain representation sz where sizes: "blockSizes width n (candidatesOf n bits) = (representation, sz)"
    by force
  note facts = blockSizes_payload [OF ok w ne sizes]
  have rep: "bhRepresentation block = representation" using f(12) sizes by simp
  have payload: "payload = blockPayload representation width n v bits" using f(11) rep by simp
  note reps = StoreRepresentationAll_def StoreRepresentationBitmap_def StoreRepresentationSparse_def
  have lenv: "length v = unat n * unat width" using ok by simp
  from facts(5) consider (sparse) "representation = StoreRepresentationSparse"
    | (bitmap) "representation = StoreRepresentationBitmap" | (all) "representation = StoreRepresentationAll"
    by blast
  then show ?thesis
  proof cases
    case sparse
    then obtain m where m: "bits = Some m" using facts(6) by (auto simp: reps)
    let ?slots = "slotsOf (base, n, v, bits)"
    have pl: "payload = [] @ concat (map (sparseCell width v) ?slots)"
      by (simp add: payload sparse blockPayload_def m reps)
    have cnt: "unat (bhCandidateCount block) = length ?slots" by (simp only: f(5) unat_candidatesOf)
    have a1: "\<forall>s \<in> set ?slots. s < unat (bhSlotCount block) \<and> (case None of None \<Rightarrow> True | Some p \<Rightarrow> unat p < s)"
      using slotsOf_less by (auto simp: f(4))
    have a3: "unat (bhCumulative block) + length ?slots < 2 ^ 64"
      using small slotsOf_le [of base n v bits] by (simp add: f(3))
    have a4: "\<forall>s \<in> set ?slots. (s + 1) * unat width \<le> length v"
    proof
      fix s assume "s \<in> set ?slots"
      then have "s + 1 \<le> unat n" using slotsOf_less by (metis Suc_eq_plus1 Suc_leI)
      then show "(s + 1) * unat width \<le> length v" unfolding lenv by (rule mult_le_mono1)
    qed
    from pageSparse_slots [OF a1 sorted_slots a3 a4 f(6), of req "[]" copied]
    show ?thesis
      using pl by (simp add: pageBlock_def rep sparse cnt f(2,3) blockAddresses_def del: slotsOf.simps)
  next
    case bitmap
    then obtain m where m: "bits = Some m" using facts(6) by (auto simp: reps)
    then have lm: "length m = (unat n + 7) div 8" using ok by simp
    have pl: "payload = m @ v"
      by (simp add: payload bitmap blockPayload_def m reps z(2) lm lenv)
    have same: "filter (bitIsSet payload) [0..<unat n] = filter (bitIsSet m) [0..<unat n]"
      by (intro filter_cong) (auto simp: pl bitIsSet_def nth_append lm)
    have "(unat n + 7) div 8 * 8 \<ge> unat n" by linarith
    then have "unat n \<le> 8 * length payload" by (simp add: pl lm)
    then show ?thesis
      using pageDense_slots [where bits = "Some payload" and slot = 0 and remaining = "unat n" and ordinal = c] small same z(1)
      by (simp add: pageBlock_def rep bitmap reps f(2-4) m blockAddresses_def)
  next
    case all
    then have "length (slotsOf (base, n, v, bits)) = unat n" using facts(4) by simp
    then have "slotsOf (base, n, v, bits) = [0..<unat n]"
    proof (cases bits)
      case (Some m)
      with \<open>length _ = unat n\<close> have "length (filter (bitIsSet m) [0..<unat n]) = length [0..<unat n]" by simp
      then have "filter (bitIsSet m) [0..<unat n] = [0..<unat n]" by (metis length_filter_less filter_True less_irrefl)
      with Some show ?thesis by simp
    qed simp
    then show ?thesis
      using pageDense_slots [where bits = None and slot = 0 and remaining = "unat n" and ordinal = c] small z(1)
      by (simp add: pageBlock_def rep all reps f(2-4) blockAddresses_def del: slotsOf.simps)
  qed
qed

subsection \<open>Reading the image\<close>

text \<open>A read delivers \<open>v\<close> and leaves the stream usable, or fails on a faulty card.\<close>

definition reads :: "Disk \<Rightarrow> nat \<Rightarrow> string \<Rightarrow> u8 list \<Rightarrow> 'a \<Rightarrow> 'a option \<Rightarrow> Disk \<Rightarrow> bool" where
  "reads d h path content v r d' \<longleftrightarrow> dkFiles d' = dkFiles d
    \<and> ((r = Some v \<and> faultless d' = faultless d \<and> (\<exists>pos. stream d' h path pos content))
       \<or> (r = None \<and> \<not> faultless d))"

definition nonempty :: "StoreBlock list \<Rightarrow> StoreBlock list" where
  "nonempty bs = filter (\<lambda>b. slotsOf b \<noteq> []) bs"

definition candidatesBefore :: "StoreBlock list \<Rightarrow> nat \<Rightarrow> nat" where
  "candidatesBefore nb j = length (concat (map slotsOf (take j nb)))"

definition blockOffset :: "(SearchStoreBlockHeader \<times> u8 list) list \<Rightarrow> nat \<Rightarrow> nat" where
  "blockOffset ss j = 160 + length (dataOf (take j ss))"

lemma storedBlocks_nonempty: "storedBlocks w c bs = storedBlocks w c (nonempty bs)"
  by (induction bs arbitrary: c) (simp_all add: nonempty_def)

lemma candidates_nonempty: "concat (map slotsOf (nonempty bs)) = concat (map slotsOf bs)"
  by (induction bs) (simp_all add: nonempty_def)

lemma storedBlocks_length:
  "\<forall>b \<in> set nb. slotsOf b \<noteq> [] \<Longrightarrow> length (storedBlocks w c nb) = length nb"
  by (induction nb arbitrary: c) simp_all

lemma storedBlocks_nth:
  assumes "\<forall>b \<in> set nb. slotsOf b \<noteq> []" and "j < length nb"
  shows "storedBlocks w c nb ! j = storedBlock w (c + of_nat (candidatesBefore nb j)) (nb ! j)"
  using assms
proof (induction nb arbitrary: c j)
  case (Cons b nb)
  then show ?case by (cases j) (simp_all add: candidatesBefore_def add.assoc)
qed simp

lemma candidatesBefore_Suc:
  "j < length nb \<Longrightarrow> candidatesBefore nb (Suc j) = candidatesBefore nb j + length (slotsOf (nb ! j))"
  by (simp add: candidatesBefore_def take_Suc_conv_app_nth)

lemma candidatesBefore_mono: "i \<le> j \<Longrightarrow> candidatesBefore nb i \<le> candidatesBefore nb j"
proof -
  assume "i \<le> j"
  then have "take j nb = take i nb @ take (j - i) (drop i nb)"
    by (metis le_add_diff_inverse take_add)
  then show ?thesis by (simp add: candidatesBefore_def)
qed

lemma indexEntries_nth:
  "j < length ss \<Longrightarrow> indexEntries k ss ! j = indexEntryOf (of_nat (k + length (dataOf (take j ss)))) (fst (ss ! j))"
proof (induction ss arbitrary: k j)
  case (Cons s ss)
  then show ?case by (cases j) (simp_all add: dataOf_def encStored_def add.assoc)
qed simp

lemma dataOf_append: "dataOf (xs @ ys) = dataOf xs @ dataOf ys"
  by (simp add: dataOf_def)

lemma dataOf_split:
  assumes "j < length ss"
  shows "dataOf ss = dataOf (take j ss) @ encBlockHeader (fst (ss ! j)) @ snd (ss ! j) @ dataOf (drop (Suc j) ss)"
proof -
  have "dataOf ss = dataOf (take j ss @ ss ! j # drop (Suc j) ss)"
    using id_take_nth_drop [OF assms] by simp
  then show ?thesis by (simp add: dataOf_append) (simp add: dataOf_def encStored_def)
qed

lemma image_block:
  assumes id: "length (smBuildId md) = 32" and j: "j < length (storedBlocks (smWidth md) 0 bs)"
  defines "ss \<equiv> storedBlocks (smWidth md) 0 bs"
  shows "take 40 (drop (blockOffset ss j) (storeImage md bs)) = encBlockHeader (fst (ss ! j))"
    and "take (length (snd (ss ! j))) (drop (blockOffset ss j + 40) (storeImage md bs)) = snd (ss ! j)"
    and "blockOffset ss j + 40 + length (snd (ss ! j)) \<le> 160 + length (dataOf ss)"
proof -
  let ?rest = "dataOf (drop (Suc j) ss) @ concat (map encIndexEntry (indexEntries headerBytes ss))"
  have j': "j < length ss" using j by (simp add: ss_def)
  have image: "storeImage md bs = (encHeader (finalHeader md bs) @ dataOf (take j ss))
      @ encBlockHeader (fst (ss ! j)) @ snd (ss ! j) @ ?rest"
    unfolding storeImage_def Let_def ss_def [symmetric] by (subst dataOf_split [OF j']) simp
  have off: "blockOffset ss j = length (encHeader (finalHeader md bs) @ dataOf (take j ss))"
    using id by (simp add: blockOffset_def)
  show "take 40 (drop (blockOffset ss j) (storeImage md bs)) = encBlockHeader (fst (ss ! j))"
    unfolding image off by simp
  show "take (length (snd (ss ! j))) (drop (blockOffset ss j + 40) (storeImage md bs)) = snd (ss ! j)"
    unfolding image off by simp
  show "blockOffset ss j + 40 + length (snd (ss ! j)) \<le> 160 + length (dataOf ss)"
    using arg_cong [OF dataOf_split [OF j'], of length] by (simp add: blockOffset_def)
qed

lemma take_drop_concat_fixed:
  "j < length xs \<Longrightarrow> \<forall>x \<in> set xs. length (f x) = n \<Longrightarrow> take n (drop (n * j) (concat (map f xs))) = f (xs ! j)"
proof (induction xs arbitrary: j)
  case (Cons x xs)
  then show ?case by (cases j) simp_all
qed simp

lemma image_entry:
  assumes id: "length (smBuildId md) = 32" and j: "j < length (storedBlocks (smWidth md) 0 bs)"
  defines "ss \<equiv> storedBlocks (smWidth md) 0 bs"
  shows "take 32 (drop (160 + length (dataOf ss) + 32 * j) (storeImage md bs))
    = encIndexEntry (indexEntryOf (of_nat (blockOffset ss j)) (fst (ss ! j)))"
proof -
  let ?front = "encHeader (finalHeader md bs) @ dataOf ss"
  have "length ?front = 160 + length (dataOf ss)" using id by simp
  moreover have "storeImage md bs = ?front @ concat (map encIndexEntry (indexEntries headerBytes ss))"
    by (simp add: storeImage_def Let_def ss_def)
  moreover have "drop (length ?front + 32 * j) (?front @ xs) = drop (32 * j) xs" for xs by simp
  ultimately have "drop (160 + length (dataOf ss) + 32 * j) (storeImage md bs)
      = drop (32 * j) (concat (map encIndexEntry (indexEntries headerBytes ss)))"
    by metis
  then show ?thesis
    using j take_drop_concat_fixed [of j "indexEntries headerBytes ss" encIndexEntry 32]
    by (simp add: ss_def indexEntries_nth blockOffset_def)
qed

text \<open>The numbers in the header of a session that fits.\<close>

lemma storedBlock_long:
  assumes "okBlock (unat width) b" and "0 < unat width" "unat width \<le> 8" and "slotsOf b \<noteq> []"
  shows "length (slotsOf b) \<le> 8 * length (snd (storedBlock width c b))"
proof -
  obtain base n v bits where b: "b = (base, n, v, bits)" by (cases b) auto
  obtain block payload where s: "storedBlock width c b = (block, payload)" by force
  note f = storedBlock_facts [OF assms(1) [unfolded b] assms(2,3) assms(4) [unfolded b] s [unfolded b]]
  obtain representation sz where sizes: "blockSizes width n (candidatesOf n bits) = (representation, sz)"
    by force
  note facts = blockSizes_payload [OF assms(1) [unfolded b] assms(2,3) assms(4) [unfolded b] sizes]
  note reps = StoreRepresentationAll_def StoreRepresentationBitmap_def StoreRepresentationSparse_def
  have lenv: "length v = unat n * unat width" using assms(1) by (simp add: b)
  have le: "length (slotsOf b) \<le> unat n" unfolding b by (rule slotsOf_le)
  have n: "unat n \<le> unat n * unat width" using assms(2) by simp
  have pl: "payload = blockPayload representation width n v bits" using f(11,12) sizes by simp
  show ?thesis
  proof (cases "representation = StoreRepresentationSparse")
    case True
    then obtain m where m: "bits = Some m" using facts(6) by (auto simp: reps)
    have "length payload = length (slotsOf b) * (4 + unat width)"
      using lenv by (simp add: pl True blockPayload_def reps m b, subst length_sparse [where n = "unat n"]) auto
    then show ?thesis by (simp add: s)
  next
    case False
    then have "length payload \<ge> unat n * unat width"
      using facts(5) lenv by (auto simp: pl blockPayload_def Let_def reps)
    from le_trans [OF le_trans [OF le n] this] show ?thesis by (simp add: s)
  qed
qed

lemma candidates_bound:
  assumes "list_all (okBlock (unat width)) bs" and "0 < unat width" "unat width \<le> 8"
  shows "length (concat (map slotsOf bs)) \<le> 8 * length (dataOf (storedBlocks width c bs))"
  using assms(1)
proof (induction bs arbitrary: c)
  case (Cons b bs)
  show ?case
  proof (cases "slotsOf b = []")
    case False
    from Cons.prems have ok: "okBlock (unat width) b" and rest: "list_all (okBlock (unat width)) bs" by auto
    from storedBlock_long [OF ok assms(2,3) False, of c]
      Cons.IH [OF rest, of "c + of_nat (length (slotsOf b))"] False
    show ?thesis by (simp add: storedBlocks_append_data)
  qed (use Cons in simp)
qed simp

definition storeSmall :: "SearchStoreMetadata \<Rightarrow> StoreBlock list \<Rightarrow> bool" where
  "storeSmall md bs \<longleftrightarrow> storeFits md bs \<and> length (storeImage md bs) < 2 ^ 60"

lemma storeSmall_fits: "storeSmall md bs \<Longrightarrow> storeFits md bs"
  by (simp add: storeSmall_def)

lemma finalHeader_numbers:
  assumes "storeSmall md bs"
  defines "ss \<equiv> storedBlocks (smWidth md) 0 bs"
  shows "unat (shIndexOffset (finalHeader md bs)) = 160 + length (dataOf ss)"
    and "unat (shDataBytes (finalHeader md bs)) = length (dataOf ss)"
    and "unat (shBlockCount (finalHeader md bs)) = length ss"
    and "unat (shCandidateCount (finalHeader md bs)) = length (concat (map slotsOf bs))"
    and "shMetadata (finalHeader md bs) = md"
    and "160 + length (dataOf ss) + 32 * length ss < 2 ^ 60"
    and "length (concat (map slotsOf bs)) < 2 ^ 63"
proof -
  have fits: "storeFits md bs" and id: "length (smBuildId md) = 32"
    using assms(1) by (auto simp: storeSmall_def storeFits_def)
  show len: "160 + length (dataOf ss) + 32 * length ss < 2 ^ 60"
    using assms(1) length_storeImage [OF id] by (simp add: storeSmall_def ss_def)
  have "length (concat (map slotsOf bs)) \<le> 8 * length (dataOf ss)"
    unfolding ss_def using fits by (intro candidates_bound) (simp_all add: storeFits_def)
  then show c: "length (concat (map slotsOf bs)) < 2 ^ 63" using len by simp
  have d: "shDataBytes (finalHeader md bs) = of_nat (length (dataOf ss))"
    by (simp add: finalHeader_def countsHeader_def Let_def ss_def)
  show "unat (shDataBytes (finalHeader md bs)) = length (dataOf ss)"
    unfolding d by (rule unat_of_nat_u64) (use len in simp)
  have i: "shIndexOffset (finalHeader md bs) = of_nat (160 + length (dataOf ss))"
    by (simp add: finalHeader_def countsHeader_def Let_def ss_def)
  show "unat (shIndexOffset (finalHeader md bs)) = 160 + length (dataOf ss)"
    unfolding i by (rule unat_of_nat_u64) (use len in simp)
  have b: "shBlockCount (finalHeader md bs) = of_nat (length ss)"
    by (simp add: finalHeader_def countsHeader_def Let_def ss_def)
  show "unat (shBlockCount (finalHeader md bs)) = length ss"
    unfolding b by (rule unat_of_nat_u64) (use len in simp)
  have cc: "shCandidateCount (finalHeader md bs) = of_nat (length (concat (map slotsOf bs)))"
    by (simp add: finalHeader_def countsHeader_def Let_def)
  show "unat (shCandidateCount (finalHeader md bs)) = length (concat (map slotsOf bs))"
    unfolding cc by (rule unat_of_nat_u64) (rule c)
  show "shMetadata (finalHeader md bs) = md"
    by (simp add: finalHeader_def countsHeader_def Let_def firstHeader_def)
qed

lemma wp_readIndexEntry:
  assumes small: "storeSmall md bs" and str: "stream d h path pos (storeImage md bs)"
    and j: "j < length (storedBlocks (smWidth md) 0 bs)"
  defines "ss \<equiv> storedBlocks (smWidth md) 0 bs"
  shows "wp (readIndexEntry h (finalHeader md bs) (of_nat j)) d
    (reads d h path (storeImage md bs) (indexEntryOf (of_nat (blockOffset ss j)) (fst (ss ! j))))"
proof -
  note num = finalHeader_numbers [OF small, folded ss_def]
  have id: "length (smBuildId md) = 32" using small by (simp add: storeSmall_def storeFits_def)
  have j': "j < length ss" using j by (simp add: ss_def)
  have uj: "unat (of_nat j :: u64) = j" using j' num(6) by (intro unat_of_nat_u64) simp
  have m: "unat (of_nat j * 32 :: u64) = 32 * j"
    using uj num(6) j' by (subst unat_mult_no_wrap) simp_all
  have off: "unat (shIndexOffset (finalHeader md bs) + of_nat j * of_nat indexEntryBytes) = 160 + length (dataOf ss) + 32 * j"
    using num(1,6) m j' by (subst unat_add_no_wrap) simp_all
  have off_small: "160 + length (dataOf ss) + 32 * j < 2 ^ 63" using num(6) j' by simp
  have inside: "160 + length (dataOf ss) + 32 * j + 32 \<le> length (storeImage md bs)"
    using length_storeImage [OF id, of bs] j' by (simp add: ss_def)
  show ?thesis
    unfolding readIndexEntry_def
    apply (simp only: wp_steps)
    apply (rule wp_fseekSet [OF str])
     apply (simp only: wp_steps off)
     apply (rule wp_freadAll, assumption)
      apply (simp only: wp_steps image_entry [OF id j, folded ss_def])
      apply (auto simp: reads_def decIndexEntry_enc)[1]
     apply (use inside in \<open>simp add: reads_def\<close>)
    apply (use off off_small in \<open>simp add: reads_def\<close>)
    done
qed

lemma blockFits_stored:
  assumes small: "storeSmall md bs" and j: "j < length (nonempty bs)"
  defines "ss \<equiv> storedBlocks (smWidth md) 0 bs"
  shows "blockFits (finalHeader md bs) (of_nat (blockOffset ss j)) (fst (ss ! j))"
    and "\<exists>base n v bits. nonempty bs ! j = (base, n, v, bits) \<and> okBlock (unat (smWidth md)) (base, n, v, bits)
      \<and> slotsOf (base, n, v, bits) \<noteq> []
      \<and> storedBlock (smWidth md) (of_nat (candidatesBefore (nonempty bs) j)) (base, n, v, bits) = ss ! j"
    and "length ss = length (nonempty bs)"
    and "unat (of_nat (blockOffset ss j) :: u64) = blockOffset ss j"
proof -
  note num = finalHeader_numbers [OF small, folded ss_def]
  have w: "0 < unat (smWidth md)" "unat (smWidth md) \<le> 8" and id: "length (smBuildId md) = 32"
    and oks: "list_all (okBlock (unat (smWidth md))) bs"
    using small by (simp_all add: storeSmall_def storeFits_def)
  have ne: "\<forall>b \<in> set (nonempty bs). slotsOf b \<noteq> []" by (simp add: nonempty_def)
  have ss: "ss = storedBlocks (smWidth md) 0 (nonempty bs)"
    unfolding ss_def by (rule storedBlocks_nonempty)
  show len: "length ss = length (nonempty bs)" unfolding ss by (rule storedBlocks_length [OF ne])
  obtain base n v bits where b: "nonempty bs ! j = (base, n, v, bits)" by (cases "nonempty bs ! j") auto
  have mem: "nonempty bs ! j \<in> set (nonempty bs)" using j by simp
  then have sl: "slotsOf (base, n, v, bits) \<noteq> []" using ne b by metis
  have "nonempty bs ! j \<in> set bs" using mem by (auto simp: nonempty_def)
  then have ok: "okBlock (unat (smWidth md)) (base, n, v, bits)" using oks b by (auto simp: list_all_iff)
  have st: "storedBlock (smWidth md) (of_nat (candidatesBefore (nonempty bs) j)) (base, n, v, bits) = ss ! j"
    unfolding ss using storedBlocks_nth [OF ne j, of "smWidth md" 0] b by simp
  show "\<exists>base n v bits. nonempty bs ! j = (base, n, v, bits) \<and> okBlock (unat (smWidth md)) (base, n, v, bits)
      \<and> slotsOf (base, n, v, bits) \<noteq> []
      \<and> storedBlock (smWidth md) (of_nat (candidatesBefore (nonempty bs) j)) (base, n, v, bits) = ss ! j"
    using b ok sl st by blast
  obtain block payload where bp: "ss ! j = (block, payload)" by force
  note f = storedBlock_facts [OF ok w sl st [unfolded bp]]
  have jj: "j < length (storedBlocks (smWidth md) 0 bs)" using j len by (simp add: ss_def)
  have room: "blockOffset ss j + 40 + length payload \<le> 160 + length (dataOf ss)"
    using image_block(3) [OF id jj, folded ss_def] bp by simp
  have bsmall: "blockOffset ss j < 2 ^ 63" using room num(6) by simp
  then show off: "unat (of_nat (blockOffset ss j) :: u64) = blockOffset ss j" by (rule unat_of_nat_u64)
  have sz: "unat (40 + ucast (bhPayloadSize block) :: u64) = 40 + length payload"
    using f(7,10) by (subst unat_add_no_wrap) simp_all
  have le: "of_nat (blockOffset ss j) \<le> shIndexOffset (finalHeader md bs)"
    using off num(1) room by (simp add: word_le_nat_alt)
  then have sub: "unat (shIndexOffset (finalHeader md bs) - of_nat (blockOffset ss j)) = 160 + length (dataOf ss) - blockOffset ss j"
    using off num(1) by (simp add: unat_sub_if_size word_le_nat_alt)
  have cand: "0 < unat (candidatesOf n bits)" "unat (candidatesOf n bits) \<le> unat n"
    using sl slotsOf_le [of base n v bits] by (simp_all add: unat_candidatesOf [of n bits base v])
  have width: "ucast (bhWidth block) = smWidth md"
  proof -
    have "unat (ucast (bhWidth block) :: u32) = unat (smWidth md)" using f(6) by simp
    then show ?thesis by (simp only: word_unat_eq_iff)
  qed
  have "\<not> StoreMaximumPayload < bhPayloadSize block"
    using f(7,10) by (simp add: word_less_nat_alt StoreMaximumPayload_def)
  moreover have "bhPayloadSize block \<noteq> 0" using f(7,9) by auto
  moreover have "bhCandidateCount block \<noteq> 0" "\<not> bhSlotCount block < bhCandidateCount block" "bhSlotCount block \<noteq> 0"
    using cand by (auto simp: f(4,5) word_less_nat_alt)
  moreover have "\<not> shIndexOffset (finalHeader md bs) - of_nat (blockOffset ss j)
      < of_nat blockHeaderBytes + ucast (bhPayloadSize block)"
    using room sz sub by (simp add: word_less_nat_alt)
  ultimately show "blockFits (finalHeader md bs) (of_nat (blockOffset ss j)) (fst (ss ! j))"
    using f(1) width num(5) le by (simp add: blockFits_def bp linorder_not_less)
qed

lemma entry_numbers:
  assumes small: "storeSmall md bs" and j: "j < length (nonempty bs)"
  defines "ss \<equiv> storedBlocks (smWidth md) 0 bs"
  defines "e \<equiv> indexEntryOf (of_nat (blockOffset ss j)) (fst (ss ! j))"
  shows "unat (ieCumulative e) = candidatesBefore (nonempty bs) j"
    and "unat (ieCumulative e + ucast (ieCandidateCount e)) = candidatesBefore (nonempty bs) (Suc j)"
    and "entryFits (finalHeader md bs) e"
    and "entryMatches (finalHeader md bs) e (fst (ss ! j))"
    and "candidatesBefore (nonempty bs) (length (nonempty bs)) = length (concat (map slotsOf bs))"
    and "candidatesBefore (nonempty bs) j < 2 ^ 63"
proof -
  note num = finalHeader_numbers [OF small, folded ss_def]
  note fit = blockFits_stored [OF small j, folded ss_def]
  from fit(2) obtain base n v bits where b: "nonempty bs ! j = (base, n, v, bits)"
    and ok: "okBlock (unat (smWidth md)) (base, n, v, bits)" and sl: "slotsOf (base, n, v, bits) \<noteq> []"
    and st: "storedBlock (smWidth md) (of_nat (candidatesBefore (nonempty bs) j)) (base, n, v, bits) = ss ! j"
    by blast
  obtain block payload where bp: "ss ! j = (block, payload)" by force
  have w: "0 < unat (smWidth md)" "unat (smWidth md) \<le> 8"
    using small by (simp_all add: storeSmall_def storeFits_def)
  note f = storedBlock_facts [OF ok w sl st [unfolded bp]]
  show total: "candidatesBefore (nonempty bs) (length (nonempty bs)) = length (concat (map slotsOf bs))"
    by (simp add: candidatesBefore_def candidates_nonempty del: length_concat)
  have "candidatesBefore (nonempty bs) (Suc j) \<le> candidatesBefore (nonempty bs) (length (nonempty bs))"
    using j by (intro candidatesBefore_mono) simp
  then have le: "candidatesBefore (nonempty bs) (Suc j) \<le> length (concat (map slotsOf bs))"
    by (simp only: total)
  have step: "candidatesBefore (nonempty bs) (Suc j) = candidatesBefore (nonempty bs) j + length (slotsOf (base, n, v, bits))"
    using candidatesBefore_Suc [OF j] b by simp
  show cb: "candidatesBefore (nonempty bs) j < 2 ^ 63" using le step num(7) by simp
  have cum: "ieCumulative e = of_nat (candidatesBefore (nonempty bs) j)" "ieCandidateCount e = candidatesOf n bits"
    by (simp_all add: e_def indexEntryOf_def bp f(3,5))
  show c: "unat (ieCumulative e) = candidatesBefore (nonempty bs) j"
    unfolding cum by (rule unat_of_nat_u64 [OF cb])
  have k: "unat (ucast (ieCandidateCount e) :: u64) = length (slotsOf (base, n, v, bits))"
    by (simp only: cum unat_ucast_u32_u64 unat_candidatesOf)
  show "unat (ieCumulative e + ucast (ieCandidateCount e)) = candidatesBefore (nonempty bs) (Suc j)"
    using c k step le num(7) by (subst unat_add_no_wrap) simp_all
  have le1: "ieCumulative e \<le> shCandidateCount (finalHeader md bs)"
    using c num(4) step le by (simp add: word_le_nat_alt)
  then have "unat (shCandidateCount (finalHeader md bs) - ieCumulative e)
      = length (concat (map slotsOf bs)) - candidatesBefore (nonempty bs) j"
    using c num(4) by (simp add: unat_sub_if_size word_le_nat_alt)
  then have "\<not> ucast (ieCandidateCount e) > shCandidateCount (finalHeader md bs) - ieCumulative e"
    using k step le by (simp add: word_less_nat_alt)
  with le1 show ef: "entryFits (finalHeader md bs) e"
    by (simp add: entryFits_def linorder_not_less)
  show "entryMatches (finalHeader md bs) e (fst (ss ! j))"
    using fit(1) ef by (simp add: entryMatches_def e_def indexEntryOf_def)
qed

lemma wp_readBlockAt:
  assumes small: "storeSmall md bs" and str: "stream d h path pos (storeImage md bs)"
    and j: "j < length (nonempty bs)"
  defines "ss \<equiv> storedBlocks (smWidth md) 0 bs"
  shows "wp (readBlockAt h (finalHeader md bs) (indexEntryOf (of_nat (blockOffset ss j)) (fst (ss ! j)))) d
    (reads d h path (storeImage md bs) (ss ! j))"
proof -
  let ?e = "indexEntryOf (of_nat (blockOffset ss j)) (fst (ss ! j))"
  note num = finalHeader_numbers [OF small, folded ss_def]
  note fit = blockFits_stored [OF small j, folded ss_def]
  have id: "length (smBuildId md) = 32" using small by (simp add: storeSmall_def storeFits_def)
  have j': "j < length (storedBlocks (smWidth md) 0 bs)" using j fit(3) by (simp add: ss_def)
  note im = image_block [OF id j', folded ss_def]
  from fit(2) obtain base n v bits where ok: "okBlock (unat (smWidth md)) (base, n, v, bits)"
    and sl: "slotsOf (base, n, v, bits) \<noteq> []"
    and st: "storedBlock (smWidth md) (of_nat (candidatesBefore (nonempty bs) j)) (base, n, v, bits) = ss ! j"
    by blast
  obtain block payload where bp: "ss ! j = (block, payload)" by force
  have w: "0 < unat (smWidth md)" "unat (smWidth md) \<le> 8"
    using small by (simp_all add: storeSmall_def storeFits_def)
  note f = storedBlock_facts [OF ok w sl st [unfolded bp]]
  have off: "ieFileOffset ?e = of_nat (blockOffset ss j)" by (simp add: indexEntryOf_def)
  have len: "length (storeImage md bs) = 160 + length (dataOf ss) + 32 * length ss"
    unfolding ss_def by (rule length_storeImage [OF id])
  have room: "blockOffset ss j + 40 + length payload \<le> 160 + length (dataOf ss)"
    using im(3) bp by simp
  have match: "entryMatches (finalHeader md bs) (indexEntryOf (of_nat (blockOffset ss j)) block) block"
    using entry_numbers(4) [OF small j, folded ss_def] bp by simp
  show ?thesis
    unfolding readBlockAt_def
    apply (simp only: wp_steps off)
    apply (rule wp_fseekSet [OF str])
     apply (simp only: wp_steps fit(4))
     apply (rule wp_freadAll, assumption)
      apply (simp only: wp_steps im(1) decBlockHeader_enc bp fst_conv match)
      apply (rule wp_mayFail_stream, assumption)
       apply (simp only: wp_steps)
       apply (rule wp_freadAll, assumption)
        apply (simp only: wp_steps f(7) im(2) [unfolded bp snd_conv] f(8))
        apply (auto simp: reads_def)[1]
       apply (use room len f(7,9) in \<open>auto simp: reads_def\<close>)[1]
      apply (simp add: reads_def)
     apply (use room len in \<open>simp add: reads_def\<close>)
    apply (use room num(6) fit(4) in \<open>simp add: reads_def\<close>)
    done
qed

lemma wp_lowerBlock:
  assumes small: "storeSmall md bs" and str: "stream d h path pos (storeImage md bs)"
    and "candidatesBefore (nonempty bs) (unat low) \<le> unat offset"
    and "unat high \<le> length (nonempty bs)" and "unat low \<le> unat high"
  shows "wp (lowerBlock h (finalHeader md bs) offset low high) d (\<lambda>r d'.
    dkFiles d' = dkFiles d
    \<and> ((\<exists>l. r = Some l \<and> unat l \<le> length (nonempty bs)
          \<and> candidatesBefore (nonempty bs) (unat l) \<le> unat offset
          \<and> faultless d' = faultless d \<and> (\<exists>pos. stream d' h path pos (storeImage md bs)))
       \<or> (r = None \<and> \<not> faultless d)))"
  using assms(2-)
proof (induction "unat high - unat low" arbitrary: low high d pos rule: less_induct)
  case less
  let ?mid = "low + (high - low) div 2"
  show ?case
  proof (cases "low < high")
    case False
    then show ?thesis
      using less.prems by (subst lowerBlock.simps) auto
  next
    case True
    note mid = middle_bounds [OF True]
    have lh: "unat low < unat high" using True by (simp add: word_less_nat_alt)
    have j: "unat ?mid < length (nonempty bs)" using mid(2) less.prems(3) by simp
    have j': "unat ?mid < length (storedBlocks (smWidth md) 0 bs)"
      using j blockFits_stored(3) [OF small j] by simp
    note num = entry_numbers [OF small j]
    let ?e = "indexEntryOf (of_nat (blockOffset (storedBlocks (smWidth md) 0 bs) (unat ?mid)))
        (fst (storedBlocks (smWidth md) 0 bs ! unat ?mid))"
    have read: "wp (readIndexEntry h (finalHeader md bs) ?mid) d (reads d h path (storeImage md bs) ?e)"
      using wp_readIndexEntry [OF small less.prems(1) j'] by simp
    have test: "offset \<ge> ieCumulative ?e + ucast (ieCandidateCount ?e)
        \<longleftrightarrow> candidatesBefore (nonempty bs) (Suc (unat ?mid)) \<le> unat offset"
      using num(2) by (simp add: word_le_nat_alt)
    define Q where "Q = (\<lambda>(r :: u64 option) d'. dkFiles d' = dkFiles d
      \<and> ((\<exists>l. r = Some l \<and> unat l \<le> length (nonempty bs)
            \<and> candidatesBefore (nonempty bs) (unat l) \<le> unat offset
            \<and> faultless d' = faultless d \<and> (\<exists>pos. stream d' h path pos (storeImage md bs)))
         \<or> (r = None \<and> \<not> faultless d)))"
    have up: "wp (lowerBlock h (finalHeader md bs) offset (?mid + 1) high) d1 Q"
      if "candidatesBefore (nonempty bs) (Suc (unat ?mid)) \<le> unat offset"
        "dkFiles d1 = dkFiles d" "faultless d1 = faultless d" "stream d1 h path pos1 (storeImage md bs)" for d1 pos1
    proof -
      have s: "unat (?mid + 1) = Suc (unat ?mid)" using mid(1,3) by simp
      have "wp (lowerBlock h (finalHeader md bs) offset (?mid + 1) high) d1 (\<lambda>r d'.
        dkFiles d' = dkFiles d1
        \<and> ((\<exists>l. r = Some l \<and> unat l \<le> length (nonempty bs)
              \<and> candidatesBefore (nonempty bs) (unat l) \<le> unat offset
              \<and> faultless d' = faultless d1 \<and> (\<exists>pos. stream d' h path pos (storeImage md bs)))
           \<or> (r = None \<and> \<not> faultless d1)))"
        by (rule less.hyps [OF _ that(4)]) (use s mid(1,2) that(1) less.prems lh in auto)
      then show ?thesis unfolding Q_def using that(2,3) by simp
    qed
    have down: "wp (lowerBlock h (finalHeader md bs) offset low ?mid) d1 Q"
      if "dkFiles d1 = dkFiles d" "faultless d1 = faultless d" "stream d1 h path pos1 (storeImage md bs)" for d1 pos1
    proof -
      have "wp (lowerBlock h (finalHeader md bs) offset low ?mid) d1 (\<lambda>r d'.
        dkFiles d' = dkFiles d1
        \<and> ((\<exists>l. r = Some l \<and> unat l \<le> length (nonempty bs)
              \<and> candidatesBefore (nonempty bs) (unat l) \<le> unat offset
              \<and> faultless d' = faultless d1 \<and> (\<exists>pos. stream d' h path pos (storeImage md bs)))
           \<or> (r = None \<and> \<not> faultless d1)))"
        by (rule less.hyps [OF _ that(3)]) (use mid(1,2) less.prems lh in auto)
      then show ?thesis unfolding Q_def using that(1,2) by simp
    qed
    have "wp (lowerBlock h (finalHeader md bs) offset low high) d Q"
      apply (subst lowerBlock.simps)
      apply (simp only: True wp_steps)
      apply (rule wp_mono [OF read])
      apply (unfold reads_def)
      apply (elim conjE disjE exE)
       apply (simp only: option.case num(3) simp_thms if_False test)
       apply (rule wp_if [THEN iffD2])
       apply (use up down in auto)[1]
      apply (simp add: Q_def)
      done
    then show ?thesis unfolding Q_def .
  qed
qed

definition addressesBefore :: "u64 \<Rightarrow> StoreBlock list \<Rightarrow> nat \<Rightarrow> u64 list" where
  "addressesBefore alignment nb i = concat (map (blockAddresses alignment) (take i nb))"

lemma length_addressesBefore: "length (addressesBefore a nb i) = candidatesBefore nb i"
  by (simp add: addressesBefore_def candidatesBefore_def length_concat blockAddresses_def comp_def)

lemma addressesBefore_Suc:
  "i < length nb \<Longrightarrow> addressesBefore a nb (Suc i) = addressesBefore a nb i @ blockAddresses a (nb ! i)"
  by (simp add: addressesBefore_def take_Suc_conv_app_nth)

lemma take_drop_append:
  "take k (drop m (xs @ ys)) = take k (drop m xs) @ take (k - length (take k (drop m xs))) (drop (m - length xs) ys)"
  by (simp add: min_def)

lemma page_step:
  assumes "i < length nb" and "copied = take (unat (pgCount req)) (drop (unat (pgOffset req)) (addressesBefore a nb i))"
  shows "pageOf req (candidatesBefore nb i) (blockAddresses a (nb ! i)) copied
    = take (unat (pgCount req)) (drop (unat (pgOffset req)) (addressesBefore a nb (Suc i)))"
  unfolding addressesBefore_Suc [OF assms(1)] take_drop_append
  by (simp only: pageOf_def assms(2) length_addressesBefore)

lemma page_done:
  assumes "i \<le> j" and "copied = take k (drop m (addressesBefore a nb i))" and "k \<le> length copied"
  shows "copied = take k (drop m (addressesBefore a nb j))"
proof -
  have "take j nb = take i nb @ take (j - i) (drop i nb)"
    using assms(1) by (metis le_add_diff_inverse take_add)
  then obtain rest where "addressesBefore a nb j = addressesBefore a nb i @ rest"
    by (simp add: addressesBefore_def)
  then show ?thesis using assms(2,3) by (simp add: take_drop_append)
qed

lemma wp_pageLoop:
  assumes small: "storeSmall md bs" and align: "pgAlignment req = smAlignment md"
    and "stream d h path pos (storeImage md bs)"
    and "unat index + remaining = length (nonempty bs)"
    and "copied = take (unat (pgCount req)) (drop (unat (pgOffset req))
        (addressesBefore (smAlignment md) (nonempty bs) (unat index)))"
  shows "wp (pageLoop h (finalHeader md bs) req remaining index copied) d (\<lambda>r d'.
    dkFiles d' = dkFiles d
    \<and> (r = ReadDone (take (unat (pgCount req)) (drop (unat (pgOffset req))
            (addressesBefore (smAlignment md) (nonempty bs) (length (nonempty bs)))))
       \<or> (r = ReadFail \<and> \<not> faultless d)))"
  using assms(3-)
proof (induction remaining arbitrary: index copied d pos)
  case 0
  then show ?case by simp
next
  case (Suc remaining)
  let ?nb = "nonempty bs" and ?ss = "storedBlocks (smWidth md) 0 bs"
  let ?k = "unat (pgCount req)" and ?off = "unat (pgOffset req)" and ?a = "smAlignment md"
  define j where "j = unat index"
  have j: "j < length ?nb" using Suc.prems(2) by (simp add: j_def)
  have j': "j < length ?ss" using j blockFits_stored(3) [OF small j] by simp
  note num = entry_numbers [OF small j]
  let ?e = "indexEntryOf (of_nat (blockOffset ?ss j)) (fst (?ss ! j))"
  show ?case
  proof (cases "length copied < ?k")
    case False
    have "unat index \<le> length ?nb" "?k \<le> length copied" using Suc.prems(2) False by simp_all
    from page_done [OF this(1) Suc.prems(3) this(2)]
    have whole: "copied = take ?k (drop ?off (addressesBefore ?a ?nb (length ?nb)))" .
    have "pageLoop h (finalHeader md bs) req (Suc remaining) index copied = State_Monad.return (ReadDone copied)"
      using False by simp
    then show ?thesis using whole by simp
  next
    case True
    define Q where "Q = (\<lambda>r (d' :: Disk). dkFiles d' = dkFiles d
      \<and> (r = ReadDone (take ?k (drop ?off (addressesBefore ?a ?nb (length ?nb))))
         \<or> (r = ReadFail \<and> \<not> faultless d)))"
    have us: "unat (index + 1) = Suc j"
      using finalHeader_numbers(6) [OF small] j' by (simp add: j_def unat_Suc_word)
    have again: "wp (pageLoop h (finalHeader md bs) req remaining (index + 1) copied') d1 Q"
      if "dkFiles d1 = dkFiles d" "faultless d1 = faultless d" "stream d1 h path pos1 (storeImage md bs)"
        "copied' = take ?k (drop ?off (addressesBefore ?a ?nb (Suc j)))" for d1 pos1 copied'
    proof -
      have "unat (index + 1) + remaining = length ?nb" using Suc.prems(2) us by (simp add: j_def)
      moreover have "copied' = take ?k (drop ?off (addressesBefore ?a ?nb (unat (index + 1))))"
        unfolding us by (rule that(4))
      ultimately have "wp (pageLoop h (finalHeader md bs) req remaining (index + 1) copied') d1 (\<lambda>r d'.
        dkFiles d' = dkFiles d1
        \<and> (r = ReadDone (take ?k (drop ?off (addressesBefore ?a ?nb (length ?nb))))
           \<or> (r = ReadFail \<and> \<not> faultless d1)))"
        by (rule Suc.IH [OF that(3)])
      then show ?thesis unfolding Q_def that(1,2) .
    qed
    have idx: "index = of_nat j" by (simp add: j_def)
    have read: "wp (readIndexEntry h (finalHeader md bs) index) d (reads d h path (storeImage md bs) ?e)"
      unfolding idx by (rule wp_readIndexEntry [OF small Suc.prems(1) j'])
    have test: "pgOffset req \<ge> ieCumulative ?e + ucast (ieCandidateCount ?e)
        \<longleftrightarrow> candidatesBefore ?nb (Suc j) \<le> ?off"
      using num(2) by (simp add: word_le_nat_alt)
    have cop: "copied = take ?k (drop ?off (addressesBefore ?a ?nb j))"
      using Suc.prems(3) by (simp add: j_def)
    have skip: "copied = take ?k (drop ?off (addressesBefore ?a ?nb (Suc j)))"
      if "candidatesBefore ?nb (Suc j) \<le> ?off"
      using that candidatesBefore_mono [of j "Suc j" ?nb] cop by (simp add: length_addressesBefore)
    from blockFits_stored(2) [OF small j] obtain base n v bits where b: "?nb ! j = (base, n, v, bits)"
      and ok: "okBlock (unat (smWidth md)) (base, n, v, bits)" and sl: "slotsOf (base, n, v, bits) \<noteq> []"
      and st: "storedBlock (smWidth md) (of_nat (candidatesBefore ?nb j)) (base, n, v, bits) = ?ss ! j"
      by blast
    obtain block payload where bp: "?ss ! j = (block, payload)" by force
    have w: "0 < unat (smWidth md)" "unat (smWidth md) \<le> 8"
      using small by (simp_all add: storeSmall_def storeFits_def)
    have uc: "unat (of_nat (candidatesBefore ?nb j) :: u64) = candidatesBefore ?nb j"
      by (rule unat_of_nat_u64 [OF num(6)])
    have "unat (of_nat (candidatesBefore ?nb j) :: u64) + unat n < 2 ^ 64"
      using uc num(6) okBlock_small(1) [OF ok w(1)] by simp
    from pageBlock_stored [OF ok w sl st [unfolded bp] this, of req copied]
    have page: "pageBlock req block payload copied
        = ReadDone (take ?k (drop ?off (addressesBefore ?a ?nb (Suc j))))"
      using page_step [OF j cop] by (simp add: uc align b)
    have block: "wp (readBlockAt h (finalHeader md bs) ?e) d1 (reads d1 h path (storeImage md bs) (block, payload))"
      if "stream d1 h path pos1 (storeImage md bs)" for d1 pos1
      using wp_readBlockAt [OF small that j] bp by simp
    have "wp (pageLoop h (finalHeader md bs) req (Suc remaining) index copied) d Q"
      unfolding pageLoop.simps
      apply (simp only: True wp_steps)
      apply (rule wp_mono [OF read])
      apply (unfold reads_def)
      apply (elim conjE disjE exE)
       apply (simp only: option.case test)
       apply (rule wp_if [THEN iffD2])
       apply (simp only: split: if_split)
       apply (intro conjI impI)
        apply (rule again, assumption, assumption, assumption, rule skip, assumption)
       apply (simp only: wp_steps)
       apply (rule wp_mono [OF block], assumption)
       apply (unfold reads_def)
       apply (elim conjE disjE exE)
        apply (simp only: option.case prod.case page ReadResult.case)
        apply (rule again, simp, simp, assumption, rule refl)
       apply (simp add: Q_def)
      apply (simp add: Q_def)
      done
    then show ?thesis unfolding Q_def .
  qed
qed

lemma wp_refuse:
  "(\<And>d'. dkFiles d' = dkFiles d \<Longrightarrow> Q (False, r\<lparr>rdFile := None\<rparr>) d') \<Longrightarrow> wp (readerRefuse r) d Q"
  by (auto simp: readerRefuse_def searchStoreReaderClose_def wp_def fclose_def split: option.split)

definition openedReader :: "nat \<Rightarrow> SearchStoreMetadata \<Rightarrow> StoreBlock list \<Rightarrow> SearchStoreReader" where
  "openedReader h md bs =
    \<lparr>rdFile = Some h, rdHeader = finalHeader md bs, rdNextBlock = 0, rdNextOffset = 160\<rparr>"

lemma wp_readerOpen:
  assumes small: "storeSmall md bs" and stored: "dkFiles d path = Some (storeImage md bs)"
  shows "wp (searchStoreReaderOpen path) d (\<lambda>(ok, r) d'. dkFiles d' = dkFiles d
    \<and> ((ok \<and> faultless d' = faultless d
         \<and> (\<exists>h pos. r = openedReader h md bs \<and> stream d' h path pos (storeImage md bs)))
       \<or> (\<not> ok \<and> \<not> faultless d)))"
proof -
  let ?ss = "storedBlocks (smWidth md) 0 bs"
  note num = finalHeader_numbers [OF small]
  have id: "length (smBuildId md) = 32" and w: "0 < unat (smWidth md)" "unat (smWidth md) \<le> 8"
    using small by (simp_all add: storeSmall_def storeFits_def)
  have front: "take 160 (storeImage md bs) = encHeader (finalHeader md bs)"
    using id by (simp add: storeImage_def Let_def)
  have len: "length (storeImage md bs) = 160 + length (dataOf ?ss) + 32 * length ?ss"
    by (rule length_storeImage [OF id])
  have dec: "decHeader (encHeader (finalHeader md bs)) = finalHeader md bs"
    using id num(5) by (intro decHeader_enc) simp
  have crc: "shHeaderCrc (finalHeader md bs) = headerCrc (finalHeader md bs)"
    by (simp add: finalHeader_def headerCrc_def Let_def)
  have fields: "shMagic (finalHeader md bs) = SEARCH_STORE_MAGIC" "shVersion (finalHeader md bs) = SEARCH_STORE_VERSION"
    "shHeaderSize (finalHeader md bs) = 160"
    by (simp_all add: finalHeader_def countsHeader_def firstHeader_def Let_def)
  have acc: "headerAccepted (finalHeader md bs)"
    using w by (auto simp: headerAccepted_def crc fields num(5) word_less_nat_alt)
  have m: "unat (shBlockCount (finalHeader md bs) * of_nat indexEntryBytes) = 32 * length ?ss"
    using num(3,6) by (subst unat_mult_no_wrap) simp_all
  have sum: "unat (shIndexOffset (finalHeader md bs) + shBlockCount (finalHeader md bs) * of_nat indexEntryBytes)
      = length (storeImage md bs)"
    using num(1,6) m len by (subst unat_add_no_wrap) simp_all
  have ix: "shIndexOffset (finalHeader md bs) = of_nat headerBytes + shDataBytes (finalHeader md bs)"
    by (simp add: finalHeader_def Let_def)
  have max: "unat (U64_MAX - shBlockCount (finalHeader md bs) * of_nat indexEntryBytes) = 2 ^ 64 - 1 - 32 * length ?ss"
    using m by (subst unat_sub_if_size) (use num(6) in \<open>simp\<close>)
  have sizes: "sizesAccepted (finalHeader md bs) (int (length (storeImage md bs)))"
  proof -
    have "\<not> shBlockCount (finalHeader md bs) > U64_MAX div of_nat indexEntryBytes"
      using num(3,6) by (simp add: word_less_nat_alt unat_div)
    moreover have "\<not> shIndexOffset (finalHeader md bs) > U64_MAX - shBlockCount (finalHeader md bs) * of_nat indexEntryBytes"
      using max num(1,6) by (simp only: word_less_nat_alt) simp
    moreover have "word_of_int (int (length (storeImage md bs)))
        = shIndexOffset (finalHeader md bs) + shBlockCount (finalHeader md bs) * of_nat indexEntryBytes"
      unfolding sum [symmetric] by simp
    ultimately show ?thesis using ix by (simp only: sizesAccepted_def) simp
  qed
  show ?thesis
    unfolding searchStoreReaderOpen_def
    apply (simp only: wp_steps)
    apply (rule wp_fopenRead [OF stored])
     apply (simp only: wp_steps)
     apply (rule wp_freadAll, assumption)
      apply (simp only: wp_steps drop_0 front dec acc)
      apply (rule wp_fseekEnd, assumption)
       apply (simp only: wp_steps)
       apply (rule wp_ftell, assumption)
        apply (simp only: wp_steps sizes)
        apply (auto simp: openedReader_def zeroReader_def)[1]
       apply (simp only: wp_steps)
       apply (simp add: sizesAccepted_def del: wp_bind)
       apply (rule wp_refuse, simp)
      apply (simp only: wp_steps)
      apply (rule wp_refuse, simp)
     apply (simp only: wp_steps)
     apply (rule wp_refuse)
     apply (use len in \<open>simp\<close>)
    apply simp
    done
qed

subsection \<open>The properties\<close>

definition sessionAddresses :: "SearchStoreMetadata \<Rightarrow> StoreBlock list \<Rightarrow> u64 list" where
  "sessionAddresses md bs = concat (map (blockAddresses (smAlignment md)) bs)"

lemma sessionAddresses_nonempty:
  "sessionAddresses md bs = addressesBefore (smAlignment md) (nonempty bs) (length (nonempty bs))"
  by (induction bs) (simp_all add: sessionAddresses_def addressesBefore_def nonempty_def blockAddresses_def)

lemma length_sessionAddresses: "length (sessionAddresses md bs) = length (concat (map slotsOf bs))"
  by (simp add: sessionAddresses_def length_concat blockAddresses_def comp_def)

lemma wp_readAddresses:
  assumes small: "storeSmall md bs" and stored: "dkFiles d path = Some (storeImage md bs)"
  shows "wp (searchStoreReadAddresses path offset count) d (\<lambda>(r, total) d'.
    (r = ReadDone (take (unat count) (drop (unat offset) (sessionAddresses md bs)))
      \<and> total = Some (of_nat (length (sessionAddresses md bs))))
    \<or> (r = ReadFail \<and> \<not> faultless d))"
proof -
  note num = finalHeader_numbers [OF small]
  let ?page = "take (unat count) (drop (unat offset) (sessionAddresses md bs))"
  define Q where "Q = (\<lambda>(r, total) (d' :: Disk).
    (r = ReadDone ?page \<and> total = Some (of_nat (length (sessionAddresses md bs)) :: u64))
    \<or> (r = ReadFail \<and> \<not> faultless d))"
  let ?header = "finalHeader md bs"
  let ?req = "\<lparr>pgOffset = offset, pgCount = count, pgAlignment = smAlignment (shMetadata ?header)\<rparr>"
  have total: "shCandidateCount ?header = of_nat (length (sessionAddresses md bs))"
    using num(4) length_sessionAddresses [of md bs] by (metis of_nat_unat ucast_id)
  have empty: "?page = []" if "offset \<ge> shCandidateCount ?header \<or> count = 0"
    using that num(4) length_sessionAddresses [of md bs] by (auto simp: word_le_nat_alt)
  have close: "wp (searchStoreReaderClose r) d1 (\<lambda>_ d2. Q v d2)" if "Q v d" for r d1 v
    using that by (simp add: Q_def wp_def split: prod.split prod.split_asm)
  have body: "wp (do {
        start \<leftarrow> lowerBlock h ?header offset 0 (shBlockCount ?header);
        result \<leftarrow> (case start of
           None \<Rightarrow> State_Monad.return ReadFail
         | Some low \<Rightarrow> pageLoop h ?header ?req (unat (shBlockCount ?header) - unat low) low []);
        _ \<leftarrow> searchStoreReaderClose (openedReader h md bs);
        State_Monad.return (result, Some (shCandidateCount ?header))
      }) d1 Q"
    if "faultless d1 = faultless d" "stream d1 h path pos (storeImage md bs)"
      "\<not> (offset \<ge> shCandidateCount ?header \<or> count = 0)" for h d1 pos
  proof -
    have "nonempty bs \<noteq> []"
    proof
      assume "nonempty bs = []"
      then have "length (concat (map slotsOf bs)) = 0"
        using candidates_nonempty [of bs] by (metis concat.simps(1) list.map(1) list.size(3))
      with num(4) have "unat (shCandidateCount ?header) = 0" by (simp only:)
      then show False using that(3) by (simp add: word_le_nat_alt)
    qed
    then have len: "unat (shBlockCount ?header) = length (nonempty bs)"
      using num(3) blockFits_stored(3) [OF small, of 0] by simp
    have low: "wp (lowerBlock h ?header offset 0 (shBlockCount ?header)) d1 (\<lambda>r d'.
      dkFiles d' = dkFiles d1
      \<and> ((\<exists>l. r = Some l \<and> unat l \<le> length (nonempty bs)
            \<and> candidatesBefore (nonempty bs) (unat l) \<le> unat offset
            \<and> faultless d' = faultless d1 \<and> (\<exists>pos. stream d' h path pos (storeImage md bs)))
         \<or> (r = None \<and> \<not> faultless d1)))"
      by (rule wp_lowerBlock [OF small that(2)]) (simp_all add: len candidatesBefore_def)
    have page: "wp (pageLoop h ?header ?req (unat (shBlockCount ?header) - unat l) l []) d2
        (\<lambda>r d3. Q (r, Some (shCandidateCount ?header)) d)"
      if "unat l \<le> length (nonempty bs)" "candidatesBefore (nonempty bs) (unat l) \<le> unat offset"
        "faultless d2 = faultless d" "stream d2 h path pos2 (storeImage md bs)" for l d2 pos2
    proof -
      have start: "[] = take (unat (pgCount ?req)) (drop (unat (pgOffset ?req))
          (addressesBefore (smAlignment md) (nonempty bs) (unat l)))"
        using that(2) by (simp add: length_addressesBefore)
      show ?thesis
        by (rule wp_mono [OF wp_pageLoop [OF small _ that(4) _ start]])
          (use that(1,3) len num(5) total in \<open>auto simp: Q_def sessionAddresses_nonempty\<close>)
    qed
    show ?thesis
      apply (simp only: wp_steps)
      apply (rule wp_mono [OF low])
      apply (elim conjE disjE exE)
       apply (simp only: wp_steps)
       apply (rule wp_mono [OF page], assumption, assumption, simp add: that(1), assumption)
       apply (rule close, assumption)
      apply (simp only: wp_steps)
      apply (rule close)
      apply (simp add: Q_def that(1))
      done
  qed
  have "wp (searchStoreReadAddresses path offset count) d Q"
    unfolding searchStoreReadAddresses_def
    apply (simp only: wp_steps)
    apply (rule wp_mono [OF wp_readerOpen [OF small stored]])
    subgoal for a d1
      apply (cases a)
      apply (simp only: prod.case)
      apply (elim conjE disjE exE)
       apply (simp only: wp_steps openedReader_def SearchStoreReader.simps)
       apply (rule wp_if [THEN iffD2])
       apply (simp only: split: if_split)
       apply (intro conjI impI)
        apply (simp only: wp_steps)
        apply (rule close)
        apply (simp add: Q_def empty total)
       apply (rule body [unfolded openedReader_def])
         apply assumption
        apply assumption
       apply assumption
      apply (simp add: Q_def)
      done
    done
  then show ?thesis unfolding Q_def .
qed

text \<open>
  C19: a session survives the card.  Whatever calls fail while a session is written: if the writer
  reports success, then every later request for a page of addresses, under any failures of its
  own, returns exactly the requested part of the candidates in the order they were found, or
  reports failure; it never returns a wrong address and never leaves a buffer.  On a card that
  does not fail both succeed.
\<close>

theorem session_survives:
  assumes "storeSmall md bs" and "length path < SEARCH_STORE_PATH_MAX"
  shows "case run_state (writeSession path md bs) d of (ok, d') \<Rightarrow>
    (faultless d \<longrightarrow> ok)
    \<and> (ok \<longrightarrow> (case fst (run_state (searchStoreReadAddresses path offset count)
                    (d'\<lparr>dkFault := fault, dkTick := tick\<rparr>)) of (result, found) \<Rightarrow>
         (result = ReadDone (take (unat count) (drop (unat offset) (sessionAddresses md bs)))
           \<and> found = Some (of_nat (length (sessionAddresses md bs))))
         \<or> (result = ReadFail \<and> fault \<noteq> (\<lambda>_. None))))"
proof -
  obtain ok d' where run: "run_state (writeSession path md bs) d = (ok, d')" by force
  from wp_runI [OF wp_writeSession [OF storeSmall_fits [OF assms(1)] assms(2)] run]
  have w: "(ok \<and> faultless d' = faultless d \<and> dkFiles d' path = Some (storeImage md bs))
    \<or> (\<not> ok \<and> \<not> faultless d)" .
  let ?d = "d'\<lparr>dkFault := fault, dkTick := tick\<rparr>"
  have "ok \<Longrightarrow> dkFiles ?d path = Some (storeImage md bs)" using w by simp
  from wp_readAddresses [OF assms(1) this, of offset count]
  show ?thesis using w by (auto simp: run wp_run split_beta faultless_def)
qed

definition sampleMetadata :: SearchStoreMetadata where
  "sampleMetadata = zeroMetadata\<lparr>smAlignment := 1, smWidth := 1\<rparr>"

definition sampleBlocks :: "StoreBlock list" where
  "sampleBlocks = [(0x1000, 3, [7, 8, 9], Some [5]), (0x2000, 2, [1, 1], None)]"

lemma sample_small: "storeSmall sampleMetadata sampleBlocks"
proof -
  have id: "length (smBuildId sampleMetadata) = 32" and w: "smWidth sampleMetadata = 1"
    by (simp_all add: sampleMetadata_def zeroMetadata_def)
  have slots: "slotsOf (0x1000, 3, [7, 8, 9], Some [5]) = [0, 2]" "slotsOf (0x2000, 2, [1, 1], None) = [0, 1]"
    by code_simp+
  have ok: "list_all (okBlock 1) sampleBlocks" by (simp add: sampleBlocks_def)
  then have ok1: "okBlock (unat (1 :: u32)) (0x1000, 3, [7, 8, 9], Some [5])"
    and ok2: "okBlock (unat (1 :: u32)) (0x2000, 2, [1, 1], None)" by (simp_all add: sampleBlocks_def)
  have s1: "length (snd (storedBlock 1 c (0x1000, 3, [7, 8, 9], Some [5]))) \<le> 0x50000"
    and s2: "length (snd (storedBlock 1 c (0x2000, 2, [1, 1], None))) \<le> 0x50000" for c
    using storedBlock_facts(10) [OF ok1 _ _ _ prod.collapse [symmetric], of c]
      storedBlock_facts(10) [OF ok2 _ _ _ prod.collapse [symmetric], of c] slots by simp_all
  have "length (dataOf (storedBlocks 1 0 sampleBlocks)) \<le> 2 * (40 + 0x50000)"
    using s1 [of 0] s2 [of 2] by (simp add: sampleBlocks_def slots storedBlocks_append_data dataOf_def encStored_def
        del: slotsOf.simps storedBlock.simps)
  moreover have "length (storedBlocks 1 0 sampleBlocks) = 2"
    by (simp add: sampleBlocks_def slots del: slotsOf.simps)
  ultimately show ?thesis
    using ok by (simp add: storeSmall_def storeFits_def id w length_storeImage)
qed

definition emptyDisk :: Disk where
  "emptyDisk = \<lparr>dkFiles = (\<lambda>_. None), dkOpen = (\<lambda>_. None), dkNext = 0, dkFault = (\<lambda>_. None), dkTick = 0,
    dkReplaces = False\<rparr>"

lemma session_survives_witness:
  "fst (run_state (writeSession ''s'' sampleMetadata sampleBlocks) emptyDisk)
  \<and> fst (run_state (searchStoreReadAddresses ''s'' 1 2)
      ((snd (run_state (writeSession ''s'' sampleMetadata sampleBlocks) emptyDisk))\<lparr>dkFault := (\<lambda>_. None), dkTick := 0\<rparr>))
    = (ReadDone [0x1002, 0x2000], Some 4)"
proof -
  have cands: "sessionAddresses sampleMetadata sampleBlocks = [0x1000, 0x1002, 0x2000, 0x2001]" by code_simp
  have "faultless emptyDisk" by (simp add: faultless_def emptyDisk_def)
  with session_survives [OF sample_small, where path = "''s''" and d = emptyDisk and offset = 1 and count = 2
      and fault = "\<lambda>_. None" and tick = 0] show ?thesis
    by (auto simp: SEARCH_STORE_PATH_MAX_def split_beta cands prod_eq_iff)
qed

lemma wp_removeFile:
  assumes "\<And>d'. dkFiles d' = (dkFiles d)(path := None) \<Longrightarrow> Q True d'"
    and "\<And>d'. dkFiles d' = dkFiles d \<Longrightarrow> Q False d'"
  shows "wp (removeFile path) d Q"
  using assms by (auto simp: wp_def removeFile_def)

lemma wp_renameFile:
  assumes "\<And>d'. dkFiles d' = (dkFiles d)(old := None, new := dkFiles d old) \<Longrightarrow> Q True d'"
    and "\<And>d'. dkFiles d' = dkFiles d \<Longrightarrow> Q False d'"
  shows "wp (renameFile old new) d Q"
  using assms by (auto simp: wp_def renameFile_def)

definition shortBlock :: SearchStoreBlockHeader where
  "shortBlock =
    \<lparr>bhMagic = SEARCH_STORE_BLOCK_MAGIC, bhRepresentation = StoreRepresentationSparse, bhWidth = 4,
     bhReserved = 0, bhBase = 0x1000, bhCumulative = 0, bhSlotCount = 8, bhCandidateCount = 1,
     bhPayloadSize = 1, bhPayloadCrc = searchStoreCrc32 [0]\<rparr>"

definition shortHeader :: SearchStoreHeader where
  "shortHeader =
    (firstHeader (zeroMetadata\<lparr>smAlignment := 4, smWidth := 4\<rparr>))
      \<lparr>shCandidateCount := 1, shBlockCount := 1, shIndexOffset := 201, shDataBytes := 41\<rparr>"

text \<open>
  C21: a search session is never lost by the commit.  Whichever calls fail, and whether or not
  \<open>rename\<close> replaces files: success means that the new session is the current one; failure
  leaves the new session in the temporary file, and the old one as the current or as the backup.
\<close>

theorem commit_keeps_session:
  assumes "distinct [temporary, current, backup]" and "dkFiles d temporary = Some new"
    and "dkFiles d current = Some old"
  shows "case run_state (searchStoreCommit temporary current backup True) d of (ok, d') \<Rightarrow>
    if ok then dkFiles d' current = Some new \<and> dkFiles d' temporary = None
    else dkFiles d' temporary = Some new
      \<and> (dkFiles d' current = Some old \<or> (dkFiles d' backup = Some old \<and> dkFiles d' current = None))"
proof -
  have "wp (searchStoreCommit temporary current backup True) d (\<lambda>ok d'.
    if ok then dkFiles d' current = Some new \<and> dkFiles d' temporary = None
    else dkFiles d' temporary = Some new
      \<and> (dkFiles d' current = Some old \<or> (dkFiles d' backup = Some old \<and> dkFiles d' current = None)))"
    unfolding searchStoreCommit_def
    apply (simp only: wp_steps)
    apply (rule wp_removeFile; rule wp_renameFile; simp only: wp_steps)
       apply (rule wp_renameFile; simp only: wp_steps)
        apply (rule wp_removeFile; use assms in simp)
       apply (rule wp_renameFile; use assms in simp)
      apply (use assms in simp)
     apply (rule wp_renameFile; simp only: wp_steps)
      apply (rule wp_removeFile; use assms in simp)
     apply (rule wp_renameFile; use assms in simp)
    apply (use assms in simp)
    done
  then show ?thesis by (simp add: wp_def)
qed

lemma commit_keeps_session_witness:
  "fst (run_state (searchStoreCommit ''t'' ''c'' ''b'' True)
     (emptyDisk\<lparr>dkFiles := [''t'' \<mapsto> [2], ''c'' \<mapsto> [1]]\<rparr>))
   \<and> dkFiles (snd (run_state (searchStoreCommit ''t'' ''c'' ''b'' True)
     (emptyDisk\<lparr>dkFiles := [''t'' \<mapsto> [2], ''c'' \<mapsto> [1]]\<rparr>))) ''c'' = Some [2]"
proof -
  have "fst (run_state (searchStoreCommit ''t'' ''c'' ''b'' True)
     (emptyDisk\<lparr>dkFiles := [''t'' \<mapsto> [2], ''c'' \<mapsto> [1]]\<rparr>))"
    by (simp add: searchStoreCommit_def removeFile_def renameFile_def emptyDisk_def outcome_def counted_def)
  with commit_keeps_session [of "''t''" "''c''" "''b''" "emptyDisk\<lparr>dkFiles := [''t'' \<mapsto> [2], ''c'' \<mapsto> [1]]\<rparr>" "[2]" "[1]"]
  show ?thesis by (auto simp: split_beta)
qed

text \<open>
  The address reader trusts the payload size.  This block passes every check of
  \<open>searchStoreReadAddresses\<close>, its checksum included; its slot cells do not fit its payload, so
  reading them leaves the buffer.  The block reader refuses the same block.
\<close>

theorem page_leaves_payload:
  "entryMatches shortHeader (indexEntryOf 160 shortBlock) shortBlock
  \<and> unat (bhPayloadSize shortBlock) = length [0 :: u8]
  \<and> searchStoreCrc32 [0] = bhPayloadCrc shortBlock
  \<and> pageBlock \<lparr>pgOffset = 0, pgCount = 1, pgAlignment = 4\<rparr> shortBlock [0] [] = ReadOverrun
  \<and> decodePayload shortBlock [0] = None"
  by code_simp

end
