(* ===== verification/SearchStoreBlocks.thy ===== *)
theory SearchStoreBlocks
  imports SearchStorePages
begin

text \<open>
  Reading a session block by block, as a refinement does: \<open>searchStoreReaderNext\<close> gives back, for
  every block with candidates, its base, its candidate slots and the stored value of each candidate.
\<close>

text \<open>What a decoded block has to say about the block that was written.\<close>

fun carries :: "nat \<Rightarrow> StoreBlock \<Rightarrow> u8 list \<times> u8 list \<Rightarrow> bool" where
  "carries width (base, n, v, bits) (v', bits') \<longleftrightarrow>
    length v' = unat n * width \<and> length bits' = maskBytes n
    \<and> (\<forall>s < unat n. bitIsSet bits' s = (s \<in> set (slotsOf (base, n, v, bits))))
    \<and> (\<forall>s \<in> set (slotsOf (base, n, v, bits)).
        take width (drop (s * width) v') = take width (drop (s * width) v))"

lemma bit_low_mask: "k < 8 \<Longrightarrow> bit (push_bit j 1 - 1 :: u8) k = (k < j)"
proof -
  assume "k < 8"
  have "(push_bit j 1 - 1 :: u8) = mask j" by (simp add: mask_eq_exp_minus_1)
  then show ?thesis using \<open>k < 8\<close> by (simp add: bit_mask_iff)
qed

lemma unat_and_7: "unat (n AND 7 :: u32) = unat n mod 8"
proof -
  have "(7 :: u32) = mask 3" by (simp add: mask_eq_exp_minus_1)
  then have "n AND 7 = take_bit 3 n" by (simp only: take_bit_eq_mask)
  then have "n AND 7 = n mod 8" by (simp add: take_bit_eq_mod)
  then show ?thesis by (simp add: unat_mod)
qed

lemma last_mask_byte:
  fixes s n :: nat
  assumes "s < n" and "s div 8 = (n + 7) div 8 - 1" and "n mod 8 \<noteq> 0"
  shows "s mod 8 < n mod 8"
proof -
  have n: "8 * (n div 8) + n mod 8 = n" and s: "8 * (s div 8) + s mod 8 = s" by simp_all
  have "(n + 7) div 8 = n div 8 + 1"
  proof -
    have "n + 7 = (n mod 8 + 7) + n div 8 * 8" using n by linarith
    then have "(n + 7) div 8 = (n mod 8 + 7) div 8 + n div 8" by (metis add.commute div_mult_self3 zero_neq_numeral)
    moreover have "n mod 8 < 8" by simp
    then have "(n mod 8 + 7) div 8 = 1" using assms(3) by (intro div_nat_eqI) auto
    ultimately show ?thesis by simp
  qed
  then have "s div 8 = n div 8" using assms(2) by simp
  then show ?thesis using assms(1) n s by linarith
qed

lemma fullMask_bits:
  assumes "unat n + 7 < 2 ^ 32"
  shows "length (fullMask n) = maskBytes n" and "s < unat n \<Longrightarrow> bitIsSet (fullMask n) s"
proof -
  have mb: "maskBytes n = (unat n + 7) div 8" by (rule maskBytes_unat [OF assms])
  show "length (fullMask n) = maskBytes n" by (simp add: fullMask_def Let_def)
  assume s: "s < unat n"
  then have q: "s div 8 < maskBytes n" by (simp add: mb)
  have ones: "bit (0xFF :: u8) k" if "k < 8" for k
  proof -
    have "(0xFF :: u8) = mask 8" by (simp add: mask_eq_exp_minus_1)
    then show ?thesis using that by (simp only: bit_mask_iff) simp
  qed
  have zero: "n AND 7 \<noteq> 0 \<longleftrightarrow> unat n mod 8 \<noteq> 0" using unat_and_7 [of n] by (metis unat_eq_zero)
  have last: "s div 8 = maskBytes n - 1 \<Longrightarrow> unat n mod 8 \<noteq> 0 \<Longrightarrow> s mod 8 < unat n mod 8"
    using s last_mask_byte by (simp add: mb)
  show "bitIsSet (fullMask n) s"
    using q last ones
    by (auto simp: fullMask_def Let_def bitIsSet_bit zero unat_and_7 nth_list_update bit_and_iff bit_low_mask
        simp del: push_bit_of_1)
qed

lemma take_drop_overwrite:
  assumes "length cell = w" and "(i + 1) * w \<le> length v" and "(j + 1) * w \<le> length v"
  shows "take w (drop (j * w) (overwrite v (i * w) cell)) = (if j = i then cell else take w (drop (j * w) v))"
proof (rule nth_equalityI)
  have iw: "i * w + w \<le> length v" and jw: "j * w + w \<le> length v" using assms(2,3) by simp_all
  have len: "length (overwrite v (i * w) cell) = length v"
    using iw assms(1) by (simp add: overwrite_def)
  show "length (take w (drop (j * w) (overwrite v (i * w) cell)))
      = length (if j = i then cell else take w (drop (j * w) v))"
    using len assms(1) jw by simp
  fix k assume "k < length (take w (drop (j * w) (overwrite v (i * w) cell)))"
  then have k: "k < w" using len jw by simp
  have at: "overwrite v (i * w) cell ! p = (if i * w \<le> p \<and> p < i * w + w then cell ! (p - i * w) else v ! p)"
    if "p < length v" for p
    using that iw assms(1) by (auto simp: overwrite_def nth_append)
  have "\<not> (i * w \<le> j * w + k \<and> j * w + k < i * w + w)" if "j \<noteq> i"
  proof (cases "j < i")
    case True
    then have "(j + 1) * w \<le> i * w" by (intro mult_le_mono1) simp
    then show ?thesis using k by simp
  next
    case False
    then have "(i + 1) * w \<le> j * w" using that by (intro mult_le_mono1) simp
    then show ?thesis using k by simp
  qed
  then show "take w (drop (j * w) (overwrite v (i * w) cell)) ! k
      = (if j = i then cell else take w (drop (j * w) v)) ! k"
    using at [of "j * w + k"] k jw len by auto
qed

lemma length_overwrite: "pos + length cell \<le> length v \<Longrightarrow> length (overwrite v pos cell) = length v"
  by (simp add: overwrite_def)

lemma sparseLoop_cells:
  assumes "\<forall>s \<in> set todo. s < unat n \<and> (case previous of None \<Rightarrow> True | Some p \<Rightarrow> unat p < s)"
    and "sorted_wrt (<) todo" and "length v = unat n * unat width" and "length v0 = unat n * unat width"
    and "length bits0 = (unat n + 7) div 8"
  shows "\<exists>v' bits'. sparseLoop (front @ concat (map (sparseCell width v) todo)) n (unat width) (length todo)
      (length front) previous v0 bits0 = Some (v', bits')
    \<and> length v' = length v0 \<and> length bits' = length bits0
    \<and> (\<forall>s < unat n. bitIsSet bits' s = (s \<in> set todo \<or> bitIsSet bits0 s))
    \<and> (\<forall>s < unat n. take (unat width) (drop (s * unat width) v')
        = take (unat width) (drop (s * unat width) (if s \<in> set todo then v else v0)))"
  using assms
proof (induction todo arbitrary: front previous v0 bits0)
  case Nil
  then show ?case by simp
next
  case (Cons s todo)
  let ?w = "unat width"
  let ?cell = "take ?w (drop (s * ?w) v)"
  let ?payload = "front @ concat (map (sparseCell width v) (s # todo))"
  have sn: "s < unat n" using Cons.prems(1) by simp
  have s32: "s < 2 ^ 32" using sn unat_u32_lt [of n] by simp
  then have us: "unat (of_nat s :: u32) = s" by (intro of_nat_inverse) simp_all
  have payload: "?payload = front @ putWord (of_nat s :: u32) @ (?cell @ concat (map (sparseCell width v) todo))"
    by (simp add: sparseCell_def)
  have slot: "getWord ?payload (length front) = (of_nat s :: u32)"
    unfolding payload by (rule getWord_cell)
  have bound: "\<not> (of_nat s :: u32) \<ge> n" using sn us by (simp add: word_le_nat_alt)
  have prev: "\<not> (case previous of None \<Rightarrow> False | Some p \<Rightarrow> (of_nat s :: u32) \<le> p)"
    using Cons.prems(1) us by (cases previous) (auto simp: word_le_nat_alt)
  have room: "(k + 1) * ?w \<le> unat n * ?w" if "k < unat n" for k
    using that by (intro mult_le_mono1) simp
  have lc: "length ?cell = ?w"
    using room [OF sn] Cons.prems(3) by (auto simp: min_def)
  have cell: "take ?w (drop (length front + 4) ?payload) = ?cell"
    unfolding payload using lc by simp
  have lf: "length (front @ sparseCell width v s) = length front + 4 + ?w"
    using lc by (simp add: sparseCell_def)
  let ?v1 = "overwrite v0 (s * ?w) ?cell" and ?bits1 = "bitSet bits0 s"
  have lv1: "length ?v1 = unat n * ?w"
    using room [OF sn] lc Cons.prems(4) by (subst length_overwrite) simp_all
  have step: "sparseLoop ?payload n ?w (length (s # todo)) (length front) previous v0 bits0
      = sparseLoop ?payload n ?w (length todo) (length front + 4 + ?w) (Some (of_nat s)) ?v1 ?bits1"
    using bound prev
    by (simp only: list.size add_Suc_right add_0_right sparseLoop.simps slot Let_def if_False simp_thms cell us)
  have same: "?payload = (front @ sparseCell width v s) @ concat (map (sparseCell width v) todo)"
    by simp
  from Cons.IH [of "Some (of_nat s)" ?v1 ?bits1 "front @ sparseCell width v s"] Cons.prems us lv1
  obtain v' bits' where ih: "sparseLoop ?payload n ?w (length todo) (length front + 4 + ?w) (Some (of_nat s)) ?v1 ?bits1
      = Some (v', bits')" "length v' = length ?v1" "length bits' = length ?bits1"
    "\<forall>k < unat n. bitIsSet bits' k = (k \<in> set todo \<or> bitIsSet ?bits1 k)"
    "\<forall>k < unat n. take ?w (drop (k * ?w) v') = take ?w (drop (k * ?w) (if k \<in> set todo then v else ?v1))"
    unfolding same lf [symmetric] by auto
  have bits: "\<forall>k < unat n. bitIsSet bits' k = (k \<in> set (s # todo) \<or> bitIsSet bits0 k)"
    using ih(4) bitSet_bitIsSet [of s bits0] sn Cons.prems(5) by auto
  have cells: "\<forall>k < unat n. take ?w (drop (k * ?w) v')
      = take ?w (drop (k * ?w) (if k \<in> set (s # todo) then v else v0))"
  proof (intro allI impI)
    fix k assume k: "k < unat n"
    have "take ?w (drop (k * ?w) ?v1) = (if k = s then ?cell else take ?w (drop (k * ?w) v0))"
      using room [OF sn] room [OF k] Cons.prems(4) by (intro take_drop_overwrite [OF lc]) simp_all
    then show "take ?w (drop (k * ?w) v') = take ?w (drop (k * ?w) (if k \<in> set (s # todo) then v else v0))"
      using ih(5) k by auto
  qed
  show ?case
    using step ih(1-3) bits cells lv1 Cons.prems(4) by auto
qed

lemma decodePayload_stored:
  assumes ok: "okBlock (unat width) (base, n, v, bits)" and w: "0 < unat width" "unat width \<le> 8"
    and ne: "slotsOf (base, n, v, bits) \<noteq> []"
    and s: "storedBlock width c (base, n, v, bits) = (block, payload)"
  shows "\<exists>d. decodePayload block payload = Some d \<and> carries (unat width) (base, n, v, bits) d"
proof -
  let ?slots = "slotsOf (base, n, v, bits)"
  note f = storedBlock_facts [OF ok w ne s]
  note z = okBlock_small [OF ok w(1)]
  obtain representation sz where sizes: "blockSizes width n (candidatesOf n bits) = (representation, sz)"
    by force
  note facts = blockSizes_payload [OF ok w ne sizes]
  have rep: "bhRepresentation block = representation" using f(12) sizes by simp
  have payload: "payload = blockPayload representation width n v bits" using f(11) rep by simp
  note reps = StoreRepresentationAll_def StoreRepresentationBitmap_def StoreRepresentationSparse_def
  have lenv: "length v = unat n * unat width" using ok by simp
  have n7: "unat n + 7 < 2 ^ 32" using z(1) by simp
  have none: "bits = None \<Longrightarrow> ?slots = [0..<unat n]" by simp
  from facts(5) consider (sparse) "representation = StoreRepresentationSparse"
    | (bitmap) "representation = StoreRepresentationBitmap" | (all) "representation = StoreRepresentationAll"
    by blast
  then show ?thesis
  proof cases
    case sparse
    then obtain m where m: "bits = Some m" using facts(6) by (auto simp: reps)
    have pl: "payload = [] @ concat (map (sparseCell width v) ?slots)"
      by (simp add: payload sparse blockPayload_def m reps)
    have lp: "length payload = length ?slots * (4 + unat width)"
      unfolding pl using slotsOf_less lenv by (simp only: append_Nil, subst length_sparse [where n = "unat n"]) auto
    have cnt: "unat (bhCandidateCount block) = length ?slots" by (simp only: f(5) unat_candidatesOf)
    have a1: "\<forall>s \<in> set ?slots. s < unat n \<and> (case None of None \<Rightarrow> True | Some p \<Rightarrow> unat p < s)"
      using slotsOf_less by auto
    have "decodePayload block payload = sparseLoop payload n (unat width) (length ?slots) 0 None
        (replicate (unat n * unat width) 0) (replicate (maskBytes n) 0)"
      using lp by (simp add: decodePayload_def Let_def rep sparse reps f(4,6,7) cnt del: slotsOf.simps)
    moreover from sparseLoop_cells [OF a1 sorted_slots lenv, of "replicate (unat n * unat width) 0"
        "replicate (maskBytes n) 0" "[]"]
    obtain v' bits' where l: "sparseLoop payload n (unat width) (length ?slots) 0 None
        (replicate (unat n * unat width) 0) (replicate (maskBytes n) 0) = Some (v', bits')"
      "length v' = unat n * unat width" "length bits' = maskBytes n"
      "\<forall>s < unat n. bitIsSet bits' s = (s \<in> set ?slots \<or> bitIsSet (replicate (maskBytes n) 0) s)"
      "\<forall>s < unat n. take (unat width) (drop (s * unat width) v')
        = take (unat width) (drop (s * unat width) (if s \<in> set ?slots then v else replicate (unat n * unat width) 0))"
      unfolding pl [symmetric] by (auto simp: z(2))
    have "\<not> bitIsSet (replicate (maskBytes n) 0) s" if "s < unat n" for s
      using slot_in_mask [OF n7 that] by simp
    then have "carries (unat width) (base, n, v, bits) (v', bits')"
      using l(2-5) slotsOf_less [of _ base n v bits] by (auto simp del: slotsOf.simps)
    ultimately show ?thesis using l(1) by auto
  next
    case bitmap
    then obtain m where m: "bits = Some m" using facts(6) by (auto simp: reps)
    then have lm: "length m = (unat n + 7) div 8" using ok by simp
    have pl: "payload = m @ v"
      by (simp add: payload bitmap blockPayload_def m reps z(2) lm lenv)
    have "decodePayload block payload = Some (v, m)"
      by (simp add: decodePayload_def Let_def rep bitmap reps f(4,6,7) pl z(2) lm lenv)
    then show ?thesis by (auto simp: m lenv lm z(2))
  next
    case all
    then have len: "length ?slots = unat n" using facts(4) by simp
    have slots: "?slots = [0..<unat n]"
    proof (cases bits)
      case (Some m)
      with len have "length (filter (bitIsSet m) [0..<unat n]) = length [0..<unat n]" by simp
      then have "filter (bitIsSet m) [0..<unat n] = [0..<unat n]"
        by (metis length_filter_less filter_True less_irrefl)
      with Some show ?thesis by simp
    qed simp
    have pl: "payload = v" by (simp add: payload all blockPayload_def reps lenv)
    have "decodePayload block payload = Some (v, fullMask n)"
      by (simp add: decodePayload_def Let_def rep all f(4,6,7) pl lenv)
    moreover have "carries (unat width) (base, n, v, bits) (v, fullMask n)"
      using fullMask_bits [OF n7] slots by (simp add: lenv del: slotsOf.simps)
    ultimately show ?thesis by blast
  qed
qed

subsection \<open>A whole session, block after block\<close>

fun readBlocks :: "SearchStoreReader \<Rightarrow> nat \<Rightarrow> nat \<Rightarrow> nat
    \<Rightarrow> (SearchStoreBlockHeader \<times> u8 list \<times> u8 list) list disk" where
  "readBlocks reader valuesCapacity maskCapacity 0 = State_Monad.return []"
| "readBlocks reader valuesCapacity maskCapacity (Suc k) = do {
     (found, reader') \<leftarrow> searchStoreReaderNext reader valuesCapacity maskCapacity;
     (case found of
        None \<Rightarrow> State_Monad.return []
      | Some x \<Rightarrow> do {
          xs \<leftarrow> readBlocks reader' valuesCapacity maskCapacity k;
          State_Monad.return (x # xs)
        })
   }"

definition readSession :: "string \<Rightarrow> nat \<Rightarrow> nat \<Rightarrow> (SearchStoreBlockHeader \<times> u8 list \<times> u8 list) list disk" where
  "readSession path valuesCapacity maskCapacity = do {
     (opened, reader) \<leftarrow> searchStoreReaderOpen path;
     if opened
     then readBlocks reader valuesCapacity maskCapacity (unat (shBlockCount (rdHeader reader)))
     else State_Monad.return []
   }"

fun blockMatches :: "nat \<Rightarrow> StoreBlock \<Rightarrow> SearchStoreBlockHeader \<times> u8 list \<times> u8 list \<Rightarrow> bool" where
  "blockMatches width (base, n, v, bits) (block, decoded) \<longleftrightarrow>
    bhBase block = base \<and> bhSlotCount block = n \<and> bhCandidateCount block = candidatesOf n bits
    \<and> carries width (base, n, v, bits) decoded"

definition readerAt :: "nat \<Rightarrow> SearchStoreMetadata \<Rightarrow> StoreBlock list \<Rightarrow> nat \<Rightarrow> SearchStoreReader" where
  "readerAt h md bs j =
    \<lparr>rdFile = Some h, rdHeader = finalHeader md bs, rdNextBlock = of_nat j,
     rdNextOffset = of_nat (blockOffset (storedBlocks (smWidth md) 0 bs) j)\<rparr>"

text \<open>The buffers of the caller hold the values and the mask of a block.\<close>

fun hasRoom :: "nat \<Rightarrow> nat \<Rightarrow> nat \<Rightarrow> StoreBlock \<Rightarrow> bool" where
  "hasRoom width valuesCapacity maskCapacity (base, n, v, bits) \<longleftrightarrow>
    unat n * width \<le> valuesCapacity \<and> (unat n + 7) div 8 \<le> maskCapacity"

lemma wp_readerNext:
  assumes small: "storeSmall md bs" and str: "stream d h path pos (storeImage md bs)"
    and j: "j < length (nonempty bs)"
    and caps: "list_all (hasRoom (unat (smWidth md)) valuesCapacity maskCapacity) bs"
  shows "wp (searchStoreReaderNext (readerAt h md bs j) valuesCapacity maskCapacity) d (\<lambda>(r, reader') d'.
    dkFiles d' = dkFiles d
    \<and> ((\<exists>x. r = Some x \<and> blockMatches (unat (smWidth md)) (nonempty bs ! j) x
          \<and> reader' = readerAt h md bs (Suc j) \<and> faultless d' = faultless d
          \<and> (\<exists>pos. stream d' h path pos (storeImage md bs)))
       \<or> (r = None \<and> \<not> faultless d)))"
proof -
  define ss where "ss = storedBlocks (smWidth md) 0 bs"
  note num = finalHeader_numbers [OF small, folded ss_def]
  note fit = blockFits_stored [OF small j, folded ss_def]
  have id: "length (smBuildId md) = 32" and w: "0 < unat (smWidth md)" "unat (smWidth md) \<le> 8"
    using small by (simp_all add: storeSmall_def storeFits_def)
  have j': "j < length (storedBlocks (smWidth md) 0 bs)" using j fit(3) by (simp add: ss_def)
  note im = image_block [OF id j', folded ss_def]
  from fit(2) obtain base n v bits where b: "nonempty bs ! j = (base, n, v, bits)"
    and ok: "okBlock (unat (smWidth md)) (base, n, v, bits)" and sl: "slotsOf (base, n, v, bits) \<noteq> []"
    and st: "storedBlock (smWidth md) (of_nat (candidatesBefore (nonempty bs) j)) (base, n, v, bits) = ss ! j"
    by blast
  obtain block payload where bp: "ss ! j = (block, payload)" by force
  note f = storedBlock_facts [OF ok w sl st [unfolded bp]]
  from decodePayload_stored [OF ok w sl st [unfolded bp]] obtain v' bits' where
    dec: "decodePayload block payload = Some (v', bits')"
    and car: "carries (unat (smWidth md)) (base, n, v, bits) (v', bits')" by force
  have len: "length (storeImage md bs) = 160 + length (dataOf ss) + 32 * length ss"
    unfolding ss_def by (rule length_storeImage [OF id])
  have room: "blockOffset ss j + 40 + length payload \<le> 160 + length (dataOf ss)"
    using im(3) bp by simp
  have more: "\<not> (of_nat j \<ge> shBlockCount (finalHeader md bs))"
  proof -
    have "unat (of_nat j :: u64) = j" using j' num(6) by (intro unat_of_nat_u64) (simp add: ss_def)
    then show ?thesis using num(3) j' by (simp add: word_le_nat_alt ss_def)
  qed
  have crcs: "searchStoreCrc32 payload = bhPayloadCrc block" by (simp only: f(8))
  have cap: "\<not> (searchStoreCrc32 payload \<noteq> bhPayloadCrc block
      \<or> unat (bhSlotCount block) * unat (bhWidth block) > valuesCapacity
      \<or> maskBytes (bhSlotCount block) > maskCapacity)"
  proof -
    have "nonempty bs ! j \<in> set bs" using nth_mem [OF j] by (simp add: nonempty_def)
    then have "hasRoom (unat (smWidth md)) valuesCapacity maskCapacity (base, n, v, bits)"
      using caps b by (simp only: list_all_iff)
    then show ?thesis
      using okBlock_small(2) [OF ok w(1)] by (simp add: f(4,6) crcs)
  qed
  have next_offset: "of_nat (blockOffset ss j) + (40 + ucast (bhPayloadSize block)) = (of_nat (blockOffset ss (Suc j)) :: u64)"
  proof -
    have "ucast (bhPayloadSize block) = (of_nat (length payload) :: u64)"
      by (simp only: f(7) [symmetric]) simp
    moreover have "blockOffset ss (Suc j) = blockOffset ss j + 40 + length payload"
      using j' bp by (simp add: blockOffset_def take_Suc_conv_app_nth dataOf_append ss_def) (simp add: dataOf_def encStored_def)
    ultimately show ?thesis by (simp add: add.assoc)
  qed
  show ?thesis
    unfolding searchStoreReaderNext_def readerAt_def ss_def [symmetric]
    apply (simp only: SearchStoreReader.simps wp_steps more)
    apply (rule wp_fseekSet [OF str])
     apply (simp only: wp_steps fit(4))
     apply (rule wp_freadAll, assumption)
      apply (simp only: wp_steps im(1) decBlockHeader_enc bp fst_conv fit(1) [unfolded bp fst_conv])
      apply (rule wp_mayFail_stream, assumption)
       apply (simp only: wp_steps)
       apply (rule wp_freadAll, assumption)
        apply (simp only: wp_steps f(7) im(2) [unfolded bp snd_conv] cap dec)
        apply (use car in \<open>auto simp: b f(2,4,5) next_offset simp del: carries.simps\<close>)[1]
       apply (use room len f(7,9) in \<open>auto simp del: carries.simps\<close>)[1]
      apply simp
     apply (use room len in simp)
    apply (use room num(6) fit(4) in simp)
    done
qed

lemma wp_readBlocks:
  assumes small: "storeSmall md bs"
    and caps: "list_all (hasRoom (unat (smWidth md)) valuesCapacity maskCapacity) bs"
    and "stream d h path pos (storeImage md bs)" and "j + k = length (nonempty bs)"
  shows "wp (readBlocks (readerAt h md bs j) valuesCapacity maskCapacity k) d (\<lambda>xs d'.
    list_all2 (blockMatches (unat (smWidth md))) (take (length xs) (drop j (nonempty bs))) xs
    \<and> (faultless d \<longrightarrow> length xs = k))"
  using assms(3-)
proof (induction k arbitrary: j d pos)
  case 0
  then show ?case by simp
next
  case (Suc k)
  have j: "j < length (nonempty bs)" using Suc.prems(2) by simp
  have head: "drop j (nonempty bs) = nonempty bs ! j # drop (Suc j) (nonempty bs)"
    using Cons_nth_drop_Suc [OF j] by simp
  show ?case
    apply (simp only: readBlocks.simps wp_steps)
    apply (rule wp_mono [OF wp_readerNext [OF small Suc.prems(1) j caps]])
    subgoal for a d1
      apply (cases a)
      apply (simp only: prod.case)
      apply (elim conjE disjE exE)
       apply (simp only: wp_steps)
       apply (rule wp_mono [OF Suc.IH], assumption)
        apply (use Suc.prems(2) in simp)
       apply (simp add: head)
      apply simp
      done
    done
qed

text \<open>
  C20: a session can be read back block by block.  After a session was written successfully, the
  block reader, given buffers that hold the values and the mask of every block, returns the
  non-empty blocks in order, each with its base, its slot count, exactly its candidate slots and the
  stored bytes of every candidate, whichever of the three representations the writer chose; a
  failing card can only cut the list short.  (The refinement passes buffers of \<open>0x40008\<close> and
  \<open>0x8008\<close> bytes, and the first search writes blocks of at most \<open>0x40000\<close> value bytes.)
\<close>

theorem session_blocks:
  assumes "storeSmall md bs" and "length path < SEARCH_STORE_PATH_MAX"
    and "list_all (hasRoom (unat (smWidth md)) valuesCapacity maskCapacity) bs"
  shows "case run_state (writeSession path md bs) d of (ok, d') \<Rightarrow>
    ok \<longrightarrow> (let xs = fst (run_state (readSession path valuesCapacity maskCapacity)
                      (d'\<lparr>dkFault := fault, dkTick := tick\<rparr>))
           in list_all2 (blockMatches (unat (smWidth md))) (take (length xs) (nonempty bs)) xs
              \<and> (fault = (\<lambda>_. None) \<longrightarrow> length xs = length (nonempty bs)))"
proof -
  obtain ok d' where run: "run_state (writeSession path md bs) d = (ok, d')" by force
  from wp_runI [OF wp_writeSession [OF storeSmall_fits [OF assms(1)] assms(2)] run]
  have w: "ok \<Longrightarrow> dkFiles d' path = Some (storeImage md bs)" by auto
  let ?d = "d'\<lparr>dkFault := fault, dkTick := tick\<rparr>"
  have count: "unat (shBlockCount (finalHeader md bs)) = length (nonempty bs)"
    unfolding finalHeader_numbers(3) [OF assms(1)]
    by (subst storedBlocks_nonempty, rule storedBlocks_length) (simp add: nonempty_def)
  have at: "openedReader h md bs = readerAt h md bs 0" for h
    by (simp add: openedReader_def readerAt_def blockOffset_def dataOf_def)
  have "wp (readSession path valuesCapacity maskCapacity) ?d (\<lambda>xs d2.
      list_all2 (blockMatches (unat (smWidth md))) (take (length xs) (nonempty bs)) xs
      \<and> (faultless ?d \<longrightarrow> length xs = length (nonempty bs)))" if ok
    unfolding readSession_def
    apply (simp only: wp_steps)
    apply (rule wp_mono [OF wp_readerOpen [OF assms(1)]])
     apply (use w [OF that] in simp)
    subgoal for a d1
      apply (cases a)
      apply (simp only: prod.case)
      apply (elim conjE disjE exE)
       apply (simp only: wp_steps at)
       apply (rule wp_mono [OF wp_readBlocks [OF assms(1,3)]], assumption)
        apply (simp add: readerAt_def count)
       apply (simp add: readerAt_def count)
      apply simp
      done
    done
  then show ?thesis
    by (simp add: run wp_run Let_def faultless_def)
qed

lemma session_blocks_witness:
  "list_all2 (blockMatches 1) sampleBlocks
    (fst (run_state (readSession ''s'' 0x40008 0x8008)
      ((snd (run_state (writeSession ''s'' sampleMetadata sampleBlocks) emptyDisk))\<lparr>dkFault := (\<lambda>_. None), dkTick := 0\<rparr>)))"
proof -
  have "slotsOf (0x1000, 3, [7, 8, 9], Some [5]) = [0, 2]" "slotsOf (0x2000, 2, [1, 1], None) = [0, 1]"
    by code_simp+
  then have ne: "nonempty sampleBlocks = sampleBlocks"
    by (simp add: nonempty_def sampleBlocks_def del: slotsOf.simps)
  have w: "unat (smWidth sampleMetadata) = 1" by (simp add: sampleMetadata_def)
  have f: "faultless emptyDisk" by (simp add: faultless_def emptyDisk_def)
  have p: "length ''s'' < SEARCH_STORE_PATH_MAX" by (simp add: SEARCH_STORE_PATH_MAX_def)
  from wp_writeSession [OF storeSmall_fits [OF sample_small] p, of emptyDisk] f
  have "fst (run_state (writeSession ''s'' sampleMetadata sampleBlocks) emptyDisk)"
    by (auto simp: wp_run)
  moreover have "list_all (hasRoom (unat (smWidth sampleMetadata)) 0x40008 0x8008) sampleBlocks"
    by (simp add: w sampleBlocks_def)
  ultimately show ?thesis
    using session_blocks [OF sample_small p, where valuesCapacity = "0x40008" and maskCapacity = "0x8008"
      and d = emptyDisk and fault = "\<lambda>_. None" and tick = 0]
    by (auto simp: split_beta Let_def w ne)
qed

end
