(* ===== verification/SearchStoreRoom.thy ===== *)
theory SearchStoreRoom
  imports SearchStorePages
begin

text \<open>
  \<open>search_store.c\<close>, the space a session needs and the directories it lives in.
\<close>

subsection \<open>The estimate\<close>

definition searchStoreEstimateMaximum :: "u64 \<Rightarrow> u64 \<Rightarrow> u32 \<Rightarrow> u64" where
  "searchStoreEstimateMaximum bytes alignment width =
    (if alignment = 0 \<or> width = 0 then U64_MAX
     else
       (let slots = bytes div alignment + 1;
            w = ucast width :: u64
        in if slots > (U64_MAX - of_nat headerBytes) div w then U64_MAX
           else
             (let span0 = ucast (0x40000 div width) * alignment;
                  maximumSpan = (if span0 > 0x40000 then 0x40000 else span0);
                  blocks = bytes div maximumSpan + 2;
                  perBlock = of_nat (blockHeaderBytes + indexEntryBytes)
              in if blocks > U64_MAX div perBlock then U64_MAX
                 else
                   (let overhead = blocks * perBlock;
                        bitmap = (slots + 7) div 8
                    in if slots * w > U64_MAX - of_nat headerBytes - overhead - bitmap then U64_MAX
                       else of_nat headerBytes + overhead + bitmap + slots * w))))"

definition searchStoreHasFreeSpace :: "(u64 \<times> u64) option \<Rightarrow> u64 \<Rightarrow> u64 \<Rightarrow> bool \<times> u64 option" where
  "searchStoreHasFreeSpace stats required reserve =
    (case stats of
       None \<Rightarrow> (False, None)
     | Some (bavail, frsize) \<Rightarrow>
         (let freeBytes = bavail * frsize
          in (required \<le> U64_MAX - reserve \<and> freeBytes \<ge> required + reserve, Some freeBytes)))"

subsection \<open>Directories\<close>

text \<open>
  \<open>mkdir\<close> answers for each directory whether it now exists (made, or \<open>EEXIST\<close>); the calls
  stop at the first failure.  The second component is the list of the calls made.
\<close>

fun makeAll :: "(string \<Rightarrow> bool) \<Rightarrow> string list \<Rightarrow> bool \<times> string list" where
  "makeAll mkdir [] = (True, [])"
| "makeAll mkdir (p # ps) =
    (if \<not> mkdir p then (False, [p])
     else (let (ok, calls) = makeAll mkdir ps in (ok, p # calls)))"

definition searchStorePrepareDirectory :: "(string \<Rightarrow> bool) \<Rightarrow> string \<Rightarrow> bool \<times> string list" where
  "searchStorePrepareDirectory mkdir path =
    (if length path \<ge> SEARCH_STORE_PATH_MAX then (False, []) else makeAll mkdir (directoriesOf path))"

text \<open>
  Clearing: \<open>entries\<close> is what the directory lists, \<open>None\<close> when it cannot be opened, and then
  \<open>missing\<close> tells whether it does not exist.
\<close>

fun clearLoop :: "(string \<Rightarrow> bool) \<Rightarrow> string \<Rightarrow> string list \<Rightarrow> bool \<Rightarrow> bool \<times> string list" where
  "clearLoop rm path [] ok = (ok, [])"
| "clearLoop rm path (e # es) ok =
    (if e = ''.'' \<or> e = ''..'' then clearLoop rm path es ok
     else
       (let child = path @ CHR ''/'' # e
        in if length child \<ge> SEARCH_STORE_PATH_MAX then clearLoop rm path es False
           else (let (ok', calls) = clearLoop rm path es (ok \<and> rm child) in (ok', child # calls))))"

definition searchStoreClearDirectory ::
  "(string \<Rightarrow> bool) \<Rightarrow> string \<Rightarrow> string list option \<Rightarrow> bool \<Rightarrow> bool \<times> string list" where
  "searchStoreClearDirectory rm path entries missing =
    (case entries of
       None \<Rightarrow> (missing, [])
     | Some es \<Rightarrow> clearLoop rm path es True)"

subsection \<open>The estimate covers every session\<close>

text \<open>
  A session over a range of \<open>bytes\<close> bytes: its blocks together have no more slots than the range,
  and no more blocks than the split into maximal spans gives.
\<close>

definition rangeSlots :: "StoreBlock list \<Rightarrow> nat" where
  "rangeSlots bs = (\<Sum>b \<leftarrow> bs. unat (fst (snd b)))"

lemma stored_bound:
  assumes "okBlock (unat width) b" and w: "0 < unat width" "unat width \<le> 8" and ne: "slotsOf b \<noteq> []"
  shows "length (snd (storedBlock width c b)) \<le> (unat (fst (snd b)) + 7) div 8 + unat (fst (snd b)) * unat width"
proof -
  obtain base n v bits where b: "b = (base, n, v, bits)" by (cases b) auto
  have ok: "okBlock (unat width) (base, n, v, bits)" using assms(1) by (simp add: b)
  have ne': "slotsOf (base, n, v, bits) \<noteq> []" using ne by (simp add: b)
  obtain representation sz where sizes: "blockSizes width n (candidatesOf n bits) = (representation, sz)"
    by force
  note facts = blockSizes_payload [OF ok w ne' sizes]
  note small = okBlock_small [OF ok w(1)]
  have fits: "(unat n + 7) div 8 + unat n * unat width \<le> 0x50000" using ok by simp
  have all: "unat (ucast n * ucast width :: u64) = unat n * unat width"
    using fits by (subst unat_mult_no_wrap) simp_all
  have mb: "unat (of_nat (maskBytes n) :: u64) = (unat n + 7) div 8"
    unfolding small(2) using fits by (intro unat_of_nat_u64) simp
  have bm: "unat (of_nat (maskBytes n) + ucast n * ucast width :: u64) = (unat n + 7) div 8 + unat n * unat width"
    using fits all mb by (subst unat_add_no_wrap) simp_all
  have "unat sz \<le> (unat n + 7) div 8 + unat n * unat width"
    using sizes all bm by (auto simp: blockSizes_def Let_def word_less_nat_alt split: if_splits)
  then show ?thesis using facts(1) by (simp add: b sizes Let_def)
qed

lemma div8_add: "(a + 7) div 8 + (b + 7) div 8 \<le> (a + b + 7) div 8 + (1 :: nat)"
  by linarith

lemma data_bound:
  assumes "list_all (okBlock (unat width)) bs" and "0 < unat width" "unat width \<le> 8"
  shows "length (dataOf (storedBlocks width c bs))
    \<le> 41 * length bs + (rangeSlots bs + 7) div 8 + rangeSlots bs * unat width"
  using assms(1)
proof (induction bs arbitrary: c)
  case Nil
  then show ?case by (simp add: dataOf_def)
next
  case (Cons b bs)
  from Cons.prems have ok: "okBlock (unat width) b" and rest: "list_all (okBlock (unat width)) bs" by auto
  have r: "rangeSlots (b # bs) = unat (fst (snd b)) + rangeSlots bs" by (simp add: rangeSlots_def)
  have m: "(rangeSlots bs + 7) div 8 \<le> (unat (fst (snd b)) + rangeSlots bs + 7) div 8" by (intro div_le_mono) simp
  show ?case
  proof (cases "slotsOf b = []")
    case True
    with Cons.IH [OF rest, of c] m show ?thesis by (simp add: r algebra_simps)
  next
    case False
    from stored_bound [OF ok assms(2,3) False, of c]
      Cons.IH [OF rest, of "c + of_nat (length (slotsOf b))"] div8_add [of "unat (fst (snd b))" "rangeSlots bs"] False
    show ?thesis by (simp add: storedBlocks_append_data r add_mult_distrib)
  qed
qed


lemma room_left:
  "(p :: nat) \<le> 2 ^ 56 * 8 \<Longrightarrow> q \<le> 72 * 2 ^ 57 \<Longrightarrow> m \<le> 2 ^ 57 \<Longrightarrow> \<not> 2 ^ 64 - 1 - 160 - q - m < p"
  by simp

lemma estimate_value:
  assumes w: "0 < unat width" "unat width \<le> 8" and a: "0 < unat alignment" "unat alignment \<le> 2 ^ 20"
    and b: "unat bytes < 2 ^ 56"
  defines "maximumSpan \<equiv> min 0x40000 ((0x40000 div unat width) * unat alignment)"
  shows "unat (searchStoreEstimateMaximum bytes alignment width) =
    160 + 72 * (unat bytes div maximumSpan + 2) + (unat bytes div unat alignment + 8) div 8
      + (unat bytes div unat alignment + 1) * unat width"
proof -
  have ne: "alignment \<noteq> 0" "width \<noteq> 0" using a w by auto
  let ?slots = "bytes div alignment + 1 :: u64" and ?w = "ucast width :: u64"
  have dv: "unat bytes div unat alignment < 2 ^ 56" using div_le_dividend b by (rule le_less_trans)
  have slots: "unat ?slots = unat bytes div unat alignment + 1"
    using b dv by (subst unat_add_no_wrap) (simp_all add: unat_div)
  have s56: "unat ?slots \<le> 2 ^ 56" using slots b dv by simp
  have prod: "unat ?slots * unat width \<le> 2 ^ 56 * 8" using s56 w(2) by (intro mult_le_mono) simp_all
  have sw: "unat (?slots * ?w) = unat ?slots * unat width"
    using prod by (subst unat_mult_no_wrap) simp_all
  have t1: "\<not> ?slots > (U64_MAX - of_nat headerBytes) div ?w"
  proof -
    have "unat ((U64_MAX - of_nat headerBytes) div ?w) = (2 ^ 64 - 1 - 160) div unat width"
      by (simp add: unat_div)
    moreover have "(2 ^ 64 - 1 - 160) div 8 \<le> (2 ^ 64 - 1 - 160) div unat width"
      using w by (intro div_le_mono2) simp_all
    ultimately show ?thesis using s56 by (simp add: word_less_nat_alt)
  qed
  have q: "0x8000 \<le> 0x40000 div unat width" "0x40000 div unat width \<le> 0x40000"
    using div_le_mono2 [of "unat width" 8 "0x40000"] w by simp_all
  let ?span0 = "ucast (0x40000 div width) * alignment :: u64"
  have "(0x40000 div unat width) * unat alignment \<le> 0x40000 * 2 ^ 20" using q(2) a(2) by (intro mult_le_mono)
  then have span0: "unat ?span0 = (0x40000 div unat width) * unat alignment"
    by (subst unat_mult_no_wrap) (simp_all add: unat_div)
  let ?span = "(if ?span0 > 0x40000 then 0x40000 else ?span0) :: u64"
  have span: "unat ?span = maximumSpan"
    using span0 by (simp add: maximumSpan_def word_less_nat_alt min_def)
  have spos: "1 \<le> maximumSpan"
    using q(1) a(1) by (simp add: maximumSpan_def)
  let ?blocks = "bytes div ?span + 2 :: u64"
  have bd: "unat bytes div maximumSpan < 2 ^ 56" using div_le_dividend b by (rule le_less_trans)
  have blocks: "unat ?blocks = unat bytes div maximumSpan + 2"
    using b bd by (subst unat_add_no_wrap) (simp_all add: unat_div span)
  have t2: "\<not> ?blocks > U64_MAX div of_nat (blockHeaderBytes + indexEntryBytes)"
    using blocks b bd by (simp add: word_less_nat_alt unat_div)
  let ?overhead = "?blocks * of_nat (blockHeaderBytes + indexEntryBytes) :: u64"
  have overhead: "unat ?overhead = 72 * (unat bytes div maximumSpan + 2)"
    using blocks b bd by (subst unat_mult_no_wrap) simp_all
  let ?bitmap = "(?slots + 7) div 8 :: u64"
  have bitmap: "unat ?bitmap = (unat bytes div unat alignment + 8) div 8"
  proof -
    have "unat (?slots + 7) = unat ?slots + 7" using s56 by (subst unat_add_no_wrap) simp_all
    then show ?thesis by (simp add: unat_div slots)
  qed
  have small: "unat ?overhead \<le> 72 * 2 ^ 57" "unat ?bitmap \<le> 2 ^ 57"
    using overhead bitmap b bd dv by simp_all
  have rest: "unat (U64_MAX - of_nat headerBytes - ?overhead - ?bitmap) = 2 ^ 64 - 1 - 160 - unat ?overhead - unat ?bitmap"
  proof -
    have "unat (U64_MAX - of_nat headerBytes - ?overhead) = 2 ^ 64 - 1 - 160 - unat ?overhead"
      using small by (subst unat_sub_if_size) simp
    then show ?thesis using small by (subst unat_sub_if_size) simp
  qed
  have t3: "\<not> ?slots * ?w > U64_MAX - of_nat headerBytes - ?overhead - ?bitmap"
  proof -
    have "\<not> unat (U64_MAX - of_nat headerBytes - ?overhead - ?bitmap) < unat (?slots * ?w)"
      unfolding rest sw by (rule room_left [OF prod small])
    then show ?thesis by (simp only: word_less_nat_alt [of "U64_MAX - of_nat headerBytes - ?overhead - ?bitmap"]
          not_False_eq_True)
  qed
  have sum: "unat (of_nat headerBytes + ?overhead + ?bitmap + ?slots * ?w)
      = 160 + unat ?overhead + unat ?bitmap + unat ?slots * unat width"
  proof -
    have "unat (of_nat headerBytes + ?overhead) = 160 + unat ?overhead"
      using small by (subst unat_add_no_wrap) simp_all
    then have "unat (of_nat headerBytes + ?overhead + ?bitmap) = 160 + unat ?overhead + unat ?bitmap"
      using small by (subst unat_add_no_wrap) simp_all
    then show ?thesis using small prod sw by (subst unat_add_no_wrap) simp_all
  qed
  have "searchStoreEstimateMaximum bytes alignment width
      = of_nat headerBytes + ?overhead + ?bitmap + ?slots * ?w"
    using ne t1 t2 t3 by (simp only: searchStoreEstimateMaximum_def Let_def if_False simp_thms)
  then show ?thesis by (simp only: sum overhead bitmap slots)
qed

text \<open>The number of blocks the estimate pays for: the range cut into spans of the maximal size, and two more.\<close>

definition estimatedBlocks :: "u64 \<Rightarrow> u64 \<Rightarrow> u32 \<Rightarrow> nat" where
  "estimatedBlocks bytes alignment width =
    unat bytes div min 0x40000 ((0x40000 div unat width) * unat alignment) + 2"

text \<open>
  C22: what the estimate of the space guarantees.  For a width of 1 to 8, an alignment of at most
  \<open>2^20\<close> and a range below \<open>2^56\<close> bytes no operation of it wraps or saturates; and the file of any
  session whose blocks have together at most one slot per aligned address of the range, in however
  many blocks, exceeds it by at most one byte per block (each block rounds its mask up, the estimate
  only once) and 72 bytes for every block beyond the ones it pays for.  The first search starts a new
  block at every mapping, so there can be more; the witness is a session that exceeds the estimate.
\<close>

theorem estimate_covers:
  assumes "0 < unat (smWidth md)" and "unat (smWidth md) \<le> 8"
    and "0 < unat alignment" and "unat alignment \<le> 2 ^ 20" and "unat bytes < 2 ^ 56"
    and "length (smBuildId md) = 32" and "list_all (okBlock (unat (smWidth md))) bs"
    and "rangeSlots bs \<le> unat bytes div unat alignment + 1"
  shows "unat (searchStoreEstimateMaximum bytes alignment (smWidth md)) =
      160 + 72 * estimatedBlocks bytes alignment (smWidth md) + (unat bytes div unat alignment + 8) div 8
        + (unat bytes div unat alignment + 1) * unat (smWidth md)
    \<and> length (storeImage md bs) \<le> unat (searchStoreEstimateMaximum bytes alignment (smWidth md))
      + length bs + 72 * (length bs - estimatedBlocks bytes alignment (smWidth md))"
proof -
  let ?w = "unat (smWidth md)" and ?n = "unat bytes div unat alignment"
  let ?blocks = "estimatedBlocks bytes alignment (smWidth md)"
  have "length (storedBlocks (smWidth md) 0 bs) \<le> length bs"
    by (subst storedBlocks_nonempty, subst storedBlocks_length) (simp_all add: nonempty_def)
  moreover have "length (dataOf (storedBlocks (smWidth md) 0 bs))
      \<le> 41 * length bs + (rangeSlots bs + 7) div 8 + rangeSlots bs * ?w"
    by (rule data_bound [OF assms(7,1,2)])
  moreover have "(rangeSlots bs + 7) div 8 \<le> (?n + 8) div 8" using assms(8) by (intro div_le_mono) simp
  moreover have "rangeSlots bs * ?w \<le> (?n + 1) * ?w" using assms(8) by (rule mult_le_mono1)
  ultimately have "length (storeImage md bs) \<le> 160 + 73 * length bs + (?n + 8) div 8 + (?n + 1) * ?w"
    by (simp only: length_storeImage [OF assms(6)])
  moreover have "73 * length bs \<le> 72 * ?blocks + length bs + 72 * (length bs - ?blocks)" by simp
  ultimately have "length (storeImage md bs) \<le> 160 + 72 * ?blocks + (?n + 8) div 8 + (?n + 1) * ?w
      + length bs + 72 * (length bs - ?blocks)" by linarith
  then show ?thesis
    by (simp only: estimate_value [OF assms(1-5)] estimatedBlocks_def simp_thms)
qed

text \<open>
  Three mapped pages with a gap after each, searched for single bytes at every 256th address: the
  file has 424 bytes, the estimate is 396.
\<close>

definition pageBlocks :: "StoreBlock list" where
  "pageBlocks = [(0x1000, 16, replicate 16 7, None), (0x3000, 16, replicate 16 8, None),
    (0x5000, 16, replicate 16 9, None)]"

lemma storedBlocks_full:
  assumes "slotsOf (base, n, v, None) \<noteq> []" and "length v = unat n"
  shows "length (dataOf (storedBlocks 1 c ((base, n, v, None) # bs)))
      = 40 + length v + length (dataOf (storedBlocks 1 (c + of_nat (length (slotsOf (base, n, v, None)))) bs))"
    and "length (storedBlocks 1 c ((base, n, v, None) # bs))
      = Suc (length (storedBlocks 1 (c + of_nat (length (slotsOf (base, n, v, None)))) bs))"
  using assms by (auto simp: storedBlocks_append_data blockSizes_def candidatesOf_def Let_def blockPayload_def
      StoreRepresentationAll_def simp del: slotsOf.simps)

lemma estimate_covers_witness:
  "length (storeImage sampleMetadata pageBlocks) = 424 \<and> unat (searchStoreEstimateMaximum 0x5000 0x100 1) = 396
    \<and> length (storeImage sampleMetadata pageBlocks) \<le> unat (searchStoreEstimateMaximum 0x5000 0x100 1) + 3 + 72"
proof -
  have w: "smWidth sampleMetadata = 1" and id: "length (smBuildId sampleMetadata) = 32"
    by (simp_all add: sampleMetadata_def zeroMetadata_def)
  have page: "slotsOf (base, 16, replicate 16 v, None) \<noteq> []" "length (replicate 16 v) = unat (16 :: u32)"
    for base :: u64 and v :: u8 by (simp_all add: candidatesOf_def)
  have "list_all (okBlock (unat (smWidth sampleMetadata))) pageBlocks"
    by (simp add: w pageBlocks_def)
  moreover have "length (storeImage sampleMetadata pageBlocks) = 424"
    unfolding length_storeImage [OF id] w pageBlocks_def storedBlocks_full [OF page]
    by (simp add: length_storeImage dataOf_def)
  moreover have "estimatedBlocks 0x5000 0x100 (smWidth sampleMetadata) = 2" "rangeSlots pageBlocks = 48"
    "length pageBlocks = 3"
    by (simp_all add: w estimatedBlocks_def rangeSlots_def pageBlocks_def)
  moreover have "unat (0x5000 :: u64) div unat (0x100 :: u64) = 80" by simp
  ultimately show ?thesis
    using estimate_covers [of sampleMetadata "0x100" "0x5000" pageBlocks]
    by (simp only: w id) simp
qed

end
