(* ===== verification/JpegDc.thy ===== *)
theory JpegDc
  imports Prelude
begin

text \<open>
  \<open>jpeg_dc.c\<close>: the decoder behind the screen classifier.  It reads a baseline JPEG and keeps the
  mean brightness of every luma block, from the DC coefficients alone.

  A step of the decoder ends in one of four ways: it delivers a value, the code returns false
  (\<open>JFail\<close>), the code would access an array outside its bounds (\<open>JOob\<close>), or the code would do
  signed arithmetic whose result C leaves undefined (\<open>JUndefined\<close>).  The arrays are lists of the
  sizes of the code, and every access to the file, the scan, the tables, the components and the image
  goes through a bounds test of its own (\<open>arrayAt\<close>, \<open>componentAt\<close>, \<open>setComponent\<close>,
  \<open>storeQuant\<close>, \<open>storeHuffman\<close>, \<open>storeLuma\<close>) whose failure is \<open>JOob\<close>, beside the checks
  the code makes itself.  C \<open>int\<close>s that cannot be negative are natural numbers.
\<close>

definition JPEG_DC_MAX_BLOCKS_X :: nat where "JPEG_DC_MAX_BLOCKS_X = 192"
definition JPEG_DC_MAX_BLOCKS_Y :: nat where "JPEG_DC_MAX_BLOCKS_Y = 136"
definition JPEG_MAX_COMPONENTS :: nat where "JPEG_MAX_COMPONENTS = 4"
definition JPEG_MAX_HUFFMAN :: nat where "JPEG_MAX_HUFFMAN = 4"

datatype 'a jres = JFail | JOob | JUndefined | JOk 'a

record JpegDcImage =
  imBlocksW :: nat
  imBlocksH :: nat
  imComplete :: bool
  imMean :: "u8 list list"

record JpegHuffman =
  hfPresent :: bool
  hfSymbols :: "u8 list"
  hfMinCode :: "int list"
  hfMaxCode :: "int list"
  hfValPtr :: "int list"

record JpegComponent =
  jcId :: u8
  jcHFactor :: nat
  jcVFactor :: nat
  jcQuantId :: nat
  jcDcTable :: nat
  jcAcTable :: nat
  jcDcPrediction :: int
  jcBlocksW :: nat
  jcBlocksH :: nat

text \<open>The decoder, with the image it fills.\<close>

record JpegDecoder =
  jdData :: "u8 list"
  jdPos :: nat
  jdScan :: "u8 list"
  jdScanPos :: nat
  jdBitBuffer :: u32
  jdBitCount :: nat
  jdQuant :: "u16 list list"
  jdHuffman :: "JpegHuffman list"
  jdComponents :: "JpegComponent list"
  jdComponentCount :: nat
  jdMaxHFactor :: nat
  jdMaxVFactor :: nat
  jdWidth :: nat
  jdHeight :: nat
  jdRestartInterval :: nat
  jdImage :: JpegDcImage

type_synonym 'a jpg = "JpegDecoder \<Rightarrow> 'a jres \<times> JpegDecoder"

text \<open>Sequencing: anything but a value ends the decoding.\<close>

definition jpgThen :: "'a jpg \<Rightarrow> ('a \<Rightarrow> 'b jpg) \<Rightarrow> 'b jpg" where
  "jpgThen m f d =
    (case m d of
       (JOk a, d') \<Rightarrow> f a d'
     | (JFail, d') \<Rightarrow> (JFail, d')
     | (JOob, d') \<Rightarrow> (JOob, d')
     | (JUndefined, d') \<Rightarrow> (JUndefined, d'))"

definition jpgReturn :: "'a \<Rightarrow> 'a jpg" where
  "jpgReturn a d = (JOk a, d)"

definition jpgFail :: "'a jpg" where
  "jpgFail d = (JFail, d)"

definition jpgRequire :: "bool \<Rightarrow> unit jpg" where
  "jpgRequire b d = (if b then JOk () else JFail, d)"

text \<open>Reading an array at an index of type \<open>int\<close>.\<close>

definition arrayAt :: "'b list \<Rightarrow> int \<Rightarrow> 'b jres" where
  "arrayAt xs i = (if 0 \<le> i \<and> i < int (length xs) then JOk (xs ! nat i) else JOob)"

abbreviation byteAt :: "'b list \<Rightarrow> nat \<Rightarrow> 'b jres" where
  "byteAt xs i \<equiv> arrayAt xs (int i)"

lemma byteAt_eq:
  "byteAt xs i = (if i < length xs then JOk (xs ! i) else JOob)"
  "arrayAt xs (1 + int i) = (if Suc i < length xs then JOk (xs ! Suc i) else JOob)"
  by (simp_all add: arrayAt_def nat_add_distrib)

definition jpgGive :: "'a jres \<Rightarrow> 'a jpg" where
  "jpgGive r d = (r, d)"

fun jpgFor :: "'b list \<Rightarrow> ('b \<Rightarrow> unit jpg) \<Rightarrow> unit jpg" where
  "jpgFor [] f = jpgReturn ()"
| "jpgFor (x # xs) f = jpgThen (f x) (\<lambda>_. jpgFor xs f)"

definition componentAt :: "nat \<Rightarrow> JpegComponent jpg" where
  "componentAt i d = (byteAt (jdComponents d) i, d)"

definition setComponent :: "nat \<Rightarrow> JpegComponent \<Rightarrow> unit jpg" where
  "setComponent i c d =
    (if i < length (jdComponents d) then (JOk (), d\<lparr>jdComponents := (jdComponents d)[i := c]\<rparr>) else (JOob, d))"

subsection \<open>Marker walking\<close>

definition jpegReadU8 :: "u8 jpg" where
  "jpegReadU8 d =
    (if jdPos d \<ge> length (jdData d) then (JFail, d)
     else (byteAt (jdData d) (jdPos d), d\<lparr>jdPos := jdPos d + 1\<rparr>))"

definition jpegReadU16 :: "u16 jpg" where
  "jpegReadU16 d =
    (if jdPos d + 1 \<ge> length (jdData d) then (JFail, d)
     else
       (case (byteAt (jdData d) (jdPos d), byteAt (jdData d) (jdPos d + 1)) of
          (JOk hi, JOk lo) \<Rightarrow> (JOk (push_bit 8 (ucast hi) OR ucast lo), d\<lparr>jdPos := jdPos d + 2\<rparr>)
        | _ \<Rightarrow> (JOob, d)))"

text \<open>The marker, or \<open>None\<close> for the -1 of the code; and the position behind it.\<close>

function markerFrom :: "u8 list \<Rightarrow> nat \<Rightarrow> u8 option jres \<times> nat" where
  "markerFrom bytes pos =
    (if pos + 1 < length bytes then
       (case byteAt bytes pos of
          JOk byte \<Rightarrow>
            if byte \<noteq> 0xFF then markerFrom bytes (pos + 1)
            else
              (case byteAt bytes (pos + 1) of
                 JOk marker \<Rightarrow>
                   if marker = 0xFF then markerFrom bytes (pos + 1)
                   else if marker = 0 then markerFrom bytes (pos + 2)
                   else (JOk (Some marker), pos + 2)
               | _ \<Rightarrow> (JOob, pos))
        | _ \<Rightarrow> (JOob, pos))
     else (JOk None, pos))"
  by pat_completeness auto
termination by (relation "measure (\<lambda>(bytes, pos). length bytes - pos)") auto

declare markerFrom.simps [simp del]

definition jpegNextMarker :: "u8 option jpg" where
  "jpegNextMarker d =
    (case markerFrom (jdData d) (jdPos d) of (marker, pos) \<Rightarrow> (marker, d\<lparr>jdPos := pos\<rparr>))"

subsection \<open>Quantisation and Huffman tables\<close>

definition storeQuant :: "nat \<Rightarrow> nat \<Rightarrow> u16 \<Rightarrow> unit jpg" where
  "storeQuant tableId i value d =
    (if tableId < length (jdQuant d) \<and> i < length (jdQuant d ! tableId)
     then (JOk (), d\<lparr>jdQuant := (jdQuant d)[tableId := (jdQuant d ! tableId)[i := value]]\<rparr>)
     else (JOob, d))"

definition quantValue :: "bool \<Rightarrow> nat \<Rightarrow> nat \<Rightarrow> unit jpg" where
  "quantValue wide tableId i =
    jpgThen (if wide then jpegReadU16 else jpgThen jpegReadU8 (\<lambda>b. jpgReturn (ucast b)))
      (\<lambda>value. storeQuant tableId i value)"

definition quantTable :: "unit jpg" where
  "quantTable =
    jpgThen jpegReadU8 (\<lambda>spec.
      (let precision = drop_bit 4 spec; id = unat (spec AND 0x0F)
       in jpgThen (jpgRequire (\<not> (id > 3 \<or> precision > 1))) (\<lambda>_.
            jpgFor [0..<64] (quantValue (precision \<noteq> 0) id))))"

text \<open>\<open>JpegHuffman\<close> for counts (one per code length from 1) and symbols: the canonical codes.\<close>

fun canonicalCodes :: "nat list \<Rightarrow> int \<Rightarrow> int \<Rightarrow> (int \<times> int \<times> int) list" where
  "canonicalCodes [] code index = []"
| "canonicalCodes (n # ns) code index =
    (if n \<noteq> 0
     then (code, code + int n - 1, index) # canonicalCodes ns (2 * (code + int n)) (index + int n)
     else (-1, -1, -1) # canonicalCodes ns (2 * code) index)"

definition huffmanOf :: "nat list \<Rightarrow> u8 list \<Rightarrow> JpegHuffman \<Rightarrow> JpegHuffman" where
  "huffmanOf counts symbols table =
    (let codes = canonicalCodes counts 0 0
     in table\<lparr>hfPresent := True,
              hfSymbols := symbols @ drop (length symbols) (hfSymbols table),
              hfMinCode := hd (hfMinCode table) # map fst codes,
              hfMaxCode := hd (hfMaxCode table) # map (fst \<circ> snd) codes,
              hfValPtr := hd (hfValPtr table) # map (snd \<circ> snd) codes\<rparr>)"

fun readBytes :: "nat \<Rightarrow> u8 list \<Rightarrow> u8 list jpg" where
  "readBytes 0 acc = jpgReturn (rev acc)"
| "readBytes (Suc n) acc = jpgThen jpegReadU8 (\<lambda>b. readBytes n (b # acc))"

text \<open>The table is written when its symbols are read: a file that fails before leaves a table that is
  not read again.  The symbols and the code lengths from 1 have to fit the arrays.\<close>

definition storeHuffman :: "nat \<Rightarrow> nat list \<Rightarrow> u8 list \<Rightarrow> unit jpg" where
  "storeHuffman k counts symbols d =
    (if k < length (jdHuffman d) \<and> length symbols \<le> length (hfSymbols (jdHuffman d ! k))
        \<and> length counts < length (hfMinCode (jdHuffman d ! k))
        \<and> length counts < length (hfMaxCode (jdHuffman d ! k))
        \<and> length counts < length (hfValPtr (jdHuffman d ! k))
     then (JOk (), d\<lparr>jdHuffman := (jdHuffman d)[k := huffmanOf counts symbols (jdHuffman d ! k)]\<rparr>)
     else (JOob, d))"

definition huffmanTable :: "unit jpg" where
  "huffmanTable =
    jpgThen jpegReadU8 (\<lambda>spec.
      (let isAc = unat (drop_bit 4 spec); id = unat (spec AND 0x0F)
       in jpgThen (jpgRequire (\<not> (id > 3 \<or> isAc > 1))) (\<lambda>_.
            jpgThen (readBytes 16 []) (\<lambda>counts.
              (let total = sum_list (map unat counts)
               in jpgThen (jpgRequire (total \<le> 256)) (\<lambda>_.
                    jpgThen (readBytes total []) (\<lambda>symbols.
                      storeHuffman (id * 2 + isAc) (map unat counts) symbols)))))))"

subsection \<open>Steps go forward\<close>

text \<open>What every step of the parsers keeps: the bytes, and a position that does not go back.\<close>

definition stepsOn :: "JpegDecoder \<Rightarrow> JpegDecoder \<Rightarrow> bool" where
  "stepsOn d d' \<longleftrightarrow> jdData d' = jdData d \<and> jdPos d \<le> jdPos d'"

definition advances :: "'a jpg \<Rightarrow> bool" where
  "advances m \<longleftrightarrow> (\<forall>d. stepsOn d (snd (m d)))"

named_theorems advance

lemma stepsOn_refl [simp]: "stepsOn d d"
  by (simp add: stepsOn_def)

lemma stepsOn_trans: "stepsOn d d' \<Longrightarrow> stepsOn d' d'' \<Longrightarrow> stepsOn d d''"
  by (auto simp: stepsOn_def)

lemma jpgThen_cong [fundef_cong]:
  assumes "m = m'" and "d = d'" and "\<And>a e. m' d' = (JOk a, e) \<Longrightarrow> f a e = f' a e"
  shows "jpgThen m f d = jpgThen m' f' d'"
  using assms by (auto simp: jpgThen_def split: prod.split jres.split)

lemma advances_then [advance]:
  "advances m \<Longrightarrow> (\<And>a. advances (f a)) \<Longrightarrow> advances (jpgThen m f)"
  unfolding advances_def jpgThen_def
  by (auto split: prod.split jres.split) (metis snd_conv stepsOn_trans)+

lemma advances_basic [advance]:
  "advances (jpgReturn a)" "advances jpgFail" "advances (jpgRequire b)" "advances jpegReadU8"
  "advances jpegReadU16"
  by (auto simp: advances_def jpgReturn_def jpgFail_def jpgRequire_def jpegReadU8_def jpegReadU16_def
      stepsOn_def split: jres.split)

lemma advances_if [advance]: "advances m \<Longrightarrow> advances n \<Longrightarrow> advances (if b then m else n)"
  by simp

lemma advances_update [advance]:
  "(\<And>d. jdData (f d) = jdData d \<and> jdPos (f d) = jdPos d) \<Longrightarrow> advances (\<lambda>d. (r d, f d))"
  by (simp add: advances_def stepsOn_def)

lemma advancesD: "advances m \<Longrightarrow> m d = (r, d') \<Longrightarrow> stepsOn d d'"
  by (metis advances_def snd_conv)

lemma advances_stores [advance]:
  "advances (jpgGive r)" "advances (componentAt i)" "advances (setComponent i c)"
  "advances (storeQuant k i value)" "advances (storeHuffman k counts symbols)"
  by (auto simp: advances_def jpgGive_def componentAt_def setComponent_def storeQuant_def
      storeHuffman_def stepsOn_def)

lemma advances_For [advance]: "(\<And>x. advances (f x)) \<Longrightarrow> advances (jpgFor xs f)"
  by (induction xs) (auto intro!: advance)

lemma advances_quantValue [advance]: "advances (quantValue wide k i)"
  unfolding quantValue_def by (intro advance)

lemma advances_readBytes [advance]: "advances (readBytes n acc)"
  by (induction n arbitrary: acc) (auto intro!: advance)

lemma readU8_moves: "jpegReadU8 d = (JOk b, d') \<Longrightarrow> jdPos d' = jdPos d + 1 \<and> jdData d' = jdData d"
  by (auto simp: jpegReadU8_def split: if_splits)

lemma then_moves:
  assumes "jpgThen jpegReadU8 f d = (JOk a, d')" and "\<And>b. advances (f b)"
  shows "jdPos d < jdPos d' \<and> jdData d' = jdData d"
proof -
  obtain b d1 where r: "jpegReadU8 d = (JOk b, d1)" and f: "f b d1 = (JOk a, d')"
    using assms(1) by (auto simp: jpgThen_def split: prod.splits jres.splits)
  have "stepsOn d1 d'" using advancesD [OF assms(2) f] .
  with readU8_moves [OF r] show ?thesis by (simp add: stepsOn_def)
qed

lemma quantTable_moves: "quantTable d = (JOk u, d') \<Longrightarrow> jdPos d < jdPos d' \<and> jdData d' = jdData d"
  unfolding quantTable_def Let_def by (erule then_moves) (intro advance)

lemma huffmanTable_moves: "huffmanTable d = (JOk u, d') \<Longrightarrow> jdPos d < jdPos d' \<and> jdData d' = jdData d"
  unfolding huffmanTable_def Let_def by (erule then_moves) (intro advance)

text \<open>The tables of one segment, up to its end.\<close>

function quantLoop :: "nat \<Rightarrow> unit jpg" where
  "quantLoop finish d =
    (if jdPos d < finish then jpgThen quantTable (\<lambda>_. quantLoop finish) d
     else (if jdPos d = finish then JOk () else JFail, d))"
  by pat_completeness auto
termination
  by (relation "measure (\<lambda>(finish, d). finish - jdPos d)") (auto dest!: quantTable_moves)

function huffmanLoop :: "nat \<Rightarrow> unit jpg" where
  "huffmanLoop finish d =
    (if jdPos d < finish then jpgThen huffmanTable (\<lambda>_. huffmanLoop finish) d
     else (if jdPos d = finish then JOk () else JFail, d))"
  by pat_completeness auto
termination
  by (relation "measure (\<lambda>(finish, d). finish - jdPos d)") (auto dest!: huffmanTable_moves)

declare quantLoop.simps [simp del] huffmanLoop.simps [simp del]

definition jpegParseQuant :: "nat \<Rightarrow> unit jpg" where
  "jpegParseQuant len d = quantLoop (jdPos d + len) d"

definition jpegParseHuffman :: "nat \<Rightarrow> unit jpg" where
  "jpegParseHuffman len d = huffmanLoop (jdPos d + len) d"

subsection \<open>Frame and scan headers\<close>

definition frameComponent :: "nat \<Rightarrow> unit jpg" where
  "frameComponent i =
    jpgThen jpegReadU8 (\<lambda>id. jpgThen jpegReadU8 (\<lambda>sampling. jpgThen jpegReadU8 (\<lambda>quantId.
      (let h = unat (drop_bit 4 sampling); v = unat (sampling AND 0x0F)
       in jpgThen
            (jpgThen (componentAt i) (\<lambda>c. setComponent i
               (c\<lparr>jcId := id, jcHFactor := h, jcVFactor := v, jcQuantId := unat quantId\<rparr>))) (\<lambda>_.
          jpgThen (jpgRequire (\<not> (h = 0 \<or> h > 4 \<or> v = 0 \<or> v > 4))) (\<lambda>_ d.
            (JOk (), d\<lparr>jdMaxHFactor := max (jdMaxHFactor d) h, jdMaxVFactor := max (jdMaxVFactor d) v\<rparr>)))))))"

definition sampledBlocks :: "nat \<Rightarrow> nat \<Rightarrow> nat \<Rightarrow> nat" where
  "sampledBlocks extent factor maxFactor = ((extent * factor + maxFactor - 1) div maxFactor + 7) div 8"

definition sizeComponent :: "nat \<Rightarrow> unit jpg" where
  "sizeComponent i =
    jpgThen (componentAt i) (\<lambda>c d. setComponent i
      (c\<lparr>jcBlocksW := sampledBlocks (jdWidth d) (jcHFactor c) (jdMaxHFactor d),
         jcBlocksH := sampledBlocks (jdHeight d) (jcVFactor c) (jdMaxVFactor d)\<rparr>) d)"

definition jpegParseFrame :: "nat \<Rightarrow> u8 \<Rightarrow> unit jpg" where
  "jpegParseFrame len marker =
    jpgThen (jpgRequire (marker = 0xC0)) (\<lambda>_.
    jpgThen jpegReadU8 (\<lambda>precision.
    jpgThen (jpgRequire (precision = 8)) (\<lambda>_.
    jpgThen jpegReadU16 (\<lambda>height.
    jpgThen jpegReadU16 (\<lambda>width.
    jpgThen jpegReadU8 (\<lambda>declared.
    (let count = unat declared
     in jpgThen (jpgRequire (\<not> (count = 0 \<or> count > JPEG_MAX_COMPONENTS))) (\<lambda>_.
        jpgThen (jpgRequire (len = 8 + 3 * count)) (\<lambda>_.
        jpgThen (\<lambda>d. (JOk (), d\<lparr>jdWidth := unat width, jdHeight := unat height, jdComponentCount := count,
                               jdMaxHFactor := 1, jdMaxVFactor := 1\<rparr>)) (\<lambda>_.
        jpgThen (jpgFor [0..<count] frameComponent) (\<lambda>_.
        jpgThen (jpgFor [0..<count] sizeComponent) (\<lambda>_.
        jpgRequire (unat width > 0 \<and> unat height > 0)))))))))))))"

text \<open>The first component with the id, as the inner loop finds it; the false of the code when there is none.\<close>

fun componentIndex :: "u8 \<Rightarrow> JpegComponent list \<Rightarrow> nat list \<Rightarrow> nat jres" where
  "componentIndex ident cs [] = JFail"
| "componentIndex ident cs (j # js) =
    (case byteAt cs j of
       JOk c \<Rightarrow> if jcId c = ident then JOk j else componentIndex ident cs js
     | _ \<Rightarrow> JOob)"

definition scanTables :: "u8 \<Rightarrow> u8 \<Rightarrow> unit jpg" where
  "scanTables ident tables =
    jpgThen (\<lambda>d. (componentIndex ident (jdComponents d) [0..<jdComponentCount d], d)) (\<lambda>j.
    jpgThen (componentAt j) (\<lambda>c. setComponent j
      (c\<lparr>jcDcTable := unat (drop_bit 4 tables), jcAcTable := unat (tables AND 0x0F)\<rparr>)))"

definition scanComponent :: "nat \<Rightarrow> unit jpg" where
  "scanComponent i = jpgThen jpegReadU8 (\<lambda>id. jpgThen jpegReadU8 (\<lambda>tables. scanTables id tables))"

definition jpegParseScan :: "nat \<Rightarrow> unit jpg" where
  "jpegParseScan len =
    jpgThen jpegReadU8 (\<lambda>count.
    jpgThen (\<lambda>d. jpgRequire (\<not> (count = 0 \<or> unat count > jdComponentCount d)) d) (\<lambda>_.
    jpgThen (jpgRequire (len = 6 + 2 * unat count)) (\<lambda>_.
    jpgThen (jpgFor [0..<unat count] scanComponent) (\<lambda>_.
    jpgThen jpegReadU8 (\<lambda>spectralStart.
    jpgThen jpegReadU8 (\<lambda>spectralEnd.
    jpgThen jpegReadU8 (\<lambda>approximation.
    jpgRequire (\<not> (spectralStart \<noteq> 0 \<or> spectralEnd \<noteq> 63 \<or> approximation \<noteq> 0)))))))))"

subsection \<open>Entropy decoding\<close>

text \<open>The -1 of the bit readers is \<open>JFail\<close>: every caller turns it into its own -1 or into false.\<close>

definition takeBit :: "nat jpg" where
  "takeBit d =
    (let n = jdBitCount d - 1
     in (JOk (unat (drop_bit n (jdBitBuffer d) AND 1)), d\<lparr>jdBitCount := n\<rparr>))"

definition jpegReadBit :: "nat jpg" where
  "jpegReadBit d =
    (if jdBitCount d = 0 then
       (if jdScanPos d \<ge> length (jdScan d) then (JFail, d)
        else
          (let pos = jdScanPos d
           in case byteAt (jdScan d) pos of
                JOk byte \<Rightarrow>
                  if byte = 0xFF then
                    (if pos + 1 \<ge> length (jdScan d) then (JFail, d\<lparr>jdScanPos := pos + 1\<rparr>)
                     else
                       (case byteAt (jdScan d) (pos + 1) of
                          JOk next' \<Rightarrow>
                            if next' = 0
                            then takeBit (d\<lparr>jdScanPos := pos + 2, jdBitBuffer := ucast byte, jdBitCount := 8\<rparr>)
                            else (JFail, d\<lparr>jdScanPos := pos + 1\<rparr>)
                        | _ \<Rightarrow> (JOob, d)))
                  else takeBit (d\<lparr>jdScanPos := pos + 1, jdBitBuffer := ucast byte, jdBitCount := 8\<rparr>)
              | _ \<Rightarrow> (JOob, d)))
     else takeBit d)"

text \<open>A C \<open>int\<close> of 32 bits, where leaving its range is undefined.\<close>

definition cInt :: "int \<Rightarrow> int jres" where
  "cInt x = (if - (2 ^ 31) \<le> x \<and> x < 2 ^ 31 then JOk x else JUndefined)"

definition jpgInt :: "int \<Rightarrow> int jpg" where
  "jpgInt x d = (cInt x, d)"

fun readBits :: "nat \<Rightarrow> int \<Rightarrow> int jpg" where
  "readBits 0 acc = jpgReturn acc"
| "readBits (Suc n) acc =
    jpgThen jpegReadBit (\<lambda>bit. jpgThen (jpgInt (2 * acc + int bit)) (\<lambda>next'. readBits n next'))"

definition jpegReadBits :: "nat \<Rightarrow> int jpg" where
  "jpegReadBits count = readBits count 0"

text \<open>The value of a code that is not above the largest of its length.\<close>

definition huffmanSymbol :: "JpegHuffman \<Rightarrow> nat \<Rightarrow> int \<Rightarrow> u8 jpg" where
  "huffmanSymbol table len code =
    jpgThen (jpgGive (byteAt (hfValPtr table) len)) (\<lambda>valPtr.
    jpgThen (jpgGive (byteAt (hfMinCode table) len)) (\<lambda>minCode.
      (let index = valPtr + (code - minCode)
       in if index < 0 \<or> index \<ge> 256 then jpgFail
          else jpgGive (arrayAt (hfSymbols table) index))))"

fun huffmanWalk :: "JpegHuffman \<Rightarrow> nat list \<Rightarrow> int \<Rightarrow> u8 jpg" where
  "huffmanWalk table [] code = jpgFail"
| "huffmanWalk table (len # lens) code =
    jpgThen jpegReadBit (\<lambda>bit.
      (let code' = 2 * code + int bit
       in jpgThen (jpgGive (byteAt (hfMaxCode table) len)) (\<lambda>maxCode.
            if maxCode \<ge> 0 \<and> code' \<le> maxCode then huffmanSymbol table len code'
            else huffmanWalk table lens code')))"

definition jpegDecodeHuffman :: "JpegHuffman \<Rightarrow> u8 jpg" where
  "jpegDecodeHuffman table = (if \<not> hfPresent table then jpgFail else huffmanWalk table [1..<17] 0)"

text \<open>\<open>1 << n\<close> is an \<open>int\<close> up to \<open>n = 30\<close>.\<close>

definition jpegExtend :: "int \<Rightarrow> nat \<Rightarrow> int jres" where
  "jpegExtend v bits =
    (if bits = 0 then JOk 0
     else if bits - 1 > 30 then JUndefined
     else if v < 2 ^ (bits - 1)
     then (if bits > 30 then JUndefined else cInt (v - 2 ^ bits + 1))
     else JOk v)"

subsection \<open>The scan\<close>

definition jpgTable :: "nat \<Rightarrow> JpegHuffman jpg" where
  "jpgTable i d = (byteAt (jdHuffman d) i, d)"

definition dcDifference :: "u8 \<Rightarrow> int jpg" where
  "dcDifference symbol =
    (if symbol > 0
     then jpgThen (jpegReadBits (unat symbol)) (\<lambda>bits d. (jpegExtend bits (unat symbol), d))
     else jpgReturn 0)"

definition addPrediction :: "nat \<Rightarrow> int \<Rightarrow> unit jpg" where
  "addPrediction c difference =
    jpgThen (componentAt c) (\<lambda>component.
    jpgThen (jpgInt (jcDcPrediction component + difference)) (\<lambda>sum.
      setComponent c (component\<lparr>jcDcPrediction := sum\<rparr>)))"

text \<open>C division goes towards zero.\<close>

definition lumaValue :: "int \<Rightarrow> u8" where
  "lumaValue product =
    (let v = (if product < 0 then - ((- product) div 8) else product div 8) + 128
     in if v < 0 then 0 else if v > 255 then 255 else of_int v)"

definition storeMean :: "nat \<Rightarrow> nat \<Rightarrow> u8 \<Rightarrow> unit jpg" where
  "storeMean row column value d =
    (let img = jdImage d
     in if row < length (imMean img) \<and> column < length (imMean img ! row)
        then (JOk (), d\<lparr>jdImage := img\<lparr>imMean := (imMean img)[row := (imMean img ! row)[column := value]]\<rparr>\<rparr>)
        else (JOob, d))"

definition storeLuma :: "nat \<Rightarrow> nat \<Rightarrow> unit jpg" where
  "storeLuma row column d =
    (if column < imBlocksW (jdImage d) \<and> row < imBlocksH (jdImage d)
     then jpgThen (componentAt 0) (\<lambda>component.
          jpgThen (\<lambda>d. (byteAt (jdQuant d) (jcQuantId component), d)) (\<lambda>quant.
          jpgThen (jpgGive (byteAt quant 0)) (\<lambda>step.
          jpgThen (jpgInt (jcDcPrediction component * int (unat step))) (\<lambda>product.
            storeMean row column (lumaValue product))))) d
     else (JOk (), d))"

function acLoop :: "JpegHuffman \<Rightarrow> nat \<Rightarrow> unit jpg" where
  "acLoop table coefficient d =
    (if coefficient < 64 then
       jpgThen (jpegDecodeHuffman table) (\<lambda>ac.
         (let run = unat (drop_bit 4 ac); n = unat (ac AND 0x0F)
          in if n = 0
             then (if run \<noteq> 15 then jpgReturn () else acLoop table (coefficient + 16))
             else jpgThen (jpegReadBits n) (\<lambda>_. acLoop table (coefficient + (run + 1))))) d
     else (JOk (), d))"
  by pat_completeness auto
termination by (relation "measure (\<lambda>(table, coefficient, d). 64 - coefficient)") auto

declare acLoop.simps [simp del]

definition decodeBlock :: "nat \<Rightarrow> JpegHuffman \<Rightarrow> JpegHuffman \<Rightarrow> nat \<Rightarrow> nat \<Rightarrow> unit jpg" where
  "decodeBlock c dcTable acTable row column =
    jpgThen (jpegDecodeHuffman dcTable) (\<lambda>symbol.
    jpgThen (dcDifference symbol) (\<lambda>difference.
    jpgThen (addPrediction c difference) (\<lambda>_.
    jpgThen (if c = 0 then storeLuma row column else jpgReturn ()) (\<lambda>_.
    acLoop acTable 1))))"

definition decodeComponent :: "nat \<Rightarrow> nat \<Rightarrow> nat \<Rightarrow> unit jpg" where
  "decodeComponent mcuY mcuX c =
    jpgThen (componentAt c) (\<lambda>component.
      (let h = jcHFactor component; v = jcVFactor component
       in jpgThen (jpgTable (jcDcTable component * 2)) (\<lambda>dcTable.
          jpgThen (jpgTable (jcAcTable component * 2 + 1)) (\<lambda>acTable.
          jpgFor [0..<v] (\<lambda>blockY. jpgFor [0..<h] (\<lambda>blockX.
            decodeBlock c dcTable acTable (mcuY * v + blockY) (mcuX * h + blockX)))))))"

definition clearPredictions :: "unit jpg" where
  "clearPredictions d =
    (if jdComponentCount d \<le> length (jdComponents d)
     then (JOk (), d\<lparr>jdComponents := map (\<lambda>c. c\<lparr>jcDcPrediction := 0\<rparr>)
                                          (take (jdComponentCount d) (jdComponents d))
                                        @ drop (jdComponentCount d) (jdComponents d)\<rparr>)
     else (JOob, d))"

definition restartPoint :: "nat \<Rightarrow> nat jpg" where
  "restartPoint since d =
    (if jdRestartInterval d > 0 \<and> since = jdRestartInterval d then
       (if jdScanPos d + 1 \<ge> length (jdScan d) then (JFail, d)
        else
          (case (byteAt (jdScan d) (jdScanPos d), byteAt (jdScan d) (jdScanPos d + 1)) of
             (JOk first, JOk second) \<Rightarrow>
               if first \<noteq> 0xFF \<or> second AND 0xF8 \<noteq> 0xD0 then (JFail, d)
               else jpgThen clearPredictions (\<lambda>_. jpgReturn 0)
                      (d\<lparr>jdScanPos := jdScanPos d + 2, jdBitCount := 0\<rparr>)
           | _ \<Rightarrow> (JOob, d)))
     else (JOk since, d))"

fun mcuLoop :: "(nat \<times> nat) list \<Rightarrow> nat \<Rightarrow> unit jpg" where
  "mcuLoop [] since = jpgReturn ()"
| "mcuLoop ((mcuY, mcuX) # mcus) since =
    jpgThen (restartPoint since) (\<lambda>since'.
    jpgThen (\<lambda>d. jpgFor [0..<jdComponentCount d] (decodeComponent mcuY mcuX) d) (\<lambda>_.
    mcuLoop mcus (since' + 1)))"

definition jpegDecodeScan :: "unit jpg" where
  "jpegDecodeScan =
    jpgThen (componentAt 0) (\<lambda>component d.
      (let mcusW = (jdWidth d + 8 * jdMaxHFactor d - 1) div (8 * jdMaxHFactor d);
           mcusH = (jdHeight d + 8 * jdMaxVFactor d - 1) div (8 * jdMaxVFactor d);
           lumaBlocksW = jcBlocksW component;
           lumaBlocksH = jcBlocksH component
       in if lumaBlocksW > JPEG_DC_MAX_BLOCKS_X \<or> lumaBlocksH > JPEG_DC_MAX_BLOCKS_Y then (JFail, d)
          else jpgThen (mcuLoop (List.product [0..<mcusH] [0..<mcusW]) 0)
                 (\<lambda>_ d. (JOk (), d\<lparr>jdImage := (jdImage d)\<lparr>imComplete := True\<rparr>\<rparr>))
                 (d\<lparr>jdImage := \<lparr>imBlocksW = lumaBlocksW, imBlocksH = lumaBlocksH, imComplete = False,
                    imMean = replicate JPEG_DC_MAX_BLOCKS_Y (replicate JPEG_DC_MAX_BLOCKS_X 0)\<rparr>\<rparr>)))"

subsection \<open>The decoder\<close>

definition jpegScanHeader :: "bool \<Rightarrow> unit jpg" where
  "jpegScanHeader sawFrame =
    jpgThen jpegReadU16 (\<lambda>len.
    jpgThen (jpgRequire (\<not> len < 2)) (\<lambda>_.
    jpgThen (jpgRequire sawFrame) (\<lambda>_ d.
      (let headerEnd = jdPos d - 2 + unat len
       in jpgThen (jpgRequire (\<not> headerEnd > length (jdData d))) (\<lambda>_.
          jpgThen (jpegParseScan (unat len)) (\<lambda>_ d.
            (JOk (), d\<lparr>jdScan := jdData d, jdScanPos := headerEnd\<rparr>))) d))))"

definition jpegPayload :: "bool \<Rightarrow> u8 \<Rightarrow> u16 \<Rightarrow> bool jpg" where
  "jpegPayload sawFrame marker len =
    (let payload = unat len - 2
     in if marker \<in> {0xC0, 0xC1, 0xC2, 0xC3, 0xC5, 0xC6, 0xC7, 0xC9, 0xCA, 0xCB, 0xCD, 0xCE, 0xCF}
        then jpgThen (jpegParseFrame (unat len) marker) (\<lambda>_. jpgReturn True)
        else if marker = 0xC4 then jpgThen (jpegParseHuffman payload) (\<lambda>_. jpgReturn sawFrame)
        else if marker = 0xDB then jpgThen (jpegParseQuant payload) (\<lambda>_. jpgReturn sawFrame)
        else if marker = 0xDD
        then jpgThen (jpgRequire (payload = 2)) (\<lambda>_. jpgThen jpegReadU16 (\<lambda>interval d.
               (JOk sawFrame, d\<lparr>jdRestartInterval := unat interval\<rparr>)))
        else (\<lambda>d. (JOk sawFrame, d\<lparr>jdPos := jdPos d + payload\<rparr>)))"

definition jpegSegment :: "bool \<Rightarrow> u8 \<Rightarrow> bool jpg" where
  "jpegSegment sawFrame marker =
    jpgThen jpegReadU16 (\<lambda>len.
    jpgThen (jpgRequire (\<not> len < 2)) (\<lambda>_.
    jpgThen (\<lambda>d. jpgRequire (\<not> jdPos d + (unat len - 2) > length (jdData d)) d) (\<lambda>_.
    jpegPayload sawFrame marker len)))"

lemma advances_check [advance]: "advances (\<lambda>d. jpgRequire (b d) d)"
  by (simp add: advances_def jpgRequire_def)

lemma advances_quantLoop [advance]: "advances (quantLoop finish)"
proof -
  have "stepsOn d (snd (quantLoop finish d))" for d
  proof (induction finish d rule: quantLoop.induct)
    case (1 finish d)
    show ?case
    proof (cases "jdPos d < finish")
      case True
      obtain r e where q: "quantTable d = (r, e)" by fastforce
      have "advances quantTable" unfolding quantTable_def Let_def by (intro advance)
      then have s: "stepsOn d e" using q by (rule advancesD)
      show ?thesis
        using True q s 1 stepsOn_trans
        by (cases r) (auto simp: quantLoop.simps [of finish d] jpgThen_def)
    next
      case False
      then show ?thesis by (simp add: quantLoop.simps)
    qed
  qed
  then show ?thesis by (simp add: advances_def)
qed

lemma advances_huffmanLoop [advance]: "advances (huffmanLoop finish)"
proof -
  have "stepsOn d (snd (huffmanLoop finish d))" for d
  proof (induction finish d rule: huffmanLoop.induct)
    case (1 finish d)
    show ?case
    proof (cases "jdPos d < finish")
      case True
      obtain r e where q: "huffmanTable d = (r, e)" by fastforce
      have "advances huffmanTable" unfolding huffmanTable_def Let_def by (intro advance)
      then have s: "stepsOn d e" using q by (rule advancesD)
      show ?thesis
        using True q s 1 stepsOn_trans
        by (cases r) (auto simp: huffmanLoop.simps [of finish d] jpgThen_def)
    next
      case False
      then show ?thesis by (simp add: huffmanLoop.simps)
    qed
  qed
  then show ?thesis by (simp add: advances_def)
qed

lemma advances_parsers [advance]:
  "advances (jpegParseQuant len)" "advances (jpegParseHuffman len)"
  by (auto simp: advances_def jpegParseQuant_def jpegParseHuffman_def
      advances_quantLoop [unfolded advances_def] advances_huffmanLoop [unfolded advances_def])

lemma advances_frameComponent [advance]: "advances (frameComponent i)"
  unfolding frameComponent_def Let_def by (intro advance) simp_all

lemma advances_sizeComponent [advance]: "advances (sizeComponent i)"
proof -
  have "advances (\<lambda>d. setComponent i (f d) d)" for f
    by (simp add: advances_def setComponent_def stepsOn_def)
  then show ?thesis unfolding sizeComponent_def by (intro advance)
qed

lemma advances_parseFrame [advance]: "advances (jpegParseFrame len marker)"
  unfolding jpegParseFrame_def Let_def by (intro advance) simp_all

lemma advances_payload [advance]: "advances (jpegPayload sawFrame marker len)"
proof -
  have "advances (\<lambda>d. (JOk sawFrame, d\<lparr>jdPos := jdPos d + n\<rparr>))" for n
    by (simp add: advances_def stepsOn_def)
  then show ?thesis
    unfolding jpegPayload_def Let_def
    by (intro advances_if) (assumption | intro advance | simp)+
qed

lemma markerFrom_checked:
  "markerFrom bytes pos =
    (if pos + 1 < length bytes then
       (if bytes ! pos \<noteq> 0xFF then markerFrom bytes (pos + 1)
        else if bytes ! (pos + 1) = 0xFF then markerFrom bytes (pos + 1)
        else if bytes ! (pos + 1) = 0 then markerFrom bytes (pos + 2)
        else (JOk (Some (bytes ! (pos + 1))), pos + 2))
     else (JOk None, pos))"
  by (subst markerFrom.simps) (simp add: arrayAt_def nat_add_distrib)

lemma markerFrom_moves: "markerFrom bytes pos = (JOk (Some m), pos') \<Longrightarrow> pos < pos' \<and> pos' \<le> length bytes"
proof (induction "length bytes - pos" arbitrary: pos rule: less_induct)
  case less
  have ih: "markerFrom bytes q = (JOk (Some m), pos') \<Longrightarrow> q < pos' \<and> pos' \<le> length bytes"
    if "pos < q" "pos + 1 < length bytes" for q using that by (intro less.hyps) simp_all
  show ?case
    using less.prems ih [of "pos + 1"] ih [of "pos + 2"]
    by (subst (asm) markerFrom_checked) (simp split: if_splits)
qed

lemma segment_moves:
  "jpegNextMarker d = (JOk (Some m), d1) \<Longrightarrow> jpegSegment sawFrame m d1 = (JOk s, d2) \<Longrightarrow>
   jdData d2 = jdData d \<and> jdPos d < jdPos d2 \<and> jdPos d < length (jdData d)"
proof -
  assume m: "jpegNextMarker d = (JOk (Some m), d1)" and s: "jpegSegment sawFrame m d1 = (JOk s, d2)"
  have "advances (jpegSegment sawFrame m)" unfolding jpegSegment_def by (intro advance)
  from advancesD [OF this s] have "stepsOn d1 d2" .
  moreover obtain p where "markerFrom (jdData d) (jdPos d) = (JOk (Some m), p)" "d1 = d\<lparr>jdPos := p\<rparr>"
    using m by (auto simp: jpegNextMarker_def split: prod.splits)
  ultimately show ?thesis using markerFrom_moves by (fastforce simp: stepsOn_def)
qed

lemma segment_measure:
  "jpegNextMarker d = (JOk (Some m), d1) \<Longrightarrow> jpegSegment sawFrame m d1 = (JOk s, d2) \<Longrightarrow>
   length (jdData d2) - jdPos d2 < length (jdData d) - jdPos d"
  using segment_moves by fastforce

text \<open>The segments up to and with the header of the scan, which is decoded next.\<close>

function jpegSegments :: "bool \<Rightarrow> unit jpg" where
  "jpegSegments sawFrame d =
    jpgThen jpegNextMarker (\<lambda>marker d.
      (case marker of
         None \<Rightarrow> (JFail, d)
       | Some m \<Rightarrow>
           if m = 0xD9 then (JFail, d)
           else if m = 0xDA then jpegScanHeader sawFrame d
           else jpgThen (jpegSegment sawFrame m) (\<lambda>sawFrame'. jpegSegments sawFrame') d)) d"
  by pat_completeness auto

termination
  by (relation "measure (\<lambda>(sawFrame, d). length (jdData d) - jdPos d)")
    (simp, simp only: in_measure split_conv, blast intro: segment_measure)

declare jpegSegments.simps [simp del]

definition emptyHuffman :: JpegHuffman where
  "emptyHuffman = \<lparr>hfPresent = False, hfSymbols = replicate 256 0, hfMinCode = replicate 17 0,
     hfMaxCode = replicate 17 0, hfValPtr = replicate 17 0\<rparr>"

definition emptyComponent :: JpegComponent where
  "emptyComponent = \<lparr>jcId = 0, jcHFactor = 0, jcVFactor = 0, jcQuantId = 0, jcDcTable = 0, jcAcTable = 0,
     jcDcPrediction = 0, jcBlocksW = 0, jcBlocksH = 0\<rparr>"

definition newDecoder :: "u8 list \<Rightarrow> JpegDcImage \<Rightarrow> JpegDecoder" where
  "newDecoder bytes img =
    \<lparr>jdData = bytes, jdPos = 0, jdScan = [], jdScanPos = 0, jdBitBuffer = 0, jdBitCount = 0,
     jdQuant = replicate 4 (replicate 64 0), jdHuffman = replicate (JPEG_MAX_HUFFMAN * 2) emptyHuffman,
     jdComponents = replicate JPEG_MAX_COMPONENTS emptyComponent, jdComponentCount = 0,
     jdMaxHFactor = 0, jdMaxVFactor = 0, jdWidth = 0, jdHeight = 0, jdRestartInterval = 0,
     jdImage = img\<rparr>"

definition jpegDcDecode :: "u8 list option \<Rightarrow> JpegDcImage option \<Rightarrow> unit jres \<times> JpegDcImage option" where
  "jpegDcDecode data img =
    (case (data, img) of
       (Some bytes, Some im) \<Rightarrow>
         if length bytes < 4 then (JFail, img)
         else
           (let cleared = im\<lparr>imBlocksW := 0, imBlocksH := 0, imComplete := False\<rparr>
            in case (byteAt bytes 0, byteAt bytes 1) of
                 (JOk first, JOk second) \<Rightarrow>
                   if first \<noteq> 0xFF \<or> second \<noteq> 0xD8 then (JFail, Some cleared)
                   else (case jpgThen (jpegSegments False) (\<lambda>_. jpegDecodeScan)
                                ((newDecoder bytes cleared)\<lparr>jdPos := 2\<rparr>) of
                           (result, d) \<Rightarrow> (result, Some (jdImage d)))
               | _ \<Rightarrow> (JOob, Some cleared))
     | _ \<Rightarrow> (JFail, img))"

end
