(* ===== verification/JpegDcSafe.thy ===== *)
theory JpegDcSafe
  imports JpegDc
begin

text \<open>
  The memory safety of the JPEG decoder.  \<open>decoderShape\<close> says that the lists of the model have the
  sizes of the arrays of the code; every step keeps it.  The only accesses that can leave an array
  use the ids a file declares for its tables: \<open>tablesInRange\<close> is the check the code does not make.
\<close>

definition huffmanShape :: "JpegHuffman \<Rightarrow> bool" where
  "huffmanShape t \<longleftrightarrow> length (hfSymbols t) = 256 \<and> length (hfMinCode t) = 17 \<and>
     length (hfMaxCode t) = 17 \<and> length (hfValPtr t) = 17"

definition imageShape :: "JpegDcImage \<Rightarrow> bool" where
  "imageShape im \<longleftrightarrow> imBlocksW im \<le> JPEG_DC_MAX_BLOCKS_X \<and> imBlocksH im \<le> JPEG_DC_MAX_BLOCKS_Y \<and>
     length (imMean im) = JPEG_DC_MAX_BLOCKS_Y \<and>
     list_all (\<lambda>row. length row = JPEG_DC_MAX_BLOCKS_X) (imMean im)"

definition decoderShape :: "JpegDecoder \<Rightarrow> bool" where
  "decoderShape d \<longleftrightarrow> length (jdQuant d) = 4 \<and> list_all (\<lambda>q. length q = 64) (jdQuant d) \<and>
     length (jdHuffman d) = JPEG_MAX_HUFFMAN * 2 \<and> list_all huffmanShape (jdHuffman d) \<and>
     length (jdComponents d) = JPEG_MAX_COMPONENTS \<and> jdComponentCount d \<le> JPEG_MAX_COMPONENTS \<and>
     imageShape (jdImage d)"

definition tablesInRange :: "JpegDecoder \<Rightarrow> bool" where
  "tablesInRange d \<longleftrightarrow>
     list_all (\<lambda>c. jcQuantId c < 4 \<and> jcDcTable c < 4 \<and> jcAcTable c < 4) (jdComponents d)"

subsection \<open>Steps that keep an invariant and stay inside the arrays\<close>

definition safely :: "(JpegDecoder \<Rightarrow> bool) \<Rightarrow> 'a jpg \<Rightarrow> ('a \<Rightarrow> bool) \<Rightarrow> bool" where
  "safely I m R \<longleftrightarrow>
     (\<forall>d. I d \<longrightarrow> I (snd (m d)) \<and> fst (m d) \<noteq> JOob \<and> (\<forall>a. fst (m d) = JOk a \<longrightarrow> R a))"

abbreviation safely_any :: "(JpegDecoder \<Rightarrow> bool) \<Rightarrow> 'a jpg \<Rightarrow> bool" where
  "safely_any I m \<equiv> safely I m (\<lambda>_. True)"

named_theorems safe

lemma safelyI: "(\<And>d. I d \<Longrightarrow> I (snd (m d)) \<and> fst (m d) \<noteq> JOob \<and> (\<forall>a. fst (m d) = JOk a \<longrightarrow> R a)) \<Longrightarrow>
    safely I m R"
  by (simp add: safely_def)

lemma safelyD:
  "safely I m R \<Longrightarrow> I d \<Longrightarrow> m d = (r, d') \<Longrightarrow> I d' \<and> r \<noteq> JOob \<and> (\<forall>a. r = JOk a \<longrightarrow> R a)"
  unfolding safely_def by (metis fst_conv snd_conv)

lemma safely_then:
  assumes "safely I m R" and "\<And>a. R a \<Longrightarrow> safely I (f a) S"
  shows "safely I (jpgThen m f) S"
proof (rule safelyI)
  fix d assume I: "I d"
  obtain r e where m: "m d = (r, e)" by fastforce
  note s = safelyD [OF assms(1) I m]
  show "I (snd (jpgThen m f d)) \<and> fst (jpgThen m f d) \<noteq> JOob \<and>
      (\<forall>a. fst (jpgThen m f d) = JOk a \<longrightarrow> S a)"
    using s assms(2) by (cases r) (auto simp: jpgThen_def m safely_def)
qed

lemma safely_chain: "safely_any I m \<Longrightarrow> (\<And>a. safely I (f a) S) \<Longrightarrow> safely I (jpgThen m f) S"
  by (rule safely_then)

lemma safely_mono: "safely I m R \<Longrightarrow> (\<And>a. R a \<Longrightarrow> S a) \<Longrightarrow> safely I m S"
  by (auto simp: safely_def)

lemma safely_return [safe]: "R a \<Longrightarrow> safely I (jpgReturn a) R"
  by (simp add: safely_def jpgReturn_def)

lemma safely_fail [safe]: "safely I jpgFail R"
  by (simp add: safely_def jpgFail_def)

lemma safely_require [safe]: "safely_any I (jpgRequire b)"
  by (simp add: safely_def jpgRequire_def)

lemma safely_check [safe]: "safely_any I (\<lambda>d. jpgRequire (b d) d)"
  by (simp add: safely_def jpgRequire_def)

lemma safely_if [safe]: "safely I m R \<Longrightarrow> safely I n R \<Longrightarrow> safely I (if b then m else n) R"
  by simp

lemma safely_update: "(\<And>d. I d \<Longrightarrow> I (f d)) \<Longrightarrow> safely_any I (\<lambda>d. (JOk (), f d))"
  by (simp add: safely_def)

lemma safely_For:
  "(\<And>x. x \<in> set xs \<Longrightarrow> safely_any I (f x)) \<Longrightarrow> safely_any I (jpgFor xs f)"
  by (induction xs) (auto intro!: safely_return safely_chain)

subsection \<open>The parsers\<close>

lemma decoderShape_pos [simp]:
  "decoderShape (d\<lparr>jdPos := p\<rparr>) = decoderShape d"
  "decoderShape (d\<lparr>jdScanPos := sp\<rparr>) = decoderShape d"
  "decoderShape (d\<lparr>jdScan := bs\<rparr>) = decoderShape d"
  "decoderShape (d\<lparr>jdBitBuffer := w\<rparr>) = decoderShape d"
  "decoderShape (d\<lparr>jdBitCount := n\<rparr>) = decoderShape d"
  "decoderShape (d\<lparr>jdRestartInterval := i\<rparr>) = decoderShape d"
  "decoderShape (d\<lparr>jdMaxHFactor := h\<rparr>) = decoderShape d"
  "decoderShape (d\<lparr>jdMaxVFactor := v\<rparr>) = decoderShape d"
  "decoderShape (d\<lparr>jdWidth := wd\<rparr>) = decoderShape d"
  "decoderShape (d\<lparr>jdHeight := ht\<rparr>) = decoderShape d"
  by (simp_all add: decoderShape_def)

lemma list_all_update: "list_all P xs \<Longrightarrow> P x \<Longrightarrow> list_all P (xs[i := x])"
  by (metis list_all_iff set_update_subset_insert subsetD insertE)

lemma decoderShape_updates:
  "decoderShape d \<Longrightarrow> length q = 64 \<Longrightarrow> decoderShape (d\<lparr>jdQuant := (jdQuant d)[i := q]\<rparr>)"
  "decoderShape d \<Longrightarrow> huffmanShape t \<Longrightarrow> decoderShape (d\<lparr>jdHuffman := (jdHuffman d)[i := t]\<rparr>)"
  "decoderShape d \<Longrightarrow> decoderShape (d\<lparr>jdComponents := (jdComponents d)[i := c]\<rparr>)"
  by (simp_all add: decoderShape_def list_all_update)

text \<open>The accesses, inside the bounds their callers establish.\<close>

lemma safely_componentAt: "i < JPEG_MAX_COMPONENTS \<Longrightarrow> safely_any decoderShape (componentAt i)"
  by (rule safelyI) (simp add: componentAt_def byteAt_eq decoderShape_def)

lemma safely_setComponent: "i < JPEG_MAX_COMPONENTS \<Longrightarrow> safely_any decoderShape (setComponent i c)"
  by (rule safelyI) (simp add: setComponent_def decoderShape_updates, simp add: decoderShape_def)

lemma safely_storeQuant: "k < 4 \<Longrightarrow> i < 64 \<Longrightarrow> safely_any decoderShape (storeQuant k i value)"
proof (rule safelyI)
  fix d assume "k < 4" "i < 64" and d: "decoderShape d"
  then have "k < length (jdQuant d)" "length (jdQuant d ! k) = 64"
    by (auto simp: decoderShape_def list_all_length)
  with d \<open>i < 64\<close> show "decoderShape (snd (storeQuant k i value d)) \<and> fst (storeQuant k i value d) \<noteq> JOob \<and>
      (\<forall>a. fst (storeQuant k i value d) = JOk a \<longrightarrow> True)"
    by (simp add: storeQuant_def decoderShape_updates)
qed

lemma safely_U8 [safe]: "safely_any decoderShape jpegReadU8"
  by (rule safelyI) (simp add: jpegReadU8_def byteAt_eq)

lemma safely_U16 [safe]: "safely_any decoderShape jpegReadU16"
  by (rule safelyI) (simp add: jpegReadU16_def byteAt_eq)

lemma safely_readBytes:
  "safely decoderShape (readBytes n acc) (\<lambda>vs. length vs = n + length acc)"
proof (induction n arbitrary: acc)
  case (Suc n)
  then show ?case
    unfolding readBytes.simps
    by (intro safely_chain safe) (auto intro: safely_mono [OF Suc])
qed (simp add: safely_return)

lemma length_canonicalCodes [simp]: "length (canonicalCodes ns code index) = length ns"
  by (induction ns arbitrary: code index) auto

lemma huffmanShape_huffmanOf:
  "huffmanShape t \<Longrightarrow> length counts = 16 \<Longrightarrow> length symbols \<le> 256 \<Longrightarrow>
   huffmanShape (huffmanOf counts symbols t)"
  by (simp add: huffmanShape_def huffmanOf_def Let_def)

lemma safely_guard: "(b \<Longrightarrow> safely I (f ()) S) \<Longrightarrow> safely I (jpgThen (jpgRequire b) f) S"
  by (auto simp: safely_def jpgThen_def jpgRequire_def)

lemma safely_quantTable: "safely_any decoderShape quantTable"
  unfolding quantTable_def quantValue_def Let_def
  by (intro safely_chain safely_guard safely_For safe safely_storeQuant) auto

lemma nibble_le: "unat (x AND 0x0F :: u8) \<le> 15" "unat (drop_bit 4 (x :: u8)) \<le> 15"
proof -
  have "x AND 0x0F \<le> 0x0F" by (rule word_and_le1)
  then show "unat (x AND 0x0F) \<le> 15" by (simp add: word_le_nat_alt)
  have "unat (drop_bit 4 x) = unat x div 16" by (simp add: unat_drop_bit_eq drop_bit_nat_def)
  then show "unat (drop_bit 4 x) \<le> 15" using unat_u8_lt [of x] by linarith
qed

lemma safely_storeHuffman:
  "length counts = 16 \<Longrightarrow> length symbols \<le> 256 \<Longrightarrow> k < 8 \<Longrightarrow>
   safely_any decoderShape (storeHuffman k counts symbols)"
proof (rule safelyI)
  fix d assume sizes: "length counts = 16" "length symbols \<le> 256" "k < 8" and d: "decoderShape d"
  then have "k < length (jdHuffman d)" "huffmanShape (jdHuffman d ! k)"
    by (auto simp: decoderShape_def JPEG_MAX_HUFFMAN_def list_all_length)
  with d sizes show "decoderShape (snd (storeHuffman k counts symbols d)) \<and>
      fst (storeHuffman k counts symbols d) \<noteq> JOob \<and>
      (\<forall>a. fst (storeHuffman k counts symbols d) = JOk a \<longrightarrow> True)"
    by (simp add: storeHuffman_def decoderShape_updates huffmanShape_huffmanOf)
      (simp add: huffmanShape_def)
qed

lemma safely_huffmanTable: "safely_any decoderShape huffmanTable"
  unfolding huffmanTable_def Let_def
  apply (rule safely_chain [OF safely_U8])
  apply (rule safely_guard)
  apply (rule safely_then [OF safely_readBytes])
  apply (rule safely_guard)
  apply (rule safely_then [OF safely_readBytes])
  by (rule safely_storeHuffman) auto

lemma safely_quantLoop: "safely_any decoderShape (quantLoop finish)"
proof -
  have "decoderShape d \<Longrightarrow> decoderShape (snd (quantLoop finish d)) \<and> fst (quantLoop finish d) \<noteq> JOob" for d
  proof (induction finish d rule: quantLoop.induct)
    case (1 finish d)
    obtain r e where q: "quantTable d = (r, e)" by fastforce
    with safelyD [OF safely_quantTable 1(2) q] 1 show ?case
      by (cases r) (auto simp: quantLoop.simps [of finish d] jpgThen_def)
  qed
  then show ?thesis by (simp add: safely_def)
qed

lemma safely_huffmanLoop: "safely_any decoderShape (huffmanLoop finish)"
proof -
  have "decoderShape d \<Longrightarrow> decoderShape (snd (huffmanLoop finish d)) \<and> fst (huffmanLoop finish d) \<noteq> JOob" for d
  proof (induction finish d rule: huffmanLoop.induct)
    case (1 finish d)
    obtain r e where q: "huffmanTable d = (r, e)" by fastforce
    with safelyD [OF safely_huffmanTable 1(2) q] 1 show ?case
      by (cases r) (auto simp: huffmanLoop.simps [of finish d] jpgThen_def)
  qed
  then show ?thesis by (simp add: safely_def)
qed

lemma safely_tables [safe]:
  "safely_any decoderShape (jpegParseQuant len)" "safely_any decoderShape (jpegParseHuffman len)"
  using safely_quantLoop safely_huffmanLoop
  by (auto simp: safely_def jpegParseQuant_def jpegParseHuffman_def)

lemma safely_sized:
  "(\<And>d. safely I (m d) R) \<Longrightarrow> safely I (\<lambda>d. m (f d) d) R"
  by (auto simp: safely_def)

lemma safely_frameComponent: "i < JPEG_MAX_COMPONENTS \<Longrightarrow> safely_any decoderShape (frameComponent i)"
  unfolding frameComponent_def Let_def
  by (intro safely_chain safe safely_update safely_componentAt safely_setComponent) simp_all

lemma safely_sizeComponent:
  assumes "i < JPEG_MAX_COMPONENTS"
  shows "safely_any decoderShape (sizeComponent i)"
proof -
  have "safely_any decoderShape (\<lambda>d. setComponent i (f d) d)" for f
    by (rule safely_sized [where m = "setComponent i"]) (rule safely_setComponent [OF assms])
  then show ?thesis
    unfolding sizeComponent_def by (intro safely_chain safely_componentAt assms)
qed

lemma safely_parseFrame [safe]: "safely_any decoderShape (jpegParseFrame len marker)"
proof -
  have start: "safely_any decoderShape (\<lambda>d. (JOk (), d\<lparr>jdWidth := w, jdHeight := h,
      jdComponentCount := n, jdMaxHFactor := 1, jdMaxVFactor := 1\<rparr>))"
    if "\<not> (n = 0 \<or> n > JPEG_MAX_COMPONENTS)" for w h n
    using that by (intro safely_update) (simp add: decoderShape_def)
  show ?thesis
    unfolding jpegParseFrame_def Let_def
    apply (rule safely_guard, rule safely_chain [OF safely_U8], rule safely_guard)
    apply (rule safely_chain [OF safely_U16], rule safely_chain [OF safely_U16])
    apply (rule safely_chain [OF safely_U8], rule safely_guard, rule safely_guard)
    apply (rule safely_chain [OF start], assumption)
    by (intro safely_chain safely_For safely_frameComponent safely_sizeComponent safe) auto
qed

lemma safely_parseScan [safe]: "safely_any decoderShape (jpegParseScan len)"
proof -
  have index: "componentIndex ident cs js \<noteq> JOob \<and> (\<forall>j. componentIndex ident cs js = JOk j \<longrightarrow> j \<in> set js)"
    if "\<forall>j \<in> set js. j < length cs" for ident cs js
    using that by (induction js) (simp_all add: byteAt_eq)
  have "safely decoderShape (\<lambda>d. (componentIndex ident (jdComponents d) [0..<jdComponentCount d], d))
      (\<lambda>j. j < JPEG_MAX_COMPONENTS)" for ident
  proof (rule safelyI)
    fix d assume d: "decoderShape d"
    then have "\<forall>j \<in> set [0..<jdComponentCount d]. j < length (jdComponents d)"
      by (auto simp: decoderShape_def)
    from index [OF this, of ident] d
    show "decoderShape (snd (componentIndex ident (jdComponents d) [0..<jdComponentCount d], d)) \<and>
        fst (componentIndex ident (jdComponents d) [0..<jdComponentCount d], d) \<noteq> JOob \<and>
        (\<forall>a. fst (componentIndex ident (jdComponents d) [0..<jdComponentCount d], d) = JOk a \<longrightarrow>
           a < JPEG_MAX_COMPONENTS)"
      by (auto simp: decoderShape_def)
  qed
  then have "safely_any decoderShape (scanTables ident tables)" for ident tables
    unfolding scanTables_def
    by (rule safely_then) (intro safely_chain safely_componentAt safely_setComponent)
  then have "safely_any decoderShape (scanComponent i)" for i
    unfolding scanComponent_def by (intro safely_chain safe)
  then show ?thesis
    unfolding jpegParseScan_def by (intro safely_chain safely_For safe)
qed

lemma safely_scanHeader [safe]: "safely_any decoderShape (jpegScanHeader sawFrame)"
proof -
  have store: "safely_any decoderShape (\<lambda>d. (JOk (), d\<lparr>jdScan := jdData d, jdScanPos := n\<rparr>))" for n
    by (rule safely_update) simp
  have depend: "safely_any decoderShape (\<lambda>d. jpgThen (jpgRequire (b d)) (\<lambda>_. m (k d)) d)"
    if "\<And>n. safely_any decoderShape (m n)" for m :: "nat \<Rightarrow> unit jpg" and k b
    using that by (auto simp: safely_def jpgThen_def jpgRequire_def)
  show ?thesis
    unfolding jpegScanHeader_def Let_def
    by (intro safely_chain safe)
      (rule depend [where m = "\<lambda>n. jpgThen (jpegParseScan _) (\<lambda>_ d. (JOk (), d\<lparr>jdScan := jdData d, jdScanPos := n\<rparr>))"],
       rule safely_chain [OF safely_parseScan store])
qed

lemma safely_payload [safe]: "safely_any decoderShape (jpegPayload sawFrame marker len)"
proof -
  have interval: "safely_any decoderShape (\<lambda>d. (JOk sawFrame, d\<lparr>jdRestartInterval := n\<rparr>))" for n
    by (rule safelyI) simp
  have skip: "safely_any decoderShape (\<lambda>d. (JOk sawFrame, d\<lparr>jdPos := jdPos d + n\<rparr>))" for n
    by (rule safelyI) simp
  show ?thesis
    unfolding jpegPayload_def Let_def
    by (intro safely_if safely_chain safe interval skip) simp_all
qed

lemma safely_segment: "safely_any decoderShape (jpegSegment sawFrame marker)"
  unfolding jpegSegment_def by (intro safely_chain safe)

lemma markerFrom_ok: "\<exists>marker pos'. markerFrom bytes pos = (JOk marker, pos')"
proof (induction "length bytes - pos" arbitrary: pos rule: less_induct)
  case less
  have "\<exists>marker pos'. markerFrom bytes q = (JOk marker, pos')" if "pos < q" "pos + 1 < length bytes" for q
    using that by (intro less.hyps) simp
  then show ?case by (subst markerFrom_checked) auto
qed

lemma safely_segments: "safely_any decoderShape (jpegSegments sawFrame)"
proof -
  have "decoderShape d \<Longrightarrow>
      decoderShape (snd (jpegSegments sawFrame d)) \<and> fst (jpegSegments sawFrame d) \<noteq> JOob" for d
  proof (induction sawFrame d rule: jpegSegments.induct)
    case (1 sawFrame d)
    obtain marker e where m: "jpegNextMarker d = (JOk marker, e)" and e: "decoderShape e"
      using 1(2) markerFrom_ok [of "jdData d" "jdPos d"] by (auto simp: jpegNextMarker_def)
    show ?case
    proof (cases marker)
      case None
      then show ?thesis using e by (simp add: jpegSegments.simps [of sawFrame d] jpgThen_def m)
    next
      case (Some k)
      obtain r f where s: "jpegSegment sawFrame k e = (r, f)" by fastforce
      note sf = safelyD [OF safely_segment e s]
      have h: "decoderShape (snd (jpegScanHeader sawFrame e)) \<and> fst (jpegScanHeader sawFrame e) \<noteq> JOob"
        using safely_scanHeader e unfolding safely_def by blast
      show ?thesis
        using 1(1) [OF m Some] e Some h sf
        by (cases r) (auto simp: jpegSegments.simps [of sawFrame d] jpgThen_def m s split: if_splits)
    qed
  qed
  then show ?thesis by (simp add: safely_def)
qed

subsection \<open>The scan\<close>

text \<open>The decoder in a scan whose tables are in range.\<close>

definition sound :: "JpegDecoder \<Rightarrow> bool" where
  "sound d \<longleftrightarrow> decoderShape d \<and> tablesInRange d"

definition goodComponent :: "JpegComponent \<Rightarrow> bool" where
  "goodComponent c \<longleftrightarrow> jcQuantId c < 4 \<and> jcDcTable c < 4 \<and> jcAcTable c < 4"

lemma tablesInRange_good: "tablesInRange d \<longleftrightarrow> list_all goodComponent (jdComponents d)"
  by (simp add: tablesInRange_def goodComponent_def [abs_def])

named_theorems scanning

lemmas [scanning] = safely_chain safely_if

lemma scanning_basic [scanning]:
  "safely_any sound (jpgReturn a)" "safely_any sound jpgFail" "safely_any sound (jpgRequire b)"
  by (auto intro: safe)

lemma scanning_For [scanning]:
  "(\<And>x. x \<in> set xs \<Longrightarrow> safely_any sound (f x)) \<Longrightarrow> safely_any sound (jpgFor xs f)"
  by (rule safely_For)

lemma sound_pos [simp]:
  "sound (d\<lparr>jdScanPos := sp\<rparr>) = sound d" "sound (d\<lparr>jdBitBuffer := w\<rparr>) = sound d"
  "sound (d\<lparr>jdBitCount := n\<rparr>) = sound d"
  by (simp_all add: sound_def tablesInRange_def)

lemma scanning_bit [scanning]: "safely_any sound jpegReadBit"
  by (rule safelyI) (auto simp: jpegReadBit_def takeBit_def Let_def byteAt_eq)

lemma cInt_not_oob [simp]: "cInt x \<noteq> JOob"
  by (simp add: cInt_def)

lemma jpegExtend_not_oob [simp]: "jpegExtend v bits \<noteq> JOob"
  by (simp add: jpegExtend_def)

lemma scanning_int [scanning]: "safely_any sound (jpgInt x)"
  by (rule safelyI) (simp add: jpgInt_def)

lemma scanning_give: "r \<noteq> JOob \<Longrightarrow> (\<And>a. r = JOk a \<Longrightarrow> R a) \<Longrightarrow> safely sound (jpgGive r) R"
  by (rule safelyI) (simp add: jpgGive_def)

lemma scanning_entry: "i < length xs \<Longrightarrow> safely_any sound (jpgGive (byteAt xs i))"
  by (rule scanning_give) (simp_all add: byteAt_eq)

lemma scanning_readBits: "safely_any sound (readBits n acc)"
  by (induction n arbitrary: acc) (auto intro!: scanning)

lemma scanning_bits [scanning]: "safely_any sound (jpegReadBits n)"
  by (simp add: jpegReadBits_def scanning_readBits)

text \<open>The walk through a table of the right sizes: the code lengths are below 17, and the code checks
  the index of the symbol.\<close>

lemma scanning_symbol:
  assumes "huffmanShape table" and "len < 17"
  shows "safely_any sound (huffmanSymbol table len code)"
proof -
  have "safely_any sound (if index < 0 \<or> index \<ge> 256 then jpgFail
      else jpgGive (arrayAt (hfSymbols table) index))" for index
    using assms by (auto simp: arrayAt_def huffmanShape_def intro!: scanning scanning_give)
  then show ?thesis
    using assms unfolding huffmanSymbol_def Let_def
    by (intro safely_chain scanning_entry) (simp_all add: huffmanShape_def)
qed

lemma scanning_walk:
  assumes "huffmanShape table" and "list_all (\<lambda>len. len < 17) lens"
  shows "safely_any sound (huffmanWalk table lens code)"
  using assms(2)
proof (induction lens arbitrary: code)
  case (Cons len lens)
  then have "len < length (hfMaxCode table)" "len < 17"
    using assms(1) by (simp_all add: huffmanShape_def)
  with Cons assms(1) show ?case
    unfolding huffmanWalk.simps Let_def
    by (intro scanning scanning_entry scanning_symbol) simp_all
qed (simp add: scanning)

lemma scanning_huffman: "huffmanShape table \<Longrightarrow> safely_any sound (jpegDecodeHuffman table)"
  unfolding jpegDecodeHuffman_def
  by (intro scanning scanning_walk) (simp_all add: list_all_iff)

lemma scanning_difference [scanning]: "safely_any sound (dcDifference symbol)"
proof -
  have "safely_any sound (\<lambda>d. (jpegExtend v n, d))" for v n by (rule safelyI) simp
  then show ?thesis unfolding dcDifference_def by (intro scanning)
qed

text \<open>The components and the tables they name.\<close>

lemma scanning_componentAt: "i < JPEG_MAX_COMPONENTS \<Longrightarrow> safely sound (componentAt i) goodComponent"
  by (rule safelyI)
    (simp add: componentAt_def byteAt_eq sound_def decoderShape_def tablesInRange_good list_all_length)

lemma scanning_setComponent:
  "i < JPEG_MAX_COMPONENTS \<Longrightarrow> goodComponent c \<Longrightarrow> safely_any sound (setComponent i c)"
  by (rule safelyI)
    (simp add: setComponent_def sound_def decoderShape_def tablesInRange_good list_all_update)

lemma scanning_prediction: "c < JPEG_MAX_COMPONENTS \<Longrightarrow> safely_any sound (addPrediction c difference)"
  unfolding addPrediction_def
  by (rule safely_then [OF scanning_componentAt], assumption)
    (intro scanning scanning_setComponent, simp_all add: goodComponent_def)

lemma scanning_table: "i < 8 \<Longrightarrow> safely sound (jpgTable i) huffmanShape"
  by (rule safelyI)
    (simp add: jpgTable_def byteAt_eq sound_def decoderShape_def list_all_length JPEG_MAX_HUFFMAN_def)

lemma scanning_quant: "i < 4 \<Longrightarrow> safely sound (\<lambda>d. (byteAt (jdQuant d) i, d)) (\<lambda>q. length q = 64)"
  by (rule safelyI) (simp add: byteAt_eq sound_def decoderShape_def list_all_length)

lemma imageShape_store:
  "imageShape im \<Longrightarrow> imageShape (im\<lparr>imMean := (imMean im)[row := (imMean im ! row)[column := v]]\<rparr>)"
  by (cases "row < length (imMean im)")
    (auto simp: imageShape_def list_all_length nth_list_update)

lemma scanning_mean:
  "row < JPEG_DC_MAX_BLOCKS_Y \<Longrightarrow> column < JPEG_DC_MAX_BLOCKS_X \<Longrightarrow>
   safely_any sound (storeMean row column value)"
proof (rule safelyI)
  fix d assume at: "row < JPEG_DC_MAX_BLOCKS_Y" "column < JPEG_DC_MAX_BLOCKS_X" and d: "sound d"
  then have im: "imageShape (jdImage d)" by (simp add: sound_def decoderShape_def)
  then have "row < length (imMean (jdImage d))" "column < length (imMean (jdImage d) ! row)"
    using at by (auto simp: imageShape_def list_all_length)
  moreover have "sound (d\<lparr>jdImage := (jdImage d)\<lparr>imMean :=
      (imMean (jdImage d))[row := (imMean (jdImage d) ! row)[column := value]]\<rparr>\<rparr>)"
    using d imageShape_store [OF im] by (simp add: sound_def decoderShape_def tablesInRange_def)
  ultimately show "sound (snd (storeMean row column value d)) \<and> fst (storeMean row column value d) \<noteq> JOob \<and>
      (\<forall>a. fst (storeMean row column value d) = JOk a \<longrightarrow> True)"
    by (simp add: storeMean_def Let_def)
qed

text \<open>The means are stored inside the image because the frame was refused when it is larger.\<close>

lemma scanning_luma [scanning]: "safely_any sound (storeLuma row column)"
proof (rule safelyI)
  fix d assume d: "sound d"
  define store where "store = jpgThen (componentAt 0) (\<lambda>component.
      jpgThen (\<lambda>d. (byteAt (jdQuant d) (jcQuantId component), d)) (\<lambda>quant.
      jpgThen (jpgGive (byteAt quant 0)) (\<lambda>step.
      jpgThen (jpgInt (jcDcPrediction component * int (unat step))) (\<lambda>product.
        storeMean row column (lumaValue product)))))"
  have "safely_any sound store" if "row < JPEG_DC_MAX_BLOCKS_Y" "column < JPEG_DC_MAX_BLOCKS_X"
    unfolding store_def
    by (rule safely_then [OF scanning_componentAt], simp add: JPEG_MAX_COMPONENTS_def,
        rule safely_then [OF scanning_quant], simp add: goodComponent_def)
      (intro safely_chain scanning_int scanning_mean scanning_entry that, simp)
  moreover have "row < JPEG_DC_MAX_BLOCKS_Y" "column < JPEG_DC_MAX_BLOCKS_X"
    if "column < imBlocksW (jdImage d) \<and> row < imBlocksH (jdImage d)"
    using that d by (simp_all add: sound_def decoderShape_def imageShape_def)
  moreover have "storeLuma row column d =
      (if column < imBlocksW (jdImage d) \<and> row < imBlocksH (jdImage d) then store d else (JOk (), d))"
    by (simp add: storeLuma_def store_def)
  ultimately show "sound (snd (storeLuma row column d)) \<and> fst (storeLuma row column d) \<noteq> JOob \<and>
      (\<forall>a. fst (storeLuma row column d) = JOk a \<longrightarrow> True)"
    using d by (auto simp: safely_def)
qed

lemma scanning_acLoop:
  assumes "huffmanShape table"
  shows "safely_any sound (acLoop table coefficient)"
proof -
  have "sound d \<Longrightarrow> sound (snd (acLoop table coefficient d)) \<and> fst (acLoop table coefficient d) \<noteq> JOob" for d
  proof (induction "64 - coefficient" arbitrary: coefficient d rule: less_induct)
    case less
    have rec: "safely_any sound (acLoop table k)" if "64 - k < 64 - coefficient" for k
      using less.hyps [OF that] by (simp add: safely_def)
    show ?case
    proof (cases "coefficient < 64")
      case True
      have "safely_any sound (jpgThen (jpegDecodeHuffman table) (\<lambda>ac.
           if unat (ac AND 0x0F) = 0
           then (if unat (drop_bit 4 ac) \<noteq> 15 then jpgReturn () else acLoop table (coefficient + 16))
           else jpgThen (jpegReadBits (unat (ac AND 0x0F)))
                  (\<lambda>_. acLoop table (coefficient + (unat (drop_bit 4 ac) + 1)))))"
        using True by (intro scanning scanning_huffman assms rec) auto
      then show ?thesis
        using True less.prems by (subst (1 2) acLoop.simps) (simp add: safely_def Let_def)
    next
      case False
      then show ?thesis using less.prems by (simp add: acLoop.simps [of table coefficient d])
    qed
  qed
  then show ?thesis by (simp add: safely_def)
qed

lemma scanning_block:
  "c < JPEG_MAX_COMPONENTS \<Longrightarrow> huffmanShape dcTable \<Longrightarrow> huffmanShape acTable \<Longrightarrow>
   safely_any sound (decodeBlock c dcTable acTable row column)"
  unfolding decodeBlock_def by (intro scanning scanning_huffman scanning_prediction scanning_acLoop)

lemma scanning_component:
  "c < JPEG_MAX_COMPONENTS \<Longrightarrow> safely_any sound (decodeComponent mcuY mcuX c)"
  unfolding decodeComponent_def Let_def
  by (rule safely_then [OF scanning_componentAt], assumption,
      rule safely_then [OF scanning_table], simp add: goodComponent_def,
      rule safely_then [OF scanning_table], simp add: goodComponent_def)
    (intro scanning_For scanning_block)

lemma scanning_clear: "safely_any sound clearPredictions"
proof (rule safelyI)
  fix d assume d: "sound d"
  have "list_all goodComponent (map (\<lambda>c. c\<lparr>jcDcPrediction := 0\<rparr>) (take n (jdComponents d)) @
      drop n (jdComponents d))" for n
    using d unfolding sound_def tablesInRange_good list_all_iff
    by (auto dest: in_set_takeD in_set_dropD simp: goodComponent_def)
  moreover have "length (map (\<lambda>c. c\<lparr>jcDcPrediction := 0\<rparr>) (take n (jdComponents d)) @ drop n (jdComponents d))
      = length (jdComponents d)" for n
    by (simp add: min_def)
  ultimately show "sound (snd (clearPredictions d)) \<and> fst (clearPredictions d) \<noteq> JOob \<and>
      (\<forall>a. fst (clearPredictions d) = JOk a \<longrightarrow> True)"
    using d by (auto simp: clearPredictions_def sound_def decoderShape_def tablesInRange_good
        simp del: length_append)
qed

lemma scanning_restart: "safely_any sound (restartPoint since)"
proof (rule safelyI)
  fix d assume d: "sound d"
  have "safely_any sound (jpgThen clearPredictions (\<lambda>_. jpgReturn (0 :: nat)))"
    by (intro scanning scanning_clear)
  then have "sound (snd (jpgThen clearPredictions (\<lambda>_. jpgReturn (0 :: nat)) e)) \<and>
      fst (jpgThen clearPredictions (\<lambda>_. jpgReturn (0 :: nat)) e) \<noteq> JOob" if "sound e" for e
    using that by (simp add: safely_def)
  with d show "sound (snd (restartPoint since d)) \<and> fst (restartPoint since d) \<noteq> JOob \<and>
      (\<forall>a. fst (restartPoint since d) = JOk a \<longrightarrow> True)"
    by (simp add: restartPoint_def arrayAt_def)
qed

lemma scanning_mcus: "safely_any sound (mcuLoop mcus since)"
proof (induction mcus since rule: mcuLoop.induct)
  case (2 mcuY mcuX mcus since)
  have "safely_any sound (\<lambda>d. jpgFor [0..<jdComponentCount d] (decodeComponent mcuY mcuX) d)"
  proof (rule safelyI)
    fix d assume d: "sound d"
    then have "safely_any sound (jpgFor [0..<jdComponentCount d] (decodeComponent mcuY mcuX))"
      by (intro scanning_For scanning_component) (auto simp: sound_def decoderShape_def)
    with d show "sound (snd (jpgFor [0..<jdComponentCount d] (decodeComponent mcuY mcuX) d)) \<and>
        fst (jpgFor [0..<jdComponentCount d] (decodeComponent mcuY mcuX) d) \<noteq> JOob \<and>
        (\<forall>a. fst (jpgFor [0..<jdComponentCount d] (decodeComponent mcuY mcuX) d) = JOk a \<longrightarrow> True)"
      by (simp add: safely_def)
  qed
  with 2 show ?case unfolding mcuLoop.simps by (intro safely_chain scanning_restart)
qed (simp add: scanning)

lemma scanning_scan: "safely_any sound jpegDecodeScan"
proof -
  have finish: "safely_any sound (\<lambda>d. (JOk (), d\<lparr>jdImage := (jdImage d)\<lparr>imComplete := True\<rparr>\<rparr>))"
    by (rule safely_update) (simp add: sound_def decoderShape_def imageShape_def tablesInRange_def)
  have clear: "sound (d\<lparr>jdImage := \<lparr>imBlocksW = w, imBlocksH = h, imComplete = False,
      imMean = replicate JPEG_DC_MAX_BLOCKS_Y (replicate JPEG_DC_MAX_BLOCKS_X 0)\<rparr>\<rparr>)"
    if "sound d" "w \<le> JPEG_DC_MAX_BLOCKS_X" "h \<le> JPEG_DC_MAX_BLOCKS_Y" for d w h
    using that by (simp add: sound_def decoderShape_def imageShape_def tablesInRange_def list_all_iff)
  have blocks: "safely_any sound (jpgThen (mcuLoop mcus 0)
      (\<lambda>_ d. (JOk (), d\<lparr>jdImage := (jdImage d)\<lparr>imComplete := True\<rparr>\<rparr>)))" for mcus
    by (intro safely_chain scanning_mcus finish)
  show ?thesis
    unfolding jpegDecodeScan_def
  proof (rule safely_then [OF scanning_componentAt])
    show "0 < JPEG_MAX_COMPONENTS" by (simp add: JPEG_MAX_COMPONENTS_def)
    fix component :: JpegComponent
    show "safely_any sound (\<lambda>d.
      (let mcusW = (jdWidth d + 8 * jdMaxHFactor d - 1) div (8 * jdMaxHFactor d);
           mcusH = (jdHeight d + 8 * jdMaxVFactor d - 1) div (8 * jdMaxVFactor d);
           lumaBlocksW = jcBlocksW component;
           lumaBlocksH = jcBlocksH component
       in if lumaBlocksW > JPEG_DC_MAX_BLOCKS_X \<or> lumaBlocksH > JPEG_DC_MAX_BLOCKS_Y then (JFail, d)
          else jpgThen (mcuLoop (List.product [0..<mcusH] [0..<mcusW]) 0)
                 (\<lambda>_ d. (JOk (), d\<lparr>jdImage := (jdImage d)\<lparr>imComplete := True\<rparr>\<rparr>))
                 (d\<lparr>jdImage := \<lparr>imBlocksW = lumaBlocksW, imBlocksH = lumaBlocksH, imComplete = False,
                    imMean = replicate JPEG_DC_MAX_BLOCKS_Y (replicate JPEG_DC_MAX_BLOCKS_X 0)\<rparr>\<rparr>)))"
      using clear blocks unfolding safely_def Let_def by (simp add: not_less)
  qed
qed

subsection \<open>The decoder\<close>

lemma decoderShape_new:
  "imageShape img \<Longrightarrow>
   decoderShape ((newDecoder bytes (img\<lparr>imBlocksW := 0, imBlocksH := 0, imComplete := False\<rparr>))\<lparr>jdPos := 2\<rparr>)"
  by (simp add: decoderShape_def newDecoder_def imageShape_def list_all_iff huffmanShape_def
      emptyHuffman_def JPEG_MAX_COMPONENTS_def)

definition freshImage :: JpegDcImage where
  "freshImage = \<lparr>imBlocksW = 0, imBlocksH = 0, imComplete = False,
     imMean = replicate JPEG_DC_MAX_BLOCKS_Y (replicate JPEG_DC_MAX_BLOCKS_X 0)\<rparr>"

lemma imageShape_fresh [simp]: "imageShape freshImage"
  by (simp add: imageShape_def freshImage_def list_all_iff)

text \<open>C23: Every access of the decoder to the file, the scan, its tables, its components and the image has
  a bounds test in the model.  Given an image of the shape of its type, whatever the bytes, the first that
  fails is one of the scan, and then the frame has named a quantisation table above 3 or the scan header a
  Huffman table above 3: every other index is kept in bounds by the checks of the code.\<close>

theorem jpegDcDecode_stays_in_bounds:
  assumes "imageShape img" and "fst (jpegDcDecode (Some bytes) (Some img)) = JOob"
  shows "\<exists>d. jpegSegments False
      ((newDecoder bytes (img\<lparr>imBlocksW := 0, imBlocksH := 0, imComplete := False\<rparr>))\<lparr>jdPos := 2\<rparr>)
      = (JOk (), d) \<and> \<not> tablesInRange d"
proof -
  let ?start = "(newDecoder bytes (img\<lparr>imBlocksW := 0, imBlocksH := 0, imComplete := False\<rparr>))\<lparr>jdPos := 2\<rparr>"
  obtain s d where s: "jpegSegments False ?start = (s, d)" by fastforce
  have d: "decoderShape d" "s \<noteq> JOob"
    using safelyD [OF safely_segments decoderShape_new [OF assms(1)] s] by auto
  have "fst (jpgThen (jpegSegments False) (\<lambda>_. jpegDecodeScan) ?start) = JOob"
    using assms(2) by (auto simp: jpegDcDecode_def arrayAt_def Let_def split: if_splits prod.splits)
  then have "s = JOk ()" and "fst (jpegDecodeScan d) = JOob"
    using d(2) by (auto simp: jpgThen_def s split: jres.splits)
  moreover from this have "\<not> sound d" using scanning_scan by (auto simp: safely_def)
  ultimately show ?thesis using s d(1) by (auto simp: sound_def)
qed

text \<open>A frame of one component, and a scan that names the Huffman table 4.\<close>

definition strayTableFile :: "u8 list" where
  "strayTableFile =
    [0xFF, 0xD8,
     0xFF, 0xC0, 0x00, 0x0B, 0x08, 0x00, 0x08, 0x00, 0x08, 0x01, 0x01, 0x11, 0x00,
     0xFF, 0xDA, 0x00, 0x08, 0x01, 0x01, 0x40, 0x00, 0x3F, 0x00]"

lemma strayTableFile_leaves: "fst (jpegDcDecode (Some strayTableFile) (Some freshImage)) = JOob"
  by code_simp

theorem jpegDcDecode_stays_in_bounds_witness:
  "\<exists>d. jpegSegments False
      ((newDecoder strayTableFile
          (freshImage\<lparr>imBlocksW := 0, imBlocksH := 0, imComplete := False\<rparr>))\<lparr>jdPos := 2\<rparr>)
      = (JOk (), d) \<and> \<not> tablesInRange d"
  by (rule jpegDcDecode_stays_in_bounds [OF imageShape_fresh strayTableFile_leaves])

end
