(* ===== verification/JpegDcEntropy.thy ===== *)
theory JpegDcEntropy
  imports JpegDcSafe
begin

text \<open>
  The entropy decoder of \<open>jpeg_dc.c\<close> against its meaning: the bit reader is a list of bits, the table
  walk inverts the canonical Huffman codes, and \<open>jpegExtend\<close> inverts the coding of differences.
\<close>

subsection \<open>The bits of a scan\<close>

fun entropyBytes :: "u8 list \<Rightarrow> u8 list" where
  "entropyBytes [] = []"
| "entropyBytes [b] = (if b = 0xFF then [] else [b])"
| "entropyBytes (b # c # cs) =
    (if b = 0xFF then (if c = 0 then b # entropyBytes cs else []) else b # entropyBytes (c # cs))"

definition wordBits :: "nat \<Rightarrow> u32 \<Rightarrow> nat list" where
  "wordBits n w = map (\<lambda>i. unat (drop_bit i w AND 1)) (rev [0..<n])"

definition scanBits :: "JpegDecoder \<Rightarrow> nat list" where
  "scanBits d = wordBits (jdBitCount d) (jdBitBuffer d) @
     concat (map (\<lambda>b. wordBits 8 (ucast b)) (entropyBytes (drop (jdScanPos d) (jdScan d))))"

definition bitsValue :: "nat list \<Rightarrow> int" where
  "bitsValue bits = foldl (\<lambda>acc b. 2 * acc + int b) 0 bits"

lemma wordBits_0 [simp]: "wordBits 0 w = []"
  by (simp add: wordBits_def)

lemma wordBits_Suc: "wordBits (Suc n) w = unat (drop_bit n w AND 1) # wordBits n w"
  by (simp add: wordBits_def)

lemma takeBit_scanBits:
  "0 < jdBitCount d \<Longrightarrow> takeBit d = (r, d') \<Longrightarrow> \<exists>b. r = JOk b \<and> scanBits d = b # scanBits d'"
  by (cases "jdBitCount d") (auto simp: takeBit_def Let_def scanBits_def wordBits_Suc)

lemma entropyBytes_drop:
  assumes "i < length bs" and "bs ! i \<noteq> 0xFF"
  shows "entropyBytes (drop i bs) = bs ! i # entropyBytes (drop (i + 1) bs)"
proof -
  have d: "drop i bs = bs ! i # drop (i + 1) bs" using assms(1) by (simp add: Cons_nth_drop_Suc)
  show ?thesis using assms(2) unfolding d by (cases "drop (i + 1) bs") auto
qed

lemma entropyBytes_stuffed:
  assumes "i + 1 < length bs" and "bs ! i = 0xFF"
  shows "entropyBytes (drop i bs) =
    (if bs ! (i + 1) = 0 then 0xFF # entropyBytes (drop (i + 2) bs) else [])"
proof -
  have d: "drop i bs = bs ! i # bs ! (i + 1) # drop (i + 2) bs"
    using assms(1) by (simp add: Cons_nth_drop_Suc)
  show ?thesis using assms(2) unfolding d by simp
qed

lemma wordBits_le: "list_all (\<lambda>b. b \<le> 1) (wordBits n w)"
proof -
  have "x AND 1 \<le> 1" for x :: u32 by (rule word_and_le1)
  then have "unat (x AND 1) \<le> 1" for x :: u32 by (simp add: word_le_nat_alt)
  then show ?thesis by (simp add: wordBits_def list_all_iff)
qed

lemma scanBits_le: "list_all (\<lambda>b. b \<le> 1) (scanBits d)"
  using wordBits_le by (auto simp: scanBits_def list_all_iff)

lemma jpegReadBit_bits:
  "(scanBits d = [] \<and> fst (jpegReadBit d) = JFail) \<or>
   (\<exists>b d'. jpegReadBit d = (JOk b, d') \<and> scanBits d = b # scanBits d')"
proof (cases "jdBitCount d = 0")
  case False
  then show ?thesis
    using takeBit_scanBits [of d] by (cases "takeBit d") (auto simp: jpegReadBit_def)
next
  case count: True
  let ?pos = "jdScanPos d"
  have load: "\<exists>b d'. takeBit (d\<lparr>jdScanPos := p, jdBitBuffer := ucast byte, jdBitCount := 8\<rparr>) = (JOk b, d') \<and>
      scanBits d = b # scanBits d'"
    if e: "entropyBytes (drop ?pos (jdScan d)) = byte # entropyBytes (drop p (jdScan d))" for p byte
  proof -
    let ?e = "d\<lparr>jdScanPos := p, jdBitBuffer := ucast byte, jdBitCount := 8\<rparr>"
    obtain r d' where t: "takeBit ?e = (r, d')" by fastforce
    have "scanBits d = scanBits ?e" using e count by (simp add: scanBits_def)
    with takeBit_scanBits [OF _ t] t show ?thesis by auto
  qed
  consider (finished) "length (jdScan d) \<le> ?pos"
    | (plain) "?pos < length (jdScan d)" "jdScan d ! ?pos \<noteq> 0xFF"
    | (cut) "?pos < length (jdScan d)" "jdScan d ! ?pos = 0xFF" "length (jdScan d) \<le> ?pos + 1"
    | (marked) "jdScan d ! ?pos = 0xFF" "?pos + 1 < length (jdScan d)"
    by linarith
  then show ?thesis
  proof cases
    case finished
    then show ?thesis using count by (simp add: jpegReadBit_def scanBits_def)
  next
    case plain
    then show ?thesis
      using load [OF entropyBytes_drop [OF plain]] plain(1) count
      by (simp add: jpegReadBit_def Let_def byteAt_eq)
  next
    case cut
    then have "drop ?pos (jdScan d) = [0xFF]" by (simp add: Cons_nth_drop_Suc [symmetric])
    then show ?thesis using cut count by (simp add: jpegReadBit_def Let_def scanBits_def byteAt_eq)
  next
    case marked
    show ?thesis
    proof (cases "jdScan d ! (?pos + 1) = 0")
      case True
      then have "entropyBytes (drop ?pos (jdScan d)) = 0xFF # entropyBytes (drop (?pos + 2) (jdScan d))"
        using entropyBytes_stuffed [OF marked(2,1)] by simp
      from load [OF this] show ?thesis
        using marked True count by (simp add: jpegReadBit_def Let_def byteAt_eq)
    next
      case False
      then show ?thesis
        using entropyBytes_stuffed [OF marked(2,1)] marked count
        by (simp add: jpegReadBit_def Let_def scanBits_def byteAt_eq)
    qed
  qed
qed

lemma jpegReadBit_le: "jpegReadBit d = (JOk b, d') \<Longrightarrow> b \<le> 1"
  using jpegReadBit_bits [of d] scanBits_le [of d] by auto

lemma acc_step:
  fixes acc :: int
  assumes "b \<le> 1" and "0 \<le> acc" and "acc * 2 ^ Suc n + 2 ^ Suc n \<le> 2 ^ 31"
  defines "acc' \<equiv> 2 * acc + int b"
  shows "0 \<le> acc'" "acc' * 2 ^ n + 2 ^ n \<le> 2 ^ 31" "cInt acc' = JOk acc'"
proof -
  show nonneg: "0 \<le> acc'" using assms by simp
  have "acc' * 2 ^ n + 2 ^ n \<le> (2 * acc + 1) * 2 ^ n + 2 ^ n"
    using assms(1) by (simp add: acc'_def)
  also have "\<dots> \<le> 2 ^ 31" using assms(3) by (simp add: algebra_simps)
  finally show le: "acc' * 2 ^ n + 2 ^ n \<le> 2 ^ 31" .
  have "acc' + 1 \<le> (acc' + 1) * 2 ^ n" using nonneg by (simp add: mult_le_cancel_left1)
  with le have "acc' < 2 ^ 31" by (simp add: algebra_simps)
  then show "cInt acc' = JOk acc'" using nonneg by (simp add: cInt_def)
qed

lemma readBits_list:
  assumes "length bits = n" and "scanBits d = bits @ rest" and "0 \<le> acc"
    and "acc * 2 ^ n + 2 ^ n \<le> 2 ^ 31"
  shows "\<exists>d'. readBits n acc d = (JOk (foldl (\<lambda>acc b. 2 * acc + int b) acc bits), d') \<and> scanBits d' = rest"
  using assms
proof (induction n arbitrary: bits acc d)
  case 0
  then show ?case by (simp add: jpgReturn_def)
next
  case (Suc n)
  then obtain b bs where bits: "bits = b # bs" by (cases bits) auto
  with jpegReadBit_bits [of d] Suc.prems(2) obtain d1 where
    d1: "jpegReadBit d = (JOk b, d1)" "scanBits d1 = bs @ rest" by auto
  note acc = acc_step [OF jpegReadBit_le [OF d1(1)] Suc.prems(3,4)]
  with Suc.IH [of bs d1 "2 * acc + int b"] bits Suc.prems(1) d1 show ?case
    by (simp add: jpgThen_def jpgInt_def)
qed

lemma readBits_short:
  "length (scanBits d) < n \<Longrightarrow> 0 \<le> acc \<Longrightarrow> acc * 2 ^ n + 2 ^ n \<le> 2 ^ 31 \<Longrightarrow>
   fst (readBits n acc d) = JFail"
proof (induction n arbitrary: acc d)
  case (Suc n)
  from jpegReadBit_bits [of d] show ?case
  proof
    assume "scanBits d = [] \<and> fst (jpegReadBit d) = JFail"
    then show ?thesis by (cases "jpegReadBit d") (simp add: jpgThen_def)
  next
    assume "\<exists>b d'. jpegReadBit d = (JOk b, d') \<and> scanBits d = b # scanBits d'"
    then obtain b d' where r: "jpegReadBit d = (JOk b, d')" "scanBits d = b # scanBits d'" by blast
    note acc = acc_step [OF jpegReadBit_le [OF r(1)] Suc.prems(2,3)]
    with Suc.IH [of d' "2 * acc + int b"] Suc.prems(1) r show ?thesis
      by (simp add: jpgThen_def jpgInt_def)
  qed
qed simp

subsection \<open>Canonical codes\<close>

text \<open>The length and the code of the symbol \<open>j\<close>, for the counts of the code lengths and the first
  code of the first of them: the canonical assignment of Annex C of the JPEG standard.\<close>

fun codeOf :: "nat list \<Rightarrow> int \<Rightarrow> nat \<Rightarrow> nat \<times> int" where
  "codeOf [] start j = (0, 0)"
| "codeOf (n # ns) start j =
    (if j < n then (1, start + int j)
     else (case codeOf ns (2 * (start + int n)) (j - n) of (m, c) \<Rightarrow> (Suc m, c)))"

lemma codeOf_ge:
  "j < sum_list ns \<Longrightarrow> codeOf ns start j = (m, c) \<Longrightarrow> 0 < m \<and> start * 2 ^ (m - 1) \<le> c"
proof (induction ns arbitrary: start j m c)
  case (Cons n ns)
  show ?case
  proof (cases "j < n")
    case True
    then show ?thesis using Cons.prems by auto
  next
    case False
    then obtain m' where m': "codeOf ns (2 * (start + int n)) (j - n) = (m', c)" "m = Suc m'"
      using Cons.prems(2) by (auto split: prod.splits)
    have IH: "0 < m'" "2 * (start + int n) * 2 ^ (m' - 1) \<le> c"
      using Cons.IH [OF _ m'(1)] False Cons.prems(1) by auto
    have "start * 2 ^ m' \<le> (start + int n) * 2 ^ m'" by (intro mult_right_mono) auto
    also have "\<dots> = 2 * (start + int n) * 2 ^ (m' - 1)" using IH(1) by (cases m') auto
    finally show ?thesis using IH m'(2) by simp
  qed
qed simp

text \<open>A longer code starts above all shorter ones.\<close>

lemma codeOf_longer:
  assumes "j < sum_list (n # ns)" and "codeOf (n # ns) start j = (m, c)" and "\<not> j < n"
  shows "(start + int n) * 2 ^ (m - 1) \<le> c" and "1 < m"
proof -
  obtain m' where m': "codeOf ns (2 * (start + int n)) (j - n) = (m', c)" "m = Suc m'"
    using assms(2,3) by (auto split: prod.splits)
  have ge: "0 < m'" "2 * (start + int n) * 2 ^ (m' - 1) \<le> c"
    using codeOf_ge [OF _ m'(1)] assms(1,3) by auto
  then show "1 < m" using m' by simp
  have "(start + int n) * 2 ^ m' = 2 * (start + int n) * 2 ^ (m' - 1)" using ge(1) by (cases m') auto
  with ge m' show "(start + int n) * 2 ^ (m - 1) \<le> c" by simp
qed

text \<open>The value of bits behind a prefix.\<close>

abbreviation bitsFrom :: "int \<Rightarrow> nat list \<Rightarrow> int" where
  "bitsFrom p bits \<equiv> foldl (\<lambda>acc b. 2 * acc + int b) p bits"

lemma bitsFrom_lt: "list_all (\<lambda>b. b \<le> 1) bits \<Longrightarrow> bitsFrom p bits < (p + 1) * 2 ^ length bits"
proof (induction bits arbitrary: p)
  case (Cons b bits)
  then have "bitsFrom (2 * p + int b) bits < (2 * p + int b + 1) * 2 ^ length bits" by simp
  also have "\<dots> \<le> (2 * (p + 1)) * 2 ^ length bits"
    using Cons.prems by (intro mult_right_mono) auto
  finally show ?case by (simp add: algebra_simps)
qed simp

lemma walk_decodes:
  assumes "map (\<lambda>l. (hfMinCode t ! l, hfMaxCode t ! l, hfValPtr t ! l)) lens = canonicalCodes ns start index"
    and "j < sum_list ns" and "codeOf ns start j = (length bits, c)" and "bitsFrom p bits = c"
    and "0 \<le> start" and "0 \<le> index" and "index + int j < 256" and "scanBits d = bits @ rest"
    and "list_all (\<lambda>l. l < length (hfMinCode t) \<and> l < length (hfMaxCode t) \<and> l < length (hfValPtr t)) lens"
    and "index + int (sum_list ns) \<le> int (length (hfSymbols t))"
  shows "\<exists>d'. huffmanWalk t lens p d = (JOk (hfSymbols t ! nat (index + int j)), d') \<and> scanBits d' = rest"
  using assms
proof (induction ns arbitrary: lens start index j bits p d)
  case (Cons n ns)
  let ?ns = "n # ns"
  have bits: "0 < length bits" using codeOf_ge [OF Cons.prems(2,3)] by simp
  obtain l ls where lens: "lens = l # ls" using Cons.prems(1) by (cases lens) (auto split: if_splits)
  obtain b bs where b: "bits = b # bs" using bits by (cases bits) auto
  obtain d1 where d1: "jpegReadBit d = (JOk b, d1)" "scanBits d1 = bs @ rest"
    using jpegReadBit_bits [of d] Cons.prems(8) b by auto
  let ?p = "2 * p + int b"
  show ?case
  proof (cases "j < n")
    case True
    then have row: "hfMinCode t ! l = start" "hfMaxCode t ! l = start + int n - 1" "hfValPtr t ! l = index"
      using Cons.prems(1) lens by auto
    have c: "bs = []" "?p = start + int j" using Cons.prems(3,4) True b by auto
    have "hfMaxCode t ! l \<ge> 0 \<and> ?p \<le> hfMaxCode t ! l" using row c True Cons.prems(5) by auto
    then show ?thesis
      using lens d1 row c True Cons.prems(6,7,9,10)
      by (simp add: jpgThen_def Let_def jpgGive_def huffmanSymbol_def byteAt_eq) (simp add: arrayAt_def)
  next
    case False
    obtain m' where m': "codeOf ns (2 * (start + int n)) (j - n) = (m', c)" "length bits = Suc m'"
      using Cons.prems(3) False by (auto split: prod.splits)
    have "list_all (\<lambda>b. b \<le> 1) (bs @ rest)" unfolding d1(2) [symmetric] by (rule scanBits_le)
    then have lt: "bitsFrom ?p bs < (?p + 1) * 2 ^ length bs" by (intro bitsFrom_lt) simp
    have "(start + int n) * 2 ^ length bs \<le> bitsFrom ?p bs"
      using codeOf_longer(1) [OF Cons.prems(2,3) False] Cons.prems(4) b by simp
    with lt have "(start + int n) * 2 ^ length bs < (?p + 1) * 2 ^ length bs" by linarith
    then have "start + int n < ?p + 1" by (rule mult_right_less_imp_less) simp
    then have above: "start + int n \<le> ?p" by simp
    have skip: "\<not> (hfMaxCode t ! l \<ge> 0 \<and> ?p \<le> hfMaxCode t ! l)"
      using Cons.prems(1) lens above by (auto split: if_splits)
    have rows: "map (\<lambda>l. (hfMinCode t ! l, hfMaxCode t ! l, hfValPtr t ! l)) ls =
        canonicalCodes ns (2 * (start + int n)) (index + int n)"
      using Cons.prems(1) lens by (auto split: if_splits)
    have "\<exists>d'. huffmanWalk t ls ?p d1 = (JOk (hfSymbols t ! nat (index + int n + int (j - n))), d') \<and>
        scanBits d' = rest"
      using Cons.IH [OF rows _ _ _ _ _ _ d1(2), of "j - n" ?p] m' b False lens Cons.prems(2,4-7,9,10) by simp
    moreover have "huffmanWalk t lens p d = huffmanWalk t ls ?p d1"
      using lens d1 skip Cons.prems(9) by (auto simp: jpgThen_def Let_def jpgGive_def byteAt_eq)
    ultimately show ?thesis using False by simp
  qed
qed simp

subsection \<open>What the decoder reads\<close>

text \<open>The bit reader is the head of the bits of the scan, where a stuffed zero behind 0xFF is
  dropped and any other marker ends the bits: it fails exactly when there are none left.\<close>

theorem jpegReadBit_refines:
  "(case scanBits d of
      [] \<Rightarrow> fst (jpegReadBit d) = JFail
    | b # bits \<Rightarrow> fst (jpegReadBit d) = JOk b \<and> scanBits (snd (jpegReadBit d)) = bits)"
  using jpegReadBit_bits [of d] by (auto split: list.split)

text \<open>Up to 30 bits are read most significant first, and the reader fails exactly when the scan
  has fewer of them.\<close>

theorem jpegReadBits_value:
  assumes "n \<le> 30"
  shows "if n \<le> length (scanBits d)
    then fst (jpegReadBits n d) = JOk (bitsValue (take n (scanBits d))) \<and>
         scanBits (snd (jpegReadBits n d)) = drop n (scanBits d)
    else fst (jpegReadBits n d) = JFail"
proof -
  have "(2 :: int) ^ n \<le> 2 ^ 30" using assms by (intro power_increasing) auto
  then have room: "0 * 2 ^ n + (2 :: int) ^ n \<le> 2 ^ 31" by simp
  show ?thesis
    using readBits_list [of "take n (scanBits d)" n d "drop n (scanBits d)" 0] room
      readBits_short [of d n 0]
    by (auto simp: jpegReadBits_def bitsValue_def)
qed

definition sampleScan :: JpegDecoder where
  "sampleScan = (newDecoder [] freshImage)\<lparr>jdScan := [0xA5, 0xFF, 0x00, 0xFF, 0xD9]\<rparr>"

theorem jpegReadBits_value_witness:
  "if 12 \<le> length (scanBits sampleScan)
   then fst (jpegReadBits 12 sampleScan) = JOk (bitsValue (take 12 (scanBits sampleScan))) \<and>
        scanBits (snd (jpegReadBits 12 sampleScan)) = drop 12 (scanBits sampleScan)
   else fst (jpegReadBits 12 sampleScan) = JFail"
  by (rule jpegReadBits_value) simp

text \<open>The bits of a code.\<close>

definition codeBits :: "nat \<Rightarrow> int \<Rightarrow> nat list" where
  "codeBits m c = map (\<lambda>i. nat (c div 2 ^ i mod 2)) (rev [0..<m])"

lemma codeBits_value: "0 \<le> c \<Longrightarrow> bitsFrom p (codeBits m c) = p * 2 ^ m + c mod 2 ^ m"
proof (induction m arbitrary: p)
  case (Suc m)
  have "c div 2 ^ m mod 2 * 2 ^ m + c mod 2 ^ m = c mod 2 ^ Suc m"
    using zmod_zmult2_eq [of 2 c "2 ^ m"] by (simp add: mult.commute)
  moreover have "codeBits (Suc m) c = nat (c div 2 ^ m mod 2) # codeBits m c" by (simp add: codeBits_def)
  moreover have "int (nat (c div 2 ^ m mod 2)) = c div 2 ^ m mod 2" by simp
  ultimately show ?case using Suc by (simp add: algebra_simps)
qed (simp add: codeBits_def)

lemma table_rows:
  "length counts = 16 \<Longrightarrow>
   map (\<lambda>l. (hfMinCode (huffmanOf counts symbols t) ! l, hfMaxCode (huffmanOf counts symbols t) ! l,
             hfValPtr (huffmanOf counts symbols t) ! l)) [1..<17] = canonicalCodes counts 0 0"
  by (rule nth_equalityI) (auto simp: huffmanOf_def Let_def)

lemma table_sizes:
  assumes "length counts = 16"
  shows "length (hfMinCode (huffmanOf counts symbols t)) = 17" "length (hfMaxCode (huffmanOf counts symbols t)) = 17"
    "length (hfValPtr (huffmanOf counts symbols t)) = 17"
  using assms by (simp_all add: huffmanOf_def Let_def)

text \<open>C25: The table the parser builds from code lengths and symbols decodes the canonical codes of
  Annex C: whenever the code of the \<open>j\<close>-th symbol is next in the scan, the decoder delivers that
  symbol and has consumed just its code.\<close>

theorem jpegDecodeHuffman_canonical:
  assumes "length counts = 16" and "sum_list counts = length symbols" and "length symbols \<le> 256"
    and "j < length symbols" and "codeOf counts 0 j = (m, c)" and "c < 2 ^ m"
    and "scanBits d = codeBits m c @ rest"
  shows "fst (jpegDecodeHuffman (huffmanOf counts symbols t) d) = JOk (symbols ! j) \<and>
    scanBits (snd (jpegDecodeHuffman (huffmanOf counts symbols t) d)) = rest"
proof -
  have c: "0 \<le> c" using codeOf_ge [of j counts 0 m c] assms(2,4,5) by simp
  have bits: "length (codeBits m c) = m" "bitsFrom 0 (codeBits m c) = c"
    using codeBits_value [OF c, of 0 m] assms(6) c by (simp_all add: codeBits_def)
  have "\<exists>d'. huffmanWalk (huffmanOf counts symbols t) [1..<17] 0 d =
      (JOk (hfSymbols (huffmanOf counts symbols t) ! nat (0 + int j)), d') \<and> scanBits d' = rest"
    using assms bits c table_sizes [OF assms(1)]
    by (intro walk_decodes [OF table_rows]) (auto simp: list_all_iff huffmanOf_def Let_def)
  moreover have "hfSymbols (huffmanOf counts symbols t) ! j = symbols ! j"
    using assms(4) by (simp add: huffmanOf_def Let_def nth_append)
  moreover have "hfPresent (huffmanOf counts symbols t)" by (simp add: huffmanOf_def Let_def)
  ultimately show ?thesis by (auto simp: jpegDecodeHuffman_def)
qed

definition sampleCounts :: "nat list" where
  "sampleCounts = [0, 1, 5, 1, 1, 1, 1, 1, 1, 0, 0, 0, 0, 0, 0, 0]"

definition sampleSymbols :: "u8 list" where
  "sampleSymbols = [0, 1, 2, 3, 4, 5, 6, 7, 8, 9, 10, 11]"

text \<open>The luma table of the standard, with the symbol 7 (code 11110) ahead.\<close>

definition sampleCode :: JpegDecoder where
  "sampleCode = (newDecoder [] freshImage)\<lparr>jdScan := [0xF5]\<rparr>"

lemma sampleCode_facts:
  "length sampleCounts = 16" "sum_list sampleCounts = length sampleSymbols" "length sampleSymbols \<le> 256"
  "7 < length sampleSymbols" "codeOf sampleCounts 0 7 = (5, 30)"
  "scanBits sampleCode = codeBits 5 30 @ [1, 0, 1]"
  by code_simp+

theorem jpegDecodeHuffman_canonical_witness:
  "fst (jpegDecodeHuffman (huffmanOf sampleCounts sampleSymbols emptyHuffman) sampleCode)
     = JOk (sampleSymbols ! 7) \<and>
   scanBits (snd (jpegDecodeHuffman (huffmanOf sampleCounts sampleSymbols emptyHuffman) sampleCode))
     = [1, 0, 1]"
  by (rule jpegDecodeHuffman_canonical [OF sampleCode_facts(1-5) _ sampleCode_facts(6)]) simp

text \<open>The bits the encoder of a difference of \<open>n\<close> bits appends to the symbol \<open>n\<close>.\<close>

definition differenceBits :: "nat \<Rightarrow> int \<Rightarrow> int" where
  "differenceBits n x = (if x < 0 then x + 2 ^ n - 1 else x)"

text \<open>\<open>jpegExtend\<close> inverts the coding of differences: every value of exactly \<open>n\<close> bits, of either
  sign, comes back from its bits.\<close>

theorem jpegExtend_inverts:
  assumes "0 < n" and "n \<le> 30" and "2 ^ (n - 1) \<le> \<bar>x\<bar>" and "\<bar>x\<bar> < 2 ^ n"
  shows "jpegExtend (differenceBits n x) n = JOk x"
proof -
  have two: "(2 :: int) ^ n = 2 * 2 ^ (n - 1)" using assms(1) by (cases n) auto
  have bound: "(2 :: int) ^ n \<le> 2 ^ 30" using assms(2) by (intro power_increasing) auto
  show ?thesis
    using assms two bound by (auto simp: jpegExtend_def differenceBits_def cInt_def)
qed

theorem jpegExtend_inverts_witness: "jpegExtend (differenceBits 5 (- 19)) 5 = JOk (- 19)"
  by (rule jpegExtend_inverts) simp_all

end
