(* ===== verification/Horizon.thy ===== *)
theory Horizon
  imports Effects
begin

text \<open>
  The kernel and the system services as the program calls them.  Neither is under \<open>src/\<close>, so
  both are the parameter \<open>Kernel\<close>: what a call answers is an arbitrary function of the call and of
  every call before it.  The machine records the calls and their replies, latest first; that record
  is what the theorems about the debug components speak of.  A \<open>Reply\<close> has a place for each kind of
  output parameter, and a call uses those it has.

  The error codes the program compares with or returns are parameters as well; \<open>kernelCodes\<close> says that they
  are codes of failures.

  A loop that waits for the kernel may go on for ever.  The model gives such loops fuel; one that runs
  out of it marks the machine as stuck, and no call is made after that.
\<close>

datatype EventType = EventCreateProcess | EventExitProcess | EventException | EventOther

record DebugEvent =
  evType :: EventType
  evThread :: u64
  evHardwareBreak :: bool
  evAttached :: bool
  evDataBreak :: bool
  evAddress :: u64

datatype ThreadParam = ParamState | ParamCurrentCore | ParamCoreMask

datatype InfoType = HeapRegionAddress | HeapRegionSize | AliasRegionAddress | AliasRegionSize
  | AslrRegionAddress | AslrRegionSize

datatype Call =
    SetThreadCoreMask u32 int u32
  | GetThreadCoreMask u32
  | GetCurrentProcessorNumber
  | SleepThread int
  | GetSystemTick
  | GetSystemTickFreq
  | SetHardwareBreakPoint u32 u64 u64
  | DebugActiveProcess u64
  | BreakDebugProcess u32
  | ContinueDebugEvent u32 u32 "u64 list"
  | GetDebugEvent u32
  | WaitSynchronization u32 int
  | CloseHandle u32
  | GetThreadList u32 nat
  | GetDebugThreadContext u32 u64
  | SetDebugThreadContext u32 u64 u32
  | GetDebugThreadParam u32 u64 ThreadParam
  | ReadDebugProcessMemory u32 u64 u64
  | WriteDebugProcessMemory u32 "u8 list" u64
  | QueryDebugProcessMemory u32 u64
  | GetInfo u32 InfoType
  | GetApplicationProcessId
  | GetProgramId u64
  | GetProcessModules u64 nat
  | GetDmntService
  | CloseDmntService
  | Dmnt nat "u64 list" "u8 list"
  | CaptureForDebug
  | ControllerStateWrites
  | ClickHome
  | OpenFile string string
  | RemoveFile string
  | MakeDirectory string
  | ThreadCreate
  | ThreadStart
  | ThreadClose
  | ThreadWaitForExit

record Reply =
  rpResult :: res
  rpValue :: u64
  rpValues :: "u64 list"
  rpBytes :: "u8 list"
  rpEvent :: DebugEvent

type_synonym Trace = "(Call \<times> Reply) list"

record Kernel =
  knReply :: "Trace \<Rightarrow> Call \<Rightarrow> Reply"
  knCurrentThread :: u32
  knCurrentProcess :: u32
  knInvalidHandle :: u32
  knTimedOut :: res
  knInvalidHandleError :: res
  knOwnedByAnother :: res
  knBadInput :: res
  knNotFound :: res
  knExited :: res
  knAlreadyExists :: res

definition kernelCodes :: "Kernel \<Rightarrow> bool" where
  "kernelCodes K \<longleftrightarrow> knTimedOut K \<noteq> 0 \<and> knInvalidHandleError K \<noteq> 0 \<and> knOwnedByAnother K \<noteq> 0 \<and>
     knBadInput K \<noteq> 0 \<and> knNotFound K \<noteq> 0 \<and> knExited K \<noteq> 0"

text \<open>The machine: the calls made, whether a loop is out of fuel, the flags by which the watch and
  trace components say that they own the debug handle, and whether the session of \<open>dmnt_client.c\<close>
  is open.\<close>

record Machine =
  mcTrace :: Trace
  mcStuck :: bool
  mcWatchActive :: bool
  mcTraceActive :: bool
  mcMultiTraceActive :: bool
  mcDmntInitialized :: bool

definition noReply :: Reply where
  "noReply = \<lparr>rpResult = 1, rpValue = 0, rpValues = [], rpBytes = [],
     rpEvent = \<lparr>evType = EventOther, evThread = 0, evHardwareBreak = False, evAttached = False, evDataBreak = False, evAddress = 0\<rparr>\<rparr>"

definition svc :: "Kernel \<Rightarrow> Call \<Rightarrow> ('m Machine_scheme, Reply) state" where
  "svc K c = State (\<lambda>m.
     if mcStuck m then (noReply, m)
     else (let r = knReply K (mcTrace m) c in (r, m\<lparr>mcTrace := (c, r) # mcTrace m\<rparr>)))"

definition svcResult :: "Kernel \<Rightarrow> Call \<Rightarrow> ('m Machine_scheme, res) state" where
  "svcResult K c = do { r \<leftarrow> svc K c; State_Monad.return (rpResult r) }"

definition outOfFuel :: "('m Machine_scheme, unit) state" where
  "outOfFuel = State (\<lambda>m. ((), m\<lparr>mcStuck := True\<rparr>))"

definition debugOwned :: "('m Machine_scheme, bool) state" where
  "debugOwned = State (\<lambda>m. (mcWatchActive m \<or> mcTraceActive m \<or> mcMultiTraceActive m, m))"

definition skip :: "('m Machine_scheme, unit) state" where
  "skip = State_Monad.return ()"

text \<open>What a successful read puts into a buffer of \<open>n\<close> bytes.\<close>

definition bytesRead :: "nat \<Rightarrow> Reply \<Rightarrow> u8 list" where
  "bytesRead n r = take n (rpBytes r @ replicate n 0)"

lemma wp_svc [simp]:
  "wp (svc K c) m Q \<longleftrightarrow>
     (if mcStuck m then Q noReply m
      else Q (knReply K (mcTrace m) c) (m\<lparr>mcTrace := (c, knReply K (mcTrace m) c) # mcTrace m\<rparr>))"
  by (simp add: wp_def svc_def Let_def)

lemma wp_svcResult [simp]:
  "wp (svcResult K c) m Q \<longleftrightarrow>
     (if mcStuck m then Q 1 m
      else Q (rpResult (knReply K (mcTrace m) c)) (m\<lparr>mcTrace := (c, knReply K (mcTrace m) c) # mcTrace m\<rparr>))"
  by (simp add: svcResult_def noReply_def)

lemma wp_outOfFuel [simp]: "wp outOfFuel m Q \<longleftrightarrow> Q () (m\<lparr>mcStuck := True\<rparr>)"
  by (simp add: wp_def outOfFuel_def)

lemma wp_debugOwned [simp]:
  "wp debugOwned m Q \<longleftrightarrow> Q (mcWatchActive m \<or> mcTraceActive m \<or> mcMultiTraceActive m) m"
  by (simp add: wp_def debugOwned_def)

lemma wp_skip [simp]: "wp skip m Q \<longleftrightarrow> Q () m"
  by (simp add: skip_def)

lemma obeys_skip [obey]: "obeys P skip"
  by (rule obeysI) simp

end
