(* ===== verification/HwBp.thy ===== *)
theory HwBp
  imports Horizon
begin

text \<open>
  \<open>debug_hwbp.c\<close>: the hardware breakpoint registers, which every core has its own copy of.
  Arrays are lists here, and the pointers are never null: a parallel pair or triple of arrays is a
  list of tuples.  An output variable of a call that fails keeps its value.
\<close>

definition DEBUG_HWBP_PIN_RETRY_NS :: int where "DEBUG_HWBP_PIN_RETRY_NS = 100000"
definition DEBUG_HWBP_PIN_ATTEMPTS :: nat where "DEBUG_HWBP_PIN_ATTEMPTS = 20000"
definition DEBUG_HWBP_CLEAR_RETRIES :: nat where "DEBUG_HWBP_CLEAR_RETRIES = 3"
definition DEBUG_HWBP_DEFAULT_CORE :: nat where "DEBUG_HWBP_DEFAULT_CORE = 3"
definition DEBUG_HWBP_BATCH_MAX :: nat where "DEBUG_HWBP_BATCH_MAX = 4"
definition DEBUG_HWBP_CORE_COUNT :: nat where "DEBUG_HWBP_CORE_COUNT = 4"
definition EVENT_TIMEOUT_NS :: int where "EVENT_TIMEOUT_NS = 20000000"

definition SET_SINGLE_STEP :: u32 where "SET_SINGLE_STEP = push_bit 30 1"
definition CLEAR_SINGLE_STEP :: u32 where "CLEAR_SINGLE_STEP = push_bit 31 1"
definition CONTINUE_EXCEPTION_HANDLED :: u32 where "CONTINUE_EXCEPTION_HANDLED = 1"
definition CONTINUE_ENABLE_EXCEPTION_EVENT :: u32 where "CONTINUE_ENABLE_EXCEPTION_EVENT = 2"
definition DEBUG_CONTINUE_FLAGS :: u32 where
  "DEBUG_CONTINUE_FLAGS = CONTINUE_EXCEPTION_HANDLED OR CONTINUE_ENABLE_EXCEPTION_EVENT OR 4"

subsection \<open>Programming the registers of all cores\<close>

function pinLoop :: "Kernel \<Rightarrow> nat \<Rightarrow> nat \<Rightarrow> ('m Machine_scheme, res) state" where
  "pinLoop K core attempt = do {
     r \<leftarrow> svc K GetCurrentProcessorNumber;
     if ucast (rpValue r) = (of_nat core :: u32) then State_Monad.return 0
     else if attempt + 1 \<ge> DEBUG_HWBP_PIN_ATTEMPTS then State_Monad.return (knBadInput K)
     else do { _ \<leftarrow> svc K (SleepThread DEBUG_HWBP_PIN_RETRY_NS); pinLoop K core (attempt + 1) }
   }"
  by pat_completeness auto
termination by (relation "measure (\<lambda>(K, core, attempt). DEBUG_HWBP_PIN_ATTEMPTS - attempt)") auto

declare pinLoop.simps [simp del]

definition pinToCore :: "Kernel \<Rightarrow> nat \<Rightarrow> ('m Machine_scheme, res) state" where
  "pinToCore K core = do {
     rc \<leftarrow> svcResult K (SetThreadCoreMask (knCurrentThread K) (int core) (push_bit core 1));
     if R_FAILED rc then State_Monad.return rc else pinLoop K core 0
   }"

type_synonym RegisterWrite = "u32 \<times> u64 \<times> u64"

fun setEach :: "Kernel \<Rightarrow> RegisterWrite list \<Rightarrow> ('m Machine_scheme, res) state" where
  "setEach K [] = State_Monad.return 0"
| "setEach K ((reg, control, v) # writes) = do {
     rc \<leftarrow> svcResult K (SetHardwareBreakPoint reg control v);
     if R_FAILED rc then State_Monad.return rc else setEach K writes
   }"

text \<open>The result, and the last core reached (-1 as \<open>None\<close>).\<close>

fun coreLoop :: "Kernel \<Rightarrow> RegisterWrite list \<Rightarrow> nat list \<Rightarrow> nat option \<Rightarrow>
    ('m Machine_scheme, res \<times> nat option) state" where
  "coreLoop K writes [] reached = State_Monad.return (0, reached)"
| "coreLoop K writes (core # cores) reached = do {
     rc \<leftarrow> pinToCore K core;
     if R_FAILED rc then State_Monad.return (rc, reached)
     else do {
       rc \<leftarrow> setEach K writes;
       if R_FAILED rc then State_Monad.return (rc, Some core) else coreLoop K writes cores (Some core)
     }
   }"

fun clearEach :: "Kernel \<Rightarrow> RegisterWrite list \<Rightarrow> ('m Machine_scheme, unit) state" where
  "clearEach K [] = skip"
| "clearEach K ((reg, control, v) # writes) = do {
     _ \<leftarrow> svc K (SetHardwareBreakPoint reg 0 0);
     clearEach K writes
   }"

fun rollbackLoop :: "Kernel \<Rightarrow> RegisterWrite list \<Rightarrow> nat list \<Rightarrow> ('m Machine_scheme, unit) state" where
  "rollbackLoop K writes [] = skip"
| "rollbackLoop K writes (core # cores) = do {
     rc \<leftarrow> pinToCore K core;
     _ \<leftarrow> (if R_FAILED rc then skip else clearEach K writes);
     rollbackLoop K writes cores
   }"

text \<open>The reply to \<open>GetThreadCoreMask\<close> is what the two variables hold behind the call, also when it failed.\<close>

definition restoreCore :: "Kernel \<Rightarrow> Reply \<Rightarrow> ('m Machine_scheme, unit) state" where
  "restoreCore K original = do {
     _ \<leftarrow> (let core = sint (ucast (rpValue original) :: u32);
              mask' = hd (rpValues original @ [0])
          in if core \<ge> 0 \<and> mask' \<noteq> 0
             then svc K (SetThreadCoreMask (knCurrentThread K) core (ucast mask'))
             else svc K (SetThreadCoreMask (knCurrentThread K) (int DEBUG_HWBP_DEFAULT_CORE)
                           (push_bit DEBUG_HWBP_DEFAULT_CORE 1)));
     skip
   }"

definition setRegistersOnAllCores :: "Kernel \<Rightarrow> RegisterWrite list \<Rightarrow> ('m Machine_scheme, res) state" where
  "setRegistersOnAllCores K writes =
    (if writes = [] then State_Monad.return (knBadInput K)
     else do {
       original \<leftarrow> svc K (GetThreadCoreMask (knCurrentThread K));
       (rc, reached) \<leftarrow> coreLoop K writes [0..<DEBUG_HWBP_CORE_COUNT] None;
       _ \<leftarrow> (case reached of
               None \<Rightarrow> skip
             | Some core \<Rightarrow> if R_FAILED rc then rollbackLoop K writes [0..<core + 1] else skip);
       _ \<leftarrow> restoreCore K original;
       State_Monad.return rc
     })"

definition debugHwBpSetAllCores :: "Kernel \<Rightarrow> u32 \<Rightarrow> u64 \<Rightarrow> u64 \<Rightarrow> ('m Machine_scheme, res) state" where
  "debugHwBpSetAllCores K reg control v = setRegistersOnAllCores K [(reg, control, v)]"

text \<open>The retries of the two clearing functions: \<open>n\<close> more attempts at most.\<close>

fun retryClear :: "Kernel \<Rightarrow> RegisterWrite list \<Rightarrow> nat \<Rightarrow> res \<Rightarrow> ('m Machine_scheme, res) state" where
  "retryClear K writes 0 rc = State_Monad.return rc"
| "retryClear K writes (Suc n) rc =
    (if R_FAILED rc
     then do {
       _ \<leftarrow> svc K (SleepThread 1000000);
       rc \<leftarrow> setRegistersOnAllCores K writes;
       retryClear K writes n rc
     }
     else State_Monad.return rc)"

definition debugHwBpClearAllCores :: "Kernel \<Rightarrow> u32 \<Rightarrow> ('m Machine_scheme, res) state" where
  "debugHwBpClearAllCores K reg = do {
     rc \<leftarrow> debugHwBpSetAllCores K reg 0 0;
     retryClear K [(reg, 0, 0)] (DEBUG_HWBP_CLEAR_RETRIES - 1) rc
   }"

definition debugHwBpClearRegistersAllCores :: "Kernel \<Rightarrow> u32 list \<Rightarrow> ('m Machine_scheme, res) state" where
  "debugHwBpClearRegistersAllCores K registers =
    (if registers = [] \<or> length registers > 16 then State_Monad.return (knBadInput K)
     else (let writes = map (\<lambda>reg. (reg, 0, 0)) registers
           in do {
             rc \<leftarrow> setRegistersOnAllCores K writes;
             retryClear K writes (DEBUG_HWBP_CLEAR_RETRIES - 1) rc
           }))"

subsection \<open>Probing\<close>

text \<open>The last of the registers \<open>i, i + 1, ...\<close>, \<open>n\<close> of them, before the first the kernel refuses.\<close>

fun probeUp :: "Kernel \<Rightarrow> nat \<Rightarrow> nat \<Rightarrow> nat option \<Rightarrow> ('m Machine_scheme, nat option) state" where
  "probeUp K i 0 found = State_Monad.return found"
| "probeUp K i (Suc n) found = do {
     rc \<leftarrow> svcResult K (SetHardwareBreakPoint (of_nat i) 0 0);
     if R_FAILED rc then State_Monad.return found else probeUp K (i + 1) n (Some i)
   }"

definition contextControl :: u64 where
  "contextControl = push_bit 20 3 OR push_bit 16 0 OR push_bit 5 0xF OR 1"

text \<open>From the register \<open>n - 1\<close> down to 0.\<close>

fun probeDown :: "Kernel \<Rightarrow> nat \<Rightarrow> nat option \<Rightarrow> ('m Machine_scheme, nat option) state" where
  "probeDown K 0 found = State_Monad.return found"
| "probeDown K (Suc i) found = do {
     rc \<leftarrow> svcResult K (SetHardwareBreakPoint (of_nat i) contextControl (ucast (knCurrentProcess K)));
     _ \<leftarrow> svc K (SetHardwareBreakPoint (of_nat i) 0 0);
     if R_FAILED rc \<and> rc \<noteq> knInvalidHandleError K then State_Monad.return found
     else probeDown K i (Some i)
   }"

text \<open>The result with both slots, which are written on success only.\<close>

definition debugHwBpProbeContextSlots :: "Kernel \<Rightarrow> ('m Machine_scheme, res \<times> u32 \<times> u32) state" where
  "debugHwBpProbeContextSlots K = do {
     lastInstruction \<leftarrow> probeUp K 0 16 None;
     (case lastInstruction of
        None \<Rightarrow> State_Monad.return (knNotFound K, 0, 0)
      | Some i \<Rightarrow> do {
          firstContext \<leftarrow> probeDown K (i + 1) None;
          (case firstContext of
             None \<Rightarrow> State_Monad.return (knNotFound K, 0, 0)
           | Some c \<Rightarrow> State_Monad.return (0, of_nat c, of_nat (c + 1)))
        })
   }"

fun probeInstructionSlot :: "Kernel \<Rightarrow> u32 \<Rightarrow> nat \<Rightarrow> nat \<Rightarrow> ('m Machine_scheme, res \<times> u32) state" where
  "probeInstructionSlot K contextSlot i 0 = State_Monad.return (knNotFound K, 0)"
| "probeInstructionSlot K contextSlot i (Suc n) = do {
     rc \<leftarrow> svcResult K (SetHardwareBreakPoint (of_nat i) 0 0);
     if R_FAILED rc then State_Monad.return (knNotFound K, 0)
     else if of_nat i \<noteq> contextSlot then State_Monad.return (0, of_nat i)
     else probeInstructionSlot K contextSlot (i + 1) n
   }"

definition debugHwBpProbeInstructionSlot :: "Kernel \<Rightarrow> u32 \<Rightarrow> ('m Machine_scheme, res \<times> u32) state" where
  "debugHwBpProbeInstructionSlot K contextSlot = probeInstructionSlot K contextSlot 0 16"

fun instructionSlots :: "Kernel \<Rightarrow> u32 \<Rightarrow> nat \<Rightarrow> nat \<Rightarrow> nat \<Rightarrow> u32 list \<Rightarrow> ('m Machine_scheme, u32 list) state" where
  "instructionSlots K contextSlot maxSlots i 0 slots = State_Monad.return slots"
| "instructionSlots K contextSlot maxSlots i (Suc n) slots =
    (if length slots \<ge> maxSlots then State_Monad.return slots
     else do {
       rc \<leftarrow> svcResult K (SetHardwareBreakPoint (of_nat i) 0 0);
       if R_FAILED rc then State_Monad.return slots
       else instructionSlots K contextSlot maxSlots (i + 1) n
              (if of_nat i \<noteq> contextSlot then slots @ [of_nat i] else slots)
     })"

definition debugHwBpProbeInstructionSlots :: "Kernel \<Rightarrow> u32 \<Rightarrow> nat \<Rightarrow> ('m Machine_scheme, res \<times> u32 list) state" where
  "debugHwBpProbeInstructionSlots K contextSlot maxSlots =
    (if maxSlots = 0 then State_Monad.return (knBadInput K, [])
     else do {
       slots \<leftarrow> instructionSlots K contextSlot maxSlots 0 16 [];
       State_Monad.return (if slots \<noteq> [] then 0 else knNotFound K, slots)
     })"

definition debugHwBpProbeDataRegister :: "Kernel \<Rightarrow> ('m Machine_scheme, res \<times> u32) state" where
  "debugHwBpProbeDataRegister K = do {
     rc \<leftarrow> svcResult K (SetHardwareBreakPoint 16 0 0);
     State_Monad.return (if R_FAILED rc then (knNotFound K, 0) else (0, 16))
   }"

subsection \<open>Arming\<close>

definition debugHwBpSetContext :: "Kernel \<Rightarrow> u32 \<Rightarrow> u32 \<Rightarrow> ('m Machine_scheme, res) state" where
  "debugHwBpSetContext K contextSlot debugHandle =
     debugHwBpSetAllCores K contextSlot contextControl (ucast debugHandle)"

definition instructionControl :: "u32 \<Rightarrow> bool \<Rightarrow> u64" where
  "instructionControl contextSlot enabled =
     push_bit 20 1 OR push_bit 16 (ucast contextSlot) OR push_bit 5 0xF OR (if enabled then 1 else 0)"

definition debugHwBpSetInstruction :: "Kernel \<Rightarrow> u32 \<Rightarrow> u32 \<Rightarrow> u64 \<Rightarrow> ('m Machine_scheme, res) state" where
  "debugHwBpSetInstruction K instructionSlot contextSlot address =
     debugHwBpSetAllCores K instructionSlot (instructionControl contextSlot (address \<noteq> 0)) address"

text \<open>The writes for one process; \<open>None\<close> when a slot or an address is refused.\<close>

fun traceWrites :: "u32 \<Rightarrow> u32 list \<Rightarrow> (u32 \<times> u64) list \<Rightarrow> RegisterWrite list option" where
  "traceWrites contextSlot prior [] = Some []"
| "traceWrites contextSlot prior ((slot, address) # targets) =
    (if slot = contextSlot \<or> address = 0 \<or> address AND 3 \<noteq> 0 then None
     else if slot \<in> set prior then None
     else map_option (\<lambda>ws. (slot, instructionControl contextSlot True, address) # ws)
            (traceWrites contextSlot (prior @ [slot]) targets))"

definition debugHwBpArmInstructionTrace ::
  "Kernel \<Rightarrow> u32 \<Rightarrow> u32 \<Rightarrow> (u32 \<times> u64) list \<Rightarrow> ('m Machine_scheme, res) state" where
  "debugHwBpArmInstructionTrace K contextSlot debugHandle targets =
    (if targets = [] \<or> length targets > DEBUG_HWBP_BATCH_MAX then State_Monad.return (knBadInput K)
     else
       (case traceWrites contextSlot [] targets of
          None \<Rightarrow> State_Monad.return (knBadInput K)
        | Some writes \<Rightarrow>
            setRegistersOnAllCores K ((contextSlot, contextControl, ucast debugHandle) # writes)))"

fun dualWrites :: "u32 \<times> u32 \<Rightarrow> (u32 \<times> u64) list \<Rightarrow> (u32 \<times> u64 \<times> u32) list \<Rightarrow> RegisterWrite list option" where
  "dualWrites contexts prior [] = Some []"
| "dualWrites contexts prior ((slot, address, process) # targets) =
    (if process \<ge> 2 \<or> address = 0 \<or> address AND 3 \<noteq> 0 \<or> slot = fst contexts \<or> slot = snd contexts
     then None
     else if list_ex (\<lambda>(s, a). s = slot \<or> a = address) prior then None
     else map_option
            (\<lambda>ws. (slot, instructionControl (if process = 0 then fst contexts else snd contexts) True, address) # ws)
            (dualWrites contexts (prior @ [(slot, address)]) targets))"

definition debugHwBpArmDualProcessInstructionTrace ::
  "Kernel \<Rightarrow> u32 \<times> u32 \<Rightarrow> u32 \<times> u32 \<Rightarrow> (u32 \<times> u64 \<times> u32) list \<Rightarrow> ('m Machine_scheme, res) state" where
  "debugHwBpArmDualProcessInstructionTrace K contexts handles targets =
    (if targets = [] \<or> length targets > DEBUG_HWBP_BATCH_MAX \<or> fst contexts = snd contexts
     then State_Monad.return (knBadInput K)
     else
       (case dualWrites contexts [] targets of
          None \<Rightarrow> State_Monad.return (knBadInput K)
        | Some writes \<Rightarrow>
            setRegistersOnAllCores K
              ((fst contexts, contextControl, ucast (fst handles))
               # (snd contexts, contextControl, ucast (snd handles)) # writes)))"

definition debugHwBpIsValidWatchPoint :: "u64 \<Rightarrow> u64 \<Rightarrow> bool" where
  "debugHwBpIsValidWatchPoint address size' =
    (if size' = 0 then False
     else if size' \<le> 8 then address AND NOT 7 = (address + size' - 1) AND NOT 7
     else if size' > 0x80000000 then False
     else if size' AND (size' - 1) \<noteq> 0 then False
     else address AND (size' - 1) = 0)"

text \<open>The control and the value of a watchpoint.  \<open>lsc\<close> is 1 for reads and 2 for writes.\<close>

definition watchControl :: "u32 \<Rightarrow> u64 \<Rightarrow> u64 \<Rightarrow> u8 \<Rightarrow> u64 \<times> u64" where
  "watchControl contextSlot address size' lsc =
    (let (bas, mask', address') =
       (if size' \<le> 8
        then (ucast (push_bit (unat (address AND 7)) (push_bit (unat size') 1 - 1 :: u32)) :: u8, 0 :: u8,
              address AND NOT 7)
        else (0xFF, of_nat (length (filter (bit (size' - 1)) [0..<64])), address))
     in (push_bit 24 (ucast mask') OR push_bit 16 (ucast contextSlot) OR push_bit 5 (ucast bas)
           OR push_bit 3 (ucast lsc) OR (if lsc \<noteq> 0 then 1 else 0),
         address'))"

definition debugHwBpSetData ::
  "Kernel \<Rightarrow> u32 \<Rightarrow> u32 \<Rightarrow> u64 \<Rightarrow> u64 \<Rightarrow> bool \<Rightarrow> bool \<Rightarrow> ('m Machine_scheme, res) state" where
  "debugHwBpSetData K dataSlot contextSlot address size' readAccess writeAccess =
    (let lsc = (if readAccess then 1 else 0) OR (if writeAccess then 2 else 0)
     in if lsc \<noteq> 0 \<and> \<not> debugHwBpIsValidWatchPoint address size' then State_Monad.return (knBadInput K)
        else (case watchControl contextSlot address size' lsc of
                (control, v) \<Rightarrow> debugHwBpSetAllCores K dataSlot control v))"

subsection \<open>Stopping and stepping\<close>

definition debugHwBpContinueAll :: "Kernel \<Rightarrow> u32 \<Rightarrow> ('m Machine_scheme, res) state" where
  "debugHwBpContinueAll K debugHandle =
     svcResult K (ContinueDebugEvent debugHandle DEBUG_CONTINUE_FLAGS [0])"

text \<open>Events are read until there are none; the result says whether there was one.\<close>

fun drainEvents :: "Kernel \<Rightarrow> nat \<Rightarrow> u32 \<Rightarrow> bool \<Rightarrow> ('m Machine_scheme, bool) state" where
  "drainEvents K 0 debugHandle seen = do { _ \<leftarrow> outOfFuel; State_Monad.return seen }"
| "drainEvents K (Suc fuel) debugHandle seen = do {
     rc \<leftarrow> svcResult K (GetDebugEvent debugHandle);
     if R_FAILED rc then State_Monad.return seen else drainEvents K fuel debugHandle True
   }"

text \<open>The wait for the stop: its error, or whether the stop was seen before the deadline.\<close>

fun quiesceLoop :: "Kernel \<Rightarrow> nat \<Rightarrow> u32 \<Rightarrow> u64 \<Rightarrow> ('m Machine_scheme, res) state" where
  "quiesceLoop K 0 debugHandle deadline = do { _ \<leftarrow> outOfFuel; State_Monad.return (knTimedOut K) }"
| "quiesceLoop K (Suc fuel) debugHandle deadline = do {
     tick \<leftarrow> svc K GetSystemTick;
     if rpValue tick < deadline
     then do {
       rc \<leftarrow> svcResult K (WaitSynchronization debugHandle EVENT_TIMEOUT_NS);
       if rc = knTimedOut K then quiesceLoop K fuel debugHandle deadline
       else if R_FAILED rc then State_Monad.return rc
       else do {
         stopSeen \<leftarrow> drainEvents K fuel debugHandle False;
         if stopSeen then State_Monad.return 0 else quiesceLoop K fuel debugHandle deadline
       }
     }
     else State_Monad.return (knTimedOut K)
   }"

definition debugHwBpQuiesce :: "Kernel \<Rightarrow> nat \<Rightarrow> u32 \<Rightarrow> bool \<Rightarrow> ('m Machine_scheme, res) state" where
  "debugHwBpQuiesce K fuel debugHandle exceptionPending =
    (if \<not> exceptionPending
     then do {
       rc \<leftarrow> svcResult K (BreakDebugProcess debugHandle);
       if R_FAILED rc then State_Monad.return rc
       else do {
         tick \<leftarrow> svc K GetSystemTick;
         freq \<leftarrow> svc K GetSystemTickFreq;
         quiesceLoop K fuel debugHandle (rpValue tick + rpValue freq)
       }
     }
     else do { _ \<leftarrow> drainEvents K fuel debugHandle False; State_Monad.return 0 })"

text \<open>The events behind one wait: the result, and whether the step event was among them.\<close>

fun stepEvents :: "Kernel \<Rightarrow> nat \<Rightarrow> u32 \<Rightarrow> u64 \<Rightarrow> ('m Machine_scheme, res \<times> bool) state" where
  "stepEvents K 0 debugHandle threadId = do { _ \<leftarrow> outOfFuel; State_Monad.return (0, False) }"
| "stepEvents K (Suc fuel) debugHandle threadId = do {
     r \<leftarrow> svc K (GetDebugEvent debugHandle);
     if R_FAILED (rpResult r) then State_Monad.return (0, False)
     else if evType (rpEvent r) = EventExitProcess then State_Monad.return (knNotFound K, False)
     else if evType (rpEvent r) = EventException \<and> evThread (rpEvent r) = threadId \<and> evHardwareBreak (rpEvent r)
     then State_Monad.return (0, True)
     else stepEvents K fuel debugHandle threadId
   }"

fun stepLoop :: "Kernel \<Rightarrow> nat \<Rightarrow> u32 \<Rightarrow> u64 \<Rightarrow> u64 \<Rightarrow> ('m Machine_scheme, res \<times> bool) state" where
  "stepLoop K 0 debugHandle threadId deadline = do { _ \<leftarrow> outOfFuel; State_Monad.return (0, False) }"
| "stepLoop K (Suc fuel) debugHandle threadId deadline = do {
     tick \<leftarrow> svc K GetSystemTick;
     if rpValue tick < deadline
     then do {
       rc \<leftarrow> svcResult K (WaitSynchronization debugHandle EVENT_TIMEOUT_NS);
       if rc = knTimedOut K then stepLoop K fuel debugHandle threadId deadline
       else if R_FAILED rc then State_Monad.return (rc, False)
       else do {
         (rc, stepEventSeen) \<leftarrow> stepEvents K fuel debugHandle threadId;
         if R_FAILED rc \<or> stepEventSeen then State_Monad.return (rc, stepEventSeen)
         else stepLoop K fuel debugHandle threadId deadline
       }
     }
     else State_Monad.return (0, False)
   }"

text \<open>The step itself, up to \<open>clearStep\<close>.\<close>

definition awaitStep :: "Kernel \<Rightarrow> nat \<Rightarrow> u32 \<Rightarrow> u64 \<Rightarrow> ('m Machine_scheme, res) state" where
  "awaitStep K fuel debugHandle threadId = do {
     tick \<leftarrow> svc K GetSystemTick;
     freq \<leftarrow> svc K GetSystemTickFreq;
     (rc, stepEventSeen) \<leftarrow> stepLoop K fuel debugHandle threadId (rpValue tick + rpValue freq * 5);
     if R_SUCCEEDED rc \<and> \<not> stepEventSeen
     then do {
       stopRc \<leftarrow> debugHwBpQuiesce K fuel debugHandle False;
       State_Monad.return (if R_SUCCEEDED stopRc then knTimedOut K else stopRc)
     }
     else State_Monad.return rc
   }"

definition debugHwBpStepOverInstruction ::
  "Kernel \<Rightarrow> nat \<Rightarrow> u32 \<Rightarrow> u64 \<Rightarrow> u32 \<Rightarrow> u32 \<Rightarrow> u64 \<Rightarrow> ('m Machine_scheme, res) state" where
  "debugHwBpStepOverInstruction K fuel debugHandle threadId instructionSlot contextSlot address =
    (if debugHandle = knInvalidHandle K \<or> threadId = 0 \<or> address = 0
     then State_Monad.return (knBadInput K)
     else do {
       rc \<leftarrow> debugHwBpClearAllCores K instructionSlot;
       if R_FAILED rc then State_Monad.return rc
       else do {
         rc \<leftarrow> svcResult K (SetDebugThreadContext debugHandle threadId SET_SINGLE_STEP);
         rc \<leftarrow> (if R_FAILED rc then State_Monad.return rc
               else do {
                 rc \<leftarrow> svcResult K (ContinueDebugEvent debugHandle
                        (CONTINUE_EXCEPTION_HANDLED OR CONTINUE_ENABLE_EXCEPTION_EVENT) [threadId]);
                 rc \<leftarrow> (if R_FAILED rc then State_Monad.return rc else awaitStep K fuel debugHandle threadId);
                 clearRc \<leftarrow> svcResult K (SetDebugThreadContext debugHandle threadId CLEAR_SINGLE_STEP);
                 State_Monad.return (if R_FAILED clearRc \<and> R_SUCCEEDED rc then clearRc else rc)
               });
         armRc \<leftarrow> debugHwBpSetInstruction K instructionSlot contextSlot address;
         State_Monad.return (if R_FAILED armRc \<and> R_SUCCEEDED rc then armRc else rc)
       }
     })"

end
