(* ===== verification/HwBpCalls.thy ===== *)
theory HwBpCalls
  imports HwBp
begin

text \<open>
  An invariant that every call keeps is kept by all the operations on the breakpoint registers: they only make calls.
\<close>

locale call_invariant =
  fixes K :: Kernel and P :: "'m Machine_scheme \<Rightarrow> bool"
  assumes call: "obeys P (svc K c)" and fuel: "obeys P outOfFuel"
begin

lemma callResult: "obeys P (svcResult K c)"
  unfolding svcResult_def by (intro obey call)

lemmas calls = obey call callResult fuel

lemma pinLoop: "obeys P (pinLoop K core attempt)"
proof (induction "DEBUG_HWBP_PIN_ATTEMPTS - attempt" arbitrary: attempt rule: less_induct)
  case less
  have again: "obeys P (pinLoop K core (attempt + 1))" if "\<not> attempt + 1 \<ge> DEBUG_HWBP_PIN_ATTEMPTS"
    using that by (intro less) auto
  show ?case
    by (subst pinLoop.simps) (intro calls again)
qed

lemma setEach: "obeys P (setEach K writes)"
  by (induction writes) (auto intro!: calls)

lemma clearEach: "obeys P (clearEach K writes)"
  by (induction writes) (auto intro!: calls)

lemma pinToCore: "obeys P (pinToCore K core)"
  unfolding pinToCore_def by (intro calls pinLoop)

lemma coreLoop: "obeys P (coreLoop K writes cores reached)"
  by (induction cores arbitrary: reached) (auto intro!: calls pinToCore setEach)

lemma rollbackLoop: "obeys P (rollbackLoop K writes cores)"
  by (induction cores) (auto intro!: calls pinToCore clearEach)

lemma setRegisters: "obeys P (setRegistersOnAllCores K writes)"
  unfolding setRegistersOnAllCores_def restoreCore_def Let_def
  by (auto intro!: calls coreLoop rollbackLoop split: option.split)

lemma retryClear: "obeys P (retryClear K writes n rc)"
  by (induction n arbitrary: rc) (auto intro!: calls setRegisters)

lemma clearAll: "obeys P (debugHwBpClearAllCores K reg)" "obeys P (debugHwBpClearRegistersAllCores K rs)"
  unfolding debugHwBpClearAllCores_def debugHwBpSetAllCores_def debugHwBpClearRegistersAllCores_def Let_def
  by (intro calls setRegisters retryClear)+

lemma probeContext: "obeys P (debugHwBpProbeContextSlots K)"
proof -
  have up: "obeys P (probeUp K i n found)" for i n found
    by (induction n arbitrary: i found) (auto intro!: calls)
  have down: "obeys P (probeDown K n found)" for n found
    by (induction n arbitrary: found) (auto intro!: calls)
  show ?thesis
    unfolding debugHwBpProbeContextSlots_def
    by (auto intro!: calls up down simp del: probeDown.simps split: option.split)
qed

lemma probeInstructions: "obeys P (debugHwBpProbeInstructionSlots K slot n)"
proof -
  have "obeys P (instructionSlots K slot n i k slots)" for i k slots
    by (induction k arbitrary: i slots) (auto intro!: calls)
  then show ?thesis
    unfolding debugHwBpProbeInstructionSlots_def by (intro calls)
qed

lemma probeData: "obeys P (debugHwBpProbeDataRegister K)"
  unfolding debugHwBpProbeDataRegister_def by (intro calls)

lemma setContext: "obeys P (debugHwBpSetContext K slot h)"
  unfolding debugHwBpSetContext_def debugHwBpSetAllCores_def by (rule setRegisters)

lemma setInstruction: "obeys P (debugHwBpSetInstruction K slot ctx address)"
  unfolding debugHwBpSetInstruction_def debugHwBpSetAllCores_def by (rule setRegisters)

lemma setData: "obeys P (debugHwBpSetData K slot ctx address n r w)"
  unfolding debugHwBpSetData_def debugHwBpSetAllCores_def Let_def by (intro calls setRegisters)

lemma continueAll: "obeys P (debugHwBpContinueAll K h)"
  unfolding debugHwBpContinueAll_def by (rule callResult)

lemma drainEvents: "obeys P (drainEvents K n h s)"
  by (induction n arbitrary: s) (auto intro!: calls)

lemma quiesce: "obeys P (debugHwBpQuiesce K n h pending)"
proof -
  have "obeys P (quiesceLoop K n h d)" for n d
    by (induction n) (auto intro!: calls drainEvents)
  then show ?thesis
    unfolding debugHwBpQuiesce_def by (intro calls drainEvents)
qed

lemma armTrace: "obeys P (debugHwBpArmInstructionTrace K ctx h targets)"
  unfolding debugHwBpArmInstructionTrace_def by (auto intro!: calls setRegisters split: option.split)

lemma awaitStep: "obeys P (awaitStep K n h thread)"
proof -
  have events: "obeys P (stepEvents K n h thread)" for n
    by (induction n) (auto intro!: calls)
  have "obeys P (stepLoop K n h thread d)" for n d
    by (induction n) (auto intro!: calls events)
  then show ?thesis
    unfolding awaitStep_def by (intro calls quiesce)
qed

lemma stepOver: "obeys P (debugHwBpStepOverInstruction K n h thread slot ctx address)"
  unfolding debugHwBpStepOverInstruction_def by (intro calls clearAll setInstruction awaitStep)

end

end
