(* ===== verification/HwBpRegisters.thy ===== *)
theory HwBpRegisters
  imports HwBp HwBpCalls
begin

text \<open>
  What programming the breakpoint registers leaves in them.  The registers are read off the calls made so far:
  a successful write goes to the registers of the core the thread was last seen on.
\<close>

fun currentCore :: "Trace \<Rightarrow> u32 option" where
  "currentCore [] = None"
| "currentCore ((c, r) # t) = (if c = GetCurrentProcessorNumber then Some (ucast (rpValue r)) else currentCore t)"

type_synonym Registers = "u32 \<Rightarrow> (u64 \<times> u64) option"

fun registersOf :: "Trace \<Rightarrow> u32 \<Rightarrow> Registers" where
  "registersOf [] core = (\<lambda>_. None)"
| "registersOf ((c, r) # t) core =
    (case c of
       SetHardwareBreakPoint reg control v \<Rightarrow>
         if rpResult r = 0 \<and> currentCore t = Some core then (registersOf t core)(reg \<mapsto> (control, v))
         else registersOf t core
     | _ \<Rightarrow> registersOf t core)"

fun applyWrites :: "RegisterWrite list \<Rightarrow> Registers \<Rightarrow> Registers" where
  "applyWrites [] regs = regs"
| "applyWrites ((reg, control, v) # writes) regs = applyWrites writes (regs(reg \<mapsto> (control, v)))"

abbreviation regs :: "'m Machine_scheme \<Rightarrow> u32 \<Rightarrow> Registers" where
  "regs m \<equiv> registersOf (mcTrace m)"

abbreviation running :: "'m Machine_scheme \<Rightarrow> bool" where
  "running m \<equiv> \<not> mcStuck m"

definition unchanged :: "'m Machine_scheme \<Rightarrow> 'm Machine_scheme \<Rightarrow> bool" where
  "unchanged m m' \<longleftrightarrow> running m' \<and> regs m' = regs m"

lemma registersOf_calls [simp]:
  "registersOf ((GetCurrentProcessorNumber, r) # t) = registersOf t"
  "registersOf ((SleepThread n, r) # t) = registersOf t"
  "registersOf ((SetThreadCoreMask h core msk, r) # t) = registersOf t"
  "registersOf ((GetThreadCoreMask h, r) # t) = registersOf t"
  by (rule ext, simp)+

lemma pinLoop_spec:
  assumes codes: "kernelCodes K" and "running m"
  shows "wp (pinLoop K core attempt) m (\<lambda>rc m'. unchanged m m' \<and>
    (rc = 0 \<longrightarrow> currentCore (mcTrace m') = Some (of_nat core)))"
  using assms(2)
proof (induction "DEBUG_HWBP_PIN_ATTEMPTS - attempt" arbitrary: attempt m rule: less_induct)
  case less
  let ?r = "knReply K (mcTrace m) GetCurrentProcessorNumber"
  let ?m = "m\<lparr>mcTrace := (GetCurrentProcessorNumber, ?r) # mcTrace m\<rparr>"
  consider (here) "ucast (rpValue ?r) = (of_nat core :: u32)"
    | (tired) "ucast (rpValue ?r) \<noteq> (of_nat core :: u32)" "attempt + 1 \<ge> DEBUG_HWBP_PIN_ATTEMPTS"
    | (again) "ucast (rpValue ?r) \<noteq> (of_nat core :: u32)" "\<not> attempt + 1 \<ge> DEBUG_HWBP_PIN_ATTEMPTS"
    by blast
  then show ?case
  proof cases
    case here
    then show ?thesis
      using less.prems unfolding pinLoop.simps [of K core attempt] by (simp add: unchanged_def)
  next
    case tired
    then show ?thesis
      using less.prems codes unfolding pinLoop.simps [of K core attempt]
      by (simp add: unchanged_def kernelCodes_def)
  next
    case again
    let ?n = "?m\<lparr>mcTrace := (SleepThread DEBUG_HWBP_PIN_RETRY_NS,
      knReply K (mcTrace ?m) (SleepThread DEBUG_HWBP_PIN_RETRY_NS)) # mcTrace ?m\<rparr>"
    have "wp (pinLoop K core (attempt + 1)) ?n (\<lambda>rc m'. unchanged ?n m' \<and>
        (rc = 0 \<longrightarrow> currentCore (mcTrace m') = Some (of_nat core)))"
      using less.prems again by (intro less.hyps) auto
    then have "wp (pinLoop K core (attempt + 1)) ?n (\<lambda>rc m'. unchanged m m' \<and>
        (rc = 0 \<longrightarrow> currentCore (mcTrace m') = Some (of_nat core)))"
      by (rule wp_mono) (simp add: unchanged_def)
    with again less.prems show ?thesis unfolding pinLoop.simps [of K core attempt] by simp
  qed
qed

lemma pinToCore_spec:
  assumes "kernelCodes K" and "running m"
  shows "wp (pinToCore K core) m (\<lambda>rc m'. unchanged m m' \<and>
    (rc = 0 \<longrightarrow> currentCore (mcTrace m') = Some (of_nat core)))"
proof -
  let ?c = "SetThreadCoreMask (knCurrentThread K) (int core) (push_bit core 1)"
  let ?m = "m\<lparr>mcTrace := (?c, knReply K (mcTrace m) ?c) # mcTrace m\<rparr>"
  have "wp (pinLoop K core 0) ?m (\<lambda>rc m'. unchanged ?m m' \<and>
      (rc = 0 \<longrightarrow> currentCore (mcTrace m') = Some (of_nat core)))"
    using assms by (intro pinLoop_spec) auto
  then have "wp (pinLoop K core 0) ?m (\<lambda>rc m'. unchanged m m' \<and>
      (rc = 0 \<longrightarrow> currentCore (mcTrace m') = Some (of_nat core)))"
    by (rule wp_mono) (simp add: unchanged_def)
  then show ?thesis
    unfolding pinToCore_def using assms(2) by (simp add: unchanged_def del: push_bit_of_1)
qed

text \<open>Writes on one core leave the others alone.\<close>

definition wroteOn :: "u32 \<Rightarrow> RegisterWrite list \<Rightarrow> 'm Machine_scheme \<Rightarrow> 'm Machine_scheme \<Rightarrow> bool" where
  "wroteOn core writes m m' \<longleftrightarrow> running m' \<and> currentCore (mcTrace m') = Some core \<and>
     regs m' = (regs m)(core := applyWrites writes (regs m core))"

lemma registersOf_write:
  "rpResult r = 0 \<Longrightarrow> currentCore t = Some core \<Longrightarrow>
   registersOf ((SetHardwareBreakPoint reg control v, r) # t) =
     (registersOf t)(core := (registersOf t core)(reg \<mapsto> (control, v)))"
  by (rule ext) simp

lemma registersOf_refused:
  "rpResult r \<noteq> 0 \<Longrightarrow> registersOf ((SetHardwareBreakPoint reg control v, r) # t) = registersOf t"
  by (rule ext) simp

text \<open>\<open>setEach\<close> writes a prefix of its writes, all of them when it succeeds.\<close>

lemma setEach_spec:
  assumes "running m" and "currentCore (mcTrace m) = Some core"
  shows "wp (setEach K writes) m (\<lambda>rc m'. \<exists>n. wroteOn core (take n writes) m m' \<and>
    (rc = 0 \<longrightarrow> n = length writes))"
  using assms
proof (induction writes arbitrary: m)
  case Nil
  then show ?case by (simp add: wroteOn_def)
next
  case (Cons w writes)
  obtain reg control v where w: "w = (reg, control, v)" by (cases w)
  let ?c = "SetHardwareBreakPoint reg control v"
  let ?m = "m\<lparr>mcTrace := (?c, knReply K (mcTrace m) ?c) # mcTrace m\<rparr>"
  show ?case
  proof (cases "rpResult (knReply K (mcTrace m) ?c) = 0")
    case True
    have "wp (setEach K writes) ?m (\<lambda>rc m'. \<exists>n. wroteOn core (take n writes) ?m m' \<and>
        (rc = 0 \<longrightarrow> n = length writes))"
      using Cons.prems by (intro Cons.IH) auto
    then have "wp (setEach K writes) ?m (\<lambda>rc m'. \<exists>n. wroteOn core (take n (w # writes)) m m' \<and>
        (rc = 0 \<longrightarrow> n = length (w # writes)))"
    proof (rule wp_mono)
      fix rc m'
      assume "\<exists>n. wroteOn core (take n writes) ?m m' \<and> (rc = 0 \<longrightarrow> n = length writes)"
      then obtain n where n: "wroteOn core (take n writes) ?m m'" "rc = 0 \<longrightarrow> n = length writes" by blast
      then have "wroteOn core (take (Suc n) (w # writes)) m m'"
        using True Cons.prems by (simp add: wroteOn_def w registersOf_write)
      with n(2) show "\<exists>n. wroteOn core (take n (w # writes)) m m' \<and> (rc = 0 \<longrightarrow> n = length (w # writes))"
        by (intro exI [of _ "Suc n"]) simp
    qed
    then show ?thesis using True Cons.prems by (simp add: w)
  next
    case False
    then have "wroteOn core (take 0 (w # writes)) m ?m"
      using Cons.prems by (simp add: wroteOn_def registersOf_refused)
    then have "\<exists>n. wroteOn core (take n (w # writes)) m ?m" by blast
    then show ?thesis using False Cons.prems by (simp add: w)
  qed
qed

lemma applyWrites_other: "reg \<notin> fst ` set writes \<Longrightarrow> applyWrites writes rs reg = rs reg"
proof (induction writes arbitrary: rs)
  case (Cons w writes)
  then show ?case by (cases w) auto
qed simp

text \<open>What a run over the cores \<open>a, ..., b - 1\<close> leaves when it succeeds, and how far a failed one may
  have come.\<close>

definition allWritten :: "RegisterWrite list \<Rightarrow> nat list \<Rightarrow> 'm Machine_scheme \<Rightarrow> 'm Machine_scheme \<Rightarrow> bool" where
  "allWritten writes cores m m' \<longleftrightarrow> (\<forall>core. regs m' core =
     (if core \<in> of_nat ` set cores then applyWrites writes (regs m core) else regs m core))"

definition someWritten ::
  "RegisterWrite list \<Rightarrow> nat list \<Rightarrow> nat option \<Rightarrow> 'm Machine_scheme \<Rightarrow> 'm Machine_scheme \<Rightarrow> bool" where
  "someWritten writes cores reached m m' \<longleftrightarrow> (\<forall>core reg. regs m' core reg \<noteq> regs m core reg \<longrightarrow>
     reg \<in> fst ` set writes \<and> (\<exists>j r. j \<in> set cores \<and> core = of_nat j \<and> reached = Some r \<and> j \<le> r))"

lemma applyWrites_take:
  "applyWrites (take k writes) rs reg \<noteq> rs reg \<Longrightarrow> reg \<in> fst ` set writes"
  using applyWrites_other [of reg "take k writes" rs] set_take_subset [of k writes] by blast

lemma allWritten_step:
  assumes "a < b" and "(of_nat a :: u32) \<notin> of_nat ` set [Suc a..<b]"
    and "regs m1 = (regs m)(of_nat a := applyWrites writes (regs m (of_nat a)))"
    and "allWritten writes [Suc a..<b] m1 m'"
  shows "allWritten writes [a..<b] m m'"
  using assms(2,4) unfolding allWritten_def assms(3) upt_conv_Cons [OF assms(1)] by auto

lemma someWritten_step:
  assumes "a < b" and "a \<le> r"
    and "regs m1 = (regs m)(of_nat a := applyWrites writes (regs m (of_nat a)))"
    and "someWritten writes [Suc a..<b] (Some r) m1 m'"
  shows "someWritten writes [a..<b] (Some r) m m'"
  unfolding someWritten_def
proof (intro allI impI)
  fix core reg assume diff: "regs m' core reg \<noteq> regs m core reg"
  show "reg \<in> fst ` set writes \<and>
      (\<exists>j s. j \<in> set [a..<b] \<and> core = of_nat j \<and> Some r = Some s \<and> j \<le> s)"
  proof (cases "regs m' core reg = regs m1 core reg")
    case True
    then have "core = of_nat a" "reg \<in> fst ` set writes"
      using diff applyWrites_other [of reg writes] by (auto simp: assms(3) split: if_splits)
    then show ?thesis using assms(1,2) by auto
  next
    case False
    then show ?thesis
      using assms(4) unfolding someWritten_def upt_conv_Cons [OF assms(1)] by auto
  qed
qed

lemma of_nat_core_eq: "j < 2 ^ 32 \<Longrightarrow> k < 2 ^ 32 \<Longrightarrow> (of_nat j :: u32) = of_nat k \<longleftrightarrow> j = k"
  by (simp add: word_of_nat_eq_iff take_bit_nat_eq_self)

lemma coreLoop_spec:
  assumes codes: "kernelCodes K" and "running m" and "\<And>p. reached = Some p \<Longrightarrow> p < a" and "b \<le> 2 ^ 32"
  shows "wp (coreLoop K writes [a..<b] reached) m (\<lambda>(rc, reached') m'. running m' \<and>
    (\<forall>p. reached = Some p \<longrightarrow> (\<exists>r. reached' = Some r \<and> p \<le> r)) \<and>
    (\<forall>r. reached' = Some r \<longrightarrow> r < b \<or> reached = Some r) \<and>
    (rc = 0 \<longrightarrow> allWritten writes [a..<b] m m') \<and>
    (rc \<noteq> 0 \<longrightarrow> someWritten writes [a..<b] reached' m m'))"
  using assms(2-)
proof (induction "b - a" arbitrary: a m reached)
  case 0
  then show ?case by (simp add: allWritten_def)
next
  case (Suc n)
  define Q where "Q = (\<lambda>(rc, reached') (m' :: 'a Machine_scheme). running m' \<and>
    (\<forall>p. reached = Some p \<longrightarrow> (\<exists>r. reached' = Some r \<and> p \<le> r)) \<and>
    (\<forall>r. reached' = Some r \<longrightarrow> r < b \<or> reached = Some r) \<and>
    (rc = (0 :: res) \<longrightarrow> allWritten writes [a..<b] m m') \<and>
    (rc \<noteq> 0 \<longrightarrow> someWritten writes [a..<b] reached' m m'))"
  have ab: "a < b" using Suc.hyps(2) by linarith
  have cores: "[a..<b] = a # [Suc a..<b]" using ab by (rule upt_conv_Cons)
  have pinned: "wp (if R_FAILED rc then State_Monad.return (rc, reached)
      else do { rc \<leftarrow> setEach K writes;
        if R_FAILED rc then State_Monad.return (rc, Some a) else coreLoop K writes [Suc a..<b] (Some a) }) m1 Q"
    if m1: "unchanged m m1" "rc = 0 \<longrightarrow> currentCore (mcTrace m1) = Some (of_nat a)" for rc m1
  proof (cases "rc = 0")
    case False
    then show ?thesis using m1 by (simp add: Q_def unchanged_def someWritten_def)
  next
    case True
    have wrote: "wp (if R_FAILED rc then State_Monad.return (rc, Some a)
        else coreLoop K writes [Suc a..<b] (Some a)) m2 Q"
      if m2: "wroteOn (of_nat a) (take k writes) m1 m2" "rc = 0 \<longrightarrow> k = length writes" for rc k m2
    proof (cases "rc = 0")
      case False
      have "reg \<in> fst ` set writes \<and> core = of_nat a" if "regs m2 core reg \<noteq> regs m core reg" for core reg
        using that m2(1) m1(1)
        by (auto simp: wroteOn_def unchanged_def split: if_splits dest: applyWrites_take)
      then have "someWritten writes [a..<b] (Some a) m m2" using ab by (auto simp: someWritten_def)
      with False m2 Suc.prems ab show ?thesis by (auto simp: Q_def wroteOn_def)
    next
      case True
      have regs2: "regs m2 = (regs m)(of_nat a := applyWrites writes (regs m (of_nat a)))" "running m2"
        using m2 m1(1) True by (simp_all add: wroteOn_def unchanged_def)
      have notin: "(of_nat a :: u32) \<notin> of_nat ` set [Suc a..<b]"
        using Suc.prems(3) by (auto simp: of_nat_core_eq)
      have "wp (coreLoop K writes [Suc a..<b] (Some a)) m2 (\<lambda>(rc, reached') m'. running m' \<and>
          (\<forall>p. Some a = Some p \<longrightarrow> (\<exists>r. reached' = Some r \<and> p \<le> r)) \<and>
          (\<forall>r. reached' = Some r \<longrightarrow> r < b \<or> Some a = Some r) \<and>
          (rc = 0 \<longrightarrow> allWritten writes [Suc a..<b] m2 m') \<and>
          (rc \<noteq> 0 \<longrightarrow> someWritten writes [Suc a..<b] reached' m2 m'))"
        using Suc.prems Suc.hyps(2) regs2(2) by (intro Suc.hyps(1)) auto
      then have "wp (coreLoop K writes [Suc a..<b] (Some a)) m2 Q"
      proof (rule wp_mono)
        fix p :: "res \<times> nat option" and m' :: "'a Machine_scheme"
        assume "(\<lambda>(rc, reached') m'. running m' \<and>
          (\<forall>p. Some a = Some p \<longrightarrow> (\<exists>r. reached' = Some r \<and> p \<le> r)) \<and>
          (\<forall>r. reached' = Some r \<longrightarrow> r < b \<or> Some a = Some r) \<and>
          (rc = 0 \<longrightarrow> allWritten writes [Suc a..<b] m2 m') \<and>
          (rc \<noteq> 0 \<longrightarrow> someWritten writes [Suc a..<b] reached' m2 m')) p m'"
        then obtain rc r where p: "p = (rc, Some r)" "running m'" "a \<le> r" "r < b \<or> a = r"
          and all: "rc = 0 \<longrightarrow> allWritten writes [Suc a..<b] m2 m'"
          and some: "rc \<noteq> 0 \<longrightarrow> someWritten writes [Suc a..<b] (Some r) m2 m'"
          by auto
        have "rc = 0 \<longrightarrow> allWritten writes [a..<b] m m'"
          using all allWritten_step [OF ab notin regs2(1)] by blast
        moreover have "rc \<noteq> 0 \<longrightarrow> someWritten writes [a..<b] (Some r) m m'"
          using some someWritten_step [OF ab p(3) regs2(1)] by blast
        ultimately show "Q p m'"
          using p ab Suc.prems(2) by (auto simp: Q_def)
      qed
      then show ?thesis using True by simp
    qed
    have "wp (setEach K writes) m1 (\<lambda>rc m2. \<exists>k. wroteOn (of_nat a) (take k writes) m1 m2 \<and>
        (rc = 0 \<longrightarrow> k = length writes))"
      using m1 True by (intro setEach_spec) (simp_all add: unchanged_def)
    then have "wp (setEach K writes) m1 (\<lambda>rc m2. wp (if R_FAILED rc then State_Monad.return (rc, Some a)
        else coreLoop K writes [Suc a..<b] (Some a)) m2 Q)"
      by (rule wp_mono) (use wrote in blast)
    then show ?thesis using True by simp
  qed
  have "wp (pinToCore K a) m (\<lambda>rc m1. unchanged m m1 \<and>
      (rc = 0 \<longrightarrow> currentCore (mcTrace m1) = Some (of_nat a)))"
    using codes Suc.prems(1) by (rule pinToCore_spec)
  then have "wp (pinToCore K a) m (\<lambda>rc m1. wp (if R_FAILED rc then State_Monad.return (rc, reached)
      else do { rc \<leftarrow> setEach K writes;
        if R_FAILED rc then State_Monad.return (rc, Some a) else coreLoop K writes [Suc a..<b] (Some a) }) m1 Q)"
    by (rule wp_mono) (use pinned in blast)
  then have "wp (coreLoop K writes [a..<b] reached) m Q" unfolding cores by simp
  then show ?case unfolding Q_def .
qed

text \<open>A register that has taken a write once is known from then on.\<close>

definition knows :: "'m Machine_scheme \<Rightarrow> 'm Machine_scheme \<Rightarrow> bool" where
  "knows m m' \<longleftrightarrow> (\<forall>core reg. regs m core reg \<noteq> None \<longrightarrow> regs m' core reg \<noteq> None)"

lemma knows_call: "regs m core reg \<noteq> None \<Longrightarrow> registersOf ((c, r) # mcTrace m) core reg \<noteq> None"
  by (cases c) auto

interpretation known_calls: call_invariant K "knows m0" for K m0
proof unfold_locales
  show "obeys (knows m0) (svc K c)" for c
    unfolding obeys_def wp_svc knows_def by (simp add: knows_call del: registersOf.simps)
qed (simp add: obeys_def knows_def)

definition coreSpec :: "RegisterWrite list \<Rightarrow> 'm Machine_scheme \<Rightarrow> res \<times> nat option \<Rightarrow> 'm Machine_scheme \<Rightarrow> bool" where
  "coreSpec writes m p m' \<longleftrightarrow> running m' \<and> (\<forall>r. snd p = Some r \<longrightarrow> r < DEBUG_HWBP_CORE_COUNT) \<and>
     (fst p = 0 \<longrightarrow> allWritten writes [0..<DEBUG_HWBP_CORE_COUNT] m m') \<and>
     (fst p \<noteq> 0 \<longrightarrow> someWritten writes [0..<DEBUG_HWBP_CORE_COUNT] (snd p) m m') \<and> knows m m'"

lemma coreLoop_all:
  assumes "kernelCodes K" and "running m"
  shows "wp (coreLoop K writes [0..<DEBUG_HWBP_CORE_COUNT] None) m (coreSpec writes m)"
proof -
  have "wp (coreLoop K writes [0..<DEBUG_HWBP_CORE_COUNT] None) m (\<lambda>_. knows m)"
    by (rule obeysD [OF known_calls.coreLoop]) (simp add: knows_def)
  from wp_conj [OF coreLoop_spec [OF assms, where reached = None and a = 0 and b = DEBUG_HWBP_CORE_COUNT and writes = writes]
      this] show ?thesis
    by (rule wp_mono) (auto simp: coreSpec_def DEBUG_HWBP_CORE_COUNT_def)
qed

lemma restoreCore_spec: "running m \<Longrightarrow> wp (restoreCore K original) m (\<lambda>_. unchanged m)"
  by (simp add: restoreCore_def Let_def unchanged_def)

subsection \<open>Clearing\<close>

text \<open>What the rollback relies on.  The kernel lets the thread move to a core when it accepts the mask and the thread
  is seen there before the reads that \<open>pinToCore\<close> allows are used up.\<close>

fun seenWithin :: "Kernel \<Rightarrow> nat \<Rightarrow> nat \<Rightarrow> Trace \<Rightarrow> bool" where
  "seenWithin K core 0 t \<longleftrightarrow> False"
| "seenWithin K core (Suc n) t \<longleftrightarrow>
    (let r = knReply K t GetCurrentProcessorNumber; t' = (GetCurrentProcessorNumber, r) # t;
         sleep = SleepThread DEBUG_HWBP_PIN_RETRY_NS
     in if ucast (rpValue r) = (of_nat core :: u32) then True else seenWithin K core n ((sleep, knReply K t' sleep) # t'))"

definition movesTo :: "Kernel \<Rightarrow> nat \<Rightarrow> bool" where
  "movesTo K core \<longleftrightarrow> (\<forall>t. let c = SetThreadCoreMask (knCurrentThread K) (int core) (push_bit core 1); r = knReply K t c
     in rpResult r = 0 \<and> seenWithin K core DEBUG_HWBP_PIN_ATTEMPTS ((c, r) # t))"

text \<open>On a core a register that has taken a write can be cleared.\<close>

definition clearsOn :: "Kernel \<Rightarrow> u32 \<Rightarrow> u32 \<Rightarrow> bool" where
  "clearsOn K core reg \<longleftrightarrow> (\<forall>t. currentCore t = Some core \<and> registersOf t core reg \<noteq> None \<longrightarrow>
     rpResult (knReply K t (SetHardwareBreakPoint reg 0 0)) = 0)"

lemma pinLoop_moves:
  "running m \<Longrightarrow> seenWithin K core (DEBUG_HWBP_PIN_ATTEMPTS - attempt) (mcTrace m) \<Longrightarrow>
    wp (pinLoop K core attempt) m (\<lambda>rc m'. rc = 0)"
proof (induction "DEBUG_HWBP_PIN_ATTEMPTS - attempt" arbitrary: attempt m)
  case 0
  then show ?case by simp
next
  case (Suc n)
  let ?r = "knReply K (mcTrace m) GetCurrentProcessorNumber"
  let ?t = "(GetCurrentProcessorNumber, ?r) # mcTrace m"
  let ?m = "m\<lparr>mcTrace := (SleepThread DEBUG_HWBP_PIN_RETRY_NS, knReply K ?t (SleepThread DEBUG_HWBP_PIN_RETRY_NS)) # ?t\<rparr>"
  have n: "n = DEBUG_HWBP_PIN_ATTEMPTS - (attempt + 1)" using Suc.hyps(2) by simp
  have seen: "ucast (rpValue ?r) = (of_nat core :: u32) \<or> seenWithin K core n (mcTrace ?m)"
    using Suc.prems(2) unfolding Suc.hyps(2) [symmetric] by (simp add: Let_def split: if_splits)
  then have left: "\<not> attempt + 1 \<ge> DEBUG_HWBP_PIN_ATTEMPTS" if "ucast (rpValue ?r) \<noteq> (of_nat core :: u32)"
    using that n by (cases n) auto
  have "wp (pinLoop K core (attempt + 1)) ?m (\<lambda>rc m'. rc = 0)" if "seenWithin K core n (mcTrace ?m)"
    using that Suc.prems(1) n by (intro Suc.hyps(1)) simp_all
  then show ?case
    using seen left Suc.prems(1) unfolding pinLoop.simps [of K core attempt] by auto
qed

lemma pinToCore_moves:
  assumes "kernelCodes K" and "movesTo K core" and "running m"
  shows "wp (pinToCore K core) m (\<lambda>rc m'. rc = 0 \<and> unchanged m m' \<and>
    currentCore (mcTrace m') = Some (of_nat core))"
proof -
  let ?c = "SetThreadCoreMask (knCurrentThread K) (int core) (push_bit core 1)"
  have "rpResult (knReply K (mcTrace m) ?c) = 0"
      "seenWithin K core DEBUG_HWBP_PIN_ATTEMPTS ((?c, knReply K (mcTrace m) ?c) # mcTrace m)"
    using assms(2) unfolding movesTo_def Let_def by blast+
  then have "wp (pinToCore K core) m (\<lambda>rc m'. rc = 0)"
    unfolding pinToCore_def using assms(3) by (simp add: pinLoop_moves del: push_bit_of_1)
  from wp_conj [OF this pinToCore_spec [OF assms(1,3)]] show ?thesis
    by (rule wp_mono) simp
qed

text \<open>A register that is as it was, or cleared, stays so while registers are only cleared.\<close>

definition settled :: "u32 \<Rightarrow> u32 \<Rightarrow> (u64 \<times> u64) option \<Rightarrow> 'm Machine_scheme \<Rightarrow> bool" where
  "settled core reg x m \<longleftrightarrow> regs m core reg = x \<or> regs m core reg = Some (0, 0)"

lemma settled_calls:
  "obeys (settled core reg x) (svc K (SetHardwareBreakPoint r 0 0))"
  "obeys (settled core reg x) (svc K (SetThreadCoreMask h c msk))" "obeys (settled core reg x) (svc K (SleepThread n))"
  "obeys (settled core reg x) (svc K GetCurrentProcessorNumber)"
  by (simp_all add: obeys_def settled_def)

lemma settled_pin: "obeys (settled core reg x) (pinToCore K c)"
proof -
  have "obeys (settled core reg x) (pinLoop K c attempt :: ('a Machine_scheme, res) state)" for attempt
  proof (induction "DEBUG_HWBP_PIN_ATTEMPTS - attempt" arbitrary: attempt rule: less_induct)
    case less
    have again: "obeys (settled core reg x) (pinLoop K c (attempt + 1) :: ('a Machine_scheme, res) state)"
      if "\<not> attempt + 1 \<ge> DEBUG_HWBP_PIN_ATTEMPTS"
      using that by (intro less) auto
    show ?case
      by (subst pinLoop.simps) (intro obey settled_calls again)
  qed
  then show ?thesis
    unfolding pinToCore_def svcResult_def by (intro obey settled_calls)
qed

lemma settled_clearEach: "obeys (settled core reg x) (clearEach K writes)"
  by (induction writes) (auto simp: skip_def intro!: obey settled_calls)

lemma settled_rollback: "obeys (settled core reg x) (rollbackLoop K writes cores)"
  by (induction cores) (auto simp: skip_def intro!: obey settled_pin settled_clearEach)

lemma clearEach_runs: "running m \<Longrightarrow> wp (clearEach K ws) m (\<lambda>_. running)"
  by (induction ws arbitrary: m) auto

lemma clearEach_clears:
  assumes "clearsOn K core reg"
  shows "running m \<Longrightarrow> currentCore (mcTrace m) = Some core \<Longrightarrow> regs m core reg \<noteq> None \<Longrightarrow> reg \<in> fst ` set writes \<Longrightarrow>
    wp (clearEach K writes) m (\<lambda>_ m'. regs m' core reg = Some (0, 0))"
proof (induction writes arbitrary: m)
  case (Cons w writes)
  obtain r control v where w: "w = (r, control, v)" by (cases w)
  let ?c = "SetHardwareBreakPoint r 0 0"
  let ?m = "m\<lparr>mcTrace := (?c, knReply K (mcTrace m) ?c) # mcTrace m\<rparr>"
  have "wp (clearEach K writes) ?m (\<lambda>_ m'. regs m' core reg = Some (0, 0))"
  proof (cases "reg = r")
    case True
    then have "rpResult (knReply K (mcTrace m) ?c) = 0"
      using assms Cons.prems unfolding clearsOn_def by blast
    then have "settled core reg (Some (0, 0)) ?m"
      using Cons.prems(2) True by (simp add: settled_def)
    from obeysD [OF settled_clearEach this] show ?thesis
      by (rule wp_mono) (simp add: settled_def)
  next
    case False
    then show ?thesis
      using Cons.prems w by (intro Cons.IH) auto
  qed
  then show ?case using Cons.prems(1) by (simp add: w)
qed simp

lemma rollbackLoop_clears:
  assumes "kernelCodes K" and "movesTo K c" and "clearsOn K (of_nat c) reg" and "reg \<in> fst ` set writes"
  shows "running m \<Longrightarrow> regs m (of_nat c) reg \<noteq> None \<Longrightarrow> c \<in> set cores \<Longrightarrow>
    wp (rollbackLoop K writes cores) m (\<lambda>_ m'. regs m' (of_nat c) reg = Some (0, 0))"
proof (induction cores arbitrary: m)
  case (Cons core cores)
  have known: "obeys (knows m1) (if b then skip else clearEach K writes)" for b and m1 :: "'a Machine_scheme"
    by (intro obey known_calls.clearEach)
  have later: "wp (do { _ \<leftarrow> (if R_FAILED rc then skip else clearEach K writes); rollbackLoop K writes cores }) m1
      (\<lambda>_ m'. regs m' (of_nat c) reg = Some (0, 0))"
    if "running m1" "regs m1 (of_nat c) reg \<noteq> None" "c \<in> set cores" for rc and m1 :: "'a Machine_scheme"
  proof (subst wp_bind, rule wp_mono [OF wp_conj])
    show "wp (if R_FAILED rc then skip else clearEach K writes) m1 (\<lambda>_. running)"
      using clearEach_runs [OF that(1)] that(1) by simp
    show "wp (if R_FAILED rc then skip else clearEach K writes) m1 (\<lambda>_. knows m1)"
      by (rule obeysD [OF known]) (simp add: knows_def)
  qed (use that in \<open>auto simp: knows_def intro!: Cons.IH\<close>)
  show ?case
  proof (cases "c \<in> set cores")
    case True
    have "wp (pinToCore K core) m (\<lambda>rc m1. wp (do { _ \<leftarrow> (if R_FAILED rc then skip else clearEach K writes);
        rollbackLoop K writes cores }) m1 (\<lambda>_ m'. regs m' (of_nat c) reg = Some (0, 0)))"
      by (rule wp_mono [OF pinToCore_spec [OF assms(1) Cons.prems(1)]], rule later)
        (use Cons.prems True in \<open>auto simp: unchanged_def\<close>)
    then show ?thesis by simp
  next
    case False
    then have core: "core = c" using Cons.prems by simp
    have clear: "wp (do { _ \<leftarrow> clearEach K writes; rollbackLoop K writes cores }) m1
        (\<lambda>_ m'. regs m' (of_nat c) reg = Some (0, 0))"
      if "unchanged m m1" "currentCore (mcTrace m1) = Some (of_nat c)" for m1 :: "'a Machine_scheme"
      unfolding wp_bind
    proof (rule wp_mono [OF clearEach_clears [OF assms(3)]])
      fix m2 :: "'a Machine_scheme"
      assume "regs m2 (of_nat c) reg = Some (0, 0)"
      then have "settled (of_nat c) reg (Some (0, 0)) m2" by (simp add: settled_def)
      from obeysD [OF settled_rollback this]
      show "wp (rollbackLoop K writes cores) m2 (\<lambda>_ m'. regs m' (of_nat c) reg = Some (0, 0))"
        by (rule wp_mono) (simp add: settled_def)
    qed (use that assms(4) Cons.prems in \<open>auto simp: unchanged_def\<close>)
    have "wp (pinToCore K c) m (\<lambda>rc m1. wp (do { _ \<leftarrow> (if R_FAILED rc then skip else clearEach K writes);
        rollbackLoop K writes cores }) m1 (\<lambda>_ m'. regs m' (of_nat c) reg = Some (0, 0)))"
      by (rule wp_mono [OF pinToCore_moves [OF assms(1,2) Cons.prems(1)]]) (use clear in simp)
    then show ?thesis by (simp add: core)
  qed
qed simp

subsection \<open>What the call leaves\<close>

definition setSpec :: "RegisterWrite list \<Rightarrow> 'm Machine_scheme \<Rightarrow> res \<Rightarrow> 'm Machine_scheme \<Rightarrow> bool" where
  "setSpec writes m rc m' \<longleftrightarrow> running m' \<and>
     (rc = 0 \<longrightarrow> allWritten writes [0..<DEBUG_HWBP_CORE_COUNT] m m')"

lemma rollbackLoop_runs:
  assumes "kernelCodes K" and "running m"
  shows "wp (rollbackLoop K writes cores) m (\<lambda>_. running)"
  using assms(2)
proof (induction cores arbitrary: m)
  case (Cons c cores)
  note each = clearEach_runs
  have rest: "wp (do { _ \<leftarrow> clearEach K writes; rollbackLoop K writes cores }) n (\<lambda>_. running)"
    if "running n" for n :: "'a Machine_scheme"
    by (simp, rule wp_mono [OF each [OF that]], rule Cons.IH)
  have "wp (pinToCore K c) m (\<lambda>rc n. wp (do {
      _ \<leftarrow> (if R_FAILED rc then skip else clearEach K writes); rollbackLoop K writes cores }) n (\<lambda>_. running))"
    using pinToCore_spec [OF assms(1) Cons.prems]
    by (rule wp_mono) (use rest Cons.IH in \<open>auto simp: unchanged_def\<close>)
  then show ?case by simp
qed simp

text \<open>The call, from what its caller knows after the loop over the cores and after the rollback.\<close>

lemma setRegisters_wp:
  assumes codes: "kernelCodes K" and "running m" and "writes \<noteq> []"
    and ok: "\<And>n. running n \<Longrightarrow> allWritten writes [0..<DEBUG_HWBP_CORE_COUNT] m n \<Longrightarrow> Q 0 n"
    and failed: "\<And>rc n. rc \<noteq> 0 \<Longrightarrow> running n \<Longrightarrow> regs n = regs m \<Longrightarrow> Q rc n"
    and rolled: "\<And>rc core n. rc \<noteq> 0 \<Longrightarrow> running n \<Longrightarrow> knows m n \<Longrightarrow>
      someWritten writes [0..<DEBUG_HWBP_CORE_COUNT] (Some core) m n \<Longrightarrow>
      wp (rollbackLoop K writes [0..<core + 1]) n (\<lambda>_ n'. running n' \<and> Q rc n')"
    and stable: "\<And>rc n n'. Q rc n \<Longrightarrow> unchanged n n' \<Longrightarrow> Q rc n'"
  shows "wp (setRegistersOnAllCores K writes) m Q"
proof -
  let ?c = "GetThreadCoreMask (knCurrentThread K)"
  let ?m = "m\<lparr>mcTrace := (?c, knReply K (mcTrace m) ?c) # mcTrace m\<rparr>"
  define rest where "rest = (\<lambda>rc reached. do {
       _ \<leftarrow> (case reached of
               None \<Rightarrow> skip
             | Some core \<Rightarrow> if R_FAILED rc then rollbackLoop K writes [0..<core + 1] else skip);
       _ \<leftarrow> restoreCore K (knReply K (mcTrace m) ?c);
       State_Monad.return rc
     } :: ('a Machine_scheme, res) state)"
  have restore: "wp (do { _ \<leftarrow> restoreCore K (knReply K (mcTrace m) ?c); State_Monad.return rc }) n Q"
    if "running n \<and> Q rc n" for rc n
    by (simp, rule wp_mono [OF restoreCore_spec]) (use that stable in auto)
  have after: "wp (rest rc reached) n Q" if n: "coreSpec writes ?m (rc, reached) n" for rc reached n
  proof (cases "rc = 0")
    case True
    then have "Q rc n" using n ok by (simp add: coreSpec_def allWritten_def)
    then show ?thesis
      using True n restore [of n rc] by (cases reached) (simp_all add: rest_def coreSpec_def)
  next
    case False
    then have n': "running n" "someWritten writes [0..<DEBUG_HWBP_CORE_COUNT] reached m n" "knows m n"
      using n by (simp_all add: coreSpec_def someWritten_def knows_def)
    show ?thesis
    proof (cases reached)
      case None
      then have "regs n = regs m" using n'(2) by (auto simp: someWritten_def fun_eq_iff)
      then show ?thesis using None False n'(1) failed restore [of n rc] by (simp add: rest_def)
    next
      case (Some core)
      have "wp (rollbackLoop K writes [0..<core + 1]) n (\<lambda>_ n'. wp (do {
          _ \<leftarrow> restoreCore K (knReply K (mcTrace m) ?c); State_Monad.return rc }) n' Q)"
        by (rule wp_mono [OF rolled]) (use False n' Some restore in auto)
      then show ?thesis using False Some by (simp add: rest_def)
    qed
  qed
  have "wp (coreLoop K writes [0..<DEBUG_HWBP_CORE_COUNT] None) ?m
      (\<lambda>p n. wp (case p of (rc, reached) \<Rightarrow> rest rc reached) n Q)"
    by (rule wp_mono [OF coreLoop_all [OF codes]]) (use assms(2) after in auto)
  then show ?thesis
    using assms(2,3) by (simp add: setRegistersOnAllCores_def rest_def split_def)
qed

lemma setRegisters_spec:
  assumes "kernelCodes K" and "running m" and "writes \<noteq> []"
  shows "wp (setRegistersOnAllCores K writes) m (setSpec writes m)"
proof (rule setRegisters_wp [OF assms])
  fix rc :: res and core :: nat and n :: "'a Machine_scheme"
  assume "rc \<noteq> 0" "running n"
  then show "wp (rollbackLoop K writes [0..<core + 1]) n (\<lambda>_ n'. running n' \<and> setSpec writes m rc n')"
    by (intro wp_mono [OF rollbackLoop_runs [OF assms(1)]]) (auto simp: setSpec_def)
qed (auto simp: setSpec_def unchanged_def allWritten_def)

text \<open>A failed call leaves a register it touched cleared, when the kernel lets it.\<close>

lemma setRegisters_failure:
  assumes "kernelCodes K" and kernel: "unat core < DEBUG_HWBP_CORE_COUNT \<Longrightarrow> movesTo K (unat core)" "clearsOn K core reg"
    and "running m" and "writes \<noteq> []"
  shows "wp (setRegistersOnAllCores K writes) m (\<lambda>rc m'. rc = 0 \<or> settled core reg (regs m core reg) m')"
proof (rule setRegisters_wp [OF assms(1,4,5)])
  fix rc :: res and reached :: nat and n :: "'a Machine_scheme"
  assume rc: "rc \<noteq> 0" "running n" "knows m n"
    and some: "someWritten writes [0..<DEBUG_HWBP_CORE_COUNT] (Some reached) m n"
  have "wp (rollbackLoop K writes [0..<reached + 1]) n (\<lambda>_ n'. settled core reg (regs m core reg) n')"
  proof (cases "regs n core reg = regs m core reg")
    case True
    then show ?thesis by (intro obeysD [OF settled_rollback]) (simp add: settled_def)
  next
    case False
    with some obtain j where j: "reg \<in> fst ` set writes" "core = of_nat j" "j \<le> reached" "j < DEBUG_HWBP_CORE_COUNT"
      unfolding someWritten_def by fastforce
    then have "unat core = j" by (simp add: DEBUG_HWBP_CORE_COUNT_def unat_of_nat take_bit_nat_eq_self)
    have "regs n core reg \<noteq> None"
      using False rc(3) unfolding knows_def by metis
    then have "wp (rollbackLoop K writes [0..<reached + 1]) n (\<lambda>_ n'. regs n' (of_nat j) reg = Some (0, 0))"
      using kernel j \<open>unat core = j\<close> rc(2) by (intro rollbackLoop_clears [OF assms(1)]) auto
    then show ?thesis by (rule wp_mono) (simp add: settled_def j(2))
  qed
  from wp_conj [OF rollbackLoop_runs [OF assms(1) rc(2)] this]
  show "wp (rollbackLoop K writes [0..<reached + 1]) n
      (\<lambda>_ n'. running n' \<and> (rc = 0 \<or> settled core reg (regs m core reg) n'))"
    by (rule wp_mono) simp
qed (auto simp: settled_def unchanged_def)

subsection \<open>The core of the thread\<close>

text \<open>The core and the mask that the thread was last told.\<close>

fun lastMask :: "Trace \<Rightarrow> (int \<times> u32) option" where
  "lastMask [] = None"
| "lastMask ((c, r) # t) = (case c of SetThreadCoreMask h core msk \<Rightarrow> Some (core, msk) | _ \<Rightarrow> lastMask t)"

text \<open>Where it belongs: where it was, or on core 3 when the kernel does not say where it was.\<close>

definition homeOf :: "Reply \<Rightarrow> int \<times> u32" where
  "homeOf r = (let core = sint (ucast (rpValue r) :: u32); msk = hd (rpValues r @ [0])
     in if core < 0 \<or> msk = 0 then (3, 8) else (core, ucast msk))"

lemma restoreCore_home: "running m \<Longrightarrow> wp (restoreCore K r) m (\<lambda>_ m'. lastMask (mcTrace m') = Some (homeOf r))"
  by (simp add: restoreCore_def homeOf_def Let_def DEBUG_HWBP_DEFAULT_CORE_def push_bit_eq_mult)

lemma setRegisters_home:
  assumes "kernelCodes K" and "running m" and "writes \<noteq> []"
  shows "wp (setRegistersOnAllCores K writes) m (\<lambda>rc m'.
    lastMask (mcTrace m') = Some (homeOf (knReply K (mcTrace m) (GetThreadCoreMask (knCurrentThread K)))))"
proof -
  have rollback: "wp (case reached of None \<Rightarrow> skip
      | Some core \<Rightarrow> if R_FAILED rc then rollbackLoop K writes [0..<core + 1] else skip) n (\<lambda>_. running)"
    if "running n" for reached rc and n :: "'a Machine_scheme"
    using that rollbackLoop_runs [OF assms(1) that] by (simp split: option.split)
  have restore: "wp (do { _ \<leftarrow> restoreCore K r; State_Monad.return rc }) n (\<lambda>_ m'. lastMask (mcTrace m') = Some (homeOf r))"
    if "running n" for r rc and n :: "'a Machine_scheme"
    unfolding wp_bind wp_return by (rule restoreCore_home [OF that])
  have runs: "wp (coreLoop K writes [0..<DEBUG_HWBP_CORE_COUNT] None) n (\<lambda>_. running)" if "running n" for n :: "'a Machine_scheme"
    by (rule wp_mono [OF coreLoop_all [OF assms(1) that]]) (simp add: coreSpec_def)
  show ?thesis
    unfolding setRegistersOnAllCores_def
    by (rule wp_ifI, simp add: assms(3), subst wp_bind, subst wp_svc, simp only: assms(2) if_False, subst wp_bind,
      rule wp_mono [OF runs], simp add: assms(2), rule wp_splitI, subst wp_bind, rule wp_mono [OF rollback], assumption,
      erule restore)
qed

lemma of_nat_cores: "(core :: u32) \<in> of_nat ` set [0..<DEBUG_HWBP_CORE_COUNT] \<longleftrightarrow> unat core < DEBUG_HWBP_CORE_COUNT"
proof
  assume "core \<in> of_nat ` set [0..<DEBUG_HWBP_CORE_COUNT]"
  then show "unat core < DEBUG_HWBP_CORE_COUNT"
    by (auto simp: DEBUG_HWBP_CORE_COUNT_def unat_of_nat take_bit_nat_eq_self)
next
  assume "unat core < DEBUG_HWBP_CORE_COUNT"
  then show "core \<in> of_nat ` set [0..<DEBUG_HWBP_CORE_COUNT]"
    by (intro image_eqI [of _ _ "unat core"]) auto
qed

text \<open>C26: a successful call has programmed every core and moved the thread back.  After it the registers of each of
  the four cores hold the written controls and values, in the order of the writes, no other register has changed, and
  the last core mask set is the one the thread had before, or that of core 3 when the kernel did not tell it.\<close>

theorem setRegistersOnAllCores_programs:
  assumes "kernelCodes K" and "\<not> mcStuck m"
    and "run_state (setRegistersOnAllCores K writes) m = (0, m')"
  shows "registersOf (mcTrace m') core =
    (if unat core < DEBUG_HWBP_CORE_COUNT then applyWrites writes (registersOf (mcTrace m) core)
     else registersOf (mcTrace m) core) \<and>
    lastMask (mcTrace m') = Some (homeOf (knReply K (mcTrace m) (GetThreadCoreMask (knCurrentThread K))))"
proof -
  have writes: "writes \<noteq> []"
    using assms(1,3) by (auto simp: setRegistersOnAllCores_def kernelCodes_def)
  from wp_runI [OF setRegisters_spec [OF assms(1,2) writes] assms(3)]
  have "allWritten writes [0..<DEBUG_HWBP_CORE_COUNT] m m'" by (simp add: setSpec_def)
  then show ?thesis
    using wp_runI [OF setRegisters_home [OF assms(1,2) writes] assms(3)] by (simp only: allWritten_def of_nat_cores)
qed

text \<open>A kernel that moves the thread where it is told to; it refuses to arm a register on \<open>refusing\<close>.\<close>

fun lastPinned :: "Trace \<Rightarrow> u64" where
  "lastPinned [] = 0"
| "lastPinned ((c, r) # t) = (case c of SetThreadCoreMask h core msk \<Rightarrow> of_int core | _ \<Rightarrow> lastPinned t)"

definition okReply :: Reply where
  "okReply = \<lparr>rpResult = 0, rpValue = 0, rpValues = [], rpBytes = [],
     rpEvent = \<lparr>evType = EventOther, evThread = 0, evHardwareBreak = False, evAttached = False, evDataBreak = False, evAddress = 0\<rparr>\<rparr>"

definition sampleKernel :: "u32 option \<Rightarrow> Kernel" where
  "sampleKernel refusing = \<lparr>knReply = (\<lambda>t c.
       (case c of
          GetCurrentProcessorNumber \<Rightarrow> okReply\<lparr>rpValue := lastPinned t\<rparr>
        | GetThreadCoreMask h \<Rightarrow> okReply\<lparr>rpValue := 1, rpValues := [2]\<rparr>
        | SetHardwareBreakPoint reg control v \<Rightarrow>
            if control \<noteq> 0 \<and> refusing \<noteq> None \<and> currentCore t = refusing then noReply else okReply
        | _ \<Rightarrow> okReply)),
     knCurrentThread = 0xFFFF8000, knCurrentProcess = 0xFFFF8001, knInvalidHandle = 0, knTimedOut = 0xEA01,
     knInvalidHandleError = 0xE401, knOwnedByAnother = 0xF401, knBadInput = 0x359, knNotFound = 0x559,
     knExited = 0x54359, knAlreadyExists = 0xE401\<rparr>"

definition idleMachine :: Machine where
  "idleMachine = \<lparr>mcTrace = [], mcStuck = False, mcWatchActive = False, mcTraceActive = False,
     mcMultiTraceActive = False, mcDmntInitialized = False\<rparr>"

lemma sampleKernel_codes: "kernelCodes (sampleKernel refusing)"
  by (simp add: sampleKernel_def kernelCodes_def)

lemma ucast_of_int_core: "ucast (word_of_int c :: u64) = (word_of_int c :: u32)"
  by transfer simp

lemma ucast_of_nat_core: "ucast (word_of_nat c :: u64) = (word_of_nat c :: u32)"
  using ucast_of_int_core [of "int c"] by simp

lemma seen_now:
  assumes here: "ucast (rpValue (knReply K t GetCurrentProcessorNumber)) = (of_nat core :: u32)"
  shows "seenWithin K core DEBUG_HWBP_PIN_ATTEMPTS t"
proof -
  have "seenWithin K core (Suc n) t" for n by (simp add: Let_def here)
  moreover have "DEBUG_HWBP_PIN_ATTEMPTS = Suc (DEBUG_HWBP_PIN_ATTEMPTS - 1)" by (simp add: DEBUG_HWBP_PIN_ATTEMPTS_def)
  ultimately show ?thesis by metis
qed

lemma sampleKernel_moves: "movesTo (sampleKernel refusing) core"
  unfolding movesTo_def Let_def
  by (intro allI conjI seen_now) (simp_all add: sampleKernel_def okReply_def ucast_of_nat_core)

lemma sampleKernel_clears: "clearsOn (sampleKernel refusing) core reg"
  by (simp add: sampleKernel_def clearsOn_def okReply_def)

lemma idleMachine_runs: "\<not> mcStuck idleMachine"
  by (simp add: idleMachine_def)

definition sampleWrites :: "RegisterWrite list" where
  "sampleWrites = [(4, contextControl, 0x25), (0, instructionControl 4 True, 0x8004000)]"

definition programmed :: "res \<times> Machine" where
  "programmed = run_state (setRegistersOnAllCores (sampleKernel None) sampleWrites) idleMachine"

lemma programmed_ok: "fst programmed = 0"
  by code_simp

theorem setRegistersOnAllCores_programs_witness:
  "registersOf (mcTrace (snd programmed)) 2 0 = Some (instructionControl 4 True, 0x8004000) \<and>
   lastMask (mcTrace (snd programmed)) = Some (1, 2)"
proof -
  have "run_state (setRegistersOnAllCores (sampleKernel None) sampleWrites) idleMachine
      = (0, snd programmed)"
    using programmed_ok by (simp add: programmed_def prod_eq_iff)
  from setRegistersOnAllCores_programs [OF sampleKernel_codes idleMachine_runs this, of 2]
  show ?thesis
    by (simp add: sampleWrites_def DEBUG_HWBP_CORE_COUNT_def homeOf_def sampleKernel_def okReply_def)
qed

text \<open>C27: no failure leaves a breakpoint armed on a core that can be reached again.  After a failed call a register of
  a core is as it was or cleared, if the thread can be moved to that core and the register, once it has taken a write
  there, can be cleared there; the other cores may be out of reach, their registers may refuse to be cleared, and the
  rollback goes on to the next core.\<close>

theorem setRegistersOnAllCores_rolls_back:
  assumes "kernelCodes K" and "movesTo K (unat core)" and "clearsOn K core reg" and "\<not> mcStuck m"
    and "run_state (setRegistersOnAllCores K writes) m = (rc, m')" and "rc \<noteq> 0"
  shows "registersOf (mcTrace m') core reg = registersOf (mcTrace m) core reg \<or>
    registersOf (mcTrace m') core reg = Some (0, 0)"
proof (cases "writes = []")
  case True
  then show ?thesis using assms(5) by (simp add: setRegistersOnAllCores_def)
next
  case False
  from wp_runI [OF setRegisters_failure [OF assms(1-4) this] assms(5)] assms(6)
  show ?thesis by (simp add: settled_def)
qed

text \<open>A kernel that refuses to arm a register of core 2, and to move the thread to core 0 once it was on core 2.\<close>

definition strandedKernel :: Kernel where
  "strandedKernel = (sampleKernel (Some 2))\<lparr>knReply := (\<lambda>t c.
     case c of
       SetThreadCoreMask h core msk \<Rightarrow> if core = 0 \<and> currentCore t = Some 2 then noReply else okReply
     | _ \<Rightarrow> knReply (sampleKernel (Some 2)) t c)\<rparr>"

lemma strandedKernel_ok: "kernelCodes strandedKernel" "clearsOn strandedKernel core reg"
  by (simp_all add: strandedKernel_def sampleKernel_def kernelCodes_def clearsOn_def okReply_def)

lemma strandedKernel_moves: "movesTo strandedKernel (Suc core)"
  unfolding movesTo_def Let_def
  by (intro allI conjI seen_now) (simp_all add: strandedKernel_def sampleKernel_def okReply_def ucast_of_nat_core [of "Suc core", simplified])

definition refused :: "res \<times> Machine" where
  "refused = run_state (setRegistersOnAllCores strandedKernel sampleWrites) idleMachine"

lemma refused_fails: "fst refused \<noteq> 0 \<and> registersOf (mcTrace (snd refused)) 0 4 = Some (contextControl, 0x25)"
  by code_simp

theorem setRegistersOnAllCores_rolls_back_witness:
  "registersOf (mcTrace (snd refused)) 1 0 = registersOf (mcTrace idleMachine) 1 0 \<or>
   registersOf (mcTrace (snd refused)) 1 0 = Some (0, 0)"
proof -
  have "run_state (setRegistersOnAllCores strandedKernel sampleWrites) idleMachine = (fst refused, snd refused)"
    by (simp add: refused_def)
  moreover have "movesTo strandedKernel (unat (1 :: u32))" using strandedKernel_moves [of 0] by simp
  ultimately show ?thesis
    using setRegistersOnAllCores_rolls_back [OF strandedKernel_ok(1) _ strandedKernel_ok(2) idleMachine_runs]
      refused_fails by blast
qed

end
