(* ===== verification/HwBpWatch.thy ===== *)
theory HwBpWatch
  imports HwBp
begin

text \<open>
  What a data watchpoint watches.  \<open>watches\<close> is the reading of a watchpoint's control and value by the
  processor (Arm, DBGWCR and DBGWVR): without a mask the byte select bits 5 to 12 pick bytes of the doubleword at
  the value; with a mask (bits 24 to 28) that many low bits of the address are not compared.
\<close>

definition watchMask :: "u64 \<Rightarrow> nat" where
  "watchMask control = unat (drop_bit 24 control AND 0x1F)"

definition watches :: "u64 \<Rightarrow> u64 \<Rightarrow> u64 \<Rightarrow> bool" where
  "watches control v a =
    (if watchMask control = 0
     then unat a div 8 = unat v div 8 \<and> bit control (5 + unat a mod 8)
     else unat a div 2 ^ watchMask control = unat v div 2 ^ watchMask control)"

subsection \<open>Powers of two\<close>

lemma nat_power_of_two:
  "0 < n \<Longrightarrow> n AND (n - 1) = (0 :: nat) \<Longrightarrow> \<exists>k. n = 2 ^ k"
proof (induction n rule: less_induct)
  case (less n)
  show ?case
  proof (cases "even n")
    case True
    then obtain m where m: "n = 2 * m" by (elim evenE)
    with less.prems(1) have "0 < m" "m < n" by auto
    have "(n - 1) div 2 = m - 1" using m by presburger
    then have "n AND (n - 1) = 2 * (m AND (m - 1))"
      using True m by (subst and_rec) simp
    with less.prems(2) have "m AND (m - 1) = 0" by simp
    from less.IH [OF \<open>m < n\<close> \<open>0 < m\<close> this] obtain k where "m = 2 ^ k" by blast
    then show ?thesis using m by (intro exI [of _ "Suc k"]) simp
  next
    case False
    have "(n - 1) div 2 = n div 2" using False by presburger
    then have "n AND (n - 1) = 2 * (n div 2 AND n div 2)"
      using False less.prems(1) by (subst and_rec) simp
    with less.prems(2) have "n div 2 = 0" by simp
    with False have "n = 1" by presburger
    then show ?thesis by (intro exI [of _ 0]) simp
  qed
qed

lemma word_power_of_two:
  fixes w :: u64
  assumes "w \<noteq> 0" and "w AND (w - 1) = 0"
  shows "\<exists>k. unat w = 2 ^ k"
proof -
  have "unat (w AND (w - 1)) = unat w AND unat (w - 1)" by (simp add: unsigned_and_eq)
  with assms have "unat w AND (unat w - 1) = 0" by (simp add: unat_minus_one)
  moreover have "0 < unat w" using assms(1) by (simp add: unat_gt_0)
  ultimately show ?thesis by (intro nat_power_of_two) auto
qed

subsection \<open>The fields of the control\<close>

definition packControl :: "u32 \<Rightarrow> u8 \<Rightarrow> u8 \<Rightarrow> u8 \<Rightarrow> u64" where
  "packControl contextSlot bas mask' lsc =
    (push_bit 24 (ucast mask') OR push_bit 16 (ucast contextSlot) OR push_bit 5 (ucast bas)
       OR push_bit 3 (ucast lsc) OR (if lsc \<noteq> 0 then 1 else 0))"

lemma small_bit:
  fixes w :: "'a::len word"
  assumes "unat w < 2 ^ n" and "bit w j"
  shows "j < n"
proof (rule ccontr)
  assume "\<not> j < n"
  then have "(2 :: nat) ^ n \<le> 2 ^ j" by (intro power_increasing) auto
  with assms(1) have "unat w < 2 ^ j" by linarith
  then have "unat w div 2 ^ j = 0" by simp
  moreover have "bit (unat w) j" using assms(2) by (simp add: bit_unsigned_iff bit_imp_le_length)
  ultimately show False by (simp add: bit_iff_odd)
qed

lemma control_bas:
  assumes "unat contextSlot < 16" and "unat lsc < 4" and "i < 8"
  shows "bit (packControl contextSlot bas mask' lsc) (5 + i) \<longleftrightarrow> bit bas i"
proof -
  have "\<not> bit lsc (2 + i)" using small_bit [of lsc 2 "2 + i"] assms(2) by auto
  then show ?thesis
    using assms(3) by (auto simp: packControl_def bit_simps)
qed

lemma control_mask:
  assumes "unat contextSlot < 16" and "unat lsc < 4" and "unat mask' < 32"
  shows "watchMask (packControl contextSlot bas mask' lsc) = unat mask'"
proof -
  have slot: "bit contextSlot j \<Longrightarrow> j < 4" for j
    using small_bit [of contextSlot 4 j] assms(1) by auto
  have l: "bit lsc j \<Longrightarrow> j < 2" for j using small_bit [of lsc 2 j] assms(2) by auto
  have m: "bit mask' j \<Longrightarrow> j < 5" for j using small_bit [of mask' 5 j] assms(3) by auto
  have low: "x AND 0x1F = take_bit 5 x" for x :: u64
    by (simp add: take_bit_eq_mask mask_eq_exp_minus_1)
  have "drop_bit 24 (packControl contextSlot bas mask' lsc) AND 0x1F = ucast mask'"
    unfolding low
    by (intro bit_word_eqI) (auto simp: packControl_def bit_simps dest: slot l m bit_imp_le_length)
  then show ?thesis by (simp add: watchMask_def unsigned_ucast_eq take_bit_nat_eq_self)
qed

subsection \<open>Small watchpoints\<close>

lemma and_not_7: "unat (a AND NOT 7 :: u64) = unat a div 8 * 8"
proof -
  have seven: "(7 :: u64) = mask 3" by (simp add: mask_eq_exp_minus_1)
  have "a AND NOT 7 = push_bit 3 (drop_bit 3 a)"
    unfolding seven by (rule bit_word_eqI) (auto simp: bit_simps)
  then have "unat (a AND NOT 7) = unat (push_bit 3 (drop_bit 3 a))" by simp
  also have "\<dots> = unat a div 8 * 8"
    using unat_u64_lt [of a]
    by (simp add: unsigned_push_bit_eq unat_drop_bit_eq push_bit_nat_def drop_bit_nat_def take_bit_nat_eq_self)
  finally show ?thesis .
qed

lemma and_7: "unat (a AND 7 :: u64) = unat a mod 8"
proof -
  have "a AND 7 = take_bit 3 a" by (simp add: take_bit_eq_mask mask_eq_exp_minus_1)
  then have "unat (a AND 7) = take_bit 3 (unat a)" by (simp only: unsigned_take_bit_eq)
  then show ?thesis by (simp add: take_bit_nat_def)
qed

lemma bit_bas:
  "n \<le> 8 \<Longrightarrow> i < 8 \<Longrightarrow>
   bit (ucast (push_bit off (push_bit n 1 - 1 :: u32)) :: u8) i \<longleftrightarrow> off \<le> i \<and> i < off + n"
proof -
  assume n: "n \<le> 8" "i < 8"
  have "push_bit n 1 - 1 = (mask n :: u32)" by (simp add: mask_eq_exp_minus_1)
  then show ?thesis using n by (auto simp: bit_simps)
qed

lemma same_block:
  fixes x n :: nat
  assumes "x div 8 = (x + (n - 1)) div 8" and "0 < n" and "n \<le> 8"
  shows "x mod 8 + n \<le> 8"
proof -
  have "(x + (n - 1)) div 8 = x div 8 + (x mod 8 + (n - 1)) div 8"
    using div_add1_eq [of x "n - 1" 8] assms(3) by simp
  with assms(1) have "(x mod 8 + (n - 1)) div 8 = 0" by linarith
  then have "x mod 8 + (n - 1) < 8" by simp
  with assms(2) show ?thesis by linarith
qed

lemma wrapped_block:
  fixes x n :: nat
  assumes "x < 2 ^ 64" and "2 ^ 64 \<le> x + (n - 1)" and "n \<le> 8"
  shows "x div 8 \<noteq> (x + (n - 1) - 2 ^ 64) div 8"
proof -
  have "x + (n - 1) - 2 ^ 64 < 8" "8 \<le> x" using assms by simp_all
  then have "(x + (n - 1) - 2 ^ 64) div 8 = 0" "x div 8 \<noteq> 0" by simp_all
  then show ?thesis by simp
qed

lemma watch_small_fits:
  assumes "debugHwBpIsValidWatchPoint address size'" and "size' \<le> 8"
  shows "unat address mod 8 + unat size' \<le> 8"
proof -
  have s: "0 < unat size'" "unat size' \<le> 8"
    using assms by (auto simp: debugHwBpIsValidWatchPoint_def word_le_nat_alt unat_gt_0 split: if_splits)
  have one: "unat (size' - 1) = unat size' - 1" using s by (intro unat_minus_one) auto
  have "address + size' - 1 = address + (size' - 1)" by simp
  then have "unat (address + size' - 1) = (unat address + unat (size' - 1)) mod 2 ^ LENGTH(64)"
    by (simp only: unat_word_ariths(1))
  then have u: "unat (address + size' - 1) = (unat address + (unat size' - 1)) mod 2 ^ 64"
    by (simp only: one) simp
  have "unat (address AND NOT 7) = unat ((address + size' - 1) AND NOT 7)"
    using assms by (simp add: debugHwBpIsValidWatchPoint_def split: if_splits)
  then have "unat address div 8 * 8 = (unat address + (unat size' - 1)) mod 2 ^ 64 div 8 * 8"
    by (simp only: and_not_7 u)
  then have eq: "unat address div 8 = (unat address + (unat size' - 1)) mod 2 ^ 64 div 8" by linarith
  show ?thesis
  proof (cases "unat address + (unat size' - 1) < 2 ^ 64")
    case True
    with eq have "unat address div 8 = (unat address + (unat size' - 1)) div 8" by simp
    then show ?thesis by (rule same_block [OF _ s])
  next
    case False
    then have "(unat address + (unat size' - 1)) mod 2 ^ 64 = unat address + (unat size' - 1) - 2 ^ 64"
      using s unat_u64_lt [of address] by (simp add: mod_if)
    with eq have "unat address div 8 = (unat address + (unat size' - 1) - 2 ^ 64) div 8" by (simp only:)
    then show ?thesis
      using wrapped_block [OF unat_u64_lt _ s(2)] False by (simp only: not_less)
  qed
qed

lemma block_range:
  fixes a b n k :: nat
  assumes "b mod k + n \<le> k"
  shows "a div k = b div k \<and> b mod k \<le> a mod k \<and> a mod k < b mod k + n \<longleftrightarrow> b \<le> a \<and> a < b + n"
proof
  assume l: "a div k = b div k \<and> b mod k \<le> a mod k \<and> a mod k < b mod k + n"
  have "a = k * (b div k) + a mod k" "b = k * (b div k) + b mod k" using l by (metis mult_div_mod_eq)+
  with l show "b \<le> a \<and> a < b + n" by linarith
next
  assume r: "b \<le> a \<and> a < b + n"
  have b: "b = k * (b div k) + b mod k" by simp
  have "k * (b div k) \<le> a" "a < k * (b div k) + k" using r b assms by linarith+
  then have "a div k = b div k" by (metis div_nat_eqI mult.commute mult_Suc_right add.commute)
  moreover from this have "a = k * (b div k) + a mod k" by (metis mult_div_mod_eq)
  ultimately show "a div k = b div k \<and> b mod k \<le> a mod k \<and> a mod k < b mod k + n"
    using r b by linarith
qed

subsection \<open>Large watchpoints\<close>

lemma watch_large:
  assumes "debugHwBpIsValidWatchPoint address size'" and "8 < size'"
  obtains k where "unat size' = 2 ^ k" and "0 < k" and "k < 32" and "unat address mod 2 ^ k = 0"
    and "length (filter (bit (size' - 1)) [0..<64]) = k"
proof -
  have v: "size' \<noteq> 0" "size' \<le> 0x80000000" "size' AND (size' - 1) = 0" "address AND (size' - 1) = 0"
    using assms by (auto simp: debugHwBpIsValidWatchPoint_def split: if_splits)
  then obtain k where k: "unat size' = 2 ^ k" using word_power_of_two by blast
  have "unat size' \<le> unat (0x80000000 :: u64)" using v(2) by (simp add: word_le_nat_alt)
  then have "(2 :: nat) ^ k \<le> 2 ^ 31" by (simp add: k)
  then have k31: "k \<le> 31" by (rule power_le_imp_le_exp [rotated]) simp
  have "8 < (2 :: nat) ^ k" using assms(2) k by (simp add: word_less_nat_alt)
  then have k0: "0 < k" by (cases k) auto
  have "size' = of_nat (unat size')" by simp
  then have "size' = word_of_nat (2 ^ k)" by (simp only: k)
  then have m: "size' - 1 = mask k" by (simp add: mask_eq_exp_minus_1)
  have "unat (address AND mask k) = take_bit k (unat address)"
    by (simp only: take_bit_eq_mask [symmetric] unsigned_take_bit_eq)
  then have "unat address mod 2 ^ k = 0" using v(4) m by (simp add: take_bit_nat_def)
  moreover have "filter (bit (size' - 1)) [0..<64] = filter (\<lambda>i. i < k) [0..<64]"
    unfolding m by (rule filter_cong) (auto simp: bit_simps)
  moreover have "length (filter (\<lambda>i. i < k) [0..<64]) = k"
  proof -
    have "[0..<64] = [0..<k] @ [k..<64]" using upt_add_eq_append [of 0 k "64 - k"] k31 by simp
    then show ?thesis by simp
  qed
  ultimately show thesis using that k k0 k31 by simp
qed

lemma watchControl_pack:
  "watchControl contextSlot address size' lsc =
    (if size' \<le> 8
     then (packControl contextSlot
             (ucast (push_bit (unat (address AND 7)) (push_bit (unat size') 1 - 1 :: u32))) 0 lsc,
           address AND NOT 7)
     else (packControl contextSlot 0xFF (of_nat (length (filter (bit (size' - 1)) [0..<64]))) lsc, address))"
  by (simp add: watchControl_def packControl_def Let_def)

text \<open>C28: a watchpoint the program accepts watches exactly the bytes of the range it was asked for, for
  every alignment of a range of up to eight bytes and for every larger power of two.\<close>

theorem watchControl_exact:
  assumes "debugHwBpIsValidWatchPoint address size'" and "contextSlot < 16" and "lsc < 4"
  shows "watches (fst (watchControl contextSlot address size' lsc))
      (snd (watchControl contextSlot address size' lsc)) a
    \<longleftrightarrow> unat address \<le> unat a \<and> unat a < unat address + unat size'"
proof -
  have slot: "unat contextSlot < 16" "unat lsc < 4"
    using assms(2,3) by (simp_all add: word_less_nat_alt)
  show ?thesis
  proof (cases "size' \<le> 8")
    case True
    define bas :: u8 where
      "bas = ucast (push_bit (unat (address AND 7)) (push_bit (unat size') 1 - 1 :: u32))"
    have s: "unat size' \<le> 8" using True by (simp add: word_le_nat_alt)
    have "bit bas (unat a mod 8) \<longleftrightarrow> unat address mod 8 \<le> unat a mod 8 \<and>
        unat a mod 8 < unat address mod 8 + unat size'"
      unfolding bas_def and_7 by (rule bit_bas) (use s in auto)
    moreover have "watchMask (packControl contextSlot bas 0 lsc) = 0"
      using control_mask [of contextSlot lsc 0 bas] slot by simp
    moreover have "bit (packControl contextSlot bas 0 lsc) (5 + unat a mod 8) = bit bas (unat a mod 8)"
      using slot by (intro control_bas) auto
    moreover obtain v where "watchControl contextSlot address size' lsc = (packControl contextSlot bas 0 lsc, v)"
      "unat v = unat address div 8 * 8"
      using True and_not_7 [of address] by (simp only: watchControl_pack bas_def if_True)
    ultimately show ?thesis
      using block_range [OF watch_small_fits [OF assms(1) True], of "unat a"] by (simp add: watches_def)
  next
    case False
    then have "8 < size'" by simp
    from watch_large [OF assms(1) this]
    obtain k where k: "unat size' = 2 ^ k" "0 < k" "k < 32" "unat address mod 2 ^ k = 0"
      "length (filter (bit (size' - 1)) [0..<64]) = k" .
    have "unat (of_nat k :: u8) = k" using k(3) by (simp add: unat_of_nat take_bit_nat_eq_self)
    then have wm: "watchMask (packControl contextSlot 0xFF (of_nat k) lsc) = k"
      using control_mask [of contextSlot lsc "of_nat k" "0xFF"] slot k(3) by simp
    have wc: "watchControl contextSlot address size' lsc = (packControl contextSlot 0xFF (of_nat k) lsc, address)"
      using False by (simp only: watchControl_pack k(5) if_False)
    have "unat a div 2 ^ k = unat address div 2 ^ k \<longleftrightarrow>
        unat address \<le> unat a \<and> unat a < unat address + 2 ^ k"
      using block_range [of "unat address" "2 ^ k" "2 ^ k" "unat a"] k(4) by simp
    with k(2) show ?thesis unfolding wc fst_conv snd_conv watches_def wm k(1) by simp
  qed
qed

theorem watchControl_exact_witness:
  "watches (fst (watchControl 5 0x1003 5 3)) (snd (watchControl 5 0x1003 5 3)) 0x1007
    \<longleftrightarrow> unat (0x1003 :: u64) \<le> unat (0x1007 :: u64) \<and>
        unat (0x1007 :: u64) < unat (0x1003 :: u64) + unat (5 :: u64)"
proof (rule watchControl_exact)
  show "debugHwBpIsValidWatchPoint 0x1003 5" by code_simp
qed simp_all

end
