(* ===== verification/DebugProcess.thy ===== *)
theory DebugProcess
  imports Horizon
begin

text \<open>
  \<open>dmnt_client.c\<close>, the session with the cheat service, and \<open>debug_process.c\<close>, the debug handle on a process:
  attaching, waiting for the first events, stopping and resuming.  A call of the service is \<open>Dmnt\<close> with
  the number of the command; an output of a failed call is not written.
\<close>

definition DEBUG_PROCESS_EVENT_TIMEOUT_NS :: int where "DEBUG_PROCESS_EVENT_TIMEOUT_NS = 20000000"
definition DEBUG_PROCESS_CONTINUE_FLAGS :: u32 where
  "DEBUG_PROCESS_CONTINUE_FLAGS = push_bit 0 1 OR push_bit 1 1 OR push_bit 2 1"

subsection \<open>The cheat service\<close>

definition dmntClientInitialize :: "Kernel \<Rightarrow> ('m Machine_scheme, res) state" where
  "dmntClientInitialize K = do {
     ready \<leftarrow> State (\<lambda>m. (mcDmntInitialized m, m));
     if ready then State_Monad.return 0
     else do {
       rc \<leftarrow> svcResult K GetDmntService;
       _ \<leftarrow> (if R_SUCCEEDED rc then State (\<lambda>m. ((), m\<lparr>mcDmntInitialized := True\<rparr>)) else skip);
       State_Monad.return rc
     }
   }"

definition dmntClientExit :: "Kernel \<Rightarrow> ('m Machine_scheme, unit) state" where
  "dmntClientExit K = do {
     ready \<leftarrow> State (\<lambda>m. (mcDmntInitialized m, m));
     _ \<leftarrow> (if ready then do { _ \<leftarrow> svc K CloseDmntService; skip } else skip);
     State (\<lambda>m. ((), m\<lparr>mcDmntInitialized := False\<rparr>))
   }"

definition dmntClientIsInitialized :: "('m Machine_scheme, bool) state" where
  "dmntClientIsInitialized = State (\<lambda>m. (mcDmntInitialized m, m))"

definition dmntClientHasProcess :: "Kernel \<Rightarrow> ('m Machine_scheme, res \<times> bool) state" where
  "dmntClientHasProcess K = do {
     r \<leftarrow> svc K (Dmnt 65000 [] []);
     State_Monad.return (rpResult r, R_SUCCEEDED (rpResult r) \<and> bit (rpValue r) 0)
   }"

record DmntProcessMetadata =
  dmProcessId :: u64
  dmTitleId :: u64
  dmMainBase :: u64
  dmMainSize :: u64
  dmHeapBase :: u64
  dmHeapSize :: u64
  dmAliasBase :: u64
  dmAliasSize :: u64
  dmAddressSpaceBase :: u64
  dmAddressSpaceSize :: u64
  dmBuildId :: "u8 list"

text \<open>The ten words of the reply, in the order of the structure, and the 32 bytes of the build id.\<close>

definition metadataOf :: "Reply \<Rightarrow> DmntProcessMetadata" where
  "metadataOf r = (let w = (\<lambda>i. (rpValues r @ replicate 10 0) ! i)
     in \<lparr>dmProcessId = w 0, dmTitleId = w 1, dmMainBase = w 2, dmMainSize = w 3, dmHeapBase = w 4,
         dmHeapSize = w 5, dmAliasBase = w 6, dmAliasSize = w 7, dmAddressSpaceBase = w 8,
         dmAddressSpaceSize = w 9, dmBuildId = take 32 (rpBytes r @ replicate 32 0)\<rparr>)"

definition dmntClientGetMetadata :: "Kernel \<Rightarrow> ('m Machine_scheme, res \<times> DmntProcessMetadata) state" where
  "dmntClientGetMetadata K = do {
     r \<leftarrow> svc K (Dmnt 65002 [] []);
     State_Monad.return (rpResult r, metadataOf r)
   }"

definition dmntClientForceOpen :: "Kernel \<Rightarrow> ('m Machine_scheme, res) state" where
  "dmntClientForceOpen K = svcResult K (Dmnt 65003 [] [])"

definition dmntClientForceClose :: "Kernel \<Rightarrow> ('m Machine_scheme, res) state" where
  "dmntClientForceClose K = svcResult K (Dmnt 65006 [] [])"

definition dmntClientRead :: "Kernel \<Rightarrow> u64 \<Rightarrow> u64 \<Rightarrow> ('m Machine_scheme, Reply) state" where
  "dmntClientRead K address size' = svc K (Dmnt 65102 [address, size'] [])"

definition dmntClientWrite :: "Kernel \<Rightarrow> u64 \<Rightarrow> u8 list \<Rightarrow> ('m Machine_scheme, res) state" where
  "dmntClientWrite K address bytes = svcResult K (Dmnt 65103 [address, of_nat (length bytes)] bytes)"

definition dmntClientQuery :: "Kernel \<Rightarrow> u64 \<Rightarrow> ('m Machine_scheme, Reply) state" where
  "dmntClientQuery K address = svc K (Dmnt 65104 [address] [])"

definition dmntClientPause :: "Kernel \<Rightarrow> ('m Machine_scheme, res) state" where
  "dmntClientPause K = svcResult K (Dmnt 65004 [] [])"

definition dmntClientResume :: "Kernel \<Rightarrow> ('m Machine_scheme, res) state" where
  "dmntClientResume K = svcResult K (Dmnt 65005 [] [])"

subsection \<open>The debug handle\<close>

text \<open>The cheat service is made to let go of the process when it is the application; the
  result says whether it had to.\<close>

definition releaseDmnt :: "Kernel \<Rightarrow> u64 \<Rightarrow> ('m Machine_scheme, bool) state" where
  "releaseDmnt K pid = do {
     r \<leftarrow> svc K GetApplicationProcessId;
     if R_SUCCEEDED (rpResult r) \<and> rpValue r = pid
     then do {
       rc \<leftarrow> dmntClientInitialize K;
       if R_SUCCEEDED rc
       then do {
         (rc, attached) \<leftarrow> dmntClientHasProcess K;
         if R_SUCCEEDED rc \<and> attached
         then do { _ \<leftarrow> dmntClientForceClose K; State_Monad.return True }
         else State_Monad.return False
       }
       else State_Monad.return False
     }
     else State_Monad.return False
   }"

text \<open>The result, the handle and \<open>dmntClosed\<close>.\<close>

definition debugProcessOpen :: "Kernel \<Rightarrow> u64 \<Rightarrow> ('m Machine_scheme, res \<times> u32 \<times> bool) state" where
  "debugProcessOpen K pid =
    (if pid = 0 then State_Monad.return (knBadInput K, knInvalidHandle K, False)
     else do {
       owned \<leftarrow> debugOwned;
       if owned then State_Monad.return (knOwnedByAnother K, knInvalidHandle K, False)
       else do {
         dmntClosed \<leftarrow> releaseDmnt K pid;
         r \<leftarrow> svc K (DebugActiveProcess pid);
         State_Monad.return (rpResult r,
           if R_SUCCEEDED (rpResult r) then ucast (rpValue r) else knInvalidHandle K, dmntClosed)
       }
     })"

text \<open>The events behind one wait: \<open>exited\<close> or 0, and whether the process was announced.\<close>

fun initialEvents :: "Kernel \<Rightarrow> nat \<Rightarrow> u32 \<Rightarrow> bool \<Rightarrow> ('m Machine_scheme, res \<times> bool) state" where
  "initialEvents K 0 h attachedSeen = do { _ \<leftarrow> outOfFuel; State_Monad.return (0, attachedSeen) }"
| "initialEvents K (Suc fuel) h attachedSeen = do {
     r \<leftarrow> svc K (GetDebugEvent h);
     if R_FAILED (rpResult r) then State_Monad.return (0, attachedSeen)
     else if evType (rpEvent r) = EventExitProcess then State_Monad.return (knExited K, attachedSeen)
     else initialEvents K fuel h (attachedSeen \<or> evType (rpEvent r) = EventCreateProcess)
   }"

fun drainLoop :: "Kernel \<Rightarrow> nat \<Rightarrow> u32 \<Rightarrow> u64 \<Rightarrow> bool \<Rightarrow> ('m Machine_scheme, res) state" where
  "drainLoop K 0 h deadline attachedSeen = do { _ \<leftarrow> outOfFuel; State_Monad.return 0 }"
| "drainLoop K (Suc fuel) h deadline attachedSeen = do {
     rc \<leftarrow> svcResult K (WaitSynchronization h DEBUG_PROCESS_EVENT_TIMEOUT_NS);
     if rc = knTimedOut K
     then if attachedSeen then State_Monad.return 0
          else do {
            r \<leftarrow> svc K GetSystemTick;
            if rpValue r \<ge> deadline then State_Monad.return 0 else drainLoop K fuel h deadline attachedSeen
          }
     else if R_FAILED rc then State_Monad.return rc
     else do {
       (rc, attachedSeen) \<leftarrow> initialEvents K fuel h attachedSeen;
       if R_FAILED rc then State_Monad.return rc else drainLoop K fuel h deadline attachedSeen
     }
   }"

definition debugProcessDrain :: "Kernel \<Rightarrow> nat \<Rightarrow> u32 \<Rightarrow> ('m Machine_scheme, res) state" where
  "debugProcessDrain K fuel h = do {
     tick \<leftarrow> svc K GetSystemTick;
     freq \<leftarrow> svc K GetSystemTickFreq;
     drainLoop K fuel h (rpValue tick + rpValue freq) False
   }"

fun breakEvents :: "Kernel \<Rightarrow> nat \<Rightarrow> u32 \<Rightarrow> ('m Machine_scheme, res) state" where
  "breakEvents K 0 h = do { _ \<leftarrow> outOfFuel; State_Monad.return 0 }"
| "breakEvents K (Suc fuel) h = do {
     r \<leftarrow> svc K (GetDebugEvent h);
     if R_FAILED (rpResult r) then State_Monad.return 0
     else if evType (rpEvent r) = EventExitProcess then State_Monad.return (knExited K)
     else breakEvents K fuel h
   }"

text \<open>At most \<open>n\<close> waits.\<close>

fun pauseLoop :: "Kernel \<Rightarrow> nat \<Rightarrow> u32 \<Rightarrow> nat \<Rightarrow> ('m Machine_scheme, res) state" where
  "pauseLoop K fuel h 0 = State_Monad.return (knTimedOut K)"
| "pauseLoop K fuel h (Suc n) = do {
     rc \<leftarrow> svcResult K (WaitSynchronization h DEBUG_PROCESS_EVENT_TIMEOUT_NS);
     if rc = knTimedOut K then pauseLoop K fuel h n
     else if R_FAILED rc then State_Monad.return rc
     else breakEvents K fuel h
   }"

definition debugProcessPause :: "Kernel \<Rightarrow> nat \<Rightarrow> u32 \<Rightarrow> ('m Machine_scheme, res) state" where
  "debugProcessPause K fuel h = do {
     rc \<leftarrow> svcResult K (BreakDebugProcess h);
     if R_FAILED rc then State_Monad.return rc else pauseLoop K fuel h 50
   }"

definition debugProcessResume :: "Kernel \<Rightarrow> u32 \<Rightarrow> ('m Machine_scheme, res) state" where
  "debugProcessResume K h = svcResult K (ContinueDebugEvent h DEBUG_PROCESS_CONTINUE_FLAGS [0])"

definition debugProcessClose :: "Kernel \<Rightarrow> u32 \<Rightarrow> ('m Machine_scheme, unit) state" where
  "debugProcessClose K h =
    (if h \<noteq> knInvalidHandle K then do { _ \<leftarrow> svc K (CloseHandle h); skip } else skip)"

subsection \<open>Modules and memory\<close>

text \<open>\<open>modules[i].base_address\<close> is the value at \<open>i\<close> of the reply, \<open>count\<close> its \<open>rpValue\<close>.\<close>

definition debugProcessResolveMainBase :: "Kernel \<Rightarrow> u64 \<Rightarrow> ('m Machine_scheme, res \<times> u64) state" where
  "debugProcessResolveMainBase K pid =
    (if pid = 0 then State_Monad.return (knBadInput K, 0)
     else do {
       r \<leftarrow> svc K (GetProcessModules pid 2);
       (let count = sint (ucast (rpValue r) :: u32)
        in if R_FAILED (rpResult r) then State_Monad.return (rpResult r, 0)
           else if count \<le> 0 then State_Monad.return (knNotFound K, 0)
           else State_Monad.return (0, (rpValues r @ [0, 0]) ! (if count > 1 then 1 else 0)))
     })"

definition debugProcessReadMemory ::
  "Kernel \<Rightarrow> nat \<Rightarrow> u64 \<Rightarrow> u64 \<Rightarrow> u32 \<Rightarrow> ('m Machine_scheme, res \<times> u8 list) state" where
  "debugProcessReadMemory K fuel pid address size' =
    (if pid = 0 \<or> address = 0 \<or> size' = 0 then State_Monad.return (knBadInput K, [])
     else do {
       (rc, h, dmntClosed) \<leftarrow> debugProcessOpen K pid;
       if R_FAILED rc then State_Monad.return (rc, [])
       else do {
         rc \<leftarrow> debugProcessDrain K fuel h;
         (rc, bytes) \<leftarrow>
           (if R_SUCCEEDED rc
            then do {
              r \<leftarrow> svc K (ReadDebugProcessMemory h address (ucast size'));
              State_Monad.return (rpResult r, rpBytes r)
            }
            else State_Monad.return (rc, []));
         _ \<leftarrow> debugProcessClose K h;
         State_Monad.return (rc, bytes)
       }
     })"

subsection \<open>Memory maps\<close>

record MapEntry =
  meAddr :: u64
  meSize :: u64
  meType :: u32
  mePerm :: u32

text \<open>The type \<open>MemType_Unmapped\<close> is 0, and \<open>MemoryInfo\<close> is the list of the address, the size, the type and the permissions.\<close>

definition infoField :: "Reply \<Rightarrow> nat \<Rightarrow> u64" where
  "infoField r i = (rpValues r @ replicate 4 0) ! i"

fun mapsLoop :: "Kernel \<Rightarrow> nat \<Rightarrow> u32 \<Rightarrow> nat \<Rightarrow> u64 \<Rightarrow> MapEntry list \<Rightarrow>
    ('m Machine_scheme, res \<times> u64 \<times> MapEntry list) state" where
  "mapsLoop K 0 h limit addr entries = do { _ \<leftarrow> outOfFuel; State_Monad.return (0, addr, entries) }"
| "mapsLoop K (Suc fuel) h limit addr entries =
    (if length entries \<ge> limit then State_Monad.return (0, addr, entries)
     else do {
       r \<leftarrow> svc K (QueryDebugProcessMemory h addr);
       (let next' = infoField r 0 + infoField r 1; type' = ucast (infoField r 2 AND 0xFF) :: u32;
            entries' = (if type' \<noteq> 0
              then entries @ [\<lparr>meAddr = infoField r 0, meSize = infoField r 1, meType = type',
                               mePerm = ucast (infoField r 3)\<rparr>]
              else entries)
        in if R_FAILED (rpResult r) then State_Monad.return (rpResult r, addr, entries)
           else if infoField r 1 = 0 then State_Monad.return (0, addr, entries)
           else if next' \<le> addr then State_Monad.return (0, addr, entries')
           else mapsLoop K fuel h limit next' entries')
     })"

text \<open>What \<open>debug maps\<close> prints: the failure, or the entries with the flags behind them.\<close>

datatype MapsReport =
    MapsAttachFailed res
  | MapsFailed res
  | MapsListed "MapEntry list" nat bool bool res

definition debugProcessPrintMaps :: "Kernel \<Rightarrow> nat \<Rightarrow> u64 \<Rightarrow> nat \<Rightarrow> ('m Machine_scheme, MapsReport) state" where
  "debugProcessPrintMaps K fuel pid wanted =
    (let limit = (if wanted = 0 then 1 else if wanted > 0x100 then 0x100 else wanted)
     in do {
       (rc, h, dmntClosed) \<leftarrow> debugProcessOpen K pid;
       if R_FAILED rc then State_Monad.return (MapsAttachFailed rc)
       else do {
         (scanRc, addr, entries) \<leftarrow> mapsLoop K fuel h limit 0 [];
         truncated \<leftarrow>
           (if length entries = limit
            then do {
              r \<leftarrow> svc K (QueryDebugProcessMemory h addr);
              State_Monad.return (R_SUCCEEDED (rpResult r) \<and> infoField r 1 \<noteq> 0)
            }
            else State_Monad.return False);
         _ \<leftarrow> debugProcessClose K h;
         State_Monad.return
           (if entries = [] \<and> R_FAILED scanRc then MapsFailed scanRc
            else MapsListed entries limit truncated dmntClosed scanRc)
       }
     })"

subsection \<open>Threads\<close>

record ThreadRecord =
  trThreadId :: u64
  trContextRc :: res
  trPc :: u64
  trLr :: u64
  trSp :: u64
  trStateRc :: res
  trState :: u32
  trCoreRc :: res
  trCurrentCore :: u32
  trMaskRc :: res
  trCoreMask :: u32

text \<open>A parameter of a thread: its 64-bit value, or its 32-bit value behind it.\<close>

definition value32 :: "Reply \<Rightarrow> u32" where
  "value32 r = ucast (hd (rpValues r @ [0]))"

definition threadRecord :: "Kernel \<Rightarrow> u32 \<Rightarrow> u64 \<Rightarrow> ('m Machine_scheme, ThreadRecord) state" where
  "threadRecord K h threadId = do {
     context \<leftarrow> svc K (GetDebugThreadContext h threadId);
     state' \<leftarrow> svc K (GetDebugThreadParam h threadId ParamState);
     core \<leftarrow> svc K (GetDebugThreadParam h threadId ParamCurrentCore);
     coreMask \<leftarrow> svc K (GetDebugThreadParam h threadId ParamCoreMask);
     (let register = (\<lambda>i. if R_SUCCEEDED (rpResult context) then (rpValues context @ [0, 0, 0]) ! i else 0)
      in State_Monad.return
        \<lparr>trThreadId = threadId, trContextRc = rpResult context,
         trPc = register 0, trLr = register 1, trSp = register 2,
         trStateRc = rpResult state',
         trState = (if R_SUCCEEDED (rpResult state') then ucast (rpValue state') else 0),
         trCoreRc = rpResult core,
         trCurrentCore = (if R_SUCCEEDED (rpResult core) then value32 core else 0),
         trMaskRc = rpResult coreMask,
         trCoreMask = (if R_SUCCEEDED (rpResult coreMask) then value32 coreMask else 0)\<rparr>)
   }"

fun threadRecords :: "Kernel \<Rightarrow> u32 \<Rightarrow> u64 list \<Rightarrow> ('m Machine_scheme, ThreadRecord list) state" where
  "threadRecords K h [] = State_Monad.return []"
| "threadRecords K h (threadId # threadIds) = do {
     record' \<leftarrow> threadRecord K h threadId;
     records \<leftarrow> threadRecords K h threadIds;
     State_Monad.return (record' # records)
   }"

datatype ThreadsReport =
    ThreadsAttachFailed res
  | ThreadsDrainFailed res
  | ThreadsPauseFailed res
  | ThreadsFailed res
  | ThreadsResumeFailed res
  | ThreadsListed "ThreadRecord list" int bool

definition listThreads :: "Kernel \<Rightarrow> u32 \<Rightarrow> bool \<Rightarrow> ('m Machine_scheme, ThreadsReport) state" where
  "listThreads K h dmntClosed = do {
     r \<leftarrow> svc K (GetThreadList h 0x100);
     if R_FAILED (rpResult r)
     then do { _ \<leftarrow> debugProcessResume K h; State_Monad.return (ThreadsFailed (rpResult r)) }
     else (let reportedCount = sint (ucast (rpValue r) :: u32);
               storedCount = nat (min reportedCount 0x100)
           in do {
             records \<leftarrow> threadRecords K h (take storedCount (rpValues r));
             rc \<leftarrow> debugProcessResume K h;
             State_Monad.return
               (if R_FAILED rc then ThreadsResumeFailed rc
                else ThreadsListed records reportedCount dmntClosed)
           })
   }"

definition debugProcessPrintThreads :: "Kernel \<Rightarrow> nat \<Rightarrow> u64 \<Rightarrow> ('m Machine_scheme, ThreadsReport) state" where
  "debugProcessPrintThreads K fuel pid = do {
     (rc, h, dmntClosed) \<leftarrow> debugProcessOpen K pid;
     if R_FAILED rc then State_Monad.return (ThreadsAttachFailed rc)
     else do {
       rc \<leftarrow> debugProcessDrain K fuel h;
       report \<leftarrow>
         (if R_FAILED rc then State_Monad.return (ThreadsDrainFailed rc)
          else do {
            rc \<leftarrow> debugProcessPause K fuel h;
            if R_FAILED rc then State_Monad.return (ThreadsPauseFailed rc) else listThreads K h dmntClosed
          });
       _ \<leftarrow> debugProcessClose K h;
       State_Monad.return report
     }
   }"

end
