(* ===== verification/HwBpLayout.thy ===== *)
theory HwBpLayout
  imports HwBp DebugProcess
begin

text \<open>
  \<open>debug_hwbp_layout.c\<close>: the probe that attaches to two processes and arms a context register for each.  The
  three parts of the function are its way to the label \<open>cleanup\<close>, the arming at its end, and the cleanup.
\<close>

definition DEBUG_HWBP_LAYOUT_SLOTS_MAX :: nat where "DEBUG_HWBP_LAYOUT_SLOTS_MAX = 16"

record DebugHwBpLayout =
  loProcessId1 :: u64
  loProcessId2 :: u64
  loContextSlot1 :: u32
  loContextSlot2 :: u32
  loContextSlot1Result :: res
  loContextSlot2Result :: res
  loInstructionSlots :: "u32 list"
  loDrainResult :: res
  loResumeResult :: res
  loCleanupResult :: res

definition emptyLayout :: "u64 \<Rightarrow> u64 \<Rightarrow> DebugHwBpLayout" where
  "emptyLayout pid1 pid2 = \<lparr>loProcessId1 = pid1, loProcessId2 = pid2, loContextSlot1 = 0, loContextSlot2 = 0,
     loContextSlot1Result = 0, loContextSlot2Result = 0, loInstructionSlots = [], loDrainResult = 0,
     loResumeResult = 0, loCleanupResult = 0\<rparr>"

text \<open>The result, the layout, and which context registers are armed.\<close>

type_synonym LayoutOutcome = "res \<times> DebugHwBpLayout \<times> bool \<times> bool"

definition layoutArm :: "Kernel \<Rightarrow> u32 \<Rightarrow> u32 \<Rightarrow> DebugHwBpLayout \<Rightarrow> ('m Machine_scheme, LayoutOutcome) state" where
  "layoutArm K debug1 debug2 out = do {
     (rc, firstContext, secondContext) \<leftarrow> debugHwBpProbeContextSlots K;
     if R_FAILED rc then State_Monad.return (rc, out, False, False)
     else (let out = out\<lparr>loContextSlot1 := firstContext, loContextSlot2 := secondContext\<rparr>
           in do {
             (rc, allSlots) \<leftarrow> debugHwBpProbeInstructionSlots K firstContext DEBUG_HWBP_LAYOUT_SLOTS_MAX;
             if R_FAILED rc then State_Monad.return (rc, out, False, False)
             else do {
               rc \<leftarrow> debugHwBpSetContext K firstContext debug1;
               (let out = out\<lparr>loInstructionSlots := filter (\<lambda>s. s \<noteq> secondContext) allSlots,
                              loContextSlot1Result := rc\<rparr>
                in if R_FAILED rc then State_Monad.return (rc, out, False, False)
                   else do {
                     rc \<leftarrow> debugHwBpSetContext K secondContext debug2;
                     (let out = out\<lparr>loContextSlot2Result := rc\<rparr>
                      in State_Monad.return (rc, out, True, \<not> R_FAILED rc))
                   })
             }
           })
   }"

definition layoutAttached :: "Kernel \<Rightarrow> nat \<Rightarrow> u32 \<Rightarrow> u32 \<Rightarrow> DebugHwBpLayout \<Rightarrow> ('m Machine_scheme, LayoutOutcome) state" where
  "layoutAttached K fuel debug1 debug2 out = do {
     rc \<leftarrow> debugProcessDrain K fuel debug1;
     (let out = out\<lparr>loDrainResult := rc\<rparr>
      in if R_FAILED rc then State_Monad.return (rc, out, False, False)
         else do {
           rc \<leftarrow> debugProcessDrain K fuel debug2;
           (let out = out\<lparr>loDrainResult := rc\<rparr>
            in if R_FAILED rc then State_Monad.return (rc, out, False, False)
               else do {
                 rc \<leftarrow> debugProcessResume K debug1;
                 (let out = out\<lparr>loResumeResult := rc\<rparr>
                  in if R_FAILED rc then State_Monad.return (rc, out, False, False)
                     else do {
                       rc \<leftarrow> debugProcessResume K debug2;
                       (let out = out\<lparr>loResumeResult := rc\<rparr>
                        in if R_FAILED rc then State_Monad.return (rc, out, False, False)
                           else layoutArm K debug1 debug2 out)
                     })
               })
         })
   }"

definition layoutClear :: "Kernel \<Rightarrow> bool \<Rightarrow> u32 \<Rightarrow> DebugHwBpLayout \<Rightarrow> ('m Machine_scheme, DebugHwBpLayout) state" where
  "layoutClear K armed slot out =
    (if armed
     then do {
       clearRc \<leftarrow> debugHwBpClearAllCores K slot;
       State_Monad.return
         (if R_FAILED clearRc \<and> R_SUCCEEDED (loCleanupResult out) then out\<lparr>loCleanupResult := clearRc\<rparr> else out)
     }
     else State_Monad.return out)"

definition debugHwBpProbeLayout :: "Kernel \<Rightarrow> nat \<Rightarrow> u64 \<Rightarrow> u64 \<Rightarrow> ('m Machine_scheme, res \<times> DebugHwBpLayout) state" where
  "debugHwBpProbeLayout K fuel pid1 pid2 =
    (let out = emptyLayout pid1 pid2
     in if pid1 = 0 \<or> pid2 = 0 \<or> pid1 = pid2 then State_Monad.return (knBadInput K, out)
        else do {
          (rc, debug1, dmntClosed) \<leftarrow> debugProcessOpen K pid1;
          if R_FAILED rc then State_Monad.return (rc, out)
          else do {
            (rc, debug2, dmntClosed) \<leftarrow> debugProcessOpen K pid2;
            (rc, out, armed1, armed2) \<leftarrow>
              (if R_FAILED rc then State_Monad.return (rc, out, False, False)
               else layoutAttached K fuel debug1 debug2 out);
            out \<leftarrow> layoutClear K armed2 (loContextSlot2 out) out;
            out \<leftarrow> layoutClear K armed1 (loContextSlot1 out) out;
            _ \<leftarrow> debugProcessClose K debug2;
            _ \<leftarrow> debugProcessClose K debug1;
            State_Monad.return (rc, out)
          }
        })"

end
