(* ===== verification/PatchCode.thy ===== *)
theory PatchCode
  imports DebugProcess
begin

text \<open>
  \<open>patch_code.c\<close>: the transaction that patches code of a process.  It attaches, stops the process, looks at
  where its threads are, checks the bytes, writes, reads back, resumes and detaches.  The waits are those of
  \<open>debug_process.c\<close>, which the file repeats.  A null pointer is \<open>None\<close>; the sizes are the lengths.
\<close>

definition PATCH_CODE_MAX_SIZE :: nat where "PATCH_CODE_MAX_SIZE = 0x400"
definition PATCH_CODE_MAX_THREADS :: nat where "PATCH_CODE_MAX_THREADS = 0x80"

datatype PatchCodeStatus =
  PatchCodeOk | PatchCodeBusyPcInRange | PatchCodeExpectedMismatch | PatchCodeReadbackFailed

record PatchCodeResult =
  pcStatus :: PatchCodeStatus
  pcDmntClosed :: bool
  pcPausedThreads :: u32
  pcNearestPc :: u64
  pcHitThread :: u64
  pcHitValue :: u64
  pcPatchSize :: u64
  pcOldBytes :: "u8 list"
  pcNewBytes :: "u8 list"

definition emptyPatchResult :: PatchCodeResult where
  "emptyPatchResult = \<lparr>pcStatus = PatchCodeOk, pcDmntClosed = False, pcPausedThreads = 0, pcNearestPc = 0,
     pcHitThread = 0, pcHitValue = 0, pcPatchSize = 0, pcOldBytes = replicate PATCH_CODE_MAX_SIZE 0,
     pcNewBytes = replicate PATCH_CODE_MAX_SIZE 0\<rparr>"

definition resumeSession :: "Kernel \<Rightarrow> u32 \<Rightarrow> ('m Machine_scheme, res) state" where
  "resumeSession K h = svcResult K (ContinueDebugEvent h DEBUG_PROCESS_CONTINUE_FLAGS [0])"

definition drainInitialEvents :: "Kernel \<Rightarrow> nat \<Rightarrow> u32 \<Rightarrow> ('m Machine_scheme, res) state" where
  "drainInitialEvents K fuel h = do {
     tick \<leftarrow> svc K GetSystemTick;
     freq \<leftarrow> svc K GetSystemTickFreq;
     drainLoop K fuel h (rpValue tick + rpValue freq) False
   }"

definition pauseProcess :: "Kernel \<Rightarrow> nat \<Rightarrow> u32 \<Rightarrow> ('m Machine_scheme, res) state" where
  "pauseProcess K fuel h = do {
     rc \<leftarrow> svcResult K (BreakDebugProcess h);
     if R_FAILED rc then State_Monad.return rc else pauseLoop K fuel h 50
   }"

definition distanceToRange :: "u64 \<Rightarrow> u64 \<Rightarrow> u64 \<Rightarrow> u64" where
  "distanceToRange pc address size' =
    (if pc < address then address - pc
     else if pc < address + size' then 0
     else pc - (address + size'))"

text \<open>The threads, while the process stands: the result so far, and whether one is in the range.\<close>

fun inspectThreads :: "Kernel \<Rightarrow> u32 \<Rightarrow> u64 \<Rightarrow> u64 \<Rightarrow> bool \<Rightarrow> u64 list \<Rightarrow> u64 \<Rightarrow> PatchCodeResult \<Rightarrow>
    ('m Machine_scheme, PatchCodeResult \<times> bool) state" where
  "inspectThreads K h address size' checkPc [] bestDist out = State_Monad.return (out, False)"
| "inspectThreads K h address size' checkPc (threadId # threadIds) bestDist out = do {
     r \<leftarrow> svc K (GetDebugThreadContext h threadId);
     if R_FAILED (rpResult r)
     then inspectThreads K h address size' checkPc threadIds bestDist out
     else (let pc = hd (rpValues r @ [0]); dist = distanceToRange pc address size';
               out = out\<lparr>pcPausedThreads := pcPausedThreads out + 1\<rparr>;
               out = (if dist < bestDist then out\<lparr>pcNearestPc := pc\<rparr> else out)
           in if checkPc \<and> pc \<ge> address \<and> pc < address + size'
              then State_Monad.return
                (out\<lparr>pcStatus := PatchCodeBusyPcInRange, pcHitThread := threadId, pcHitValue := pc\<rparr>, True)
              else inspectThreads K h address size' checkPc threadIds (min dist bestDist) out)
   }"

definition intoBuffer :: "u8 list \<Rightarrow> u8 list \<Rightarrow> u8 list" where
  "intoBuffer bytes buffer = bytes @ drop (length bytes) buffer"

text \<open>Checking, writing and reading back.\<close>

definition patchMemory :: "Kernel \<Rightarrow> u32 \<Rightarrow> u64 \<Rightarrow> u8 list \<Rightarrow> bool \<Rightarrow> u8 list \<Rightarrow> PatchCodeResult \<Rightarrow>
    ('m Machine_scheme, res \<times> PatchCodeResult) state" where
  "patchMemory K h address expected skipVerify patch out = do {
     r \<leftarrow> svc K (ReadDebugProcessMemory h address (of_nat (length patch)));
     if R_FAILED (rpResult r) then State_Monad.return (rpResult r, out)
     else (let old = bytesRead (length patch) r;
               out = out\<lparr>pcOldBytes := intoBuffer old (pcOldBytes out)\<rparr>
           in if \<not> skipVerify \<and> old \<noteq> expected
              then State_Monad.return (0, out\<lparr>pcStatus := PatchCodeExpectedMismatch\<rparr>)
              else do {
                rc \<leftarrow> svcResult K (WriteDebugProcessMemory h patch address);
                if R_FAILED rc then State_Monad.return (rc, out)
                else do {
                  r \<leftarrow> svc K (ReadDebugProcessMemory h address (of_nat (length patch)));
                  if R_FAILED (rpResult r)
                  then State_Monad.return
                    (rpResult r, out\<lparr>pcNewBytes := replicate PATCH_CODE_MAX_SIZE 0\<rparr>)
                  else (let new' = bytesRead (length patch) r;
                            out = out\<lparr>pcNewBytes := intoBuffer new' (replicate PATCH_CODE_MAX_SIZE 0)\<rparr>
                        in State_Monad.return (0, out\<lparr>pcStatus :=
                             (if new' \<noteq> patch then PatchCodeReadbackFailed else PatchCodeOk)\<rparr>))
                }
              })
   }"

text \<open>From the attached process to the label \<open>cleanup\<close>, with \<open>paused\<close>.\<close>

definition patchAttached :: "Kernel \<Rightarrow> nat \<Rightarrow> u32 \<Rightarrow> u64 \<Rightarrow> u8 list \<Rightarrow> bool \<Rightarrow> u8 list \<Rightarrow> bool \<Rightarrow>
    PatchCodeResult \<Rightarrow> ('m Machine_scheme, res \<times> PatchCodeResult \<times> bool) state" where
  "patchAttached K fuel h address expected skipVerify patch checkPc out = do {
     rc \<leftarrow> drainInitialEvents K fuel h;
     if R_FAILED rc then State_Monad.return (rc, out, False)
     else do {
       rc \<leftarrow> pauseProcess K fuel h;
       if R_FAILED rc then State_Monad.return (rc, out, False)
       else (let out = out\<lparr>pcPatchSize := of_nat (length patch)\<rparr>
             in do {
               r \<leftarrow> svc K (GetThreadList h PATCH_CODE_MAX_THREADS);
               if R_FAILED (rpResult r) then State_Monad.return (rpResult r, out, True)
               else do {
                 (out, busy) \<leftarrow> inspectThreads K h address (of_nat (length patch)) checkPc
                   (take (nat (min (sint (ucast (rpValue r) :: u32)) (int PATCH_CODE_MAX_THREADS))) (rpValues r))
                   U64_MAX out;
                 if busy then State_Monad.return (0, out, True)
                 else do {
                   (rc, out) \<leftarrow> patchMemory K h address expected skipVerify patch out;
                   State_Monad.return (rc, out, True)
                 }
               }
             })
     }
   }"

fun discardEvents :: "Kernel \<Rightarrow> nat \<Rightarrow> u32 \<Rightarrow> ('m Machine_scheme, unit) state" where
  "discardEvents K 0 h = outOfFuel"
| "discardEvents K (Suc fuel) h = do {
     rc \<leftarrow> svcResult K (GetDebugEvent h);
     if R_FAILED rc then skip else discardEvents K fuel h
   }"

definition patchCleanup :: "Kernel \<Rightarrow> nat \<Rightarrow> u32 \<Rightarrow> bool \<Rightarrow> ('m Machine_scheme, unit) state" where
  "patchCleanup K fuel h paused = do {
     _ \<leftarrow> (if paused
           then do { _ \<leftarrow> discardEvents K fuel h; _ \<leftarrow> resumeSession K h; skip }
           else skip);
     if h \<noteq> knInvalidHandle K then do { _ \<leftarrow> svc K (CloseHandle h); skip } else skip
   }"

definition patchCodeRun :: "Kernel \<Rightarrow> nat \<Rightarrow> u64 \<Rightarrow> u8 list option \<Rightarrow> bool \<Rightarrow> u8 list option \<Rightarrow> bool \<Rightarrow> u64 \<Rightarrow>
    ('m Machine_scheme, res \<times> PatchCodeResult) state" where
  "patchCodeRun K fuel address expected skipVerify patch checkPc pid =
    (let patchBytes = (case patch of None \<Rightarrow> [] | Some bytes \<Rightarrow> bytes);
         expectedBytes = (case expected of None \<Rightarrow> [] | Some bytes \<Rightarrow> bytes);
         out = emptyPatchResult
     in if patch = None \<or> patchBytes = [] \<or> length patchBytes > PATCH_CODE_MAX_SIZE
        then State_Monad.return (knBadInput K, out)
        else if \<not> skipVerify \<and> (expected = None \<or> length expectedBytes \<noteq> length patchBytes)
        then State_Monad.return (knBadInput K, out)
        else do {
          owned \<leftarrow> debugOwned;
          if owned then State_Monad.return (knOwnedByAnother K, out)
          else do {
            (rc, pid) \<leftarrow>
              (if pid = 0
               then do {
                 r \<leftarrow> svc K GetApplicationProcessId;
                 State_Monad.return (rpResult r, if R_SUCCEEDED (rpResult r) then rpValue r else 0)
               }
               else State_Monad.return (0, pid));
            if R_FAILED rc \<or> pid = 0
            then State_Monad.return (if R_SUCCEEDED rc then knNotFound K else rc, out)
            else do {
              dmntClosed \<leftarrow> releaseDmnt K pid;
              r \<leftarrow> svc K (DebugActiveProcess pid);
              (let out = out\<lparr>pcDmntClosed := dmntClosed\<rparr>; h = ucast (rpValue r)
               in if R_FAILED (rpResult r) then State_Monad.return (rpResult r, out)
                  else do {
                    (rc, out, paused) \<leftarrow>
                      patchAttached K fuel h address expectedBytes skipVerify patchBytes checkPc out;
                    _ \<leftarrow> patchCleanup K fuel h paused;
                    State_Monad.return (rc, out)
                  })
            }
          }
        })"

end
