(* ===== verification/DebugHandles.thy ===== *)
theory DebugHandles
  imports HwBpLayout PatchCode
begin

text \<open>
  No command keeps a debug handle: whatever the kernel answers, a command that returns has closed
  every handle it opened.  While a handle is open nobody else can debug the process.
\<close>

text \<open>How often the handle \<open>h\<close> has been handed out and not been closed: an attach that succeeds hands out the handle
  in its reply, and only a \<open>CloseHandle\<close> of that very handle takes it back.  The kernel closes a handle it has
  handed out; the code does not look at the result either.\<close>

definition oneHandle :: "u32 \<Rightarrow> u32 \<Rightarrow> int" where
  "oneHandle h = (\<lambda>h'. if h' = h then 1 else 0)"

fun openHandles :: "Trace \<Rightarrow> u32 \<Rightarrow> int" where
  "openHandles [] h = 0"
| "openHandles ((c, r) # t) h =
    (case c of
       DebugActiveProcess pid \<Rightarrow> openHandles t h + (if rpResult r = 0 then oneHandle (ucast (rpValue r)) h else 0)
     | CloseHandle h' \<Rightarrow> openHandles t h - oneHandle h' h
     | _ \<Rightarrow> openHandles t h)"

text \<open>The kernel never hands out the invalid handle.\<close>

definition kernelHandles :: "Kernel \<Rightarrow> bool" where
  "kernelHandles K \<longleftrightarrow> (\<forall>t pid. rpResult (knReply K t (DebugActiveProcess pid)) = 0 \<longrightarrow>
     ucast (rpValue (knReply K t (DebugActiveProcess pid))) \<noteq> knInvalidHandle K)"

definition balanced :: "('m Machine_scheme, 'a) state \<Rightarrow> bool" where
  "balanced p \<longleftrightarrow> (\<forall>m a m'. run_state p m = (a, m') \<longrightarrow> \<not> mcStuck m' \<longrightarrow>
     (\<forall>h. openHandles (mcTrace m') h = openHandles (mcTrace m) h))"

subsection \<open>Steps and the handles they open\<close>

text \<open>\<open>handles p R delta\<close>: the result \<open>a\<close> of the step \<open>p\<close> satisfies \<open>R\<close>, and the count of every
  handle \<open>h\<close> has changed by \<open>delta a h\<close>.\<close>

definition handles :: "('m Machine_scheme, 'a) state \<Rightarrow> ('a \<Rightarrow> bool) \<Rightarrow> ('a \<Rightarrow> u32 \<Rightarrow> int) \<Rightarrow> bool" where
  "handles p R delta \<longleftrightarrow> (\<forall>m. wp p m (\<lambda>a m'. R a \<and> (mcStuck m \<longrightarrow> mcStuck m') \<and>
     (\<not> mcStuck m' \<longrightarrow> (\<forall>h. openHandles (mcTrace m') h = openHandles (mcTrace m) h + delta a h))))"

abbreviation neutral :: "('m Machine_scheme, 'a) state \<Rightarrow> bool" where
  "neutral p \<equiv> handles p (\<lambda>_. True) (\<lambda>_ _. 0)"

named_theorems neutral_steps

lemma handlesI:
  "(\<And>m. wp p m (\<lambda>a m'. R a \<and> (mcStuck m \<longrightarrow> mcStuck m') \<and>
     (\<not> mcStuck m' \<longrightarrow> (\<forall>h. openHandles (mcTrace m') h = openHandles (mcTrace m) h + delta a h)))) \<Longrightarrow> handles p R delta"
  by (simp add: handles_def)

lemma handlesD:
  "handles p R delta \<Longrightarrow> wp p m (\<lambda>a m'. R a \<and> (mcStuck m \<longrightarrow> mcStuck m') \<and>
     (\<not> mcStuck m' \<longrightarrow> (\<forall>h. openHandles (mcTrace m') h = openHandles (mcTrace m) h + delta a h)))"
  by (simp add: handles_def)

lemma handles_bind:
  assumes p: "handles p R d" and f: "\<And>a. R a \<Longrightarrow> handles (f a) S (\<lambda>b h. e b h - d a h)"
  shows "handles (State_Monad.bind p f) S e"
proof (rule handlesI)
  fix m
  show "wp (State_Monad.bind p f) m (\<lambda>b m'. S b \<and> (mcStuck m \<longrightarrow> mcStuck m') \<and>
      (\<not> mcStuck m' \<longrightarrow> (\<forall>h. openHandles (mcTrace m') h = openHandles (mcTrace m) h + e b h)))"
    unfolding wp_bind
  proof (rule wp_mono [OF handlesD [OF p]])
    fix a and n :: "'a Machine_scheme"
    assume n: "R a \<and> (mcStuck m \<longrightarrow> mcStuck n) \<and>
      (\<not> mcStuck n \<longrightarrow> (\<forall>h. openHandles (mcTrace n) h = openHandles (mcTrace m) h + d a h))"
    show "wp (f a) n (\<lambda>b m'. S b \<and> (mcStuck m \<longrightarrow> mcStuck m') \<and>
        (\<not> mcStuck m' \<longrightarrow> (\<forall>h. openHandles (mcTrace m') h = openHandles (mcTrace m) h + e b h)))"
      by (rule wp_mono [OF handlesD [OF f]]) (use n in auto)
  qed
qed

lemma neutral_then: "neutral p \<Longrightarrow> (\<And>a. handles (f a) S e) \<Longrightarrow> handles (State_Monad.bind p f) S e"
  by (rule handles_bind [where d = "\<lambda>_ _. 0" and R = "\<lambda>_. True"]) auto

lemma neutral_bind [neutral_steps]:
  "neutral p \<Longrightarrow> (\<And>a. neutral (f a)) \<Longrightarrow> neutral (State_Monad.bind p f)"
  by (rule neutral_then)


lemma handles_return: "S b \<Longrightarrow> (\<And>h. e b h = 0) \<Longrightarrow> handles (State_Monad.return b) S e"
  by (rule handlesI) simp

lemma neutral_return [neutral_steps]: "neutral (State_Monad.return b)"
  by (rule handles_return) auto

lemma handles_if:
  "(b \<Longrightarrow> handles p R d) \<Longrightarrow> (\<not> b \<Longrightarrow> handles q R d) \<Longrightarrow> handles (if b then p else q) R d"
  by simp

lemma neutral_if [neutral_steps]: "neutral p \<Longrightarrow> neutral q \<Longrightarrow> neutral (if b then p else q)"
  by simp

lemma neutral_case_prod [neutral_steps]: "(\<And>a b. neutral (f a b)) \<Longrightarrow> neutral (case x of (a, b) \<Rightarrow> f a b)"
  by (cases x) simp

lemma neutral_case_option [neutral_steps]:
  "neutral p \<Longrightarrow> (\<And>a. neutral (f a)) \<Longrightarrow> neutral (case x of None \<Rightarrow> p | Some a \<Rightarrow> f a)"
  by (cases x) simp_all

definition quietCall :: "Call \<Rightarrow> bool" where
  "quietCall c \<longleftrightarrow> (case c of DebugActiveProcess pid \<Rightarrow> False | CloseHandle h \<Rightarrow> False | _ \<Rightarrow> True)"

lemma openHandles_quiet: "quietCall c \<Longrightarrow> openHandles ((c, r) # t) h = openHandles t h"
  by (cases c) (simp_all add: quietCall_def)

lemma neutral_svc: "quietCall c \<Longrightarrow> neutral (svc K c)"
  by (rule handlesI) (simp add: openHandles_quiet del: openHandles.simps)

lemma neutral_svcResult: "quietCall c \<Longrightarrow> neutral (svcResult K c)"
  by (rule handlesI) (simp add: openHandles_quiet del: openHandles.simps)

lemma neutral_calls [neutral_steps]:
  "neutral outOfFuel" "neutral skip" "neutral debugOwned"
  "neutral (State (\<lambda>m. (mcDmntInitialized m, m)))"
  "neutral (State (\<lambda>m. ((), m\<lparr>mcDmntInitialized := b\<rparr>)))"
  by (rule handlesI, simp add: wp_def debugOwned_def skip_def outOfFuel_def)+


lemmas quiet = neutral_svc neutral_svcResult

lemma neutral_drainLoop [neutral_steps]: "neutral (drainLoop K fuel h deadline seen)"
proof -
  have events: "neutral (initialEvents K n h s)" for n s
    by (induction n arbitrary: s) (auto simp: quietCall_def intro!: neutral_steps quiet)
  show ?thesis
    by (induction fuel arbitrary: seen) (auto simp: quietCall_def intro!: neutral_steps quiet events)
qed

lemma neutral_breakEvents [neutral_steps]: "neutral (breakEvents K fuel h)"
  by (induction fuel) (auto simp: quietCall_def intro!: neutral_steps quiet)

lemma neutral_pauseLoop [neutral_steps]: "neutral (pauseLoop K fuel h n)"
  by (induction n) (auto simp: quietCall_def intro!: neutral_steps quiet)

lemma neutral_debugProcess [neutral_steps]:
  "neutral (debugProcessDrain K fuel h)" "neutral (debugProcessPause K fuel h)"
  "neutral (debugProcessResume K h)" "neutral (releaseDmnt K pid)"
  by (auto simp: debugProcessDrain_def debugProcessPause_def debugProcessResume_def releaseDmnt_def
      dmntClientInitialize_def dmntClientHasProcess_def dmntClientForceClose_def quietCall_def
      intro!: neutral_steps quiet)

subsection \<open>The breakpoint registers\<close>

lemma neutral_pinLoop [neutral_steps]: "neutral (pinLoop K core attempt)"
proof (induction "DEBUG_HWBP_PIN_ATTEMPTS - attempt" arbitrary: attempt rule: less_induct)
  case less
  have "neutral (pinLoop K core (attempt + 1) :: ('a Machine_scheme, res) state)" if "\<not> attempt + 1 \<ge> DEBUG_HWBP_PIN_ATTEMPTS"
    using that by (intro less) auto
  then have "neutral (if attempt + 1 \<ge> DEBUG_HWBP_PIN_ATTEMPTS then State_Monad.return (knBadInput K)
      else do { _ \<leftarrow> svc K (SleepThread DEBUG_HWBP_PIN_RETRY_NS); pinLoop K core (attempt + 1) } ::
        ('a Machine_scheme, res) state)"
    by (auto simp: quietCall_def intro!: neutral_steps quiet)
  then show ?case
    by (subst pinLoop.simps) (auto simp: quietCall_def intro!: neutral_bind neutral_return quiet)
qed

lemma neutral_pin [neutral_steps]: "neutral (pinToCore K core)"
  by (auto simp: pinToCore_def quietCall_def intro!: neutral_steps quiet)

lemma neutral_setEach [neutral_steps]: "neutral (setEach K writes)"
  by (induction K writes rule: setEach.induct) (auto simp: quietCall_def intro!: neutral_steps quiet)

lemma neutral_clearEach [neutral_steps]: "neutral (clearEach K writes)"
  by (induction K writes rule: clearEach.induct) (auto simp: quietCall_def intro!: neutral_steps quiet)

lemma neutral_coreLoop [neutral_steps]: "neutral (coreLoop K writes cores reached)"
  by (induction cores arbitrary: reached) (auto intro!: neutral_steps)

lemma neutral_rollbackLoop [neutral_steps]: "neutral (rollbackLoop K writes cores)"
  by (induction cores) (auto intro!: neutral_steps)

lemma neutral_restoreCore [neutral_steps]: "neutral (restoreCore K original)"
  unfolding restoreCore_def Let_def
  by (intro neutral_bind neutral_calls neutral_if quiet) (simp_all add: quietCall_def)

lemma neutral_setRegisters [neutral_steps]: "neutral (setRegistersOnAllCores K writes)"
  unfolding setRegistersOnAllCores_def
  by (intro neutral_steps neutral_svc) (simp add: quietCall_def)

lemma neutral_retryClear [neutral_steps]: "neutral (retryClear K writes n rc)"
  by (induction n arbitrary: rc) (auto simp: quietCall_def intro!: neutral_steps quiet)

lemma neutral_clearAll [neutral_steps]: "neutral (debugHwBpClearAllCores K reg)"
  unfolding debugHwBpClearAllCores_def debugHwBpSetAllCores_def by (intro neutral_steps)

lemma neutral_setContext [neutral_steps]: "neutral (debugHwBpSetContext K slot h)"
  unfolding debugHwBpSetContext_def debugHwBpSetAllCores_def by (intro neutral_steps)

lemma neutral_probes [neutral_steps]:
  "neutral (debugHwBpProbeContextSlots K)" "neutral (debugHwBpProbeInstructionSlots K slot n)"
proof -
  have up: "neutral (probeUp K i k found)" for i k found
    by (induction k arbitrary: i found) (auto simp: quietCall_def intro!: neutral_steps quiet)
  have down: "neutral (probeDown K k found)" for k found
    by (induction k arbitrary: found) (auto simp: quietCall_def intro!: neutral_steps quiet)
  have slots: "neutral (instructionSlots K slot n i k found)" for i k found
    by (induction k arbitrary: i found) (auto simp: quietCall_def intro!: neutral_steps quiet)
  show "neutral (debugHwBpProbeContextSlots K)" "neutral (debugHwBpProbeInstructionSlots K slot n)"
    unfolding debugHwBpProbeContextSlots_def debugHwBpProbeInstructionSlots_def
    by (intro neutral_steps up down slots)+
qed

lemma neutral_layout [neutral_steps]:
  "neutral (layoutAttached K fuel debug1 debug2 out)" "neutral (layoutClear K armed slot out)"
  unfolding layoutAttached_def layoutArm_def layoutClear_def Let_def by (intro neutral_steps)+

subsection \<open>Threads, maps and patches\<close>

lemma neutral_threads [neutral_steps]: "neutral (listThreads K h closed)"
proof -
  have "neutral (threadRecord K h t)" for t
    unfolding threadRecord_def Let_def
    by (intro neutral_bind neutral_return neutral_svc) (simp_all add: quietCall_def)
  then have "neutral (threadRecords K h ts)" for ts
    by (induction ts) (auto intro!: neutral_steps)
  then show ?thesis
    unfolding listThreads_def Let_def
    by (intro neutral_steps neutral_svc) (simp_all add: quietCall_def)
qed

lemma neutral_maps [neutral_steps]: "neutral (mapsLoop K fuel h limit addr entries)"
  by (induction fuel arbitrary: addr entries)
    (auto simp: quietCall_def Let_def intro!: neutral_steps quiet)

lemma neutral_inspect [neutral_steps]:
  "neutral (inspectThreads K h address n checkPc ids best out)"
  by (induction ids arbitrary: best out) (auto simp: quietCall_def Let_def intro!: neutral_steps quiet)

lemma neutral_patchMemory [neutral_steps]:
  "neutral (patchMemory K h address expected skipVerify patch out)"
  unfolding patchMemory_def Let_def
  by (intro neutral_steps neutral_svc neutral_svcResult) (simp_all add: quietCall_def)

lemma neutral_patchAttached [neutral_steps]:
  "neutral (patchAttached K fuel h address expected skipVerify patch checkPc out)"
  unfolding patchAttached_def drainInitialEvents_def pauseProcess_def Let_def
  by (intro neutral_steps neutral_svc neutral_svcResult) (simp_all add: quietCall_def)

lemma neutral_discard [neutral_steps]: "neutral (discardEvents K fuel h)"
  by (induction fuel) (auto simp: quietCall_def intro!: neutral_steps quiet)

subsection \<open>The commands\<close>

definition held :: "Kernel \<Rightarrow> u32 \<Rightarrow> u32 \<Rightarrow> int" where
  "held K h h' = (if h \<noteq> knInvalidHandle K then oneHandle h h' else 0)"

lemma handles_attach:
  "kernelHandles K \<Longrightarrow> handles (svc K (DebugActiveProcess pid))
     (\<lambda>r. rpResult r = 0 \<longrightarrow> ucast (rpValue r) \<noteq> knInvalidHandle K)
     (\<lambda>r h. if rpResult r = 0 then oneHandle (ucast (rpValue r)) h else 0)"
  by (rule handlesI) (simp add: kernelHandles_def noReply_def)

lemma handles_open:
  assumes "kernelCodes K" and "kernelHandles K"
  shows "handles (debugProcessOpen K pid) (\<lambda>(rc, h, closed). rc = 0 \<longleftrightarrow> h \<noteq> knInvalidHandle K)
    (\<lambda>(rc, h, closed). held K h)"
proof -
  have attach: "handles (svc K (DebugActiveProcess pid) \<bind> (\<lambda>r. State_Monad.return (rpResult r,
      if R_SUCCEEDED (rpResult r) then ucast (rpValue r) else knInvalidHandle K, closed)))
      (\<lambda>(rc, h, closed). rc = 0 \<longleftrightarrow> h \<noteq> knInvalidHandle K) (\<lambda>(rc, h, closed). held K h)" for closed
    by (rule handles_bind [OF handles_attach [OF assms(2)]], rule handles_return) (auto simp: held_def)
  have refuse: "handles (State_Monad.return (rc, knInvalidHandle K, False))
      (\<lambda>(rc, h, closed). rc = 0 \<longleftrightarrow> h \<noteq> knInvalidHandle K) (\<lambda>(rc, h, closed). held K h)"
    if "rc \<noteq> 0" for rc
    using that by (intro handles_return) (auto simp: held_def)
  have codes: "knBadInput K \<noteq> 0" "knOwnedByAnother K \<noteq> 0" using assms(1) by (simp_all add: kernelCodes_def)
  show ?thesis
    unfolding debugProcessOpen_def
    by (intro handles_if refuse codes neutral_then [OF neutral_calls(3)]
        neutral_then [OF neutral_debugProcess(4)] attach)
qed

lemma handles_close:
  "handles (debugProcessClose K h) (\<lambda>_. True) (\<lambda>_ h'. - held K h h')"
  unfolding debugProcessClose_def
  by (rule handlesI) (auto simp: held_def)

text \<open>The rest of a command that closes the handle.\<close>

abbreviation closes :: "Kernel \<Rightarrow> u32 \<Rightarrow> ('m Machine_scheme, 'a) state \<Rightarrow> bool" where
  "closes K h p \<equiv> handles p (\<lambda>_. True) (\<lambda>_ h'. - held K h h')"

lemma closes_now: "(\<And>a. neutral (f a)) \<Longrightarrow> closes K h (debugProcessClose K h \<bind> f)"
  by (rule handles_bind [OF handles_close]) simp

lemma closes_case_prod: "(\<And>a b. closes K h (f a b)) \<Longrightarrow> closes K h (case x of (a, b) \<Rightarrow> f a b)"
  by (cases x) simp

lemmas closing = closes_case_prod closes_now neutral_then

lemma handles_cleanup:
  "h \<noteq> knInvalidHandle K \<Longrightarrow> handles (patchCleanup K fuel h paused) (\<lambda>_. True) (\<lambda>_ h'. - oneHandle h h')"
proof -
  assume h: "h \<noteq> knInvalidHandle K"
  have "neutral (if paused then do { _ \<leftarrow> discardEvents K fuel h; _ \<leftarrow> resumeSession K h; skip } else skip)"
    unfolding resumeSession_def
    by (intro neutral_steps neutral_svcResult) (simp_all add: quietCall_def)
  moreover have "handles (if h \<noteq> knInvalidHandle K then do { _ \<leftarrow> svc K (CloseHandle h); skip } else skip)
      (\<lambda>_. True) (\<lambda>_ h'. - oneHandle h h')"
    using h by (intro handlesI) auto
  ultimately show ?thesis unfolding patchCleanup_def by (rule neutral_then)
qed

lemma balancedI: "neutral p \<Longrightarrow> balanced p"
  unfolding balanced_def
proof (intro allI impI)
  fix m a and m' :: "'a Machine_scheme"
  assume "neutral p" "run_state p m = (a, m')" "\<not> mcStuck m'"
  then show "openHandles (mcTrace m') h = openHandles (mcTrace m) h" for h
    using wp_runI [OF handlesD] by fastforce
qed

text \<open>A command that opens a handle, works without touching handles and closes it.\<close>

lemma handles_session:
  assumes "kernelCodes K" and "kernelHandles K"
    and "\<And>h closed. closes K h (body h closed)"
  shows "neutral (debugProcessOpen K pid \<bind> (\<lambda>(rc, h, closed).
      if R_FAILED rc then State_Monad.return (refused rc) else body h closed))"
proof (rule handles_bind [OF handles_open [OF assms(1,2)]])
  fix x :: "res \<times> u32 \<times> bool"
  assume valid: "case x of (rc, h, closed) \<Rightarrow> rc = 0 \<longleftrightarrow> h \<noteq> knInvalidHandle K"
  obtain rc h closed where x: "x = (rc, h, closed)" by (cases x)
  show "handles (case x of (rc, h, closed) \<Rightarrow>
        if R_FAILED rc then State_Monad.return (refused rc) else body h closed)
      (\<lambda>_. True) (\<lambda>b h'. 0 - (case x of (rc, h, closed) \<Rightarrow> held K h) h')"
    using assms(3) [of h closed] valid by (auto simp: x held_def intro: handles_return)
qed

lemma neutral_readMemory:
  assumes "kernelCodes K" and "kernelHandles K"
  shows "neutral (debugProcessReadMemory K fuel pid address n)"
  unfolding debugProcessReadMemory_def
  by (intro neutral_if neutral_return handles_session [OF assms] closing neutral_steps neutral_svc)
    (simp_all add: quietCall_def)

lemma neutral_printMaps:
  assumes "kernelCodes K" and "kernelHandles K"
  shows "neutral (debugProcessPrintMaps K fuel pid wanted)"
  unfolding debugProcessPrintMaps_def Let_def
  by (intro handles_session [OF assms] closing neutral_steps neutral_svc) (simp_all add: quietCall_def)

lemma neutral_printThreads:
  assumes "kernelCodes K" and "kernelHandles K"
  shows "neutral (debugProcessPrintThreads K fuel pid)"
  unfolding debugProcessPrintThreads_def
  by (intro handles_session [OF assms] closing neutral_steps)

lemma closes_both: "(\<And>a. closes K h1 (f a)) \<Longrightarrow>
    handles (debugProcessClose K h2 \<bind> f) (\<lambda>_. True) (\<lambda>_ h. - held K h1 h - held K h2 h)"
  by (rule handles_bind [OF handles_close]) simp

lemma handles_case_prod: "(\<And>a b. handles (f a b) R d) \<Longrightarrow> handles (case x of (a, b) \<Rightarrow> f a b) R d"
  by (cases x) simp

lemma closes_second:
  assumes "kernelCodes K" and "kernelHandles K"
    and "\<And>rc h2 closed. handles (f rc h2 closed) (\<lambda>_. True) (\<lambda>_ h. - held K h1 h - held K h2 h)"
  shows "closes K h1 (debugProcessOpen K pid2 \<bind> (\<lambda>(rc, h2, closed). f rc h2 closed))"
proof (rule handles_bind [OF handles_open [OF assms(1,2)]])
  fix x :: "res \<times> u32 \<times> bool"
  show "handles (case x of (rc, h2, closed) \<Rightarrow> f rc h2 closed)
      (\<lambda>_. True) (\<lambda>b h. - held K h1 h - (case x of (rc, h2, closed) \<Rightarrow> held K h2) h)"
    using assms(3) by (cases x) simp
qed

lemma neutral_probeLayout:
  assumes "kernelCodes K" and "kernelHandles K"
  shows "neutral (debugHwBpProbeLayout K fuel pid1 pid2)"
  unfolding debugHwBpProbeLayout_def Let_def
  by (intro neutral_if neutral_return handles_session [OF assms] closes_second [OF assms]
      neutral_then neutral_steps handles_case_prod closes_both closes_now)

lemma neutral_patchCode:
  assumes "kernelHandles K"
  shows "neutral (patchCodeRun K fuel address expected skipVerify patch checkPc pid)"
proof -
  have attached: "neutral (svc K (DebugActiveProcess p) \<bind> (\<lambda>r.
      if R_FAILED (rpResult r) then State_Monad.return (rpResult r, out)
      else patchAttached K fuel (ucast (rpValue r)) address expectedBytes skipVerify patchBytes checkPc out \<bind>
        (\<lambda>(rc, out, paused). patchCleanup K fuel (ucast (rpValue r)) paused \<bind>
          (\<lambda>_. State_Monad.return (rc, out)))))" for p out expectedBytes patchBytes
  proof (rule handles_bind [OF handles_attach [OF assms]])
    fix r
    assume valid: "rpResult r = 0 \<longrightarrow> ucast (rpValue r) \<noteq> knInvalidHandle K"
    have "handles (patchAttached K fuel (ucast (rpValue r)) address expectedBytes skipVerify patchBytes checkPc out \<bind>
        (\<lambda>(rc, out, paused). patchCleanup K fuel (ucast (rpValue r)) paused \<bind>
          (\<lambda>_. State_Monad.return (rc, out)))) (\<lambda>_. True) (\<lambda>_ h. - oneHandle (ucast (rpValue r)) h)"
      if "rpResult r = 0"
      by (rule neutral_then [OF neutral_patchAttached], rule handles_case_prod, rule handles_case_prod,
          rule handles_bind [OF handles_cleanup]) (use valid that in \<open>auto intro: handles_return\<close>)
    then show "handles (if R_FAILED (rpResult r) then State_Monad.return (rpResult r, out)
        else patchAttached K fuel (ucast (rpValue r)) address expectedBytes skipVerify patchBytes checkPc out \<bind>
          (\<lambda>(rc, out, paused). patchCleanup K fuel (ucast (rpValue r)) paused \<bind>
            (\<lambda>_. State_Monad.return (rc, out))))
        (\<lambda>_. True) (\<lambda>b h. 0 - (if rpResult r = 0 then oneHandle (ucast (rpValue r)) h else 0))"
      by (auto intro: handles_return)
  qed
  show ?thesis
    unfolding patchCodeRun_def Let_def
    by (intro neutral_steps neutral_svc attached) (simp_all add: quietCall_def)
qed

text \<open>C31: no debug handle is kept.  Whatever the kernel answers, reading memory, listing maps or
  threads, probing the register layout of two processes and patching code, when they return, have
  closed every handle they opened: every handle is as often open as before.  The kernel never hands out the
  invalid handle and its error codes are errors.\<close>

theorem debugCommands_close:
  assumes "kernelCodes K" and "kernelHandles K"
  shows "balanced (debugProcessReadMemory K fuel pid address n) \<and>
    balanced (debugProcessPrintMaps K fuel pid wanted) \<and>
    balanced (debugProcessPrintThreads K fuel pid) \<and>
    balanced (debugHwBpProbeLayout K fuel pid pid2) \<and>
    balanced (patchCodeRun K fuel address expected skipVerify patch checkPc pid)"
  by (intro conjI balancedI neutral_readMemory neutral_printMaps neutral_printThreads neutral_probeLayout
      neutral_patchCode assms)

text \<open>A kernel that hands out the handle 0x25 and knows no events.\<close>

definition quietKernel :: Kernel where
  "quietKernel = \<lparr>knReply = (\<lambda>t c.
       (case c of
          DebugActiveProcess pid \<Rightarrow> \<lparr>rpResult = 0, rpValue = 0x25, rpValues = [], rpBytes = [],
            rpEvent = \<lparr>evType = EventOther, evThread = 0, evHardwareBreak = False, evAttached = False, evDataBreak = False, evAddress = 0\<rparr>\<rparr>
        | GetSystemTick \<Rightarrow> \<lparr>rpResult = 0, rpValue = of_nat (length t), rpValues = [], rpBytes = [],
            rpEvent = \<lparr>evType = EventOther, evThread = 0, evHardwareBreak = False, evAttached = False, evDataBreak = False, evAddress = 0\<rparr>\<rparr>
        | WaitSynchronization h n \<Rightarrow> noReply\<lparr>rpResult := 0xEA01\<rparr>
        | _ \<Rightarrow> noReply)),
     knCurrentThread = 0xFFFF8000, knCurrentProcess = 0xFFFF8001, knInvalidHandle = 0, knTimedOut = 0xEA01,
     knInvalidHandleError = 0xE401, knOwnedByAnother = 0xF401, knBadInput = 0x359, knNotFound = 0x559,
     knExited = 0x54359, knAlreadyExists = 0xE401\<rparr>"

definition freshMachine :: Machine where
  "freshMachine = \<lparr>mcTrace = [], mcStuck = False, mcWatchActive = False, mcTraceActive = False,
     mcMultiTraceActive = False, mcDmntInitialized = False\<rparr>"

lemma quietKernel_ok: "kernelCodes quietKernel" "kernelHandles quietKernel"
  by (simp_all add: quietKernel_def kernelCodes_def kernelHandles_def)

theorem debugCommands_close_witness:
  "balanced (debugProcessReadMemory quietKernel 100 0x51 0x8000 16) \<and>
   balanced (debugProcessPrintMaps quietKernel 100 0x51 8) \<and>
   balanced (debugProcessPrintThreads quietKernel 100 0x51) \<and>
   balanced (debugHwBpProbeLayout quietKernel 100 0x51 0x52) \<and>
   balanced (patchCodeRun quietKernel 100 0x8000 None True (Some [1, 2]) True 0x51)"
  by (rule debugCommands_close [OF quietKernel_ok])

end
