(* ===== verification/PatchSafe.thy ===== *)
theory PatchSafe
  imports DebugHandles
begin

text \<open>
  What the patch transaction does to the memory of the process: it writes only the patch, only into a stopped
  process whose threads are elsewhere and whose bytes are the expected ones, and it reports success only
  when the patch was read back.
\<close>

subsection \<open>Trace predicates that steps keep\<close>

abbreviation keeps :: "(Trace \<Rightarrow> bool) \<Rightarrow> (Machine, 'a) state \<Rightarrow> bool" where
  "keeps P p \<equiv> obeys (\<lambda>m. P (mcTrace m)) p"

lemma keeps_silent [obey]:
  "keeps P outOfFuel" "keeps P debugOwned"
  "keeps P (State (\<lambda>m. (mcDmntInitialized m, m)))"
  "keeps P (State (\<lambda>m. ((), m\<lparr>mcDmntInitialized := b\<rparr>)))"
  by (rule obeysI, simp add: wp_def outOfFuel_def debugOwned_def)+

lemma keeps_svc: "(\<And>t r. P t \<Longrightarrow> P ((c, r) # t)) \<Longrightarrow> keeps P (svc K c)"
  by (rule obeysI) simp

lemma keeps_svcResult: "(\<And>t r. P t \<Longrightarrow> P ((c, r) # t)) \<Longrightarrow> keeps P (svcResult K c)"
  by (rule obeysI) simp

text \<open>Looking, waiting and the talk with the services: everything but the calls that change the process.\<close>

definition passiveCall :: "Call \<Rightarrow> bool" where
  "passiveCall c \<longleftrightarrow>
    (case c of
       DebugActiveProcess pid \<Rightarrow> False
     | BreakDebugProcess h \<Rightarrow> False
     | ContinueDebugEvent h flags ids \<Rightarrow> False
     | WriteDebugProcessMemory h bytes address \<Rightarrow> False
     | GetThreadList h n \<Rightarrow> False
     | GetDebugThreadContext h threadId \<Rightarrow> False
     | _ \<Rightarrow> True)"

definition indifferent :: "(Trace \<Rightarrow> bool) \<Rightarrow> bool" where
  "indifferent P \<longleftrightarrow> (\<forall>c r t. passiveCall c \<longrightarrow> P t \<longrightarrow> P ((c, r) # t))"

lemma keeps_indifferent:
  "indifferent P \<Longrightarrow> passiveCall c \<Longrightarrow> keeps P (svc K c)" "indifferent P \<Longrightarrow> passiveCall c \<Longrightarrow> keeps P (svcResult K c)"
  by (auto simp: indifferent_def intro: keeps_svc keeps_svcResult)

lemma keeps_waits:
  assumes "indifferent P"
  shows "keeps P (drainInitialEvents K fuel h)" and "keeps P (pauseLoop K fuel h n)"
    and "keeps P (discardEvents K fuel h)" and "keeps P (releaseDmnt K pid)"
proof -
  note calls = keeps_indifferent [OF assms]
  have initial: "keeps P (initialEvents K k h s)" for k s
    by (induction k arbitrary: s) (auto simp: passiveCall_def intro!: obey calls)
  have "keeps P (drainLoop K k h d s)" for k d s
    by (induction k arbitrary: s) (auto simp: passiveCall_def intro!: obey calls initial)
  then show "keeps P (drainInitialEvents K fuel h)"
    by (auto simp: drainInitialEvents_def passiveCall_def intro!: obey calls)
  have "keeps P (breakEvents K k h)" for k
    by (induction k) (auto simp: passiveCall_def intro!: obey calls)
  then show "keeps P (pauseLoop K fuel h n)"
    by (induction n) (auto simp: passiveCall_def intro!: obey calls)
  show "keeps P (discardEvents K fuel h)"
    by (induction fuel) (auto simp: passiveCall_def intro!: obey calls)
  show "keeps P (releaseDmnt K pid)"
    by (auto simp: releaseDmnt_def dmntClientInitialize_def dmntClientHasProcess_def dmntClientForceClose_def
        passiveCall_def intro!: obey calls)
qed

subsection \<open>When the patch may be written\<close>

text \<open>The process behind the handle was stopped and has not been resumed since.\<close>

fun stopped :: "u32 \<Rightarrow> Trace \<Rightarrow> bool" where
  "stopped h [] = False"
| "stopped h ((c, r) # t) =
    (case c of
       BreakDebugProcess h' \<Rightarrow> (h' = h \<and> rpResult r = 0) \<or> stopped h t
     | ContinueDebugEvent h' flags ids \<Rightarrow> False
     | DebugActiveProcess pid \<Rightarrow> False
     | _ \<Rightarrow> stopped h t)"

text \<open>The threads were looked at: a list of the threads was taken from the stopped process, the context of every thread
  in it has been asked for since then, and none of those that could be read stands in the range.  \<open>seen\<close> are the
  threads asked for after the calls of the trace.\<close>

definition listedThreads :: "nat \<Rightarrow> Reply \<Rightarrow> u64 list" where
  "listedThreads k r = take (nat (min (sint (ucast (rpValue r) :: u32)) (int k))) (rpValues r)"

fun threadsOutside :: "u32 \<Rightarrow> u64 \<Rightarrow> u64 \<Rightarrow> u64 list \<Rightarrow> Trace \<Rightarrow> bool" where
  "threadsOutside h address n seen [] = False"
| "threadsOutside h address n seen ((c, r) # t) =
    (case c of
       GetThreadList h' k \<Rightarrow> h' = h \<and> rpResult r = 0 \<and> stopped h t \<and> list_all (\<lambda>thread. thread \<in> set seen) (listedThreads k r)
     | GetDebugThreadContext h' thread \<Rightarrow> h' = h \<and>
         (rpResult r \<noteq> 0 \<or> \<not> (hd (rpValues r @ [0]) \<ge> address \<and> hd (rpValues r @ [0]) < address + n)) \<and>
         threadsOutside h address n (thread # seen) t
     | _ \<Rightarrow> threadsOutside h address n seen t)"

text \<open>The bytes were read just before, and are the expected ones.\<close>

definition verified :: "u32 \<Rightarrow> u64 \<Rightarrow> u8 list \<Rightarrow> Trace \<Rightarrow> bool" where
  "verified h address expected t \<longleftrightarrow>
    (case t of
       [] \<Rightarrow> False
     | (c, r) # _ \<Rightarrow> c = ReadDebugProcessMemory h address (of_nat (length expected)) \<and> rpResult r = 0 \<and>
         bytesRead (length expected) r = expected)"

record PatchRequest =
  prAddress :: u64
  prExpected :: "u8 list option"
  prPatch :: "u8 list"
  prCheckPc :: bool

fun writesGuarded :: "PatchRequest \<Rightarrow> Trace \<Rightarrow> bool" where
  "writesGuarded q [] = True"
| "writesGuarded q ((c, r) # t) =
    ((case c of
        WriteDebugProcessMemory h bytes address \<Rightarrow>
          bytes = prPatch q \<and> address = prAddress q \<and> stopped h t \<and>
          (case prExpected q of None \<Rightarrow> True | Some expected \<Rightarrow> verified h address expected t) \<and>
          (if prCheckPc q then threadsOutside h address (of_nat (length bytes)) [] t else True)
      | _ \<Rightarrow> True) \<and> writesGuarded q t)"

lemma indifferent_guards:
  "indifferent (writesGuarded q)" "indifferent (stopped h)" "indifferent (threadsOutside h address n seen)"
  unfolding indifferent_def by (auto simp: passiveCall_def split: Call.splits)

lemma indifferent_conj: "indifferent P \<Longrightarrow> indifferent Q \<Longrightarrow> indifferent (\<lambda>t. P t \<and> Q t)"
  by (auto simp: indifferent_def)

lemmas guards_now = indifferent_guards [unfolded indifferent_def, rule_format]

lemma pauseProcess_stops:
  fixes m :: Machine
  assumes "writesGuarded q (mcTrace m)"
  shows "wp (pauseProcess K fuel h) m (\<lambda>rc m'. writesGuarded q (mcTrace m') \<and> (rc = 0 \<longrightarrow> stopped h (mcTrace m')))"
proof -
  have keep: "keeps (\<lambda>t. writesGuarded q t \<and> stopped h t) (pauseLoop K fuel h 50)"
    by (intro keeps_waits indifferent_conj indifferent_guards)
  let ?r = "knReply K (mcTrace m) (BreakDebugProcess h)"
  let ?m = "m\<lparr>mcTrace := (BreakDebugProcess h, ?r) # mcTrace m\<rparr>"
  have "wp (pauseLoop K fuel h 50) ?m (\<lambda>rc m'. writesGuarded q (mcTrace m') \<and> (rc = 0 \<longrightarrow> stopped h (mcTrace m')))"
    if "rpResult ?r = 0"
    by (rule wp_mono [OF obeysD [OF keep]]) (use assms that in auto)
  then show ?thesis using assms by (simp add: pauseProcess_def)
qed

lemma inspectThreads_outside:
  fixes m :: Machine
  assumes "writesGuarded q (mcTrace m)" and "stopped h (mcTrace m)"
    and "checkPc \<longrightarrow> mcStuck m \<or> threadsOutside h address n threadIds (mcTrace m)"
  shows "wp (inspectThreads K h address n checkPc threadIds best out) m (\<lambda>(out, busy) m'.
      writesGuarded q (mcTrace m') \<and> stopped h (mcTrace m') \<and>
      (\<not> busy \<longrightarrow> checkPc \<longrightarrow> mcStuck m' \<or> threadsOutside h address n [] (mcTrace m')))"
  using assms by (induction threadIds arbitrary: best out m) (auto simp: Let_def noReply_def)

lemma patchMemory_guarded:
  fixes m :: Machine
  assumes "writesGuarded q (mcTrace m)" and "stopped h (mcTrace m)"
    and "prCheckPc q \<longrightarrow> mcStuck m \<or> threadsOutside h (prAddress q) (of_nat (length (prPatch q))) [] (mcTrace m)"
    and "prExpected q = (if skipVerify then None else Some expected)"
    and "\<not> skipVerify \<longrightarrow> length expected = length (prPatch q)"
  shows "wp (patchMemory K h (prAddress q) expected skipVerify (prPatch q) out) m
    (\<lambda>_ m'. writesGuarded q (mcTrace m'))"
  using assms by (auto simp: patchMemory_def Let_def noReply_def verified_def)

lemma patchAttached_guarded:
  fixes m :: Machine
  assumes "writesGuarded q (mcTrace m)"
    and "prExpected q = (if skipVerify then None else Some expected)"
    and "\<not> skipVerify \<longrightarrow> length expected = length (prPatch q)"
  shows "wp (patchAttached K fuel h (prAddress q) expected skipVerify (prPatch q) (prCheckPc q) out) m
    (\<lambda>_ m'. writesGuarded q (mcTrace m'))"
proof -
  let ?G = "\<lambda>_ m'. writesGuarded q (mcTrace m')"
  let ?n = "of_nat (length (prPatch q)) :: u64"
  have looked: "wp (inspectThreads K h (prAddress q) ?n (prCheckPc q) threadIds best out \<bind> (\<lambda>(out, busy).
      if busy then State_Monad.return (0, out, True)
      else patchMemory K h (prAddress q) expected skipVerify (prPatch q) out \<bind>
        (\<lambda>(rc, out). State_Monad.return (rc, out, True)))) m ?G"
    if "writesGuarded q (mcTrace m)" "stopped h (mcTrace m)"
      "prCheckPc q \<longrightarrow> mcStuck m \<or> threadsOutside h (prAddress q) ?n threadIds (mcTrace m)"
    for m :: Machine and threadIds best out
    unfolding wp_bind
    by (rule wp_mono [OF inspectThreads_outside [OF that]])
      (auto intro!: wp_mono [OF patchMemory_guarded] assms)
  have paused: "wp (svc K (GetThreadList h PATCH_CODE_MAX_THREADS) \<bind> (\<lambda>r.
      if R_FAILED (rpResult r) then State_Monad.return (rpResult r, out, True)
      else inspectThreads K h (prAddress q) ?n (prCheckPc q) (take (nat (min (sint (ucast (rpValue r) :: u32))
          (int PATCH_CODE_MAX_THREADS))) (rpValues r)) best out \<bind> (\<lambda>(out, busy).
        if busy then State_Monad.return (0, out, True)
        else patchMemory K h (prAddress q) expected skipVerify (prPatch q) out \<bind>
          (\<lambda>(rc, out). State_Monad.return (rc, out, True))))) m ?G"
    if "writesGuarded q (mcTrace m)" "stopped h (mcTrace m)" for m :: Machine and best out
    using that by (auto simp: noReply_def listedThreads_def list_all_iff simp del: wp_bind simp add: wp_bind [of "svc K c" for c] intro!: looked)
  have drained: "wp (drainInitialEvents K fuel h) m ?G"
    by (rule obeysD [OF keeps_waits(1) [OF indifferent_guards(1)] assms(1)])
  show ?thesis
    unfolding patchAttached_def Let_def
    by (subst wp_bind, rule wp_mono [OF drained], simp del: wp_bind R_FAILED_iff, intro impI,
        subst wp_bind, rule wp_mono [OF pauseProcess_stops], assumption,
        simp del: wp_bind R_FAILED_iff, intro impI conjI paused) (simp_all add: R_FAILED_def)
qed

lemma keeps_cleanup:
  assumes "indifferent P" and "\<And>t c r. c = ContinueDebugEvent h DEBUG_PROCESS_CONTINUE_FLAGS [0] \<Longrightarrow> P t \<Longrightarrow> P ((c, r) # t)"
  shows "keeps P (patchCleanup K fuel h paused)"
  unfolding patchCleanup_def resumeSession_def
  by (intro obey keeps_waits keeps_indifferent keeps_svcResult assms)
    (auto simp: passiveCall_def)

lemma keeps_application:
  "indifferent P \<Longrightarrow> keeps P (if pid = 0
     then do { r \<leftarrow> svc K GetApplicationProcessId; State_Monad.return (f r) }
     else State_Monad.return x)"
  by (intro obey keeps_indifferent) (auto simp: passiveCall_def)

lemma patchCodeRun_guards:
  fixes m :: Machine
  assumes "writesGuarded \<lparr>prAddress = address, prExpected = (if skipVerify then None else expected),
    prPatch = patch, prCheckPc = checkPc\<rparr> (mcTrace m)" (is "writesGuarded ?q _")
  shows "wp (patchCodeRun K fuel address expected skipVerify (Some patch) checkPc pid) m
    (\<lambda>_ m'. writesGuarded ?q (mcTrace m'))"
proof -
  let ?e = "case expected of None \<Rightarrow> [] | Some bytes \<Rightarrow> bytes"
  note calm = indifferent_guards(1) [of ?q]
  have attached: "keeps (writesGuarded ?q) (patchAttached K fuel h address ?e skipVerify patch checkPc out)"
    if "\<not> (\<not> skipVerify \<and> (expected = None \<or> length ?e \<noteq> length patch))" for h out
    by (rule obeysI, rule patchAttached_guarded [where q = ?q, simplified PatchRequest.simps])
      (use that in \<open>auto split: option.splits\<close>)
  have cleanup: "keeps (writesGuarded ?q) (patchCleanup K fuel h paused)" for h paused
    by (rule keeps_cleanup [OF calm]) auto
  have attach: "keeps (writesGuarded ?q) (svc K (DebugActiveProcess p))" for p
    by (rule keeps_svc) simp
  have "keeps (writesGuarded ?q) (patchCodeRun K fuel address expected skipVerify (Some patch) checkPc pid)"
  proof (cases "\<not> skipVerify \<and> (expected = None \<or> length ?e \<noteq> length patch)")
    case True
    then show ?thesis by (auto simp: patchCodeRun_def Let_def intro!: obey)
  next
    case False
    then show ?thesis
      unfolding patchCodeRun_def Let_def
      by (simp only: if_False option.case)
        (intro obey keeps_application calm attach attached cleanup keeps_waits; assumption?)
  qed
  then show ?thesis using assms by (rule obeysD)
qed

text \<open>C29: a patch touches only code that stands still.  Whatever the kernel answers, every write of the run
  is the patch at its address, into a process that was stopped and not resumed since; unless the caller skips
  the check, the bytes read just before were the expected ones; and when the caller asks for it, a list of the threads was
  taken from the stopped process, the registers of every thread in it were asked for, and none that could be
  read stands in the range.\<close>

theorem patchCodeRun_writes_guarded:
  assumes "run_state (patchCodeRun K fuel address expected skipVerify (Some patch) checkPc pid) (m :: Machine)
      = (res, m')"
    and "mcTrace m = []"
  shows "writesGuarded \<lparr>prAddress = address, prExpected = (if skipVerify then None else expected),
    prPatch = patch, prCheckPc = checkPc\<rparr> (mcTrace m')"
  by (rule wp_runI [OF patchCodeRun_guards assms(1)]) (simp add: assms(2))

subsection \<open>What success means\<close>

text \<open>The patch is in memory: it was written, read back equal, and nothing was written since.\<close>

definition patchedFor :: "u32 \<Rightarrow> u64 \<Rightarrow> u8 list \<Rightarrow> Trace \<Rightarrow> bool" where
  "patchedFor h address patch t \<longleftrightarrow>
    (\<exists>r w before after. t = after @ (ReadDebugProcessMemory h address (of_nat (length patch)), r) #
        (WriteDebugProcessMemory h patch address, w) # before \<and>
      rpResult w = 0 \<and> rpResult r = 0 \<and> bytesRead (length patch) r = patch \<and>
      (\<forall>(c, _) \<in> set after. \<forall>h bytes a. c \<noteq> WriteDebugProcessMemory h bytes a))"

lemma patchedFor_later:
  assumes "patchedFor h address patch t" and "\<And>h bytes a. c \<noteq> WriteDebugProcessMemory h bytes a"
  shows "patchedFor h address patch ((c, r) # t)"
proof -
  obtain b w pre post where
    "t = post @ (ReadDebugProcessMemory h address (of_nat (length patch)), b) #
        (WriteDebugProcessMemory h patch address, w) # pre"
    "rpResult w = 0" "rpResult b = 0" "bytesRead (length patch) b = patch"
    "\<forall>(c, _) \<in> set post. \<forall>h bytes a. c \<noteq> WriteDebugProcessMemory h bytes a"
    using assms(1) unfolding patchedFor_def by blast
  then show ?thesis
    using assms(2) unfolding patchedFor_def
    by (intro exI [of _ b] exI [of _ w] exI [of _ pre] exI [of _ "(c, r) # post"]) auto
qed

lemma indifferent_patched: "indifferent (patchedFor h address patch)"
  unfolding indifferent_def by (auto simp: passiveCall_def intro!: patchedFor_later)

lemma patchedFor_now:
  "rpResult w = 0 \<Longrightarrow> rpResult r = 0 \<Longrightarrow> bytesRead (length patch) r = patch \<Longrightarrow>
    patchedFor h address patch ((ReadDebugProcessMemory h address (of_nat (length patch)), r) #
      (WriteDebugProcessMemory h patch address, w) # t)"
  unfolding patchedFor_def by (rule exI [of _ r], rule exI [of _ w], rule exI [of _ t], rule exI [of _ "[]"]) simp

lemma patchMemory_ok:
  fixes m :: Machine
  shows "wp (patchMemory K h address expected skipVerify patch out) m
    (\<lambda>(rc, out) m'. rc = 0 \<longrightarrow> pcStatus out = PatchCodeOk \<longrightarrow> patchedFor h address patch (mcTrace m'))"
  by (auto simp: patchMemory_def Let_def noReply_def intro: patchedFor_now)

lemma inspectThreads_busy:
  fixes m :: Machine
  shows "wp (inspectThreads K h address n checkPc threadIds best out) m
    (\<lambda>(out, busy) m'. busy \<longrightarrow> pcStatus out = PatchCodeBusyPcInRange)"
  by (induction threadIds arbitrary: best out m) (auto simp: Let_def noReply_def)

lemma patchAttached_ok:
  fixes m :: Machine
  shows "wp (patchAttached K fuel h address expected skipVerify patch checkPc out) m
    (\<lambda>(rc, out, paused) m'. rc = 0 \<longrightarrow> pcStatus out = PatchCodeOk \<longrightarrow> patchedFor h address patch (mcTrace m'))"
proof -
  let ?Q = "\<lambda>(rc, out, paused :: bool) m'. rc = (0 :: res) \<longrightarrow> pcStatus out = PatchCodeOk \<longrightarrow>
    patchedFor h address patch (mcTrace (m' :: Machine))"
  have looked: "wp (inspectThreads K h address n checkPc threadIds best out \<bind> (\<lambda>(out, busy).
      if busy then State_Monad.return (0, out, True)
      else patchMemory K h address expected skipVerify patch out \<bind>
        (\<lambda>(rc, out). State_Monad.return (rc, out, True)))) m ?Q"
    for m n threadIds best and out :: PatchCodeResult
    unfolding wp_bind
    by (rule wp_mono [OF inspectThreads_busy]) (auto intro!: wp_mono [OF patchMemory_ok])
  show ?thesis
    unfolding patchAttached_def Let_def
    by (intro wp_any wp_ifI looked) simp_all
qed

lemma patchCodeRun_patches:
  fixes m :: Machine
  assumes codes: "kernelCodes K"
  shows "wp (patchCodeRun K fuel address expected skipVerify (Some patch) checkPc pid) m
    (\<lambda>(rc, out) m'. rc = 0 \<longrightarrow> pcStatus out = PatchCodeOk \<longrightarrow> (\<exists>h. patchedFor h address patch (mcTrace m')))"
    (is "wp _ _ ?Q")
proof -
  have refused: "knBadInput K \<noteq> 0" "knOwnedByAnother K \<noteq> 0" "knNotFound K \<noteq> 0"
    using codes by (simp_all add: kernelCodes_def)
  have cleanup: "wp (patchCleanup K fuel h paused) m (\<lambda>_ m'. patchedFor h address patch (mcTrace m'))"
    if "patchedFor h address patch (mcTrace m)" for h paused and m :: Machine
    by (rule obeysD [OF keeps_cleanup [OF indifferent_patched] that]) (auto intro: patchedFor_later)
  have rest: "wp (patchAttached K fuel h address e skipVerify patch checkPc out \<bind> (\<lambda>(rc, out, paused).
      patchCleanup K fuel h paused \<bind> (\<lambda>_. State_Monad.return (rc, out)))) m ?Q" for h e out and m :: Machine
    by (subst wp_bind, rule wp_mono [OF patchAttached_ok])
      (auto intro: wp_mono [OF wp_True] wp_mono [OF cleanup])
  have attach: "wp (svc K (DebugActiveProcess p) \<bind> (\<lambda>r.
      if R_FAILED (rpResult r) then State_Monad.return (rpResult r, out)
      else patchAttached K fuel (ucast (rpValue r)) address e skipVerify patch checkPc out \<bind>
        (\<lambda>(rc, out, paused). patchCleanup K fuel (ucast (rpValue r)) paused \<bind>
          (\<lambda>_. State_Monad.return (rc, out))))) m ?Q" for p e out and m :: Machine
    by (intro wp_any wp_ifI rest) simp
  show ?thesis
    unfolding patchCodeRun_def Let_def option.case
    by (rule attach wp_ifI wp_splitI wp_any | simp add: refused; fail)+
qed

text \<open>C30: a patch that is reported as done is in memory.  A run that returns 0 with the status
  \<open>PatchCodeOk\<close> has written the patch, has read it back from the same address equal byte for byte, and
  has written nothing after that.\<close>

theorem patchCodeRun_ok:
  assumes "kernelCodes K"
    and "run_state (patchCodeRun K fuel address expected skipVerify (Some patch) checkPc pid) (m :: Machine)
      = ((0, out), m')"
    and "pcStatus out = PatchCodeOk"
  shows "\<exists>h. patchedFor h address patch (mcTrace m')"
  using wp_runI [OF patchCodeRun_patches [OF assms(1)] assms(2)] assms(3) by simp

text \<open>A kernel with one thread outside the range, whose process holds \<open>5 6\<close> until the patch is written.\<close>

definition patchKernel :: Kernel where
  "patchKernel = \<lparr>knReply = (\<lambda>t c.
       (case c of
          DebugActiveProcess pid \<Rightarrow> noReply\<lparr>rpResult := 0, rpValue := 0x25\<rparr>
        | BreakDebugProcess h \<Rightarrow> noReply\<lparr>rpResult := 0\<rparr>
        | WaitSynchronization h n \<Rightarrow> noReply\<lparr>rpResult := if stopped h t then 0 else 0xEA01\<rparr>
        | GetThreadList h n \<Rightarrow> noReply\<lparr>rpResult := 0, rpValue := 1, rpValues := [0x77]\<rparr>
        | GetDebugThreadContext h threadId \<Rightarrow> noReply\<lparr>rpResult := 0, rpValues := [0x9000]\<rparr>
        | ReadDebugProcessMemory h address n \<Rightarrow> noReply\<lparr>rpResult := 0,
            rpBytes := if list_ex (\<lambda>(c, r). case c of WriteDebugProcessMemory h b a \<Rightarrow> True | _ \<Rightarrow> False) t
              then [1, 2] else [5, 6]\<rparr>
        | WriteDebugProcessMemory h bytes address \<Rightarrow> noReply\<lparr>rpResult := 0\<rparr>
        | ContinueDebugEvent h flags ids \<Rightarrow> noReply\<lparr>rpResult := 0\<rparr>
        | _ \<Rightarrow> noReply)),
     knCurrentThread = 0xFFFF8000, knCurrentProcess = 0xFFFF8001, knInvalidHandle = 0, knTimedOut = 0xEA01,
     knInvalidHandleError = 0xE401, knOwnedByAnother = 0xF401, knBadInput = 0x359, knNotFound = 0x559,
     knExited = 0x54359, knAlreadyExists = 0xE401\<rparr>"

definition patchExample :: "(res \<times> PatchCodeResult) \<times> Machine" where
  "patchExample = run_state (patchCodeRun patchKernel 100 0x8000 (Some [5, 6]) False (Some [1, 2]) True 0x51)
     freshMachine"

lemma patchExample_ok:
  "fst (fst patchExample) = 0 \<and> pcStatus (snd (fst patchExample)) = PatchCodeOk \<and>
   length (filter (\<lambda>(c, r). case c of WriteDebugProcessMemory h b a \<Rightarrow> True | _ \<Rightarrow> False)
     (mcTrace (snd patchExample))) = 1"
  by code_simp

theorem patchCodeRun_writes_guarded_witness:
  "writesGuarded \<lparr>prAddress = 0x8000, prExpected = Some [5, 6], prPatch = [1, 2], prCheckPc = True\<rparr>
     (mcTrace (snd patchExample)) \<and> mcTrace (snd patchExample) \<noteq> []"
proof -
  have "run_state (patchCodeRun patchKernel 100 0x8000 (Some [5, 6]) False (Some [1, 2]) True 0x51) freshMachine
      = (fst patchExample, snd patchExample)"
    by (simp add: patchExample_def)
  from patchCodeRun_writes_guarded [OF this] show ?thesis
    using patchExample_ok by (auto simp: freshMachine_def)
qed

theorem patchCodeRun_ok_witness:
  "\<exists>h. patchedFor h 0x8000 [1, 2] (mcTrace (snd patchExample))"
proof -
  have "run_state (patchCodeRun patchKernel 100 0x8000 (Some [5, 6]) False (Some [1, 2]) True 0x51) freshMachine
      = ((0, snd (fst patchExample)), snd patchExample)"
    using patchExample_ok by (simp add: patchExample_def prod_eq_iff)
  then show ?thesis
    by (rule patchCodeRun_ok [rotated]) (use patchExample_ok in \<open>auto simp: patchKernel_def kernelCodes_def\<close>)
qed

end
