(* ===== verification/DebugReturns.thy ===== *)
theory DebugReturns
  imports DebugHandles
begin

text \<open>
  The debug commands return.  Their loops wait for a process that may report events for as long as it likes,
  and for a clock; \<open>eventsEnd\<close> and \<open>clockRuns\<close> say that the events end and that the clock runs.  Then
  a fuel that covers both is never used up, so no loop goes on for ever.
\<close>

subsection \<open>Events that end and a clock that runs\<close>

text \<open>How often the debug handle had something to report: a wait that was satisfied, an event.\<close>

fun reports :: "Trace \<Rightarrow> nat" where
  "reports [] = 0"
| "reports ((c, r) # t) =
    (case c of
       WaitSynchronization h n \<Rightarrow> (if rpResult r = 0 then 1 else 0) + reports t
     | GetDebugEvent h \<Rightarrow> (if rpResult r = 0 then 1 else 0) + reports t
     | _ \<Rightarrow> reports t)"

fun timeouts :: "res \<Rightarrow> Trace \<Rightarrow> nat" where
  "timeouts timedOut [] = 0"
| "timeouts timedOut ((c, r) # t) =
    (case c of
       WaitSynchronization h n \<Rightarrow> (if rpResult r = timedOut then 1 else 0) + timeouts timedOut t
     | _ \<Rightarrow> timeouts timedOut t)"

text \<open>After \<open>n\<close> reports there is nothing more to report.\<close>

definition eventsEnd :: "Kernel \<Rightarrow> nat \<Rightarrow> bool" where
  "eventsEnd K n \<longleftrightarrow> (\<forall>t h ns. n \<le> reports t \<longrightarrow>
     rpResult (knReply K t (GetDebugEvent h)) \<noteq> 0 \<and> rpResult (knReply K t (WaitSynchronization h ns)) \<noteq> 0)"

text \<open>After \<open>k\<close> waits that timed out, a second has passed.\<close>

definition clockRuns :: "Kernel \<Rightarrow> nat \<Rightarrow> bool" where
  "clockRuns K k \<longleftrightarrow> (\<forall>t u. k \<le> timeouts (knTimedOut K) u \<longrightarrow>
     rpValue (knReply K t GetSystemTick) +
       rpValue (knReply K ((GetSystemTick, knReply K t GetSystemTick) # t) GetSystemTickFreq)
     \<le> rpValue (knReply K (u @ t) GetSystemTick))"

lemma reports_append [simp]: "reports (u @ t) = reports u + reports t"
  by (induction u) (auto split: Call.splits)

lemma timeouts_append [simp]: "timeouts e (u @ t) = timeouts e u + timeouts e t"
  by (induction u) (auto split: Call.splits)

lemma eventsEnd_more:
  assumes "eventsEnd K n"
  shows "rpResult (knReply K t (GetDebugEvent h)) = 0 \<Longrightarrow> reports t < n"
    and "rpResult (knReply K t (WaitSynchronization h ns)) = 0 \<Longrightarrow> reports t < n"
  using assms by (force simp: eventsEnd_def not_less [symmetric])+

subsection \<open>Steps that keep going\<close>

abbreviation runs :: "(Machine, 'a) state \<Rightarrow> bool" where
  "runs p \<equiv> obeys (\<lambda>m. \<not> mcStuck m) p"

lemma runs_calls [obey]:
  "runs (svc K c)" "runs (svcResult K c)" "runs debugOwned"
  by (rule obeysI, simp)+

lemma runs_session [obey]:
  "runs (State (\<lambda>m. (mcDmntInitialized m, m)))" "runs (State (\<lambda>m. ((), m\<lparr>mcDmntInitialized := b\<rparr>)))"
  by (rule obeysI, simp add: wp_def)+

subsection \<open>The waits\<close>

lemma initialEvents_returns:
  fixes m :: Machine
  assumes "eventsEnd K n" and "\<not> mcStuck m" and "n - reports (mcTrace m) < fuel"
  shows "wp (initialEvents K fuel h seen) m (\<lambda>_ m'. \<not> mcStuck m' \<and> (\<exists>u. mcTrace m' = u @ mcTrace m))"
  using assms(2,3)
proof (induction fuel arbitrary: m seen)
  case (Suc fuel)
  let ?r = "knReply K (mcTrace m) (GetDebugEvent h)"
  let ?m = "m\<lparr>mcTrace := (GetDebugEvent h, ?r) # mcTrace m\<rparr>"
  have "wp (initialEvents K fuel h s) ?m (\<lambda>_ m'. \<not> mcStuck m' \<and> (\<exists>u. mcTrace m' = u @ mcTrace m))"
    if "rpResult ?r = 0" for s
    using Suc.prems that eventsEnd_more(1) [OF assms(1) that]
    by (intro wp_mono [OF Suc.IH]) auto
  then show ?case using Suc.prems by auto
qed simp

lemma drainLoop_returns:
  fixes m :: Machine
  assumes ends: "eventsEnd K n"
    and clock: "\<And>u. k \<le> timeouts (knTimedOut K) u \<Longrightarrow> deadline \<le> rpValue (knReply K (u @ start) GetSystemTick)"
    and "\<not> mcStuck m" and "mcTrace m = u @ start"
    and "(n - reports (mcTrace m)) + (k - timeouts (knTimedOut K) u) < fuel"
  shows "wp (drainLoop K fuel h deadline seen) m (\<lambda>_ m'. \<not> mcStuck m')"
  using assms(3-)
proof (induction fuel arbitrary: m u seen)
  case (Suc fuel)
  let ?c = "WaitSynchronization h DEBUG_PROCESS_EVENT_TIMEOUT_NS"
  let ?w = "knReply K (mcTrace m) ?c"
  let ?t = "(?c, ?w) # mcTrace m"
  let ?q = "knReply K ?t GetSystemTick"
  have again: "wp (drainLoop K fuel h deadline s) (m\<lparr>mcTrace := (GetSystemTick, ?q) # ?t\<rparr>) (\<lambda>_ m'. \<not> mcStuck m')"
    if "rpResult ?w = knTimedOut K" "\<not> deadline \<le> rpValue ?q" for s
  proof (rule Suc.IH [of _ "(GetSystemTick, ?q) # (?c, ?w) # u"])
    have "Suc (timeouts (knTimedOut K) u) < k"
      using that clock [of "(?c, ?w) # u"] Suc.prems(2) by (auto simp: not_le [symmetric])
    then show "n - reports (mcTrace (m\<lparr>mcTrace := (GetSystemTick, ?q) # ?t\<rparr>)) +
        (k - timeouts (knTimedOut K) ((GetSystemTick, ?q) # (?c, ?w) # u)) < fuel"
      using Suc.prems(3) that by auto
  qed (use Suc.prems in auto)
  have events: "wp (initialEvents K fuel h s) (m\<lparr>mcTrace := ?t\<rparr>)
      (\<lambda>a m'. \<not> mcStuck m' \<and> wp (drainLoop K fuel h deadline (snd a)) m' (\<lambda>_ m'. \<not> mcStuck m'))"
    if "rpResult ?w = 0" for s
  proof (rule wp_mono [OF initialEvents_returns [OF ends]])
    have more: "reports (mcTrace m) < n" by (rule eventsEnd_more(2) [OF ends that])
    show "\<not> mcStuck (m\<lparr>mcTrace := ?t\<rparr>)" using Suc.prems by simp
    show "n - reports (mcTrace (m\<lparr>mcTrace := ?t\<rparr>)) < fuel" using Suc.prems that more by simp
    fix a and m' :: Machine
    assume m': "\<not> mcStuck m' \<and> (\<exists>v. mcTrace m' = v @ mcTrace (m\<lparr>mcTrace := ?t\<rparr>))"
    then obtain v where "mcTrace m' = v @ ?t" by auto
    then have "wp (drainLoop K fuel h deadline s) m' (\<lambda>_ m'. \<not> mcStuck m')" for s
      using Suc.prems that more m' by (intro Suc.IH [of _ "v @ (?c, ?w) # u"]) auto
    then show "\<not> mcStuck m' \<and> wp (drainLoop K fuel h deadline (snd a)) m' (\<lambda>_ m'. \<not> mcStuck m')"
      using m' by simp
  qed
  show ?case
    using Suc.prems(1) by (auto intro: again intro!: wp_mono [OF events])
qed simp

lemma drain_runs:
  assumes "eventsEnd K n" and "clockRuns K k" and "n + k < fuel"
  shows "runs (debugProcessDrain K fuel h)"
proof (rule obeysI)
  fix m :: Machine
  assume m: "\<not> mcStuck m"
  let ?q = "knReply K (mcTrace m) GetSystemTick"
  let ?f = "knReply K ((GetSystemTick, ?q) # mcTrace m) GetSystemTickFreq"
  have "wp (drainLoop K fuel h (rpValue ?q + rpValue ?f) False)
      (m\<lparr>mcTrace := (GetSystemTickFreq, ?f) # (GetSystemTick, ?q) # mcTrace m\<rparr>) (\<lambda>_ m'. \<not> mcStuck m')"
    by (rule drainLoop_returns [OF assms(1), where k = k and start = "mcTrace m"
          and u = "[(GetSystemTickFreq, ?f), (GetSystemTick, ?q)]"])
      (use assms m in \<open>auto simp: clockRuns_def\<close>)
  then show "wp (debugProcessDrain K fuel h) m (\<lambda>_ m'. \<not> mcStuck m')"
    using m by (simp add: debugProcessDrain_def)
qed

lemma breakEvents_runs:
  assumes "eventsEnd K n" and "n < fuel"
  shows "runs (breakEvents K fuel h)"
proof -
  have "wp (breakEvents K fuel h) m (\<lambda>_ m'. \<not> mcStuck m')"
    if "\<not> mcStuck m" "n - reports (mcTrace m) < fuel" for fuel and m :: Machine
    using that
  proof (induction fuel arbitrary: m)
    case (Suc fuel)
    let ?r = "knReply K (mcTrace m) (GetDebugEvent h)"
    have "wp (breakEvents K fuel h) (m\<lparr>mcTrace := (GetDebugEvent h, ?r) # mcTrace m\<rparr>) (\<lambda>_ m'. \<not> mcStuck m')"
      if "rpResult ?r = 0"
      using Suc.prems that eventsEnd_more(1) [OF assms(1) that] by (intro Suc.IH) auto
    then show ?case using Suc.prems by auto
  qed simp
  then show ?thesis using assms(2) by (auto intro!: obeysI)
qed

lemma discardEvents_runs:
  assumes "eventsEnd K n" and "n < fuel"
  shows "runs (discardEvents K fuel h)"
proof -
  have "wp (discardEvents K fuel h) m (\<lambda>_ m'. \<not> mcStuck m')"
    if "\<not> mcStuck m" "n - reports (mcTrace m) < fuel" for fuel and m :: Machine
    using that
  proof (induction fuel arbitrary: m)
    case (Suc fuel)
    let ?r = "knReply K (mcTrace m) (GetDebugEvent h)"
    have "wp (discardEvents K fuel h) (m\<lparr>mcTrace := (GetDebugEvent h, ?r) # mcTrace m\<rparr>) (\<lambda>_ m'. \<not> mcStuck m')"
      if "rpResult ?r = 0"
      using Suc.prems that eventsEnd_more(1) [OF assms(1) that] by (intro Suc.IH) auto
    then show ?case using Suc.prems by auto
  qed simp
  then show ?thesis using assms(2) by (auto intro!: obeysI)
qed

lemma pause_runs:
  assumes "eventsEnd K n" and "n < fuel"
  shows "runs (pauseLoop K fuel h k)"
  by (induction k) (auto intro!: obey breakEvents_runs [OF assms])

lemma releaseDmnt_runs [obey]: "runs (releaseDmnt K pid)"
  by (auto simp: releaseDmnt_def dmntClientInitialize_def dmntClientHasProcess_def
      dmntClientForceClose_def intro!: obey)

lemma open_runs [obey]:
  "runs (debugProcessOpen K pid)" "runs (debugProcessClose K h)" "runs (debugProcessResume K h)"
  by (auto simp: debugProcessOpen_def debugProcessClose_def debugProcessResume_def intro!: obey)

lemma threads_runs [obey]: "runs (listThreads K h closed)"
proof -
  have "runs (threadRecord K h t)" for t
    unfolding threadRecord_def Let_def by (intro obey)
  then have "runs (threadRecords K h ts)" for ts
    by (induction ts) (auto intro!: obey)
  then show ?thesis unfolding listThreads_def Let_def by (intro obey)
qed

lemma patch_runs [obey]:
  "runs (inspectThreads K h address n checkPc ids best out)"
  "runs (patchMemory K h address expected skipVerify patch out)"
proof -
  show "runs (inspectThreads K h address n checkPc ids best out)"
    by (induction ids arbitrary: best out) (auto simp: Let_def intro!: obey)
  show "runs (patchMemory K h address expected skipVerify patch out)"
    unfolding patchMemory_def Let_def by (intro obey)
qed

lemma commands_run:
  assumes "eventsEnd K n" and "clockRuns K k" and "n + k < fuel"
  shows "runs (debugProcessReadMemory K fuel pid address size')"
    and "runs (debugProcessPrintThreads K fuel pid)"
    and "runs (patchCodeRun K fuel address expected skipVerify patch checkPc pid)"
proof -
  have drain: "runs (debugProcessDrain K fuel h)" "runs (drainInitialEvents K fuel h)" for h
    using drain_runs [OF assms] by (simp_all add: debugProcessDrain_def drainInitialEvents_def)
  have n: "n < fuel" using assms(3) by simp
  have pause: "runs (debugProcessPause K fuel h)" "runs (pauseProcess K fuel h)"
      "runs (discardEvents K fuel h)" "runs (resumeSession K h)" for h
    unfolding debugProcessPause_def pauseProcess_def resumeSession_def
    by (intro obey pause_runs [OF assms(1) n] discardEvents_runs [OF assms(1) n])+
  show "runs (debugProcessReadMemory K fuel pid address size')"
    unfolding debugProcessReadMemory_def by (intro obey drain pause)
  show "runs (debugProcessPrintThreads K fuel pid)"
    unfolding debugProcessPrintThreads_def by (intro obey drain pause)
  show "runs (patchCodeRun K fuel address expected skipVerify patch checkPc pid)"
    unfolding patchCodeRun_def patchAttached_def patchCleanup_def Let_def by (intro obey drain pause)
qed

text \<open>C32: the debug commands come back.  When the process has at most \<open>n\<close> events to report and a second has
  passed after at most \<open>k\<close> waits that timed out, then reading memory, listing the threads and patching
  code return whatever else the kernel answers: no loop of theirs goes on for ever.\<close>

theorem debugCommands_return:
  assumes "eventsEnd K n" and "clockRuns K k" and "n + k < fuel" and "\<not> mcStuck (m :: Machine)"
  shows "\<not> mcStuck (snd (run_state (debugProcessReadMemory K fuel pid address size') m)) \<and>
    \<not> mcStuck (snd (run_state (debugProcessPrintThreads K fuel pid) m)) \<and>
    \<not> mcStuck (snd (run_state (patchCodeRun K fuel address expected skipVerify patch checkPc pid) m))"
  using commands_run [OF assms(1-3)] assms(4) by (simp add: obeys_def wp_run)

text \<open>A process that reports one event, a clock of 19.2 MHz and waits of 20 ms.\<close>

definition clockKernel :: Kernel where
  "clockKernel = quietKernel\<lparr>knReply := (\<lambda>t c.
       (case c of
          GetSystemTick \<Rightarrow> noReply\<lparr>rpResult := 0,
            rpValue := if timeouts 0xEA01 t \<le> 1000 then of_nat (384000 * timeouts 0xEA01 t) else - 1\<rparr>
        | GetSystemTickFreq \<Rightarrow> noReply\<lparr>rpResult := 0, rpValue := 19200000\<rparr>
        | WaitSynchronization h ns \<Rightarrow> noReply\<lparr>rpResult := if reports t = 0 then 0 else 0xEA01\<rparr>
        | GetDebugEvent h \<Rightarrow> noReply\<lparr>rpResult := if reports t < 2 then 0 else 1,
            rpEvent := \<lparr>evType = EventCreateProcess, evThread = 0, evHardwareBreak = False, evAttached = False, evDataBreak = False, evAddress = 0\<rparr>\<rparr>
        | DebugActiveProcess pid \<Rightarrow> noReply\<lparr>rpResult := 0, rpValue := 0x25\<rparr>
        | _ \<Rightarrow> noReply\<lparr>rpResult := 0\<rparr>))\<rparr>"

lemma clockKernel_ends: "eventsEnd clockKernel 2"
  by (simp add: eventsEnd_def clockKernel_def noReply_def)

lemma clockKernel_clock: "clockRuns clockKernel 50"
proof -
  have "(of_nat (384000 * a) :: u64) + 19200000 \<le> of_nat (384000 * (b + a))"
    if "50 \<le> b" "b + a \<le> 1000" for a b :: nat
  proof -
    have later: "unat (of_nat (384000 * (b + a)) :: u64) = 384000 * (b + a)"
      and start: "unat (of_nat (384000 * a) :: u64) = 384000 * a"
      using that by (simp_all only: unat_of_nat) simp_all
    have "unat ((of_nat (384000 * a) :: u64) + 19200000) \<le> 384000 * a + 19200000"
      unfolding unat_word_ariths start by (rule order_trans [OF mod_less_eq_dividend]) simp
    then show ?thesis
      unfolding word_le_nat_alt later using that by simp
  qed
  then show ?thesis
    by (auto simp: clockRuns_def clockKernel_def quietKernel_def word_order.extremum)
qed

theorem debugCommands_return_witness:
  "\<not> mcStuck (snd (run_state (debugProcessReadMemory clockKernel 60 0x51 0x8000 16) freshMachine)) \<and>
   \<not> mcStuck (snd (run_state (debugProcessPrintThreads clockKernel 60 0x51) freshMachine)) \<and>
   \<not> mcStuck (snd (run_state (patchCodeRun clockKernel 60 0x8000 None True (Some [1, 2]) True 0x51) freshMachine))"
  by (rule debugCommands_return [OF clockKernel_ends clockKernel_clock]) (simp_all add: freshMachine_def)

end
