(* ===== verification/ProcessMemory.thy ===== *)
theory ProcessMemory
  imports DebugProcess
begin

text \<open>
  \<open>process_memory.c\<close> and \<open>process_memory_select.c\<close>: the session through which the program reaches the memory of
  the running application, by the cheat service or by a debug handle of its own.  The machine gets the
  statics of the file.  The mutex belongs to the open session; locking it twice would wait for ever, which marks
  the machine as stuck.  The messages that \<open>reportErrors\<close> asks for are left out.
\<close>

datatype ProcessMemoryPolicy = ProcessMemoryPolicyAuto | ProcessMemoryPolicyDmnt | ProcessMemoryPolicyDirect

datatype ProcessMemoryBackendKind =
  ProcessMemoryBackendNone | ProcessMemoryBackendDmnt | ProcessMemoryBackendDirect

record ProcessMemoryMetadata =
  mdProcessId :: u64
  mdTitleId :: u64
  mdMainBase :: u64
  mdMainSize :: u64
  mdHeapBase :: u64
  mdHeapSize :: u64
  mdAliasBase :: u64
  mdAliasSize :: u64
  mdAddressSpaceBase :: u64
  mdAddressSpaceSize :: u64
  mdBuildId :: "u8 list"

record ProcessMemorySession =
  psBackend :: ProcessMemoryBackendKind
  psProcessId :: u64
  psDirectHandle :: u32
  psMetadata :: ProcessMemoryMetadata
  psOpen :: bool

record ProcessMemoryStatus =
  stPolicy :: ProcessMemoryPolicy
  stActive :: ProcessMemoryBackendKind
  stDmntAvailable :: bool
  stDmntAttached :: bool
  stProcessId :: u64
  stTitleId :: u64
  stLastError :: res

record MemMachine = Machine +
  pmLocked :: bool
  currentPolicy :: ProcessMemoryPolicy
  currentStatus :: ProcessMemoryStatus
  dmntOwnershipObserved :: bool

definition emptyMetadata :: ProcessMemoryMetadata where
  "emptyMetadata = \<lparr>mdProcessId = 0, mdTitleId = 0, mdMainBase = 0, mdMainSize = 0, mdHeapBase = 0, mdHeapSize = 0,
     mdAliasBase = 0, mdAliasSize = 0, mdAddressSpaceBase = 0, mdAddressSpaceSize = 0,
     mdBuildId = replicate 32 0\<rparr>"

definition zeroSession :: ProcessMemorySession where
  "zeroSession = \<lparr>psBackend = ProcessMemoryBackendNone, psProcessId = 0, psDirectHandle = 0,
     psMetadata = emptyMetadata, psOpen = False\<rparr>"

subsection \<open>The mutex and the statics\<close>

definition mutexLock :: "('m MemMachine_scheme, unit) state" where
  "mutexLock = State (\<lambda>m. ((), if pmLocked m then m\<lparr>mcStuck := True\<rparr> else m\<lparr>pmLocked := True\<rparr>))"

definition mutexUnlock :: "('m MemMachine_scheme, unit) state" where
  "mutexUnlock = State (\<lambda>m. ((), m\<lparr>pmLocked := False\<rparr>))"

definition getMem :: "('m MemMachine_scheme \<Rightarrow> 'a) \<Rightarrow> ('m MemMachine_scheme, 'a) state" where
  "getMem f = State (\<lambda>m. (f m, m))"

definition setMem :: "('m MemMachine_scheme \<Rightarrow> 'm MemMachine_scheme) \<Rightarrow> ('m MemMachine_scheme, unit) state" where
  "setMem f = State (\<lambda>m. ((), f m))"

definition setStatus :: "(ProcessMemoryStatus \<Rightarrow> ProcessMemoryStatus) \<Rightarrow> ('m MemMachine_scheme, unit) state" where
  "setStatus f = setMem (\<lambda>m. m\<lparr>currentStatus := f (currentStatus m)\<rparr>)"

subsection \<open>The two backends\<close>

definition getApplicationProcessId :: "Kernel \<Rightarrow> ('m Machine_scheme, res \<times> u64) state" where
  "getApplicationProcessId K = do {
     r \<leftarrow> svc K GetApplicationProcessId;
     (let pid = (if R_SUCCEEDED (rpResult r) then rpValue r else 0)
      in State_Monad.return (if R_SUCCEEDED (rpResult r) \<and> pid = 0 then knNotFound K else rpResult r, pid))
   }"

text \<open>The six regions, each asked for after the one before succeeded.\<close>

fun fetchInfos :: "Kernel \<Rightarrow> u32 \<Rightarrow> (InfoType \<times> (u64 \<Rightarrow> ProcessMemoryMetadata \<Rightarrow> ProcessMemoryMetadata)) list \<Rightarrow>
    ProcessMemoryMetadata \<Rightarrow> ('m Machine_scheme, res \<times> ProcessMemoryMetadata) state" where
  "fetchInfos K h [] md = State_Monad.return (0, md)"
| "fetchInfos K h ((info, put) # infos) md = do {
     r \<leftarrow> svc K (GetInfo h info);
     if R_FAILED (rpResult r) then State_Monad.return (rpResult r, md)
     else fetchInfos K h infos (put (rpValue r) md)
   }"

definition directRegions :: "(InfoType \<times> (u64 \<Rightarrow> ProcessMemoryMetadata \<Rightarrow> ProcessMemoryMetadata)) list" where
  "directRegions =
    [(HeapRegionAddress, \<lambda>v. mdHeapBase_update (\<lambda>_. v)), (HeapRegionSize, \<lambda>v. mdHeapSize_update (\<lambda>_. v)),
     (AliasRegionAddress, \<lambda>v. mdAliasBase_update (\<lambda>_. v)), (AliasRegionSize, \<lambda>v. mdAliasSize_update (\<lambda>_. v)),
     (AslrRegionAddress, \<lambda>v. mdAddressSpaceBase_update (\<lambda>_. v)),
     (AslrRegionSize, \<lambda>v. mdAddressSpaceSize_update (\<lambda>_. v))]"

text \<open>The reply with up to two modules holds their addresses, then their sizes, and their build ids in its bytes.\<close>

definition fillDirectMetadata :: "Kernel \<Rightarrow> u64 \<Rightarrow> u32 \<Rightarrow> ('m Machine_scheme, res \<times> ProcessMemoryMetadata) state" where
  "fillDirectMetadata K processId h =
    (let md = emptyMetadata\<lparr>mdProcessId := processId\<rparr>
     in do {
       r \<leftarrow> svc K (GetProgramId processId);
       if R_FAILED (rpResult r) then State_Monad.return (rpResult r, md)
       else do {
         (rc, md) \<leftarrow> fetchInfos K h directRegions (md\<lparr>mdTitleId := rpValue r\<rparr>);
         if R_FAILED rc then State_Monad.return (rc, md)
         else do {
           r \<leftarrow> svc K (GetProcessModules processId 2);
           (let count = sint (ucast (rpValue r) :: u32);
                i = (if count = 2 then 1 else 0);
                w = (\<lambda>i. (rpValues r @ replicate 4 0) ! i)
            in State_Monad.return
                 (if R_FAILED (rpResult r) \<or> count \<le> 0
                  then (if R_FAILED (rpResult r) then rpResult r else knNotFound K, md)
                  else (0, md\<lparr>mdMainBase := w i, mdMainSize := w (2 + i),
                               mdBuildId := take 32 (drop (32 * i) (rpBytes r @ replicate 64 0))\<rparr>)))
         }
       }
     })"

definition openDirect :: "Kernel \<Rightarrow> u64 \<Rightarrow> ProcessMemorySession \<Rightarrow>
    ('m Machine_scheme, res \<times> ProcessMemorySession) state" where
  "openDirect K processId session =
    (let session = session\<lparr>psBackend := ProcessMemoryBackendDirect, psProcessId := processId\<rparr>
     in do {
       r \<leftarrow> svc K (DebugActiveProcess processId);
       if R_FAILED (rpResult r) then State_Monad.return (rpResult r, session)
       else (let h = ucast (rpValue r)
             in do {
               (rc, md) \<leftarrow> fillDirectMetadata K processId h;
               (let session = session\<lparr>psDirectHandle := h, psMetadata := md\<rparr>
                in if R_FAILED rc
                   then do {
                     _ \<leftarrow> svc K (CloseHandle h);
                     State_Monad.return (rc, session\<lparr>psDirectHandle := 0\<rparr>)
                   }
                   else State_Monad.return (0, session))
             })
     })"

definition sessionMetadata :: "DmntProcessMetadata \<Rightarrow> ProcessMemoryMetadata" where
  "sessionMetadata d = \<lparr>mdProcessId = dmProcessId d, mdTitleId = dmTitleId d, mdMainBase = dmMainBase d,
     mdMainSize = dmMainSize d, mdHeapBase = dmHeapBase d, mdHeapSize = dmHeapSize d,
     mdAliasBase = dmAliasBase d, mdAliasSize = dmAliasSize d, mdAddressSpaceBase = dmAddressSpaceBase d,
     mdAddressSpaceSize = dmAddressSpaceSize d, mdBuildId = dmBuildId d\<rparr>"

text \<open>The result, \<open>acquired\<close> and the session.\<close>

definition openDmnt :: "Kernel \<Rightarrow> u64 \<Rightarrow> ProcessMemorySession \<Rightarrow>
    ('m MemMachine_scheme, res \<times> bool \<times> ProcessMemorySession) state" where
  "openDmnt K processId session = do {
     acquired \<leftarrow> getMem dmntOwnershipObserved;
     rc \<leftarrow> dmntClientInitialize K;
     _ \<leftarrow> setStatus (stDmntAvailable_update (\<lambda>_. R_SUCCEEDED rc));
     if R_FAILED rc then State_Monad.return (rc, acquired, session)
     else do {
       (rc, attached) \<leftarrow> dmntClientHasProcess K;
       if R_FAILED rc then State_Monad.return (rc, acquired, session)
       else do {
         _ \<leftarrow> setMem (\<lambda>m. m\<lparr>dmntOwnershipObserved := attached\<rparr>);
         _ \<leftarrow> setStatus (stDmntAttached_update (\<lambda>_. attached));
         rc \<leftarrow>
           (if \<not> attached
            then do {
              rc \<leftarrow> dmntClientForceOpen K;
              _ \<leftarrow> (if R_FAILED rc then skip
                    else do {
                      _ \<leftarrow> setMem (\<lambda>m. m\<lparr>dmntOwnershipObserved := True\<rparr>);
                      setStatus (stDmntAttached_update (\<lambda>_. True))
                    });
              State_Monad.return rc
            }
            else State_Monad.return 0);
         if R_FAILED rc then State_Monad.return (rc, False, session)
         else do {
           (rc, metadata) \<leftarrow> dmntClientGetMetadata K;
           State_Monad.return
             (if R_FAILED rc then (rc, True, session)
              else if dmProcessId metadata \<noteq> processId then (knBadInput K, True, session)
              else (0, True, session\<lparr>psBackend := ProcessMemoryBackendDmnt, psProcessId := processId,
                       psMetadata := sessionMetadata metadata\<rparr>))
         }
       }
     }
   }"

subsection \<open>Choosing a backend\<close>

datatype PmSelectPolicy = PmSelectAuto | PmSelectDmnt | PmSelectDirect

datatype PmSelectBackend = PmSelectNone | PmSelectDmntBackend | PmSelectDirectBackend

text \<open>The two functions work on a context, which the caller gets back.\<close>

definition processMemorySelectBackend ::
  "PmSelectPolicy \<Rightarrow> ('c \<Rightarrow> ('w, res \<times> bool \<times> 'c) state) \<Rightarrow> ('c \<Rightarrow> ('w, res \<times> 'c) state) \<Rightarrow> 'c \<Rightarrow>
    ('w, res \<times> PmSelectBackend \<times> 'c) state" where
  "processMemorySelectBackend policy openDmnt' openDirect' context =
    (if policy = PmSelectDirect
     then do {
       (rc, context) \<leftarrow> openDirect' context;
       State_Monad.return (rc, if rc = 0 then PmSelectDirectBackend else PmSelectNone, context)
     }
     else do {
       (rc, acquired, context) \<leftarrow> openDmnt' context;
       if rc = 0 then State_Monad.return (0, PmSelectDmntBackend, context)
       else if policy = PmSelectDmnt \<or> acquired then State_Monad.return (rc, PmSelectNone, context)
       else do {
         (rc, context) \<leftarrow> openDirect' context;
         State_Monad.return (rc, if rc = 0 then PmSelectDirectBackend else PmSelectNone, context)
       }
     })"

fun selectPolicy :: "ProcessMemoryPolicy \<Rightarrow> PmSelectPolicy" where
  "selectPolicy ProcessMemoryPolicyAuto = PmSelectAuto"
| "selectPolicy ProcessMemoryPolicyDmnt = PmSelectDmnt"
| "selectPolicy ProcessMemoryPolicyDirect = PmSelectDirect"

subsection \<open>Opening and closing\<close>

definition recordOpenResult :: "ProcessMemorySession \<Rightarrow> res \<Rightarrow> ('m MemMachine_scheme, unit) state" where
  "recordOpenResult session rc = setStatus (\<lambda>s.
     (if R_SUCCEEDED rc
      then s\<lparr>stLastError := rc, stActive := psBackend session, stProcessId := mdProcessId (psMetadata session),
             stTitleId := mdTitleId (psMetadata session)\<rparr>
      else s\<lparr>stLastError := rc, stActive := ProcessMemoryBackendNone, stProcessId := 0, stTitleId := 0\<rparr>))"

definition openLocked :: "Kernel \<Rightarrow> ProcessMemoryPolicy \<Rightarrow> u64 \<Rightarrow>
    ('m MemMachine_scheme, res \<times> ProcessMemorySession) state" where
  "openLocked K policy expectedProcessId = do {
     owned \<leftarrow> debugOwned;
     if owned
     then do {
       _ \<leftarrow> recordOpenResult zeroSession (knOwnedByAnother K);
       _ \<leftarrow> mutexUnlock;
       State_Monad.return (knOwnedByAnother K, zeroSession)
     }
     else do {
       (rc, processId) \<leftarrow> getApplicationProcessId K;
       (rc, session) \<leftarrow>
         (if R_FAILED rc then State_Monad.return (rc, zeroSession)
          else if expectedProcessId \<noteq> 0 \<and> expectedProcessId \<noteq> processId
          then State_Monad.return (knNotFound K, zeroSession)
          else do {
            (rc, selected, session) \<leftarrow> processMemorySelectBackend (selectPolicy policy)
              (openDmnt K processId) (openDirect K processId) zeroSession;
            State_Monad.return (rc, session)
          });
       _ \<leftarrow> recordOpenResult session rc;
       if R_SUCCEEDED rc then State_Monad.return (rc, session\<lparr>psOpen := True\<rparr>)
       else do {
         _ \<leftarrow> mutexUnlock;
         State_Monad.return (rc, session)
       }
     }
   }"

definition processMemoryOpen :: "Kernel \<Rightarrow> ('m MemMachine_scheme, res \<times> ProcessMemorySession) state" where
  "processMemoryOpen K = do {
     _ \<leftarrow> mutexLock;
     policy \<leftarrow> getMem currentPolicy;
     openLocked K policy 0
   }"

text \<open>For the backend \<open>None\<close> the session stays what the caller had.\<close>

definition processMemoryOpenBackend :: "Kernel \<Rightarrow> ProcessMemoryBackendKind \<Rightarrow> u64 \<Rightarrow> ProcessMemorySession \<Rightarrow>
    ('m MemMachine_scheme, res \<times> ProcessMemorySession) state" where
  "processMemoryOpenBackend K backend expectedProcessId session =
    (if backend = ProcessMemoryBackendNone then State_Monad.return (knBadInput K, session)
     else do {
       _ \<leftarrow> mutexLock;
       openLocked K (if backend = ProcessMemoryBackendDmnt then ProcessMemoryPolicyDmnt
                     else ProcessMemoryPolicyDirect) expectedProcessId
     })"

definition processMemoryClose :: "Kernel \<Rightarrow> ProcessMemorySession \<Rightarrow>
    ('m MemMachine_scheme, ProcessMemorySession) state" where
  "processMemoryClose K session =
    (if \<not> psOpen session then State_Monad.return session
     else do {
       _ \<leftarrow> (if psBackend session = ProcessMemoryBackendDirect \<and> psDirectHandle session \<noteq> 0
             then do { _ \<leftarrow> svc K (CloseHandle (psDirectHandle session)); skip }
             else skip);
       _ \<leftarrow> mutexUnlock;
       State_Monad.return (session\<lparr>psDirectHandle := 0, psOpen := False\<rparr>)
     })"

subsection \<open>Using a session\<close>

definition processMemoryRead :: "Kernel \<Rightarrow> ProcessMemorySession \<Rightarrow> u64 \<Rightarrow> u64 \<Rightarrow> ('m Machine_scheme, Reply) state" where
  "processMemoryRead K session address size' =
    (if psBackend session = ProcessMemoryBackendDmnt then dmntClientRead K address size'
     else svc K (ReadDebugProcessMemory (psDirectHandle session) address size'))"

definition processMemoryWrite :: "Kernel \<Rightarrow> ProcessMemorySession \<Rightarrow> u64 \<Rightarrow> u8 list \<Rightarrow> ('m Machine_scheme, res) state" where
  "processMemoryWrite K session address bytes =
    (if psBackend session = ProcessMemoryBackendDmnt then dmntClientWrite K address bytes
     else svcResult K (WriteDebugProcessMemory (psDirectHandle session) bytes address))"

definition processMemoryQuery :: "Kernel \<Rightarrow> ProcessMemorySession \<Rightarrow> u64 \<Rightarrow> ('m Machine_scheme, Reply) state" where
  "processMemoryQuery K session address =
    (if psBackend session = ProcessMemoryBackendDmnt then dmntClientQuery K address
     else svc K (QueryDebugProcessMemory (psDirectHandle session) address))"

definition processMemoryPause :: "Kernel \<Rightarrow> ProcessMemorySession \<Rightarrow> ('m Machine_scheme, res) state" where
  "processMemoryPause K session =
    (if psBackend session = ProcessMemoryBackendDmnt then dmntClientPause K
     else svcResult K (BreakDebugProcess (psDirectHandle session)))"

definition processMemoryResume :: "Kernel \<Rightarrow> ProcessMemorySession \<Rightarrow> ('m Machine_scheme, res) state" where
  "processMemoryResume K session =
    (if psBackend session = ProcessMemoryBackendDmnt then dmntClientResume K
     else svcResult K (ContinueDebugEvent (psDirectHandle session) (4 OR 2 OR 1) []))"

definition processMemoryGetMetadata :: "ProcessMemorySession \<Rightarrow> ProcessMemoryMetadata" where
  "processMemoryGetMetadata session = psMetadata session"

subsection \<open>Policy and status\<close>

definition zeroStatus :: ProcessMemoryStatus where
  "zeroStatus = \<lparr>stPolicy = ProcessMemoryPolicyAuto, stActive = ProcessMemoryBackendNone, stDmntAvailable = False,
     stDmntAttached = False, stProcessId = 0, stTitleId = 0, stLastError = 0\<rparr>"

definition processMemoryInitialize :: "('m MemMachine_scheme, unit) state" where
  "processMemoryInitialize = setMem (\<lambda>m. m\<lparr>pmLocked := False, currentPolicy := ProcessMemoryPolicyAuto,
     currentStatus := zeroStatus, dmntOwnershipObserved := False\<rparr>)"

definition processMemoryExit :: "Kernel \<Rightarrow> ('m MemMachine_scheme, unit) state" where
  "processMemoryExit K = do {
     _ \<leftarrow> mutexLock;
     _ \<leftarrow> dmntClientExit K;
     mutexUnlock
   }"

definition processMemoryGetPolicy :: "('m MemMachine_scheme, ProcessMemoryPolicy) state" where
  "processMemoryGetPolicy = do {
     _ \<leftarrow> mutexLock;
     policy \<leftarrow> getMem currentPolicy;
     _ \<leftarrow> mutexUnlock;
     State_Monad.return policy
   }"

text \<open>A value of the enumeration may come from anywhere; the function checks its range.\<close>

definition policyOfInt :: "int \<Rightarrow> ProcessMemoryPolicy" where
  "policyOfInt n = (if n = 0 then ProcessMemoryPolicyAuto else if n = 1 then ProcessMemoryPolicyDmnt
     else ProcessMemoryPolicyDirect)"

definition processMemorySetPolicy :: "int \<Rightarrow> ('m MemMachine_scheme, bool) state" where
  "processMemorySetPolicy n =
    (if n < 0 \<or> n > 2 then State_Monad.return False
     else do {
       _ \<leftarrow> mutexLock;
       _ \<leftarrow> setMem (\<lambda>m. m\<lparr>currentPolicy := policyOfInt n\<rparr>);
       _ \<leftarrow> setStatus (\<lambda>s. s\<lparr>stPolicy := policyOfInt n, stActive := ProcessMemoryBackendNone, stProcessId := 0,
              stTitleId := 0, stLastError := 0\<rparr>);
       _ \<leftarrow> mutexUnlock;
       State_Monad.return True
     })"

definition processMemoryGetStatus :: "('m MemMachine_scheme, ProcessMemoryStatus) state" where
  "processMemoryGetStatus = do {
     _ \<leftarrow> mutexLock;
     status \<leftarrow> getMem currentStatus;
     policy \<leftarrow> getMem currentPolicy;
     available \<leftarrow> dmntClientIsInitialized;
     _ \<leftarrow> mutexUnlock;
     State_Monad.return (status\<lparr>stPolicy := policy, stDmntAvailable := available\<rparr>)
   }"

definition processMemoryParsePolicy :: "string \<Rightarrow> ProcessMemoryPolicy option" where
  "processMemoryParsePolicy s =
    (if s = ''auto'' then Some ProcessMemoryPolicyAuto
     else if s = ''dmnt'' then Some ProcessMemoryPolicyDmnt
     else if s = ''direct'' then Some ProcessMemoryPolicyDirect
     else None)"

fun processMemoryPolicyName :: "ProcessMemoryPolicy \<Rightarrow> string" where
  "processMemoryPolicyName ProcessMemoryPolicyAuto = ''auto''"
| "processMemoryPolicyName ProcessMemoryPolicyDmnt = ''dmnt''"
| "processMemoryPolicyName ProcessMemoryPolicyDirect = ''direct''"

fun processMemoryBackendName :: "ProcessMemoryBackendKind \<Rightarrow> string" where
  "processMemoryBackendName ProcessMemoryBackendNone = ''none''"
| "processMemoryBackendName ProcessMemoryBackendDmnt = ''dmnt''"
| "processMemoryBackendName ProcessMemoryBackendDirect = ''direct''"

end
