(* ===== verification/MemoryCommands.thy ===== *)
theory MemoryCommands
  imports ProcessMemory Checksums Bytes CString
begin

text \<open>
  The memory commands of \<open>commands.c\<close>: each opens a session, reads or writes, and closes it.  The printed text is
  the result; the messages that \<open>debugResultCodes\<close> asks for are left out.  \<open>alloc\<close> says whether \<open>malloc\<close> returned a
  buffer where the code asks.
\<close>

definition MAX_LINE_LENGTH :: u64 where "MAX_LINE_LENGTH = 344 * 32 * 2"

text \<open>\<open>printf\<close> with \<open>%02X\<close> for every byte.\<close>

definition hexText :: "u8 list \<Rightarrow> string" where
  "hexText bytes = concat (map (\<lambda>b. [digitChar (unat b div 16), digitChar (unat b mod 16)]) bytes)"

definition newline :: string where "newline = [CHR 0x0A]"

record MetaData =
  main_nso_base :: u64
  heap_base :: u64
  titleID :: u64
  titleVersion :: u64
  buildID :: "u8 list"

text \<open>The version of the title comes from a service, which is a parameter.\<close>

definition getMetaData :: "Kernel \<Rightarrow> (u64 \<Rightarrow> ('m MemMachine_scheme, u64) state) \<Rightarrow> ('m MemMachine_scheme, MetaData) state" where
  "getMetaData K GetTitleVersion = do {
     (rc, session) \<leftarrow> processMemoryOpen K;
     if R_FAILED rc
     then State_Monad.return \<lparr>main_nso_base = 0, heap_base = 0, titleID = 0, titleVersion = 0,
            buildID = replicate 32 0\<rparr>
     else (let metadata = processMemoryGetMetadata session
           in do {
             version \<leftarrow> GetTitleVersion (mdProcessId metadata);
             _ \<leftarrow> processMemoryClose K session;
             State_Monad.return \<lparr>main_nso_base = mdMainBase metadata, heap_base = mdHeapBase metadata,
               titleID = mdTitleId metadata, titleVersion = version, buildID = mdBuildId metadata\<rparr>
           })
   }"

definition poke :: "Kernel \<Rightarrow> u64 \<Rightarrow> u8 list \<Rightarrow> ('m MemMachine_scheme, res) state" where
  "poke K offset val = do {
     (rc, session) \<leftarrow> processMemoryOpen K;
     if R_SUCCEEDED rc
     then do {
       rc \<leftarrow> processMemoryWrite K session offset val;
       _ \<leftarrow> processMemoryClose K session;
       State_Monad.return rc
     }
     else State_Monad.return rc
   }"

text \<open>The result of the write, \<open>readback\<close> if it was read, \<open>mismatch\<close> and \<open>readResult\<close>.\<close>

definition pokeVerified :: "Kernel \<Rightarrow> u64 \<Rightarrow> u8 list \<Rightarrow>
    ('m MemMachine_scheme, res \<times> u8 list option \<times> bool \<times> res) state" where
  "pokeVerified K offset val = do {
     (writeRc, session) \<leftarrow> processMemoryOpen K;
     if R_FAILED writeRc then State_Monad.return (writeRc, None, False, 0)
     else do {
       writeRc \<leftarrow> processMemoryWrite K session offset val;
       (readback, mismatch, readResult) \<leftarrow>
         (if R_SUCCEEDED writeRc
          then do {
            r \<leftarrow> processMemoryRead K session offset (of_nat (length val));
            (let bytes = bytesRead (length val) r
             in State_Monad.return
                  (if R_FAILED (rpResult r) then (None, False, rpResult r)
                   else (Some bytes, val \<noteq> bytes, 0)))
          }
          else State_Monad.return (None, False, 0));
       _ \<leftarrow> processMemoryClose K session;
       State_Monad.return (writeRc, readback, mismatch, readResult)
     }
   }"

text \<open>The attempts of \<open>peekVerified\<close>: the bytes both reads agreed on, \<open>lastResult\<close> and \<open>sawMismatch\<close>.\<close>

fun peekAttempts :: "Kernel \<Rightarrow> ProcessMemorySession \<Rightarrow> u64 \<Rightarrow> u64 \<Rightarrow> nat \<Rightarrow> res \<Rightarrow> bool \<Rightarrow>
    ('m Machine_scheme, u8 list option \<times> res \<times> bool) state" where
  "peekAttempts K session offset size' 0 lastResult sawMismatch = State_Monad.return (None, lastResult, sawMismatch)"
| "peekAttempts K session offset size' (Suc n) lastResult sawMismatch = do {
     first \<leftarrow> processMemoryRead K session offset size';
     if R_FAILED (rpResult first) then peekAttempts K session offset size' n (rpResult first) sawMismatch
     else do {
       second \<leftarrow> processMemoryRead K session offset size';
       if R_FAILED (rpResult second) then peekAttempts K session offset size' n (rpResult second) sawMismatch
       else (let bytes = bytesRead (unat size') first; scratch = bytesRead (unat size') second
             in if bytes = scratch then State_Monad.return (Some bytes, 0, sawMismatch)
                else peekAttempts K session offset size' n 0 True)
     }
   }"

definition peekVerified :: "Kernel \<Rightarrow> u64 \<Rightarrow> u64 \<Rightarrow> u32 \<Rightarrow>
    ('m MemMachine_scheme, res \<times> u8 list option) state" where
  "peekVerified K offset size' attempts = do {
     (rc, session) \<leftarrow> processMemoryOpen K;
     if R_FAILED rc then State_Monad.return (rc, None)
     else do {
       (agreed, lastResult, sawMismatch) \<leftarrow>
         peekAttempts K session offset size' (unat (if attempts = 0 then 1 else attempts)) 0 False;
       _ \<leftarrow> processMemoryClose K session;
       State_Monad.return (if agreed \<noteq> None then 0 else if sawMismatch then 0 else lastResult, agreed)
     }
   }"

subsection \<open>The fingerprint of a region\<close>

text \<open>Up to \<open>n\<close> attempts; the result of the last one counts.\<close>

fun chunkAttempts :: "Kernel \<Rightarrow> ProcessMemorySession \<Rightarrow> u64 \<Rightarrow> u64 \<Rightarrow> nat \<Rightarrow> ('m Machine_scheme, Reply) state" where
  "chunkAttempts K session address chunk 0 = processMemoryRead K session address chunk"
| "chunkAttempts K session address chunk (Suc n) = do {
     r \<leftarrow> processMemoryRead K session address chunk;
     if R_SUCCEEDED (rpResult r) then State_Monad.return r else chunkAttempts K session address chunk n
   }"

lemma chunk_progress:
  fixes done' size' :: u64
  assumes "done' < size'"
  shows "unat (done' + min (size' - done') 4096) = unat done' + min (unat size' - unat done') 4096"
proof -
  have sub: "unat (size' - done') = unat size' - unat done'"
    using assms by (simp add: unat_sub order_less_imp_le)
  have "unat (min (size' - done') 4096) = min (unat size' - unat done') 4096"
    by (simp add: min_def word_le_nat_alt sub)
  then show ?thesis
    using assms unat_u64_lt [of size'] by (simp add: unat_word_ariths word_less_nat_alt)
qed

function hashLoop :: "Kernel \<Rightarrow> ProcessMemorySession \<Rightarrow> u64 \<Rightarrow> u64 \<Rightarrow> u64 \<Rightarrow> u32 \<Rightarrow>
    ('m Machine_scheme, res \<times> u32) state" where
  "hashLoop K session address size' done' hash =
    (if done' < size'
     then (let chunk = min (size' - done') 4096
           in do {
             r \<leftarrow> chunkAttempts K session (address + done') chunk 2;
             if R_FAILED (rpResult r) then State_Monad.return (rpResult r, hash)
             else hashLoop K session address size' (done' + chunk)
                    (fnv1a32Update hash (bytesRead (unat chunk) r))
           })
     else State_Monad.return (0, hash))"
  by pat_completeness auto

termination
  by (relation "measure (\<lambda>(K, session, address, size', done', hash). unat size' - unat done')")
    (simp_all add: chunk_progress word_less_nat_alt)

declare hashLoop.simps [simp del]

definition hashRegion :: "Kernel \<Rightarrow> u64 \<Rightarrow> u64 \<Rightarrow> ('m MemMachine_scheme, res \<times> u32) state" where
  "hashRegion K address size' = do {
     (rc, session) \<leftarrow> processMemoryOpen K;
     if R_FAILED rc then State_Monad.return (rc, FNV1A32_BASIS)
     else do {
       (rc, hash) \<leftarrow> hashLoop K session address size' 0 FNV1A32_BASIS;
       _ \<leftarrow> processMemoryClose K session;
       State_Monad.return (rc, hash)
     }
   }"

subsection \<open>Peeking\<close>

definition peek :: "Kernel \<Rightarrow> bool \<Rightarrow> u64 \<Rightarrow> u64 \<Rightarrow> ('m MemMachine_scheme, string) state" where
  "peek K alloc offset size' =
    (if \<not> alloc then State_Monad.return newline
     else do {
       (rc, session) \<leftarrow> processMemoryOpen K;
       (rc, bytes) \<leftarrow>
         (if R_SUCCEEDED rc
          then do {
            r \<leftarrow> processMemoryRead K session offset size';
            State_Monad.return (rpResult r, bytesRead (unat size') r)
          }
          else State_Monad.return (rc, []));
       if R_FAILED rc
       then do {
         _ \<leftarrow> (if psOpen session then do { _ \<leftarrow> processMemoryClose K session; skip } else skip);
         State_Monad.return newline
       }
       else do {
         _ \<leftarrow> processMemoryClose K session;
         State_Monad.return (hexText bytes @ newline)
       }
     })"

text \<open>The pieces; the text so far and whether every read succeeded.\<close>

lemma remainder_progress:
  fixes sizeRemainder :: u64
  assumes "sizeRemainder > 0"
  shows "unat (sizeRemainder - min sizeRemainder MAX_LINE_LENGTH) < unat sizeRemainder"
proof -
  have "unat (sizeRemainder - min sizeRemainder MAX_LINE_LENGTH)
      = unat sizeRemainder - unat (min sizeRemainder MAX_LINE_LENGTH)"
    by (simp add: unat_sub)
  moreover have "0 < unat (min sizeRemainder MAX_LINE_LENGTH)"
    using assms by (simp add: min_def MAX_LINE_LENGTH_def word_less_nat_alt)
  ultimately show ?thesis using assms by (simp add: word_less_nat_alt)
qed

function infiniteLoop :: "Kernel \<Rightarrow> ProcessMemorySession \<Rightarrow> u64 \<Rightarrow> u64 \<Rightarrow> u64 \<Rightarrow> string \<Rightarrow>
    ('m Machine_scheme, string \<times> bool) state" where
  "infiniteLoop K session offset sizeRemainder totalFetched shown =
    (if sizeRemainder > 0
     then (let thisBuffersize = min sizeRemainder MAX_LINE_LENGTH
           in do {
             r \<leftarrow> processMemoryRead K session (offset + totalFetched) thisBuffersize;
             if R_FAILED (rpResult r) then State_Monad.return (shown, False)
             else infiniteLoop K session offset (sizeRemainder - thisBuffersize) (totalFetched + thisBuffersize)
                    (shown @ hexText (bytesRead (unat thisBuffersize) r))
           })
     else State_Monad.return (shown, True))"
  by pat_completeness auto
termination
  by (relation "measure (\<lambda>(K, session, offset, sizeRemainder, totalFetched, shown). unat sizeRemainder)")
    (simp_all add: remainder_progress)

declare infiniteLoop.simps [simp del]

definition peekInfinite :: "Kernel \<Rightarrow> bool \<Rightarrow> u64 \<Rightarrow> u64 \<Rightarrow> ('m MemMachine_scheme, string) state" where
  "peekInfinite K alloc offset size' =
    (if \<not> alloc then State_Monad.return newline
     else do {
       (rc, session) \<leftarrow> processMemoryOpen K;
       if R_FAILED rc then State_Monad.return newline
       else do {
         (shown, complete) \<leftarrow> infiniteLoop K session offset size' 0 [];
         _ \<leftarrow> processMemoryClose K session;
         State_Monad.return (shown @ newline)
       }
     })"

text \<open>The buffer is taken to be allocated: the code does not check it.\<close>

fun multiLoop :: "Kernel \<Rightarrow> ProcessMemorySession \<Rightarrow> (u64 \<times> u64) list \<Rightarrow> u8 list \<Rightarrow>
    ('m Machine_scheme, u8 list option) state" where
  "multiLoop K session [] out = State_Monad.return (Some out)"
| "multiLoop K session ((offset, size') # regions) out = do {
     r \<leftarrow> processMemoryRead K session offset size';
     if R_FAILED (rpResult r) then State_Monad.return None
     else multiLoop K session regions (out @ bytesRead (unat size') r)
   }"

definition peekMulti :: "Kernel \<Rightarrow> (u64 \<times> u64) list \<Rightarrow> ('m MemMachine_scheme, string) state" where
  "peekMulti K regions = do {
     (rc, session) \<leftarrow> processMemoryOpen K;
     if R_FAILED rc then State_Monad.return newline
     else do {
       out \<leftarrow> multiLoop K session regions [];
       _ \<leftarrow> processMemoryClose K session;
       State_Monad.return (case out of None \<Rightarrow> newline | Some bytes \<Rightarrow> hexText bytes @ newline)
     }
   }"

subsection \<open>Pointer chains\<close>

definition pointerValue :: "Reply \<Rightarrow> u64" where
  "pointerValue r = of_nat (leVal (bytesRead 8 r))"

text \<open>The jumps after the first; \<open>None\<close> when a read failed.\<close>

fun pointerLoop :: "Kernel \<Rightarrow> ProcessMemorySession \<Rightarrow> u64 list \<Rightarrow> u64 \<Rightarrow> ('m Machine_scheme, u64 option) state" where
  "pointerLoop K session [] offset = State_Monad.return (Some offset)"
| "pointerLoop K session (jump # jumps) offset = do {
     r \<leftarrow> processMemoryRead K session (offset + jump) 8;
     if R_FAILED (rpResult r) then State_Monad.return None
     else if pointerValue r = 0 then State_Monad.return (Some 0)
     else pointerLoop K session jumps (pointerValue r)
   }"

definition followMainPointer :: "Kernel \<Rightarrow> bool \<Rightarrow> u64 list \<Rightarrow> ('m MemMachine_scheme, u64) state" where
  "followMainPointer K alloc jumps =
    (case jumps of
       [] \<Rightarrow> State_Monad.return 0
     | jump # rest \<Rightarrow>
         if \<not> alloc then State_Monad.return 0
         else do {
           (rc, session) \<leftarrow> processMemoryOpen K;
           (rc, r) \<leftarrow>
             (if R_SUCCEEDED rc
              then do {
                r \<leftarrow> processMemoryRead K session (mdMainBase (processMemoryGetMetadata session) + jump) 8;
                State_Monad.return (rpResult r, r)
              }
              else State_Monad.return (rc, noReply));
           if R_FAILED rc
           then do {
             _ \<leftarrow> (if psOpen session then do { _ \<leftarrow> processMemoryClose K session; skip } else skip);
             State_Monad.return 0
           }
           else do {
             target \<leftarrow> pointerLoop K session rest (pointerValue r);
             _ \<leftarrow> processMemoryClose K session;
             State_Monad.return (case target of None \<Rightarrow> 0 | Some offset \<Rightarrow> offset)
           }
         })"

end
