(* ===== verification/MemorySessions.thy ===== *)
theory MemorySessions
  imports MemoryCommands DebugHandles
begin

text \<open>
  Memory sessions are given back: whatever the kernel answers, after a memory command the mutex is free
  again and no debug handle is left open.  The locale states what a pair of functions that open and close a
  session promises; the commands rest on it.
\<close>

locale session_bracket =
  fixes acquire :: "('m, res \<times> 's) state"
    and release :: "'s \<Rightarrow> ('m, 's) state"
    and idle :: "'m \<Rightarrow> bool"
    and active :: "'s \<Rightarrow> 'm \<Rightarrow> bool"
    and shut :: "'s \<Rightarrow> bool"
  assumes acquire: "idle m \<Longrightarrow>
      wp acquire m (\<lambda>a m'. if fst a = 0 then active (snd a) m' else shut (snd a) \<and> idle m')"
    and release: "active s m \<Longrightarrow> wp (release s) m (\<lambda>_ m'. idle m')"
begin

text \<open>A body that keeps the session active, between the two.\<close>

lemma bracketed:
  assumes "idle m"
    and refused: "\<And>rc s m. rc \<noteq> 0 \<Longrightarrow> shut s \<Longrightarrow> idle m \<Longrightarrow> wp (body (rc, s)) m (\<lambda>_ m'. idle m')"
    and used: "\<And>s m. active s m \<Longrightarrow> wp (body (0, s)) m (\<lambda>_ m'. idle m')"
  shows "wp (acquire \<bind> body) m (\<lambda>_ m'. idle m')"
  unfolding wp_bind
proof (rule wp_mono [OF acquire [OF assms(1)]])
  fix a :: "res \<times> 's" and m'
  assume "if fst a = 0 then active (snd a) m' else shut (snd a) \<and> idle m'"
  then show "wp (body a) m' (\<lambda>_ m'. idle m')"
    using refused used by (cases a) (auto split: if_splits)
qed

end

subsection \<open>What opening does\<close>

lemma wp_State [simp]: "wp (State f) m Q \<longleftrightarrow> Q (fst (f m)) (snd (f m))"
  by (simp add: wp_def split_beta)

lemma wp_statics [simp]:
  "wp mutexLock m Q \<longleftrightarrow> Q () (if pmLocked m then m\<lparr>mcStuck := True\<rparr> else m\<lparr>pmLocked := True\<rparr>)"
  "wp mutexUnlock m Q \<longleftrightarrow> Q () (m\<lparr>pmLocked := False\<rparr>)"
  "wp (setMem g) m Q \<longleftrightarrow> Q () (g m)"
  "wp (setStatus u) m Q \<longleftrightarrow> Q () (m\<lparr>currentStatus := u (currentStatus m)\<rparr>)"
  by (simp_all add: wp_def mutexLock_def mutexUnlock_def getMem_def setMem_def setStatus_def)

lemma wp_getMem [simp]: "wp (getMem f) m Q \<longleftrightarrow> Q (f m) m"
  by (simp add: getMem_def)

text \<open>The same machine but for the record of the calls, with \<open>n h\<close> more of every open handle \<open>h\<close>.\<close>

definition onlyTrace :: "(u32 \<Rightarrow> int) \<Rightarrow> MemMachine \<Rightarrow> MemMachine \<Rightarrow> bool" where
  "onlyTrace n m m' \<longleftrightarrow> mcStuck m' = mcStuck m \<and> pmLocked m' = pmLocked m \<and>
     (\<forall>h. openHandles (mcTrace m') h = openHandles (mcTrace m) h + n h)"

lemma onlyTrace_refl [simp]: "onlyTrace (\<lambda>_. 0) m m"
  by (simp add: onlyTrace_def)

lemma onlyTrace_trans: "onlyTrace a m m' \<Longrightarrow> onlyTrace b m' m'' \<Longrightarrow> onlyTrace (\<lambda>h. a h + b h) m m''"
  by (simp add: onlyTrace_def)

text \<open>Steps that touch neither the mutex nor a handle.\<close>

definition calm :: "(MemMachine, 'a) state \<Rightarrow> bool" where
  "calm p \<longleftrightarrow> (\<forall>m. wp p m (\<lambda>_ m'. onlyTrace (\<lambda>_. 0) m m'))"

named_theorems calm_steps

lemma calmD: "calm p \<Longrightarrow> wp p m (\<lambda>_ m'. onlyTrace (\<lambda>_. 0) m m')"
  by (simp add: calm_def)

lemma calm_bind [calm_steps]: "calm p \<Longrightarrow> (\<And>a. calm (f a)) \<Longrightarrow> calm (State_Monad.bind p f)"
  unfolding calm_def wp_bind
proof
  fix m
  assume p: "\<forall>m. wp p m (\<lambda>_ m'. onlyTrace (\<lambda>_. 0) m m')" and f: "\<And>a. \<forall>m. wp (f a) m (\<lambda>_ m'. onlyTrace (\<lambda>_. 0) m m')"
  show "wp p m (\<lambda>a n. wp (f a) n (\<lambda>_ m'. onlyTrace (\<lambda>_. 0) m m'))"
    by (rule wp_mono [OF p [rule_format]], rule wp_mono [OF f [rule_format]]) (simp add: onlyTrace_def)
qed

lemma calm_if [calm_steps]: "(b \<Longrightarrow> calm p) \<Longrightarrow> (\<not> b \<Longrightarrow> calm q) \<Longrightarrow> calm (if b then p else q)"
  by simp

lemma calm_case [calm_steps]: "(\<And>a b. calm (f a b)) \<Longrightarrow> calm (case x of (a, b) \<Rightarrow> f a b)"
  by (cases x) simp

lemma calm_svc: "quietCall c \<Longrightarrow> calm (svc K c)" "quietCall c \<Longrightarrow> calm (svcResult K c)"
  by (simp_all add: calm_def onlyTrace_def openHandles_quiet del: openHandles.simps)

lemma calm_basic [calm_steps]:
  "calm (State_Monad.return a)" "calm skip" "calm debugOwned" "calm (getMem g)" "calm (setStatus u)"
  "calm (setMem (\<lambda>m. m\<lparr>dmntOwnershipObserved := b\<rparr>))"
  "calm (State (\<lambda>m. (mcDmntInitialized m, m)))" "calm (State (\<lambda>m. ((), m\<lparr>mcDmntInitialized := b\<rparr>)))"
  by (simp_all add: calm_def onlyTrace_def)

lemma calm_infos [calm_steps]: "calm (fetchInfos K h infos md)"
  by (induction infos arbitrary: md) (auto simp: quietCall_def intro!: calm_steps calm_svc)

lemma calm_backends [calm_steps]:
  "calm (fillDirectMetadata K pid h)" "calm (openDmnt K pid s)" "calm (getApplicationProcessId K)"
  unfolding fillDirectMetadata_def openDmnt_def dmntClientInitialize_def dmntClientHasProcess_def
    dmntClientForceOpen_def dmntClientGetMetadata_def getApplicationProcessId_def Let_def
  by (intro calm_steps calm_svc; simp add: quietCall_def)+

lemma calm_use [calm_steps]:
  "calm (processMemoryRead K s address n)" "calm (processMemoryWrite K s address bytes)"
  "calm (processMemoryQuery K s address)" "calm (processMemoryPause K s)" "calm (processMemoryResume K s)"
  unfolding processMemoryRead_def processMemoryWrite_def processMemoryQuery_def processMemoryPause_def
    processMemoryResume_def dmntClientRead_def dmntClientWrite_def dmntClientQuery_def dmntClientPause_def
    dmntClientResume_def
  by (intro calm_steps calm_svc; simp add: quietCall_def)+

text \<open>The kernel whose handles the session can tell from no handle.\<close>

definition memoryKernel :: "Kernel \<Rightarrow> bool" where
  "memoryKernel K \<longleftrightarrow> kernelCodes K \<and> kernelHandles K \<and> knInvalidHandle K = 0"

lemma openDirect_handles:
  assumes "memoryKernel K"
  shows "wp (openDirect K pid s) m (\<lambda>(rc, s') m'. onlyTrace (\<lambda>h. if rc = 0 then oneHandle (psDirectHandle s') h else 0) m m' \<and>
    psOpen s' = psOpen s \<and> (rc = 0 \<longrightarrow> psBackend s' = ProcessMemoryBackendDirect \<and> psDirectHandle s' \<noteq> 0))"
proof -
  let ?c = "DebugActiveProcess pid"
  let ?r = "knReply K (mcTrace m) ?c"
  let ?m = "m\<lparr>mcTrace := (?c, ?r) # mcTrace m\<rparr>"
  have handle: "ucast (rpValue ?r) \<noteq> (0 :: u32)" if "rpResult ?r = 0"
    using assms that unfolding memoryKernel_def kernelHandles_def by metis
  have filled: "wp (fillDirectMetadata K pid h) ?m (\<lambda>a m'. onlyTrace (\<lambda>_. 0) ?m m')" for h
    by (rule calmD) (rule calm_steps)
  show ?thesis
    unfolding openDirect_def Let_def
    by (auto simp: noReply_def handle onlyTrace_def intro!: wp_mono [OF filled])
qed

lemma openDmnt_backend:
  assumes "knBadInput K \<noteq> 0"
  shows "wp (openDmnt K pid s) m (\<lambda>(rc, acquired, s') m'. psOpen s' = psOpen s \<and>
    (rc = 0 \<longrightarrow> psBackend s' = ProcessMemoryBackendDmnt))"
  unfolding openDmnt_def
  by (rule wp_any wp_ifI wp_splitI | simp add: assms; fail)+

subsection \<open>The session bracket\<close>

definition idle :: "Kernel \<Rightarrow> (u32 \<Rightarrow> int) \<Rightarrow> MemMachine \<Rightarrow> bool" where
  "idle K n m \<longleftrightarrow> memoryKernel K \<and> \<not> mcStuck m \<and> \<not> pmLocked m \<and> openHandles (mcTrace m) = n"

definition active :: "Kernel \<Rightarrow> (u32 \<Rightarrow> int) \<Rightarrow> ProcessMemorySession \<Rightarrow> MemMachine \<Rightarrow> bool" where
  "active K n s m \<longleftrightarrow> memoryKernel K \<and> \<not> mcStuck m \<and> pmLocked m \<and> psOpen s \<and>
     (if psBackend s = ProcessMemoryBackendDirect
      then psDirectHandle s \<noteq> 0 \<and> openHandles (mcTrace m) = (\<lambda>h. n h + oneHandle (psDirectHandle s) h)
      else openHandles (mcTrace m) = n)"

text \<open>What the choice of a backend leaves behind.\<close>

definition opened :: "MemMachine \<Rightarrow> res \<Rightarrow> ProcessMemorySession \<Rightarrow> MemMachine \<Rightarrow> bool" where
  "opened m rc s m' \<longleftrightarrow> \<not> psOpen s \<and>
    (if rc = 0
     then (if psBackend s = ProcessMemoryBackendDirect then psDirectHandle s \<noteq> 0 \<and> onlyTrace (oneHandle (psDirectHandle s)) m m' else onlyTrace (\<lambda>_. 0) m m')
     else onlyTrace (\<lambda>_. 0) m m')"

lemma selectBackend_opened:
  assumes "memoryKernel K" and "onlyTrace (\<lambda>_. 0) m0 m" and "\<not> psOpen s"
  shows "wp (processMemorySelectBackend policy (openDmnt K pid) (openDirect K pid) s) m
    (\<lambda>a m'. opened m0 (fst a) (snd (snd a)) m')" (is "wp _ _ ?Q")
proof -
  have codes: "knBadInput K \<noteq> 0" using assms by (simp add: memoryKernel_def kernelCodes_def)
  have direct: "wp (openDirect K pid s' \<bind> (\<lambda>(rc, context). State_Monad.return
      (rc, if rc = 0 then PmSelectDirectBackend else PmSelectNone, context))) m' ?Q"
    if "onlyTrace (\<lambda>_. 0) m0 m'" "\<not> psOpen s'" for s' m'
    unfolding wp_bind
    by (rule wp_mono [OF openDirect_handles [OF assms(1)]])
      (use that in \<open>auto simp: opened_def onlyTrace_def\<close>)
  have dmnt: "wp (openDmnt K pid s) m (\<lambda>(rc, acquired, s') m'. onlyTrace (\<lambda>_. 0) m m' \<and> \<not> psOpen s' \<and>
      (rc = 0 \<longrightarrow> psBackend s' = ProcessMemoryBackendDmnt))"
    by (rule wp_mono [OF wp_conj [OF calmD [OF calm_backends(2)] openDmnt_backend [OF codes]]]) (use assms(3) in auto)
  have after: "opened m0 rc s' m'" if "onlyTrace (\<lambda>_. 0) m m'" "\<not> psOpen s'" "rc = 0 \<longrightarrow> psBackend s' = ProcessMemoryBackendDmnt" for rc s' m'
    using assms(2) that by (simp add: opened_def onlyTrace_def)
  have chosen: "wp (if rc = 0 then State_Monad.return (0, PmSelectDmntBackend, s')
      else if policy = PmSelectDmnt \<or> acquired then State_Monad.return (rc, PmSelectNone, s')
      else openDirect K pid s' \<bind> (\<lambda>(rc, context). State_Monad.return
        (rc, if rc = 0 then PmSelectDirectBackend else PmSelectNone, context))) m' ?Q"
    if "onlyTrace (\<lambda>_. 0) m m'" "\<not> psOpen s'" "rc = 0 \<longrightarrow> psBackend s' = ProcessMemoryBackendDmnt" for rc acquired s' m'
  proof -
    have "onlyTrace (\<lambda>_. 0) m0 m'" using assms(2) that(1) by (simp add: onlyTrace_def)
    then show ?thesis
      by (intro wp_ifI direct that(2)) (use after [OF that] in auto)
  qed
  show ?thesis
    unfolding processMemorySelectBackend_def
    by (rule wp_ifI, rule direct [OF assms(2,3)], subst wp_bind, rule wp_mono [OF dmnt],
        rule wp_split_eqI, rule wp_split_eqI, rule chosen) simp_all
qed

lemma openLocked_session:
  assumes "memoryKernel K" and "\<not> mcStuck m" and "pmLocked m" and n: "openHandles (mcTrace m) = n"
  shows "wp (openLocked K policy expected) m (\<lambda>a m'. if fst a = 0 then active K n (snd a) m' else \<not> psOpen (snd a) \<and> idle K n m')"
    (is "wp _ _ ?Q")
proof -
  have codes: "knNotFound K \<noteq> 0" "knOwnedByAnother K \<noteq> 0"
    using assms(1) by (simp_all add: memoryKernel_def kernelCodes_def)
  have finish: "wp (recordOpenResult s rc \<bind> (\<lambda>_. if R_SUCCEEDED rc then State_Monad.return (rc, s\<lparr>psOpen := True\<rparr>)
      else mutexUnlock \<bind> (\<lambda>_. State_Monad.return (rc, s)))) m' ?Q"
    if "opened m rc s m'" for rc s m'
    using that assms by (auto simp: recordOpenResult_def opened_def onlyTrace_def active_def idle_def split: if_splits)
  have app: "wp (getApplicationProcessId K) m (\<lambda>_ m'. onlyTrace (\<lambda>_. 0) m m')"
    by (rule calmD) (rule calm_steps)
  have choice: "wp (if R_FAILED rc then State_Monad.return (rc, zeroSession)
      else if expected \<noteq> 0 \<and> expected \<noteq> pid then State_Monad.return (knNotFound K, zeroSession)
      else processMemorySelectBackend (selectPolicy policy) (openDmnt K pid) (openDirect K pid) zeroSession \<bind>
        (\<lambda>(rc, selected, s). State_Monad.return (rc, s))) m' (\<lambda>a m''. opened m (fst a) (snd a) m'')"
    if "onlyTrace (\<lambda>_. 0) m m'" for rc pid m'
    using that codes
    by (auto simp: opened_def [of m rc] opened_def [of m "knNotFound K"]
        zeroSession_def intro!: wp_mono [OF selectBackend_opened [OF assms(1)]])
  have owned: "wp (recordOpenResult zeroSession (knOwnedByAnother K) \<bind> (\<lambda>_. mutexUnlock \<bind> (\<lambda>_.
      State_Monad.return (knOwnedByAnother K, zeroSession)))) m ?Q"
    using assms codes by (simp add: recordOpenResult_def idle_def zeroSession_def)
  show ?thesis
    unfolding openLocked_def
    by (subst wp_bind, subst wp_debugOwned, rule wp_ifI, rule owned, subst wp_bind, rule wp_mono [OF app],
        rule wp_splitI, subst wp_bind, rule wp_mono [OF choice], assumption, rule wp_split_eqI, rule finish)
      simp
qed

lemma processMemoryOpen_session:
  assumes "idle K n m"
  shows "wp (processMemoryOpen K) m (\<lambda>a m'. if fst a = 0 then active K n (snd a) m' else \<not> psOpen (snd a) \<and> idle K n m')"
proof -
  have "wp (openLocked K policy 0) (m\<lparr>pmLocked := True\<rparr>)
      (\<lambda>a m'. if fst a = 0 then active K n (snd a) m' else \<not> psOpen (snd a) \<and> idle K n m')" for policy
    by (rule openLocked_session) (use assms in \<open>simp_all add: idle_def\<close>)
  then show ?thesis using assms by (simp add: processMemoryOpen_def idle_def)
qed

lemma processMemoryOpenBackend_session:
  assumes "idle K n m"
  shows "wp (processMemoryOpenBackend K backend expected s) m
    (\<lambda>a m'. if fst a = 0 then active K n (snd a) m' else idle K n m')"
proof -
  have "wp (openLocked K policy expected) (m\<lparr>pmLocked := True\<rparr>)
      (\<lambda>a m'. if fst a = 0 then active K n (snd a) m' else idle K n m')" for policy
    by (rule wp_mono [OF openLocked_session]) (use assms in \<open>auto simp: idle_def\<close>)
  then show ?thesis
    using assms by (simp add: processMemoryOpenBackend_def idle_def memoryKernel_def kernelCodes_def)
qed

lemma processMemoryClose_session:
  "active K n s m \<Longrightarrow> wp (processMemoryClose K s) m (\<lambda>_ m'. idle K n m')"
  by (auto simp: processMemoryClose_def active_def idle_def split: if_splits)

interpretation session: session_bracket "processMemoryOpen K" "processMemoryClose K" "idle K n" "active K n"
  "\<lambda>s. \<not> psOpen s"
  by unfold_locales (rule processMemoryOpen_session processMemoryClose_session, assumption)+

interpretation backend_session: session_bracket "processMemoryOpenBackend K backend expected s0"
  "processMemoryClose K" "idle K n" "active K n" "\<lambda>_. True"
  by unfold_locales (simp only: simp_thms, rule processMemoryOpenBackend_session, assumption, rule processMemoryClose_session)

subsection \<open>The commands\<close>

lemma calm_active: "calm p \<Longrightarrow> active K n s m \<Longrightarrow> wp p m (\<lambda>_ m'. active K n s m')"
  by (rule wp_mono [OF calmD]) (auto simp: active_def onlyTrace_def)

lemma calm_first: "calm p \<Longrightarrow> active K n s m \<Longrightarrow> (\<And>a m'. active K n s m' \<Longrightarrow> wp (f a) m' Q) \<Longrightarrow> wp (p \<bind> f) m Q"
  unfolding wp_bind by (rule wp_mono [OF calm_active])

lemma close_last: "active K n s m \<Longrightarrow> wp (processMemoryClose K s \<bind> (\<lambda>_. State_Monad.return x)) m (\<lambda>_ m'. idle K n m')"
  unfolding wp_bind by (rule wp_mono [OF processMemoryClose_session]) auto

lemma calm_loops [calm_steps]:
  "calm (peekAttempts K s offset size' k rc saw)"
  "calm (chunkAttempts K s address chunk k)"
  "calm (multiLoop K s regions out)"
  "calm (pointerLoop K s jumps offset)"
proof -
  show "calm (peekAttempts K s offset size' k rc saw)"
    by (induction k arbitrary: rc saw) (auto simp: Let_def intro!: calm_steps)
  show "calm (chunkAttempts K s address chunk k)"
    by (induction k) (auto intro!: calm_steps)
  show "calm (multiLoop K s regions out)"
    by (induction regions arbitrary: out) (auto intro!: calm_steps)
  show "calm (pointerLoop K s jumps offset)"
    by (induction jumps arbitrary: offset) (auto intro!: calm_steps)
qed

lemma calm_hashLoop [calm_steps]: "calm (hashLoop K s address size' done' hash)"
proof (induction K s address size' done' hash rule: hashLoop.induct)
  case (1 K s address size' done' hash)
  then show ?case
    by (subst hashLoop.simps) (auto simp: Let_def intro!: calm_steps)
qed

lemma calm_infiniteLoop [calm_steps]: "calm (infiniteLoop K s offset remaining fetched shown)"
proof (induction K s offset remaining fetched shown rule: infiniteLoop.induct)
  case (1 K s offset remaining fetched shown)
  then show ?case
    by (subst infiniteLoop.simps) (auto simp: Let_def intro!: calm_steps)
qed

datatype MemoryCommand =
    Poke u64 "u8 list"
  | PokeVerified u64 "u8 list"
  | PeekVerified u64 u64 u32
  | HashRegion u64 u64
  | Peek bool u64 u64
  | PeekInfinite bool u64 u64
  | PeekMulti "(u64 \<times> u64) list"
  | FollowMainPointer bool "u64 list"
  | SetPolicy int
  | GetStatus

fun runCommand :: "Kernel \<Rightarrow> MemoryCommand \<Rightarrow> (MemMachine, unit) state" where
  "runCommand K (Poke offset val) = do { _ \<leftarrow> poke K offset val; skip }"
| "runCommand K (PokeVerified offset val) = do { _ \<leftarrow> pokeVerified K offset val; skip }"
| "runCommand K (PeekVerified offset size' attempts) = do { _ \<leftarrow> peekVerified K offset size' attempts; skip }"
| "runCommand K (HashRegion address size') = do { _ \<leftarrow> hashRegion K address size'; skip }"
| "runCommand K (Peek alloc offset size') = do { _ \<leftarrow> peek K alloc offset size'; skip }"
| "runCommand K (PeekInfinite alloc offset size') = do { _ \<leftarrow> peekInfinite K alloc offset size'; skip }"
| "runCommand K (PeekMulti regions) = do { _ \<leftarrow> peekMulti K regions; skip }"
| "runCommand K (FollowMainPointer alloc jumps) = do { _ \<leftarrow> followMainPointer K alloc jumps; skip }"
| "runCommand K (SetPolicy n) = do { _ \<leftarrow> processMemorySetPolicy n; skip }"
| "runCommand K GetStatus = do { _ \<leftarrow> processMemoryGetStatus; skip }"

fun runCommands :: "Kernel \<Rightarrow> MemoryCommand list \<Rightarrow> (MemMachine, unit) state" where
  "runCommands K [] = skip"
| "runCommands K (c # cs) = do { _ \<leftarrow> runCommand K c; runCommands K cs }"

lemma commands_idle:
  assumes "idle K n m"
  shows "wp (poke K offset val) m (\<lambda>_ m'. idle K n m')"
    and "wp (pokeVerified K offset val) m (\<lambda>_ m'. idle K n m')"
    and "wp (peekVerified K offset size' attempts) m (\<lambda>_ m'. idle K n m')"
    and "wp (hashRegion K offset size') m (\<lambda>_ m'. idle K n m')"
    and "wp (peekInfinite K alloc offset size') m (\<lambda>_ m'. idle K n m')"
    and "wp (peekMulti K regions) m (\<lambda>_ m'. idle K n m')"
  unfolding poke_def pokeVerified_def peekVerified_def hashRegion_def peekInfinite_def peekMulti_def Let_def
  by ((rule wp_ifI, (simp add: assms; fail))?, rule session.bracketed [OF assms], (simp; fail),
      simp only: prod.case R_FAILED_iff R_SUCCEEDED_iff simp_thms if_True if_False,
      (rule calm_first, intro calm_steps, assumption)+, ((rule wp_splitI)+)?, rule close_last, assumption)+

lemma close_if_open: "active K n s m \<Longrightarrow> wp ((if psOpen s then do { _ \<leftarrow> processMemoryClose K s; skip } else skip) \<bind>
    (\<lambda>_. State_Monad.return x)) m (\<lambda>_ m'. idle K n m')"
  by (auto simp: active_def intro!: wp_mono [OF processMemoryClose_session])

lemma read_active: "active K n s m \<Longrightarrow>
    wp (processMemoryRead K s offset size' \<bind> (\<lambda>r. State_Monad.return (f r))) m (\<lambda>_ m'. active K n s m')"
  unfolding wp_bind by (rule wp_mono [OF calm_active]) (auto intro: calm_steps)

lemma peek_idle:
  assumes "idle K n m"
  shows "wp (peek K alloc offset size') m (\<lambda>_ m'. idle K n m')"
  unfolding peek_def
  by (rule wp_ifI, (simp add: assms; fail), rule session.bracketed [OF assms], (simp; fail),
        simp only: prod.case R_FAILED_iff R_SUCCEEDED_iff simp_thms if_True if_False,
        subst wp_bind, rule wp_mono [OF read_active], assumption, rule wp_splitI, intro wp_ifI close_if_open close_last)

lemma followMainPointer_idle:
  assumes "idle K n m"
  shows "wp (followMainPointer K alloc jumps) m (\<lambda>_ m'. idle K n m')"
proof (cases jumps)
  case (Cons jump rest)
  show ?thesis
    unfolding followMainPointer_def Cons list.case
    by (rule wp_ifI, (simp add: assms; fail), rule session.bracketed [OF assms], (simp; fail),
        simp only: prod.case R_FAILED_iff R_SUCCEEDED_iff simp_thms if_True if_False,
        subst wp_bind, rule wp_mono [OF read_active], assumption, rule wp_splitI, rule wp_ifI, rule close_if_open, assumption,
        rule calm_first, rule calm_steps, assumption, rule close_last)
qed (simp add: followMainPointer_def assms)


lemma statics_idle:
  assumes "idle K n m"
  shows "wp (processMemorySetPolicy p) m (\<lambda>_ m'. idle K n m')"
    and "wp processMemoryGetStatus m (\<lambda>_ m'. idle K n m')"
  using assms by (auto simp: processMemorySetPolicy_def processMemoryGetStatus_def dmntClientIsInitialized_def idle_def)

lemma runCommand_idle: "idle K n m \<Longrightarrow> wp (runCommand K c) m (\<lambda>_ m'. idle K n m')"
  by (cases c) (auto intro: wp_mono [OF commands_idle(1)] wp_mono [OF commands_idle(2)]
      wp_mono [OF commands_idle(3)] wp_mono [OF commands_idle(4)] wp_mono [OF commands_idle(5)]
      wp_mono [OF commands_idle(6)] wp_mono [OF peek_idle] wp_mono [OF followMainPointer_idle]
      wp_mono [OF statics_idle(1)] wp_mono [OF statics_idle(2)])

lemma runCommands_idle: "idle K n m \<Longrightarrow> wp (runCommands K cs) m (\<lambda>_ m'. idle K n m')"
  by (induction cs arbitrary: m) (auto intro: wp_mono [OF runCommand_idle])

text \<open>C33: memory sessions are given back.  Whatever the kernel answers, after any sequence of memory commands
  the mutex is free, no command has waited for a mutex its own session held, and every debug handle
  that was opened has been closed: each handle is as often open as before.\<close>

theorem memoryCommands_release:
  assumes "memoryKernel K" and "\<not> mcStuck m" and "\<not> pmLocked m"
    and "run_state (runCommands K cs) m = (u, m')"
  shows "\<not> mcStuck m' \<and> \<not> pmLocked m' \<and> openHandles (mcTrace m') h = openHandles (mcTrace m) h"
proof -
  have "idle K (openHandles (mcTrace m)) m" using assms by (simp add: idle_def)
  from wp_runI [OF runCommands_idle [OF this] assms(4)] show ?thesis by (simp add: idle_def)
qed

definition freshMemory :: MemMachine where
  "freshMemory = \<lparr>mcTrace = [], mcStuck = False, mcWatchActive = False, mcTraceActive = False,
     mcMultiTraceActive = False, mcDmntInitialized = False, pmLocked = False,
     currentPolicy = ProcessMemoryPolicyAuto, currentStatus = zeroStatus, dmntOwnershipObserved = False\<rparr>"

text \<open>No cheat service, and a process that can be attached and written, but not read.\<close>

definition directKernel :: Kernel where
  "directKernel = quietKernel\<lparr>knReply := (\<lambda>t c.
     (case c of
        GetApplicationProcessId \<Rightarrow> noReply\<lparr>rpResult := 0, rpValue := 0x51\<rparr>
      | GetDmntService \<Rightarrow> noReply
      | DebugActiveProcess pid \<Rightarrow> noReply\<lparr>rpResult := 0, rpValue := 0x25\<rparr>
      | ReadDebugProcessMemory h address n \<Rightarrow> noReply
      | _ \<Rightarrow> noReply\<lparr>rpResult := 0, rpValue := 1, rpValues := [0x8000]\<rparr>))\<rparr>"

definition memoryExample :: "unit \<times> MemMachine" where
  "memoryExample = run_state (runCommands directKernel [Poke 0x8000 [1, 2], Peek True 0x8000 2]) freshMemory"

lemma memoryExample_calls:
  "length (filter (\<lambda>(c, r). case c of CloseHandle h \<Rightarrow> True | _ \<Rightarrow> False) (mcTrace (snd memoryExample))) = 2"
  by code_simp

lemma directKernel_ok: "memoryKernel directKernel"
  by (simp add: memoryKernel_def kernelCodes_def kernelHandles_def directKernel_def quietKernel_def)

lemma freshMemory_idle: "\<not> mcStuck freshMemory" "\<not> pmLocked freshMemory" "mcTrace freshMemory = []"
  by (simp_all add: freshMemory_def)

theorem memoryCommands_release_witness:
  "\<not> mcStuck (snd memoryExample) \<and> \<not> pmLocked (snd memoryExample) \<and>
   openHandles (mcTrace (snd memoryExample)) 0x25 = 0"
proof -
  have "run_state (runCommands directKernel [Poke 0x8000 [1, 2], Peek True 0x8000 2]) freshMemory
      = (fst memoryExample, snd memoryExample)"
    by (simp only: memoryExample_def prod.collapse)
  from memoryCommands_release [OF directKernel_ok freshMemory_idle(1,2) this] show ?thesis
    by (simp add: freshMemory_idle)
qed

end
