(* ===== verification/MemoryHash.thy ===== *)
theory MemoryHash
  imports MemorySessions
begin

text \<open>
  What the memory commands show when the kernel reads memory truthfully: the fingerprint of a region does not
  depend on the chunks, the retries or the backend, and a pointer chain is the one in memory.
\<close>

definition region :: "(u64 \<Rightarrow> u8) \<Rightarrow> u64 \<Rightarrow> nat \<Rightarrow> u8 list" where
  "region mem address n = map (\<lambda>i. mem (address + of_nat i)) [0..<n]"

text \<open>A read that succeeds returns the bytes in memory, by either backend.\<close>

definition readsMemory :: "Kernel \<Rightarrow> (u64 \<Rightarrow> u8) \<Rightarrow> bool" where
  "readsMemory K mem \<longleftrightarrow> (\<forall>t h address n.
     (rpResult (knReply K t (Dmnt 65102 [address, n] [])) = 0 \<longrightarrow>
        rpBytes (knReply K t (Dmnt 65102 [address, n] [])) = region mem address (unat n)) \<and>
     (rpResult (knReply K t (ReadDebugProcessMemory h address n)) = 0 \<longrightarrow>
        rpBytes (knReply K t (ReadDebugProcessMemory h address n)) = region mem address (unat n)))"

lemma length_region [simp]: "length (region mem address n) = n"
  by (simp add: region_def)

lemma region_append: "region mem address (n + k) = region mem address n @ region mem (address + of_nat n) k"
proof -
  have "map (\<lambda>i. mem (address + of_nat i)) [n..<n + k] = map (\<lambda>i. mem (address + of_nat n + of_nat i)) [0..<k]"
    unfolding map_add_upt [of n k, symmetric, unfolded add.commute [of k n]] by (simp add: ac_simps)
  then show ?thesis by (simp add: region_def upt_add_eq_append [of 0 n k])
qed

lemma read_truth:
  assumes "readsMemory K mem"
  shows "wp (processMemoryRead K s address n) m
    (\<lambda>r m'. rpResult r = 0 \<longrightarrow> bytesRead (unat n) r = region mem address (unat n))"
  using assms by (simp add: processMemoryRead_def dmntClientRead_def bytesRead_def readsMemory_def noReply_def)

lemma chunk_truth:
  assumes "readsMemory K mem"
  shows "wp (chunkAttempts K s address n k) m
    (\<lambda>r m'. rpResult r = 0 \<longrightarrow> bytesRead (unat n) r = region mem address (unat n))"
proof (induction k arbitrary: m)
  case (Suc k)
  show ?case
    by (simp, rule wp_mono [OF read_truth [OF assms]]) (auto intro: Suc)
qed (simp add: read_truth [OF assms])

lemma fnv_region_step:
  "fnv1a32Update (fnv1a32Update basis (region mem address n)) (region mem (address + of_nat n) k)
    = fnv1a32Update basis (region mem address (n + k))"
  by (simp add: region_append fnv.fold_append)

lemma hashLoop_truth:
  fixes m :: "'a Machine_scheme"
  shows "readsMemory K mem \<Longrightarrow> hash = fnv1a32Update basis (region mem address (unat done')) \<Longrightarrow> done' \<le> size' \<Longrightarrow>
    wp (hashLoop K s address size' done' hash) m
      (\<lambda>(rc, h) m'. rc = 0 \<longrightarrow> h = fnv1a32Update basis (region mem address (unat size')))"
proof (induction K s address size' done' hash arbitrary: m rule: hashLoop.induct)
  case (1 K s address size' done' hash)
  show ?case
  proof (cases "done' < size'")
    case True
    let ?chunk = "min (size' - done') 4096"
    let ?Q = "\<lambda>(rc, h) m'. rc = 0 \<longrightarrow> h = fnv1a32Update basis (region mem address (unat size'))"
    have progress: "unat (done' + ?chunk) = unat done' + min (unat size' - unat done') 4096"
      using True by (rule chunk_progress)
    have chunk: "unat ?chunk = min (unat size' - unat done') 4096"
    proof -
      have "unat (size' - done') = unat size' - unat done'"
        using True by (simp add: unat_sub order_less_imp_le)
      then show ?thesis by (simp add: min_def word_le_nat_alt)
    qed
    have step: "wp (hashLoop K s address size' (done' + ?chunk) (fnv1a32Update hash (bytesRead (unat ?chunk) r))) m' ?Q"
      if r: "rpResult r = 0" "bytesRead (unat ?chunk) r = region mem (address + done') (unat ?chunk)"
      for r and m' :: "'a Machine_scheme"
    proof (rule "1.IH" [OF True refl])
      show "\<not> R_FAILED (rpResult r)" using r by simp
      show "readsMemory K mem" by fact
      show "fnv1a32Update hash (bytesRead (unat ?chunk) r)
          = fnv1a32Update basis (region mem address (unat (done' + ?chunk)))"
        using fnv_region_step [of basis mem address "unat done'" "unat ?chunk"]
        by (simp add: r(2) [unfolded chunk] "1.prems"(2) progress chunk)
      show "done' + ?chunk \<le> size'"
        using True by (simp add: word_le_nat_alt progress word_less_nat_alt)
    qed
    show ?thesis
      by (subst hashLoop.simps, simp only: True if_True Let_def, subst wp_bind,
          rule wp_mono [OF chunk_truth [OF "1.prems"(1)]], rule wp_ifI, simp, rule step) simp_all
  next
    case False
    then show ?thesis using "1.prems" by (subst hashLoop.simps) simp
  qed
qed

lemma hashRegion_truth:
  fixes m :: "'a MemMachine_scheme"
  assumes "readsMemory K mem" and codes: "memoryKernel K"
  shows "wp (hashRegion K address size') m
    (\<lambda>(rc, h) m'. rc = 0 \<longrightarrow> h = fnv1a32Update FNV1A32_BASIS (region mem address (unat size')))"
proof -
  have loop: "wp (hashLoop K s address size' 0 FNV1A32_BASIS) n (\<lambda>a m'. fst a = 0 \<longrightarrow>
      snd a = fnv1a32Update FNV1A32_BASIS (region mem address (unat size')))" for s and n :: "'a MemMachine_scheme"
    by (rule wp_mono [OF hashLoop_truth [OF assms(1), of _ FNV1A32_BASIS]]) (auto simp: region_def)
  show ?thesis
    unfolding hashRegion_def
    by (rule wp_any, rule wp_splitI, rule wp_ifI, simp, subst wp_bind, rule wp_mono [OF loop],
        rule wp_split_eqI, rule wp_any) simp
qed

text \<open>C35: the fingerprint of a region is the FNV-1a hash of its bytes.  Whatever the chunks, the retries and the
  backend, when \<open>hashRegion\<close> succeeds and the kernel's successful reads return what is in memory, the result
  is the hash of all bytes of the region, in order.\<close>

theorem hashRegion_fingerprint:
  assumes "readsMemory K mem" and "memoryKernel K"
    and "run_state (hashRegion K address size') m = ((0, hash), m')"
  shows "hash = fnv1a32Update FNV1A32_BASIS (region mem address (unat size'))"
  using wp_runI [OF hashRegion_truth [OF assms(1,2)] assms(3)] by simp

text \<open>A process that holds the low bytes of its addresses, whose memory can be read every other time.\<close>

definition lowByte :: "u64 \<Rightarrow> u8" where "lowByte a = ucast a"

definition lowByteKernel :: Kernel where
  "lowByteKernel = directKernel\<lparr>knReply := (\<lambda>t c.
     (case c of
        ReadDebugProcessMemory h address n \<Rightarrow> noReply\<lparr>rpResult := of_nat (length t mod 2),
          rpBytes := region lowByte address (unat n)\<rparr>
      | Dmnt command words bytes \<Rightarrow> noReply
      | _ \<Rightarrow> knReply directKernel t c))\<rparr>"

lemma lowByteKernel_ok: "readsMemory lowByteKernel lowByte" "memoryKernel lowByteKernel"
  by (simp_all add: readsMemory_def lowByteKernel_def memoryKernel_def kernelCodes_def kernelHandles_def
      directKernel_def quietKernel_def noReply_def)

definition hashExample :: "(res \<times> u32) \<times> MemMachine" where
  "hashExample = run_state (hashRegion lowByteKernel 0x8000 5) freshMemory"

lemma hashExample_ok: "fst (fst hashExample) = 0 \<and> length (filter (\<lambda>(c, r).
    case c of ReadDebugProcessMemory h a n \<Rightarrow> True | _ \<Rightarrow> False) (mcTrace (snd hashExample))) \<ge> 1"
  by code_simp

theorem hashRegion_fingerprint_witness:
  "snd (fst hashExample) = fnv1a32Update FNV1A32_BASIS [0, 1, 2, 3, 4]"
proof -
  have run: "run_state (hashRegion lowByteKernel 0x8000 5) freshMemory = ((0, snd (fst hashExample)), snd hashExample)"
    using hashExample_ok by (simp only: hashExample_def prod_eq_iff fst_conv snd_conv simp_thms)
  have "region lowByte 0x8000 (unat (5 :: u64)) = [0, 1, 2, 3, 4]"
    by code_simp
  with hashRegion_fingerprint [OF lowByteKernel_ok run] show ?thesis by (simp only:)
qed

end
