(* ===== verification/MemoryPolicy.thy ===== *)
theory MemoryPolicy
  imports MemorySessions
begin

text \<open>
  Which backend a memory command uses: under \<open>auto\<close> the program attaches to the process itself only when the
  last answers of the cheat service leave room for it, and under \<open>dmnt\<close> never.  The kernel has one debug handle
  for a process, so a second attachment would fail or take the first one away.
\<close>

text \<open>What the service last said about holding the process, \<open>b\<close> before it said anything.\<close>

fun dmntKnown :: "bool \<Rightarrow> Trace \<Rightarrow> bool" where
  "dmntKnown b [] = b"
| "dmntKnown b ((c, r) # t) =
    (case c of
       Dmnt command words bytes \<Rightarrow>
         if command = 65000 \<and> rpResult r = 0 then bit (rpValue r) 0
         else if command = 65003 \<and> rpResult r = 0 then True
         else dmntKnown b t
     | _ \<Rightarrow> dmntKnown b t)"

fun attachGuarded :: "ProcessMemoryPolicy \<Rightarrow> bool \<Rightarrow> Trace \<Rightarrow> bool" where
  "attachGuarded policy b [] = True"
| "attachGuarded policy b ((c, r) # t) =
    ((case c of
        DebugActiveProcess pid \<Rightarrow>
          policy = ProcessMemoryPolicyDirect \<or> policy = ProcessMemoryPolicyAuto \<and> \<not> dmntKnown b t
      | _ \<Rightarrow> True) \<and> attachGuarded policy b t)"

definition follows :: "ProcessMemoryPolicy \<Rightarrow> bool \<Rightarrow> MemMachine \<Rightarrow> bool" where
  "follows policy b m \<longleftrightarrow> currentPolicy m = policy \<and> dmntOwnershipObserved m = dmntKnown b (mcTrace m) \<and>
     attachGuarded policy b (mcTrace m)"

subsection \<open>Steps that follow the policy\<close>

lemma obeys_reading [obey]: "obeys P debugOwned" "obeys P (getMem g)"
  by (rule obeysI, simp)+

definition policyCall :: "Call \<Rightarrow> bool" where
  "policyCall c \<longleftrightarrow>
    (case c of
       DebugActiveProcess pid \<Rightarrow> False
     | Dmnt command words bytes \<Rightarrow> command \<noteq> 65000 \<and> command \<noteq> 65003
     | _ \<Rightarrow> True)"

lemma obeys_svc: "policyCall c \<Longrightarrow> obeys (follows policy b) (svc K c)"
  "policyCall c \<Longrightarrow> obeys (follows policy b) (svcResult K c)"
  by (auto simp: obeys_def follows_def policyCall_def split: Call.splits)

lemma obeys_statics [obey]:
  "obeys (follows policy b) mutexLock" "obeys (follows policy b) mutexUnlock" "obeys (follows policy b) (setStatus u)"
  "obeys (follows policy b) (State (\<lambda>m. (mcDmntInitialized m, m)))"
  "obeys (follows policy b) (State (\<lambda>m. ((), m\<lparr>mcDmntInitialized := c\<rparr>)))"
  by (simp_all add: obeys_def follows_def)

lemma obeys_infos [obey]: "obeys (follows policy b) (fetchInfos K h infos md)"
  by (induction infos arbitrary: md) (auto simp: policyCall_def intro!: obey obeys_svc)

lemma obeys_direct [obey]:
  "obeys (follows policy b) (fillDirectMetadata K pid h)" "obeys (follows policy b) (getApplicationProcessId K)"
  "obeys (follows policy b) (recordOpenResult s rc)" "obeys (follows policy b) (processMemoryClose K s)"
  "obeys (follows policy b) (dmntClientInitialize K)" "obeys (follows policy b) (dmntClientGetMetadata K)"
  unfolding fillDirectMetadata_def getApplicationProcessId_def recordOpenResult_def processMemoryClose_def Let_def
    dmntClientInitialize_def dmntClientGetMetadata_def
  by (intro obey obeys_svc; simp add: policyCall_def)+

lemma obeys_use [obey]:
  "obeys (follows policy b) (processMemoryRead K s address n)"
  "obeys (follows policy b) (processMemoryWrite K s address bytes)"
  unfolding processMemoryRead_def processMemoryWrite_def dmntClientRead_def dmntClientWrite_def
  by (intro obey obeys_svc; simp add: policyCall_def)+

lemma openDirect_follows:
  assumes "follows policy b m"
    and "policy = ProcessMemoryPolicyDirect \<or> policy = ProcessMemoryPolicyAuto \<and> \<not> dmntKnown b (mcTrace m)"
  shows "wp (openDirect K pid s) m (\<lambda>_ m'. follows policy b m')"
proof -
  let ?r = "knReply K (mcTrace m) (DebugActiveProcess pid)"
  have rest: "obeys (follows policy b) (if R_FAILED (rpResult r) then State_Monad.return (rpResult r, s)
      else fillDirectMetadata K pid (ucast (rpValue r)) \<bind> (\<lambda>(rc, md).
        if R_FAILED rc then svc K (CloseHandle (ucast (rpValue r))) \<bind>
          (\<lambda>_. State_Monad.return (rc, s\<lparr>psDirectHandle := ucast (rpValue r), psMetadata := md, psDirectHandle := 0\<rparr>))
        else State_Monad.return (0, s\<lparr>psDirectHandle := ucast (rpValue r), psMetadata := md\<rparr>)))" for r s
    by (intro obey obeys_svc) (simp add: policyCall_def)
  have "wp (svc K (DebugActiveProcess pid)) m (\<lambda>_ m'. follows policy b m')"
    using assms by (simp add: follows_def)
  then show ?thesis
    unfolding openDirect_def Let_def
    by (subst wp_bind, rule wp_mono) (rule obeysD [OF rest])
qed

text \<open>The answers of the service that the flag remembers.\<close>

lemma initialize_follows:
  "follows policy b m \<Longrightarrow> wp (dmntClientInitialize K) m (\<lambda>_ m'. follows policy b m' \<and>
     dmntKnown b (mcTrace m') = dmntKnown b (mcTrace m))"
  by (auto simp: dmntClientInitialize_def follows_def)

lemma hasProcess_follows:
  "follows policy b m \<Longrightarrow> wp (dmntClientHasProcess K) m (\<lambda>a m'. if fst a = 0
     then follows policy b (m'\<lparr>dmntOwnershipObserved := snd a\<rparr>)
     else follows policy b m' \<and> dmntKnown b (mcTrace m') = dmntKnown b (mcTrace m))"
  by (auto simp: dmntClientHasProcess_def follows_def noReply_def)

lemma forceOpen_follows:
  "follows policy b m \<Longrightarrow> wp (dmntClientForceOpen K) m (\<lambda>rc m'. if rc = 0
     then follows policy b (m'\<lparr>dmntOwnershipObserved := True\<rparr>)
     else follows policy b m' \<and> dmntKnown b (mcTrace m') = dmntKnown b (mcTrace m))"
  by (auto simp: dmntClientForceOpen_def follows_def)

lemma follows_status: "follows policy b (m\<lparr>currentStatus := s\<rparr>) = follows policy b m"
  by (simp add: follows_def)

lemma follows_known: "follows policy b m \<Longrightarrow> dmntOwnershipObserved m = dmntKnown b (mcTrace m)"
  by (simp add: follows_def)

lemma openDmnt_follows:
  assumes "follows policy b m"
  shows "wp (openDmnt K pid s) m (\<lambda>(rc, acquired, s') m'. follows policy b m' \<and>
    (rc \<noteq> 0 \<longrightarrow> \<not> acquired \<longrightarrow> \<not> dmntKnown b (mcTrace m')))" (is "wp _ _ ?Q")
proof -
  have metadata: "wp (dmntClientGetMetadata K \<bind> (\<lambda>(rc, md). State_Monad.return
      (if R_FAILED rc then (rc, True, s) else if dmProcessId md \<noteq> pid then (knBadInput K, True, s)
       else (0, True, s' md)))) n ?Q" if "follows policy b n" for n s'
    unfolding wp_bind
    by (rule wp_mono [OF obeysD [OF obeys_direct(6) that]]) (auto split: prod.split)
  have force: "wp (dmntClientForceOpen K \<bind> (\<lambda>rc. (if R_FAILED rc then skip else
      setMem (\<lambda>m. m\<lparr>dmntOwnershipObserved := True\<rparr>) \<bind> (\<lambda>_. setStatus u)) \<bind> (\<lambda>_. State_Monad.return rc))) n
      (\<lambda>rc n'. follows policy b n' \<and> (rc \<noteq> 0 \<longrightarrow> dmntKnown b (mcTrace n') = dmntKnown b (mcTrace n)))"
    if "follows policy b n" for n u
    unfolding wp_bind
    by (rule wp_mono [OF forceOpen_follows [OF that]]) (auto simp: follows_status split: if_splits)
  have opened: "wp ((if \<not> attached then dmntClientForceOpen K \<bind> (\<lambda>rc. (if R_FAILED rc then skip else
      setMem (\<lambda>m. m\<lparr>dmntOwnershipObserved := True\<rparr>) \<bind> (\<lambda>_. setStatus u)) \<bind> (\<lambda>_. State_Monad.return rc))
      else State_Monad.return 0) \<bind> (\<lambda>rc. if R_FAILED rc then State_Monad.return (rc, False, s)
      else dmntClientGetMetadata K \<bind> (\<lambda>(rc, md). State_Monad.return
        (if R_FAILED rc then (rc, True, s) else if dmProcessId md \<noteq> pid then (knBadInput K, True, s)
         else (0, True, s' md))))) n ?Q"
    if n: "follows policy b n" "dmntOwnershipObserved n = attached" for n attached u s'
  proof (cases attached)
    case True
    then show ?thesis using metadata [OF n(1)] by simp
  next
    case False
    then have "\<not> dmntKnown b (mcTrace n)" using n follows_known [OF n(1)] by simp
    with False show ?thesis
      by (simp only: not_False_eq_True if_True, subst wp_bind, intro wp_mono [OF force [OF n(1)]] wp_ifI metadata)
        auto
  qed
  have attached: "wp (dmntClientHasProcess K \<bind> (\<lambda>(rc, attached). if R_FAILED rc then State_Monad.return (rc, acquired, s)
      else setMem (\<lambda>m. m\<lparr>dmntOwnershipObserved := attached\<rparr>) \<bind> (\<lambda>_.
        setStatus (stDmntAttached_update (\<lambda>_. attached)) \<bind> (\<lambda>_. f attached)))) n ?Q"
    if n: "follows policy b n" "acquired = dmntKnown b (mcTrace n)"
      and f: "\<And>n attached. follows policy b n \<Longrightarrow> dmntOwnershipObserved n = attached \<Longrightarrow> wp (f attached) n ?Q"
    for n acquired f
    by (subst wp_bind, rule wp_mono [OF hasProcess_follows [OF n(1)]])
      (auto simp: n(2) follows_status split: if_splits intro!: f)
  show ?thesis
    unfolding openDmnt_def
    by (subst wp_bind, subst wp_getMem, subst wp_bind, rule wp_mono [OF initialize_follows [OF assms]],
        subst wp_bind, subst wp_statics, rule wp_ifI,
        (simp add: follows_status follows_known [OF assms]; fail), rule attached,
        simp add: follows_status, simp add: follows_known [OF assms], rule opened)
qed

lemma selectBackend_follows:
  assumes "follows policy b m"
  shows "wp (processMemorySelectBackend (selectPolicy policy) (openDmnt K pid) (openDirect K pid) s) m
    (\<lambda>_ m'. follows policy b m')"
proof -
  have direct: "wp (openDirect K pid s \<bind> (\<lambda>(rc, context). State_Monad.return (rc, g rc, context))) n
      (\<lambda>_ m'. follows policy b m')"
    if "follows policy b n" "policy = ProcessMemoryPolicyDirect \<or>
      policy = ProcessMemoryPolicyAuto \<and> \<not> dmntKnown b (mcTrace n)" for s n g
    unfolding wp_bind by (rule wp_mono [OF openDirect_follows [OF that]]) (auto split: prod.split)
  have chosen: "wp (if rc = 0 then State_Monad.return (0, PmSelectDmntBackend, s')
      else if selectPolicy policy = PmSelectDmnt \<or> acquired then State_Monad.return (rc, PmSelectNone, s')
      else openDirect K pid s' \<bind> (\<lambda>(rc, context). State_Monad.return (rc, g rc, context))) n (\<lambda>_ m'. follows policy b m')"
    if "follows policy b n" "rc \<noteq> 0 \<longrightarrow> \<not> acquired \<longrightarrow> \<not> dmntKnown b (mcTrace n)" for rc acquired s' n g
    by (intro wp_ifI direct that(1)) (use that in \<open>cases policy; auto\<close>)+
  show ?thesis
    unfolding processMemorySelectBackend_def
    by (rule wp_ifI, rule direct [OF assms], (cases policy; simp; fail), subst wp_bind,
        rule wp_mono [OF openDmnt_follows [OF assms]], rule wp_split_eqI, rule wp_split_eqI, rule chosen)
      simp_all
qed

lemma openLocked_follows:
  "obeys (follows policy b) (openLocked K policy expected)"
  unfolding openLocked_def
  by (intro obey) (rule obeysI, rule selectBackend_follows)

lemma processMemoryOpen_follows [obey]: "obeys (follows policy b) (processMemoryOpen K)"
proof (rule obeysI)
  fix m
  assume "follows policy b m"
  then have *: "follows policy b (if pmLocked m then m\<lparr>mcStuck := True\<rparr> else m\<lparr>pmLocked := True\<rparr>)"
    "currentPolicy (if pmLocked m then m\<lparr>mcStuck := True\<rparr> else m\<lparr>pmLocked := True\<rparr>) = policy"
    by (simp_all add: follows_def)
  show "wp (processMemoryOpen K) m (\<lambda>_ m'. follows policy b m')"
    unfolding processMemoryOpen_def
    by (subst wp_bind, subst wp_statics, subst wp_bind, subst wp_getMem, subst *(2), rule obeysD [OF openLocked_follows *(1)])
qed

lemma obeys_loops [obey]:
  "obeys (follows policy b) (peekAttempts K s offset size' k rc saw)"
  "obeys (follows policy b) (chunkAttempts K s address chunk k)"
  "obeys (follows policy b) (multiLoop K s regions out)"
  "obeys (follows policy b) (pointerLoop K s jumps offset)"
proof -
  show "obeys (follows policy b) (peekAttempts K s offset size' k rc saw)"
    by (induction k arbitrary: rc saw) (auto simp: Let_def intro!: obey)
  show "obeys (follows policy b) (chunkAttempts K s address chunk k)"
    by (induction k) (auto intro!: obey)
  show "obeys (follows policy b) (multiLoop K s regions out)"
    by (induction regions arbitrary: out) (auto intro!: obey)
  show "obeys (follows policy b) (pointerLoop K s jumps offset)"
    by (induction jumps arbitrary: offset) (auto intro!: obey)
qed

lemma obeys_hashLoop [obey]: "obeys (follows policy b) (hashLoop K s address size' done' hash)"
proof (induction K s address size' done' hash rule: hashLoop.induct)
  case (1 K s address size' done' hash)
  then show ?case by (subst hashLoop.simps) (auto simp: Let_def intro!: obey)
qed

lemma obeys_infiniteLoop [obey]: "obeys (follows policy b) (infiniteLoop K s offset remaining fetched shown)"
proof (induction K s offset remaining fetched shown rule: infiniteLoop.induct)
  case (1 K s offset remaining fetched shown)
  then show ?case by (subst infiniteLoop.simps) (auto simp: Let_def intro!: obey)
qed

lemma runCommand_follows: "\<forall>p. c \<noteq> SetPolicy p \<Longrightarrow> obeys (follows policy b) (runCommand K c)"
proof (cases c)
  case (FollowMainPointer alloc jumps)
  then show ?thesis
    by (cases jumps) (auto simp: followMainPointer_def intro!: obey)
qed (auto simp: poke_def pokeVerified_def peekVerified_def hashRegion_def peek_def peekInfinite_def peekMulti_def
    processMemoryGetStatus_def dmntClientIsInitialized_def Let_def intro!: obey)

lemma runCommands_follow: "\<forall>p. SetPolicy p \<notin> set cs \<Longrightarrow> obeys (follows policy b) (runCommands K cs)"
  by (induction cs) (auto intro!: obey runCommand_follows)

text \<open>C34: the program attaches to the process only when the policy and the cheat service allow it.  While the
  policy stays the same, whatever the kernel answers, a memory command attaches a debugger of its own under
  \<open>direct\<close>, never under \<open>dmnt\<close>, and under \<open>auto\<close> only when the service is not known to hold the
  process: the last answer it gave said that it does not, or it has given none since the commands began and
  the flag kept from before them (\<open>dmntOwnershipObserved\<close>, false when the program starts) is not set.  So
  without a running cheat service \<open>auto\<close> does attach.\<close>

theorem memoryCommands_attach_guarded:
  assumes "\<forall>p. SetPolicy p \<notin> set cs" and "currentPolicy m = policy"
    and "mcTrace m = []" and "run_state (runCommands K cs) m = (u, m')"
  shows "attachGuarded policy (dmntOwnershipObserved m) (mcTrace m')"
proof -
  have "follows policy (dmntOwnershipObserved m) m" using assms by (simp add: follows_def)
  from wp_runI [OF obeysD [OF runCommands_follow [OF assms(1)] this] assms(4)]
  show ?thesis by (simp add: follows_def)
qed

theorem memoryCommands_attach_guarded_witness:
  "attachGuarded ProcessMemoryPolicyAuto False (mcTrace (snd memoryExample)) \<and>
   \<not> attachGuarded ProcessMemoryPolicyDmnt False (mcTrace (snd memoryExample))"
proof
  have "run_state (runCommands directKernel [Poke 0x8000 [1, 2], Peek True 0x8000 2]) freshMemory
      = (fst memoryExample, snd memoryExample)"
    by (simp only: memoryExample_def prod.collapse)
  from memoryCommands_attach_guarded [OF _ refl freshMemory_idle(3) this]
  show "attachGuarded ProcessMemoryPolicyAuto False (mcTrace (snd memoryExample))"
    by (simp add: freshMemory_def)
qed code_simp

end
