(* ===== verification/BootUnlock.thy ===== *)
theory BootUnlock
  imports BootUnlockConfig JpegDc Horizon Directories
begin

text \<open>
  \<open>boot_unlock.c\<close>: the worker that looks at the screen after a boot and presses HOME on the lock screen.
  The picture is decoded as in the code; what it shows is told by \<open>classify\<close>, a parameter for
  \<open>screenClassify\<close>, whose arithmetic is in single precision.  One press of the virtual controller is the call
  \<open>ClickHome\<close>, between two readings of the counter of accepted writes.  The metrics, which are for the
  report only, and the text of the reports are left out.
\<close>

datatype ScreenClass = ScreenUnknown | ScreenDark | ScreenLockOne | ScreenLockThree | ScreenOther

fun screenClassName :: "ScreenClass \<Rightarrow> string" where
  "screenClassName ScreenDark = ''dark''"
| "screenClassName ScreenLockOne = ''lock-one''"
| "screenClassName ScreenLockThree = ''lock-three''"
| "screenClassName ScreenOther = ''other''"
| "screenClassName ScreenUnknown = ''unknown''"

datatype BootUnlockPhase = BootUnlockPhaseIdle | BootUnlockPhaseRunning | BootUnlockPhaseDone

record BootUnlock =
  bwServicesReady :: bool
  bwReason :: string
  bwSource :: string
  bwConfig :: BootUnlockConfig
  bwArmedAtStart :: bool
  bwArmCleared :: bool
  bwPhase :: BootUnlockPhase
  bwStartTick :: u64
  bwEndTick :: u64
  bwRounds :: u32
  bwWakePresses :: u32
  bwHomePresses :: u32
  bwHomeSent :: u32
  bwApplicationRuns :: u32
  bwVerdicts :: "(u32 \<times> ScreenClass) list"

record BootMachine = Machine +
  bootUnlock :: BootUnlock
  bootUnlockMutexReady :: bool
  bootUnlockThreadCreated :: bool
  bootUnlockRequested :: bool

definition BOOT_UNLOCK_VERDICTS :: nat where "BOOT_UNLOCK_VERDICTS = 12"
definition BOOT_UNLOCK_ARM_PATH :: string where
  "BOOT_UNLOCK_ARM_PATH = ''sdmc:/config/sys-agent/boot-unlock.armed''"
definition BOOT_UNLOCK_LOG_PATH :: string where
  "BOOT_UNLOCK_LOG_PATH = ''sdmc:/config/sys-agent/boot-unlock.log''"

definition getBoot :: "(BootUnlock \<Rightarrow> 'a) \<Rightarrow> (BootMachine, 'a) state" where
  "getBoot f = State (\<lambda>m. (f (bootUnlock m), m))"

definition setBoot :: "(BootUnlock \<Rightarrow> BootUnlock) \<Rightarrow> (BootMachine, unit) state" where
  "setBoot f = State (\<lambda>m. ((), m\<lparr>bootUnlock := f (bootUnlock m)\<rparr>))"

definition setReason :: "string \<Rightarrow> (BootMachine, unit) state" where
  "setReason reason = setBoot (bwReason_update (\<lambda>_. reason))"

subsection \<open>Time, files and presses\<close>

definition bootUnlockTicksFromMs :: "Kernel \<Rightarrow> u32 \<Rightarrow> (BootMachine, u64) state" where
  "bootUnlockTicksFromMs K ms = do {
     freq \<leftarrow> svc K GetSystemTickFreq;
     State_Monad.return (ucast ms * rpValue freq div 1000)
   }"

definition bootUnlockMsAt :: "Kernel \<Rightarrow> u64 \<Rightarrow> (BootMachine, u64) state" where
  "bootUnlockMsAt K tick =
    (if tick = 0 then State_Monad.return 0
     else do { freq \<leftarrow> svc K GetSystemTickFreq; State_Monad.return (tick * 1000 div rpValue freq) })"

lemma sleep_progress: "ms > 0 \<Longrightarrow> unat (ms - (if ms > 100 then 100 else ms) :: u32) < unat ms"
  by (auto simp: word_less_nat_alt unat_sub word_le_nat_alt)

function bootUnlockSleepMs :: "Kernel \<Rightarrow> u32 \<Rightarrow> (BootMachine, unit) state" where
  "bootUnlockSleepMs K ms =
    (if ms > 0
     then (let step = (if ms > 100 then 100 else ms)
           in do {
             _ \<leftarrow> svc K (SleepThread (uint step * 1000000));
             bootUnlockSleepMs K (ms - step)
           })
     else skip)"
  by pat_completeness auto
termination
  by (relation "measure (\<lambda>(K, ms). unat ms)") (simp, simp add: sleep_progress del: if_split)

declare bootUnlockSleepMs.simps [simp del]

definition bootUnlockArmFileExists :: "Kernel \<Rightarrow> (BootMachine, bool) state" where
  "bootUnlockArmFileExists K = do {
     rc \<leftarrow> svcResult K (OpenFile BOOT_UNLOCK_ARM_PATH ''rb'');
     State_Monad.return (R_SUCCEEDED rc)
   }"

definition bootUnlockRecord :: "ScreenClass \<Rightarrow> u32 \<Rightarrow> (BootMachine, unit) state" where
  "bootUnlockRecord verdict ms = setBoot (\<lambda>b.
     if length (bwVerdicts b) < BOOT_UNLOCK_VERDICTS then b\<lparr>bwVerdicts := bwVerdicts b @ [(ms, verdict)]\<rparr> else b)"

definition bootUnlockPressHome :: "Kernel \<Rightarrow> (BootMachine, bool) state" where
  "bootUnlockPressHome K = do {
     before \<leftarrow> svc K ControllerStateWrites;
     _ \<leftarrow> svc K ClickHome;
     after \<leftarrow> svc K ControllerStateWrites;
     (let landed = rpValue after > rpValue before
      in do {
        _ \<leftarrow> (if landed then setBoot (\<lambda>b. b\<lparr>bwHomeSent := bwHomeSent b + 1\<rparr>) else skip);
        State_Monad.return landed
      })
   }"

text \<open>The verdict, the detail and the image, which the next look decodes into.  A file that makes the decoder leave
  its arrays has no defined outcome: the worker does not go on.\<close>

definition bootUnlockLook :: "Kernel \<Rightarrow> (JpegDcImage \<Rightarrow> ScreenClass) \<Rightarrow> JpegDcImage \<Rightarrow>
    (BootMachine, ScreenClass \<times> string \<times> JpegDcImage) state" where
  "bootUnlockLook K classify img = do {
     r \<leftarrow> svc K CaptureForDebug;
     if R_FAILED (rpResult r) \<or> rpBytes r = [] then State_Monad.return (ScreenDark, ''capture-failed'', img)
     else
       (case jpegDcDecode (Some (rpBytes r)) (Some img) of
          (JOk u, Some img') \<Rightarrow> State_Monad.return (classify img', screenClassName (classify img'), img')
        | (JFail, Some img') \<Rightarrow> State_Monad.return (ScreenUnknown, ''decode-failed'', img')
        | _ \<Rightarrow> do { _ \<leftarrow> outOfFuel; State_Monad.return (ScreenUnknown, ''decode-failed'', img) })
   }"

definition bootUnlockApplicationRunning :: "Kernel \<Rightarrow> (BootMachine, bool) state" where
  "bootUnlockApplicationRunning K = do {
     r \<leftarrow> svc K GetApplicationProcessId;
     State_Monad.return (R_SUCCEEDED (rpResult r) \<and> rpValue r \<noteq> 0)
   }"

subsection \<open>The worker\<close>

text \<open>The burst: the presses from number \<open>press\<close> on, \<open>n\<close> of them.\<close>

fun burstLoop :: "Kernel \<Rightarrow> u32 \<Rightarrow> nat \<Rightarrow> nat \<Rightarrow> (BootMachine, unit) state" where
  "burstLoop K gap press 0 = skip"
| "burstLoop K gap press (Suc n) = do {
     _ \<leftarrow> (if press > 0 then bootUnlockSleepMs K gap else skip);
     _ \<leftarrow> bootUnlockPressHome K;
     _ \<leftarrow> setBoot (\<lambda>b. b\<lparr>bwHomePresses := bwHomePresses b + 1\<rparr>);
     burstLoop K gap (press + 1) n
   }"

text \<open>One round: whether it decided, \<open>pressed\<close>, \<open>lastVerdict\<close> and the image.\<close>

type_synonym RoundResult = "bool \<times> bool \<times> ScreenClass \<times> JpegDcImage"

definition actOn :: "Kernel \<Rightarrow> BootUnlockConfig \<Rightarrow> ScreenClass \<Rightarrow> string \<Rightarrow> bool \<Rightarrow> JpegDcImage \<Rightarrow>
    (BootMachine, RoundResult) state" where
  "actOn K config verdict detail pressed img =
    (case verdict of
       ScreenOther \<Rightarrow> do {
         _ \<leftarrow> setReason (if pressed then ''unlocked'' else ''not-locked'');
         State_Monad.return (True, pressed, verdict, img)
       }
     | ScreenUnknown \<Rightarrow> do {
         _ \<leftarrow> setReason detail;
         State_Monad.return (True, pressed, verdict, img)
       }
     | ScreenDark \<Rightarrow> do {
         wake \<leftarrow> getBoot bwWakePresses;
         if wake \<ge> buWakeAttempts config
         then do {
           _ \<leftarrow> setReason ''display-stays-dark'';
           State_Monad.return (True, pressed, verdict, img)
         }
         else do {
           _ \<leftarrow> bootUnlockPressHome K;
           _ \<leftarrow> setBoot (\<lambda>b. b\<lparr>bwWakePresses := bwWakePresses b + 1\<rparr>);
           _ \<leftarrow> bootUnlockSleepMs K (buWakeDelayMs config);
           State_Monad.return (False, pressed, verdict, img)
         }
       }
     | ScreenLockOne \<Rightarrow> do {
         _ \<leftarrow> bootUnlockPressHome K;
         _ \<leftarrow> setBoot (\<lambda>b. b\<lparr>bwHomePresses := bwHomePresses b + 1\<rparr>);
         _ \<leftarrow> bootUnlockSleepMs K (buVerifyDelayMs config);
         State_Monad.return (False, True, verdict, img)
       }
     | ScreenLockThree \<Rightarrow> do {
         _ \<leftarrow> burstLoop K (buPressGapMs config) 0 (unat (buBurstPresses config));
         _ \<leftarrow> bootUnlockSleepMs K (buVerifyDelayMs config);
         State_Monad.return (False, True, verdict, img)
       })"

definition bootRound :: "Kernel \<Rightarrow> (JpegDcImage \<Rightarrow> ScreenClass) \<Rightarrow> BootUnlockConfig \<Rightarrow> u64 \<Rightarrow> bool \<Rightarrow>
    ScreenClass \<Rightarrow> JpegDcImage \<Rightarrow> (BootMachine, RoundResult) state" where
  "bootRound K classify config deadlineTick pressed lastVerdict img = do {
     tick \<leftarrow> svc K GetSystemTick;
     if rpValue tick \<ge> deadlineTick
     then do {
       _ \<leftarrow> setReason ''deadline'';
       State_Monad.return (True, pressed, lastVerdict, img)
     }
     else do {
       running \<leftarrow> bootUnlockApplicationRunning K;
       if running
       then do {
         _ \<leftarrow> setBoot (\<lambda>b. b\<lparr>bwApplicationRuns := bwApplicationRuns b + 1, bwReason := ''application-running''\<rparr>);
         State_Monad.return (True, pressed, lastVerdict, img)
       }
       else do {
         (verdict, detail, img) \<leftarrow> bootUnlockLook K classify img;
         tick \<leftarrow> svc K GetSystemTick;
         ms \<leftarrow> bootUnlockMsAt K (rpValue tick);
         _ \<leftarrow> bootUnlockRecord verdict (ucast ms);
         actOn K config verdict detail pressed img
       }
     }
   }"

fun bootRounds :: "Kernel \<Rightarrow> (JpegDcImage \<Rightarrow> ScreenClass) \<Rightarrow> BootUnlockConfig \<Rightarrow> u64 \<Rightarrow> nat \<Rightarrow> bool \<Rightarrow>
    ScreenClass \<Rightarrow> JpegDcImage \<Rightarrow> (BootMachine, bool \<times> bool \<times> ScreenClass) state" where
  "bootRounds K classify config deadlineTick 0 pressed lastVerdict img =
     State_Monad.return (False, pressed, lastVerdict)"
| "bootRounds K classify config deadlineTick (Suc n) pressed lastVerdict img = do {
     (decided, pressed, lastVerdict, img) \<leftarrow> bootRound K classify config deadlineTick pressed lastVerdict img;
     if decided then State_Monad.return (True, pressed, lastVerdict)
     else bootRounds K classify config deadlineTick n pressed lastVerdict img
   }"

text \<open>The directories that \<open>searchStorePrepareDirectory\<close> makes: every one on the way, then the path.  The call
  answers 0 also for a directory that exists.\<close>

fun makeDirectories :: "Kernel \<Rightarrow> string list \<Rightarrow> (BootMachine, bool) state" where
  "makeDirectories K [] = State_Monad.return True"
| "makeDirectories K (path # paths) = do {
     rc \<leftarrow> svcResult K (MakeDirectory path);
     if R_FAILED rc then State_Monad.return False else makeDirectories K paths
   }"

definition prepareDirectory :: "Kernel \<Rightarrow> string \<Rightarrow> (BootMachine, bool) state" where
  "prepareDirectory K path =
    (if length path \<ge> SEARCH_STORE_PATH_MAX then State_Monad.return False else makeDirectories K (directoriesOf path))"

definition bootUnlockWriteLog :: "Kernel \<Rightarrow> (BootMachine, unit) state" where
  "bootUnlockWriteLog K = do {
     _ \<leftarrow> prepareDirectory K ''sdmc:/config/sys-agent'';
     _ \<leftarrow> svc K (OpenFile BOOT_UNLOCK_LOG_PATH ''a'');
     skip
   }"

definition bootUnlockFinish :: "Kernel \<Rightarrow> (BootMachine, unit) state" where
  "bootUnlockFinish K = do {
     rounds \<leftarrow> getBoot (\<lambda>b. of_nat (length (bwVerdicts b)));
     armed \<leftarrow> getBoot bwArmedAtStart;
     cleared \<leftarrow>
       (if armed
        then do { rc \<leftarrow> svcResult K (RemoveFile BOOT_UNLOCK_ARM_PATH); State_Monad.return (rc = 0) }
        else State_Monad.return False);
     _ \<leftarrow> setBoot (\<lambda>b. b\<lparr>bwRounds := rounds, bwArmCleared := bwArmCleared b \<or> cleared\<rparr>);
     tick \<leftarrow> svc K GetSystemTick;
     _ \<leftarrow> setBoot (\<lambda>b. b\<lparr>bwEndTick := rpValue tick, bwPhase := BootUnlockPhaseDone\<rparr>);
     bootUnlockWriteLog K
   }"

text \<open>\<open>alloc\<close> says whether both buffers were allocated; \<open>img\<close> is what the second one holds then.\<close>

definition bootUnlockWorker :: "Kernel \<Rightarrow> (JpegDcImage \<Rightarrow> ScreenClass) \<Rightarrow> bool \<Rightarrow> JpegDcImage \<Rightarrow>
    (BootMachine, unit) state" where
  "bootUnlockWorker K classify alloc img = do {
     config \<leftarrow> getBoot bwConfig;
     tick \<leftarrow> svc K GetSystemTick;
     _ \<leftarrow> setBoot (\<lambda>b. b\<lparr>bwStartTick := rpValue tick, bwPhase := BootUnlockPhaseRunning\<rparr>);
     if \<not> alloc
     then do {
       _ \<leftarrow> setReason ''no-memory'';
       tick \<leftarrow> svc K GetSystemTick;
       setBoot (\<lambda>b. b\<lparr>bwEndTick := rpValue tick, bwPhase := BootUnlockPhaseDone\<rparr>)
     }
     else do {
       _ \<leftarrow> bootUnlockSleepMs K (buFirstDelayMs config);
       startTick \<leftarrow> getBoot bwStartTick;
       budget \<leftarrow> bootUnlockTicksFromMs K (buDeadlineMs config);
       (decided, pressed, lastVerdict) \<leftarrow>
         bootRounds K classify config (startTick + budget) (unat (buMaxRounds config)) False ScreenUnknown img;
       _ \<leftarrow> (if decided then skip
             else setReason (if lastVerdict = ScreenOther
               then (if pressed then ''unlocked'' else ''not-locked'') else ''rounds-exhausted''));
       bootUnlockFinish K
     }
   }"

definition bootUnlockStartWorker :: "Kernel \<Rightarrow> (BootMachine, bool) state" where
  "bootUnlockStartWorker K = do {
     created \<leftarrow> State (\<lambda>m. (bootUnlockThreadCreated m, m));
     phase \<leftarrow> getBoot bwPhase;
     if created \<and> phase = BootUnlockPhaseRunning then State_Monad.return False
     else do {
       _ \<leftarrow> (if created
             then do {
               _ \<leftarrow> svc K ThreadClose;
               State (\<lambda>m. ((), m\<lparr>bootUnlockThreadCreated := False\<rparr>))
             }
             else skip);
       _ \<leftarrow> setBoot (\<lambda>b. b\<lparr>bwStartTick := 0, bwEndTick := 0, bwRounds := 0, bwWakePresses := 0, bwHomePresses := 0,
              bwHomeSent := 0, bwApplicationRuns := 0, bwVerdicts := [], bwPhase := BootUnlockPhaseIdle\<rparr>);
       rc \<leftarrow> svcResult K ThreadCreate;
       if R_FAILED rc then State_Monad.return False
       else do {
         rc \<leftarrow> svcResult K ThreadStart;
         if R_FAILED rc
         then do { _ \<leftarrow> svc K ThreadClose; State_Monad.return False }
         else do {
           _ \<leftarrow> State (\<lambda>m. ((), m\<lparr>bootUnlockThreadCreated := True\<rparr>));
           State_Monad.return True
         }
       }
     }
   }"

subsection \<open>At boot\<close>

definition bootUnlockInit :: "Kernel \<Rightarrow> FileRead \<Rightarrow> bool \<Rightarrow> (BootMachine, unit) state" where
  "bootUnlockInit K file servicesReady = do {
     _ \<leftarrow> State (\<lambda>m. ((), m\<lparr>bootUnlockMutexReady := True\<rparr>));
     _ \<leftarrow> setBoot (\<lambda>b. b\<lparr>bwServicesReady := servicesReady, bwConfig := bootUnlockConfigDefaults\<rparr>);
     if \<not> servicesReady then setReason ''no-sd-card''
     else do {
       _ \<leftarrow> (case bootUnlockConfigLoad file of
               (BootUnlockConfigOk, config) \<Rightarrow> setBoot (\<lambda>b. b\<lparr>bwConfig := config, bwSource := ''file''\<rparr>)
             | (BootUnlockConfigNotFound, config) \<Rightarrow> setBoot (\<lambda>b. b\<lparr>bwSource := ''default''\<rparr>)
             | (result, config) \<Rightarrow> setBoot (\<lambda>b. b\<lparr>bwSource := ''default'',
                 bwReason := if result = BootUnlockConfigIoError then ''config-io-error'' else ''config-invalid''\<rparr>));
       armed \<leftarrow> bootUnlockArmFileExists K;
       _ \<leftarrow> setBoot (\<lambda>b. b\<lparr>bwArmedAtStart := armed\<rparr>);
       mode \<leftarrow> getBoot (buMode \<circ> bwConfig);
       wanted \<leftarrow>
         (case mode of
            BootUnlockModeEveryBoot \<Rightarrow> do { _ \<leftarrow> setReason ''mode-every-boot''; State_Monad.return True }
          | BootUnlockModeArmed \<Rightarrow> do {
              _ \<leftarrow> setReason (if armed then ''armed'' else ''not-armed'');
              State_Monad.return armed
            }
          | BootUnlockModeOff \<Rightarrow> do { _ \<leftarrow> setReason ''mode-off''; State_Monad.return False });
       if \<not> wanted
       then (if armed \<and> mode = BootUnlockModeOff
             then do {
               rc \<leftarrow> svcResult K (RemoveFile BOOT_UNLOCK_ARM_PATH);
               setBoot (\<lambda>b. b\<lparr>bwArmCleared := (rc = 0)\<rparr>)
             }
             else skip)
       else do {
         _ \<leftarrow> State (\<lambda>m. ((), m\<lparr>bootUnlockRequested := True\<rparr>));
         started \<leftarrow> bootUnlockStartWorker K;
         if started then skip else setReason ''thread-start-failed''
       }
     }
   }"

subsection \<open>Commands\<close>

definition bootUnlockRequest :: "Kernel \<Rightarrow> (BootMachine, bool) state" where
  "bootUnlockRequest K = do {
     ready \<leftarrow> prepareDirectory K ''sdmc:/config/sys-agent'';
     if \<not> ready then State_Monad.return False
     else do {
       rc \<leftarrow> svcResult K (OpenFile BOOT_UNLOCK_ARM_PATH ''wb'');
       State_Monad.return (R_SUCCEEDED rc)
     }
   }"

text \<open>The answers of the commands, without their text.\<close>

datatype BootAnswer =
    ArmEnabled BootUnlockMode
  | ArmDisabled bool BootUnlockMode
  | SdUnavailable
  | DisarmFailed
  | NotInitialised
  | Busy
  | ConfigRefused BootUnlockConfigResult
  | ThreadStartFailed
  | Started BootUnlockConfig

definition bootUnlockArmCommand :: "Kernel \<Rightarrow> bool \<Rightarrow> (BootMachine, BootAnswer) state" where
  "bootUnlockArmCommand K arm = do {
     mode \<leftarrow> getBoot (buMode \<circ> bwConfig);
     if arm
     then do {
       requested \<leftarrow> bootUnlockRequest K;
       State_Monad.return (if \<not> requested then SdUnavailable else ArmEnabled mode)
     }
     else do {
       existed \<leftarrow> bootUnlockArmFileExists K;
       removed \<leftarrow>
         (if \<not> existed then State_Monad.return True
          else do { rc \<leftarrow> svcResult K (RemoveFile BOOT_UNLOCK_ARM_PATH); State_Monad.return (rc = 0) });
       State_Monad.return (if \<not> removed then DisarmFailed else ArmDisabled existed mode)
     }
   }"

definition bootUnlockRunCommand :: "Kernel \<Rightarrow> FileRead \<Rightarrow> (BootMachine, BootAnswer) state" where
  "bootUnlockRunCommand K file = do {
     ready \<leftarrow> State (\<lambda>m. (bootUnlockMutexReady m, m));
     if \<not> ready then State_Monad.return NotInitialised
     else do {
       phase \<leftarrow> getBoot bwPhase;
       if phase = BootUnlockPhaseRunning then State_Monad.return Busy
       else (let (result, config) = bootUnlockConfigLoad file
             in if result = BootUnlockConfigOk \<or> result = BootUnlockConfigNotFound
                then do {
                  _ \<leftarrow> setBoot (\<lambda>b. b\<lparr>
                    bwConfig := (if result = BootUnlockConfigNotFound then bootUnlockConfigDefaults else config),
                    bwSource := (if result = BootUnlockConfigOk then ''file'' else ''default'')\<rparr>);
                  active \<leftarrow> getBoot bwConfig;
                  _ \<leftarrow> setReason ''manual-run'';
                  started \<leftarrow> bootUnlockStartWorker K;
                  State_Monad.return (if \<not> started then ThreadStartFailed else Started active)
                }
                else State_Monad.return (ConfigRefused result))
     }
   }"

end
