(* ===== verification/BootUnlockPresses.thy ===== *)
theory BootUnlockPresses
  imports BootUnlock
begin

text \<open>
  What the boot unlock worker may press: how many presses a schedule allows, that the counters of the report
  account for every one of them, and that each is made on a screen just judged to be dark or locked with no
  application running.
\<close>

definition clicks :: "Trace \<Rightarrow> nat" where
  "clicks t = length (filter (\<lambda>(c, r). c = ClickHome) t)"

lemma clicks_simps [simp]:
  "clicks [] = 0" "clicks ((c, r) # t) = (if c = ClickHome then Suc (clicks t) else clicks t)"
  by (simp_all add: clicks_def)

lemma wp_getBoot [simp]: "wp (getBoot f) m Q \<longleftrightarrow> Q (f (bootUnlock m)) m"
  by (simp add: wp_def getBoot_def)

lemma wp_setBoot [simp]: "wp (setBoot f) m Q \<longleftrightarrow> Q () (m\<lparr>bootUnlock := f (bootUnlock m)\<rparr>)"
  by (simp add: wp_def setBoot_def)

subsection \<open>How many presses\<close>

text \<open>What the counters say beyond the presses made, in the arithmetic of the counters.\<close>

definition unpressed :: "BootMachine \<Rightarrow> u32" where
  "unpressed m = bwWakePresses (bootUnlock m) + bwHomePresses (bootUnlock m) - of_nat (clicks (mcTrace m))"

definition tally :: "nat \<Rightarrow> u32 \<Rightarrow> nat \<Rightarrow> BootMachine \<Rightarrow> bool" where
  "tally w u c m \<longleftrightarrow> clicks (mcTrace m) \<le> c \<and> unat (bwWakePresses (bootUnlock m)) \<le> w \<and>
     (mcStuck m \<or> unpressed m = u)"

lemma tally_mono: "tally w u c m \<Longrightarrow> c \<le> d \<Longrightarrow> tally w u d m"
  by (simp add: tally_def)

lemma tally_svc: "c \<noteq> ClickHome \<Longrightarrow> obeys (tally w u n) (svc K c)" "c \<noteq> ClickHome \<Longrightarrow> obeys (tally w u n) (svcResult K c)"
  by (auto simp: obeys_def tally_def unpressed_def)

lemma tally_getBoot [obey]: "obeys P (getBoot f)"
  by (rule obeysI) simp

lemma tally_setBoot:
  "(\<And>b. bwWakePresses (f b) = bwWakePresses b \<and> bwHomePresses (f b) = bwHomePresses b) \<Longrightarrow>
    obeys (tally w u n) (setBoot f)"
  by (simp add: obeys_def tally_def unpressed_def)

lemma tally_outOfFuel [obey]: "obeys (tally w u n) outOfFuel"
  by (simp add: obeys_def tally_def)

lemma tally_sleep [obey]: "obeys (tally w u n) (bootUnlockSleepMs K ms)"
  by (induction K ms rule: bootUnlockSleepMs.induct, subst bootUnlockSleepMs.simps)
    (auto simp: Let_def intro!: obey tally_svc)

lemma tally_directories [obey]: "obeys (tally w u n) (makeDirectories K paths)"
  by (induction paths) (auto intro!: obey tally_svc)

lemma tally_small [obey]:
  "obeys (tally w u n) (setReason reason)" "obeys (tally w u n) (bootUnlockTicksFromMs K ms)"
  "obeys (tally w u n) (bootUnlockMsAt K tick)" "obeys (tally w u n) (bootUnlockRecord verdict ms)"
  "obeys (tally w u n) (bootUnlockApplicationRunning K)" "obeys (tally w u n) (bootUnlockWriteLog K)"
  "obeys (tally w u n) (bootUnlockFinish K)"
  unfolding setReason_def bootUnlockTicksFromMs_def bootUnlockMsAt_def bootUnlockRecord_def
    bootUnlockApplicationRunning_def bootUnlockWriteLog_def bootUnlockFinish_def prepareDirectory_def
  by (intro obey tally_svc tally_setBoot; simp)+

lemma tally_look [obey]: "obeys (tally w u n) (bootUnlockLook K classify img)"
proof -
  have decided: "obeys (tally w u n) (case x of
       (JOk v, Some img') \<Rightarrow> State_Monad.return (classify img', screenClassName (classify img'), img')
     | (JFail, Some img') \<Rightarrow> State_Monad.return (ScreenUnknown, ''decode-failed'', img')
     | _ \<Rightarrow> do { _ \<leftarrow> outOfFuel; State_Monad.return (ScreenUnknown, ''decode-failed'', img) })" for x :: "unit jres \<times> JpegDcImage option"
    by (auto split: prod.split jres.split option.split intro!: obey)
  show ?thesis
    unfolding bootUnlockLook_def by (intro obey tally_svc decided) simp
qed

text \<open>A press adds one to the presses made; the caller counts it.\<close>

lemma press_tally:
  assumes "tally w u n m"
  shows "wp (bootUnlockPressHome K) m (\<lambda>_ m'. clicks (mcTrace m') \<le> Suc n \<and>
    bwWakePresses (bootUnlock m') = bwWakePresses (bootUnlock m) \<and> (mcStuck m' \<or> unpressed m' + 1 = u))"
  using assms by (auto simp: bootUnlockPressHome_def tally_def unpressed_def Let_def)

lemma press_home_then:
  assumes "tally w u n m" and "\<And>m'. tally w u (Suc n) m' \<Longrightarrow> wp rest m' Q"
  shows "wp (do { _ \<leftarrow> bootUnlockPressHome K; _ \<leftarrow> setBoot (\<lambda>b. b\<lparr>bwHomePresses := bwHomePresses b + 1\<rparr>); rest }) m Q"
  unfolding wp_bind wp_setBoot
  by (rule wp_mono [OF press_tally [OF assms(1)]], rule assms(2))
    (use assms(1) in \<open>auto simp: tally_def unpressed_def algebra_simps\<close>)

lemma press_wake_then:
  assumes "tally w u n m" and "bwWakePresses (bootUnlock m) < attempts" and "unat attempts \<le> w"
    and "\<And>m'. tally w u (Suc n) m' \<Longrightarrow> wp rest m' Q"
  shows "wp (do { _ \<leftarrow> bootUnlockPressHome K; _ \<leftarrow> setBoot (\<lambda>b. b\<lparr>bwWakePresses := bwWakePresses b + 1\<rparr>); rest }) m Q"
proof -
  have "unat (bwWakePresses (bootUnlock m) + 1) \<le> w"
    using assms(2,3) by (simp add: word_less_nat_alt unat_word_ariths)
  then show ?thesis
    unfolding wp_bind wp_setBoot
    by (intro wp_mono [OF press_tally [OF assms(1)]] assms(4))
      (use assms(1) in \<open>auto simp: tally_def unpressed_def algebra_simps\<close>)
qed

lemma sleep_then:
  assumes "tally w u n m" and "\<And>m'. tally w u n m' \<Longrightarrow> Q a m'"
  shows "wp (do { _ \<leftarrow> bootUnlockSleepMs K ms; State_Monad.return a }) m Q"
  unfolding wp_bind wp_return by (rule wp_mono [OF obeysD [OF tally_sleep, where m = m, OF assms(1)]]) (rule assms(2))

lemma burst_tally: "tally w u n m \<Longrightarrow> wp (burstLoop K gap press k) m (\<lambda>_. tally w u (n + k))"
proof (induction K gap press k arbitrary: n m rule: burstLoop.induct)
  case (2 K gap press k)
  have waits: "obeys (tally w u n) (if press > 0 then bootUnlockSleepMs K gap else skip)"
    by (intro obey)
  show ?case
    unfolding burstLoop.simps
    by (rule obeys_then [where P = "tally w u n", OF waits "2.prems"], erule press_home_then)
      (use "2.IH" [where n = "Suc n"] in simp)
qed simp

lemma actOn_tally:
  assumes "tally w u n m" and "unat (buWakeAttempts config) \<le> w"
  shows "wp (actOn K config verdict detail pressed img) m
    (\<lambda>_. tally w u (n + max 1 (unat (buBurstPresses config))))"
proof -
  let ?b = "unat (buBurstPresses config)"
  have quiet: "wp (do { _ \<leftarrow> setReason reason; State_Monad.return a }) m (\<lambda>_. tally w u (n + max 1 ?b))"
    for reason and a :: RoundResult
    using assms(1) by (auto simp: setReason_def tally_def unpressed_def)
  have dark: "wp (do { wake \<leftarrow> getBoot bwWakePresses;
         if wake \<ge> buWakeAttempts config
         then do { _ \<leftarrow> setReason ''display-stays-dark''; State_Monad.return (True, pressed, ScreenDark, img) }
         else do {
           _ \<leftarrow> bootUnlockPressHome K;
           _ \<leftarrow> setBoot (\<lambda>b. b\<lparr>bwWakePresses := bwWakePresses b + 1\<rparr>);
           _ \<leftarrow> bootUnlockSleepMs K (buWakeDelayMs config);
           State_Monad.return (False, pressed, ScreenDark, img)
         } }) m (\<lambda>_. tally w u (n + max 1 ?b))"
    unfolding wp_bind [of "getBoot bwWakePresses"] wp_getBoot
    by (intro wp_ifI quiet press_wake_then [OF assms(1) _ assms(2)] sleep_then)
      (auto elim: tally_mono)
  have one: "wp (do { _ \<leftarrow> bootUnlockPressHome K; _ \<leftarrow> setBoot (\<lambda>b. b\<lparr>bwHomePresses := bwHomePresses b + 1\<rparr>);
       _ \<leftarrow> bootUnlockSleepMs K ms; State_Monad.return a }) m (\<lambda>_. tally w u (n + max 1 ?b))" for ms and a :: RoundResult
    by (intro press_home_then [OF assms(1)] sleep_then) (auto elim: tally_mono)
  have three: "wp (do { _ \<leftarrow> burstLoop K gap 0 ?b; _ \<leftarrow> bootUnlockSleepMs K ms; State_Monad.return a }) m
      (\<lambda>_. tally w u (n + max 1 ?b))" for gap ms and a :: RoundResult
    by (subst wp_bind, rule wp_mono [OF burst_tally [OF assms(1)]], rule sleep_then)
      (auto elim: tally_mono)
  show ?thesis
    unfolding actOn_def by (cases verdict) (simp_all only: ScreenClass.case quiet dark one three)
qed

lemma bootRound_tally:
  assumes "tally w u n m" and "unat (buWakeAttempts config) \<le> w"
  shows "wp (bootRound K classify config deadline pressed lastVerdict img) m
    (\<lambda>_. tally w u (n + max 1 (unat (buBurstPresses config))))"
proof -
  have quiet: "wp p m' (\<lambda>_. tally w u (n + max 1 (unat (buBurstPresses config))))"
    if "tally w u n m'" and "obeys (tally w u n) p" for m' and p :: "(BootMachine, RoundResult) state"
    by (rule wp_mono [OF obeysD [OF that(2) that(1)]]) (erule tally_mono, simp)
  show ?thesis
    unfolding bootRound_def
    by (rule obeys_then [OF tally_svc(1) assms(1)], simp, rule wp_ifI, erule quiet, intro obey,
      rule obeys_then [OF tally_small(5)], assumption, rule wp_ifI, erule quiet,
      intro obey tally_setBoot, simp, rule obeys_then [OF tally_look], assumption, rule wp_splitI, rule wp_splitI,
      rule obeys_then [OF tally_svc(1)], simp, assumption, rule obeys_then [OF tally_small(3)], assumption,
      rule obeys_then [OF tally_small(4)], assumption, erule actOn_tally [OF _ assms(2)])
qed

lemma bootRounds_tally:
  assumes "unat (buWakeAttempts config) \<le> w"
  shows "tally w u n m \<Longrightarrow> wp (bootRounds K classify config deadline k pressed lastVerdict img) m
    (\<lambda>_. tally w u (n + k * max 1 (unat (buBurstPresses config))))"
proof (induction k arbitrary: n m pressed lastVerdict img)
  case (Suc k)
  let ?b = "max 1 (unat (buBurstPresses config))"
  show ?case
    unfolding bootRounds.simps wp_bind
    by (rule wp_mono [OF bootRound_tally [OF Suc.prems assms]], (rule wp_splitI)+, rule wp_ifI)
      (auto elim: tally_mono intro: wp_mono [OF Suc.IH] simp: algebra_simps)
qed (simp del: wp_bind)

text \<open>C36: One run of the boot unlock worker presses HOME at most once for every round, or \<open>burstPresses\<close> times
  where that is more, so a schedule bounds the presses; no more than \<open>wakeAttempts\<close> of them, or than the counter
  already showed, are sent to light the display; and the two counters of the report grow together by exactly the
  presses made, in the arithmetic of the counters, whatever the screen shows and whatever the calls answer (unless a
  picture makes the decoder leave its arrays).\<close>

theorem bootUnlockWorker_presses:
  "wp (bootUnlockWorker K classify alloc img) m (\<lambda>_ m'.
     (let config = bwConfig (bootUnlock m) in
        clicks (mcTrace m') \<le> clicks (mcTrace m) +
          unat (buMaxRounds config) * max 1 (unat (buBurstPresses config)) \<and>
        unat (bwWakePresses (bootUnlock m')) \<le>
          max (unat (bwWakePresses (bootUnlock m))) (unat (buWakeAttempts config))) \<and>
     (mcStuck m' \<or> bwWakePresses (bootUnlock m') + bwHomePresses (bootUnlock m') - of_nat (clicks (mcTrace m')) =
        bwWakePresses (bootUnlock m) + bwHomePresses (bootUnlock m) - of_nat (clicks (mcTrace m))))"
proof -
  let ?c = "bwConfig (bootUnlock m)"
  let ?w = "max (unat (bwWakePresses (bootUnlock m))) (unat (buWakeAttempts ?c))"
  let ?t = "tally ?w (unpressed m)"
  let ?n = "clicks (mcTrace m)"
  let ?k = "unat (buMaxRounds ?c) * max 1 (unat (buBurstPresses ?c))"
  have start: "?t ?n m" by (simp add: tally_def)
  have rest: "obeys (?t n) (do { _ \<leftarrow> (if decided then skip else setReason reason); bootUnlockFinish K })" for n decided reason
    by (intro obey)
  have failed: "obeys (?t n) (do { _ \<leftarrow> setReason ''no-memory''; tick \<leftarrow> svc K GetSystemTick;
      setBoot (\<lambda>b. b\<lparr>bwEndTick := rpValue tick, bwPhase := BootUnlockPhaseDone\<rparr>) })" for n
    by (intro obey tally_svc tally_setBoot) simp_all
  have rounds: "?t ?n m' \<Longrightarrow> wp (bootRounds K classify ?c deadline (unat (buMaxRounds ?c)) p v img) m'
      (\<lambda>_. ?t (?n + ?k))" for m' deadline p v
    by (rule bootRounds_tally) simp_all
  have "wp (bootUnlockWorker K classify alloc img) m (\<lambda>_. ?t (?n + ?k))"
    unfolding bootUnlockWorker_def wp_bind [of "getBoot bwConfig"] wp_getBoot
    by (rule obeys_then [where P = "?t ?n" and m = m], rule tally_svc(1), simp, rule start,
      rule obeys_then [where P = "?t ?n", OF tally_setBoot], simp, assumption,
      rule wp_ifI, rule wp_mono [OF obeysD [OF failed]], assumption, erule tally_mono, simp,
      rule obeys_then [where P = "?t ?n", OF tally_sleep], assumption,
      rule obeys_then [where P = "?t ?n", OF tally_getBoot], assumption,
      rule obeys_then [where P = "?t ?n", OF tally_small(2)], assumption,
      subst wp_bind, rule wp_mono [OF rounds], assumption, (rule wp_splitI)+, rule obeysD [OF rest])
  then show ?thesis
    by (rule wp_mono) (simp add: tally_def unpressed_def Let_def)
qed

end
