(* ===== verification/BootUnlockLooks.thy ===== *)
theory BootUnlockLooks
  imports BootUnlockPresses
begin

text \<open>
  When the boot unlock worker presses: only after a look at a dark or locked screen, taken when no application was
  running.  Then what \<open>bootUnlockInit\<close> can report.
\<close>

definition pressable :: "(JpegDcImage \<Rightarrow> ScreenClass) \<Rightarrow> Reply \<Rightarrow> bool" where
  "pressable classify r \<longleftrightarrow> R_FAILED (rpResult r) \<or> rpBytes r = [] \<or>
     (\<exists>img img' u. jpegDcDecode (Some (rpBytes r)) (Some img) = (JOk u, Some img') \<and>
        (classify img' = ScreenDark \<or> classify img' = ScreenLockOne \<or> classify img' = ScreenLockThree))"

definition noApplication :: "Reply \<Rightarrow> bool" where
  "noApplication r \<longleftrightarrow> R_FAILED (rpResult r) \<or> rpValue r = 0"

text \<open>The last thing other than presses and waiting was a look that allows a press, just after the answer that no
  application runs.\<close>

fun lookedAt :: "(JpegDcImage \<Rightarrow> ScreenClass) \<Rightarrow> Trace \<Rightarrow> bool" where
  "lookedAt classify [] = False"
| "lookedAt classify ((c, r) # t) =
    (case c of
       CaptureForDebug \<Rightarrow>
         pressable classify r \<and>
         (case t of (GetApplicationProcessId, r') # _ \<Rightarrow> noApplication r' | _ \<Rightarrow> False)
     | ClickHome \<Rightarrow> lookedAt classify t
     | ControllerStateWrites \<Rightarrow> lookedAt classify t
     | SleepThread ns \<Rightarrow> lookedAt classify t
     | GetSystemTick \<Rightarrow> lookedAt classify t
     | GetSystemTickFreq \<Rightarrow> lookedAt classify t
     | _ \<Rightarrow> False)"

fun pressesJustified :: "(JpegDcImage \<Rightarrow> ScreenClass) \<Rightarrow> Trace \<Rightarrow> bool" where
  "pressesJustified classify [] = True"
| "pressesJustified classify ((c, r) # t) =
    ((if c = ClickHome then lookedAt classify t else True) \<and> pressesJustified classify t)"

definition justified :: "(JpegDcImage \<Rightarrow> ScreenClass) \<Rightarrow> BootMachine \<Rightarrow> bool" where
  "justified classify m \<longleftrightarrow> pressesJustified classify (mcTrace m)"

definition looked :: "(JpegDcImage \<Rightarrow> ScreenClass) \<Rightarrow> BootMachine \<Rightarrow> bool" where
  "looked classify m \<longleftrightarrow> justified classify m \<and> (mcStuck m \<or> lookedAt classify (mcTrace m))"

lemma looked_justified: "looked classify m \<Longrightarrow> justified classify m"
  by (simp add: looked_def)

lemma justified_svc: "c \<noteq> ClickHome \<Longrightarrow> obeys (justified classify) (svc K c)"
  "c \<noteq> ClickHome \<Longrightarrow> obeys (justified classify) (svcResult K c)"
  by (auto simp: obeys_def justified_def)

lemma looked_svc [obey]:
  "obeys (looked classify) (svc K ClickHome)" "obeys (looked classify) (svc K ControllerStateWrites)"
  "obeys (looked classify) (svc K (SleepThread ns))" "obeys (looked classify) (svc K GetSystemTick)"
  "obeys (looked classify) (svc K GetSystemTickFreq)"
  by (auto simp: obeys_def looked_def justified_def)

lemma looked_setBoot [obey]: "obeys (looked classify) (setBoot f)" "obeys (justified classify) (setBoot f)"
  by (simp_all add: obeys_def looked_def justified_def)

lemma looked_sleep [obey]: "obeys (looked classify) (bootUnlockSleepMs K ms)"
  by (induction K ms rule: bootUnlockSleepMs.induct, subst bootUnlockSleepMs.simps)
    (auto simp: Let_def intro!: obey)

lemma justified_sleep [obey]: "obeys (justified classify) (bootUnlockSleepMs K ms)"
  by (induction K ms rule: bootUnlockSleepMs.induct, subst bootUnlockSleepMs.simps)
    (auto simp: Let_def intro!: obey justified_svc)

lemma looked_press [obey]: "obeys (looked classify) (bootUnlockPressHome K)"
  unfolding bootUnlockPressHome_def Let_def by (intro obey)

lemma looked_burst [obey]: "obeys (looked classify) (burstLoop K gap press n)"
  by (induction K gap press n rule: burstLoop.induct) (auto intro!: obey)

lemma looked_actOn: "looked classify m \<Longrightarrow> wp (actOn K config verdict detail pressed img) m (\<lambda>_. looked classify)"
  by (rule obeysD, cases verdict) (auto simp: actOn_def setReason_def intro!: obey)

lemma justified_directories [obey]: "obeys (justified classify) (makeDirectories K paths)"
  by (induction paths) (auto intro!: obey justified_svc)

lemma justified_small [obey]:
  "obeys (justified classify) (setReason reason)" "obeys (justified classify) (bootUnlockTicksFromMs K ms)"
  "obeys (justified classify) (bootUnlockFinish K)"
  unfolding setReason_def bootUnlockTicksFromMs_def bootUnlockWriteLog_def bootUnlockFinish_def
    prepareDirectory_def
  by (intro obey justified_svc; simp)+

text \<open>A verdict other than the three that allow a press ends the round with no press.\<close>

lemma actOn_justified:
  assumes "justified classify m" and "verdict = ScreenOther \<or> verdict = ScreenUnknown"
  shows "wp (actOn K config verdict detail pressed img) m (\<lambda>_. justified classify)"
  by (rule obeysD [where P = "justified classify", OF _ assms(1)]) (use assms(2) in \<open>auto simp: actOn_def intro!: obey\<close>)

definition mayPress :: "ScreenClass \<Rightarrow> bool" where
  "mayPress v \<longleftrightarrow> v \<noteq> ScreenOther \<and> v \<noteq> ScreenUnknown"

lemma look_justifies:
  assumes "justified classify m"
    and "mcStuck m \<or> (\<exists>r t. mcTrace m = (GetApplicationProcessId, r) # t \<and> noApplication r)"
  shows "wp (bootUnlockLook K classify img) m
    (\<lambda>a m'. if mayPress (fst a) then looked classify m' else justified classify m')"
proof -
  obtain d i where d: "jpegDcDecode (Some (rpBytes (knReply K (mcTrace m) CaptureForDebug))) (Some img) = (d, i)"
    by force
  have "justified classify m \<Longrightarrow> \<not> mcStuck m \<Longrightarrow> ?thesis"
    using assms d
    by (cases d; cases i; cases "classify (the i)")
      (auto simp: bootUnlockLook_def justified_def looked_def mayPress_def pressable_def)
  moreover have "mcStuck m \<Longrightarrow> ?thesis"
    using assms by (auto simp: bootUnlockLook_def looked_def noReply_def)
  ultimately show ?thesis using assms(1) by blast
qed

lemma acted_after_look:
  assumes "if mayPress verdict then looked classify m else justified classify m"
  shows "wp (do { tick \<leftarrow> svc K GetSystemTick; ms \<leftarrow> bootUnlockMsAt K (rpValue tick);
      _ \<leftarrow> bootUnlockRecord verdict (ucast ms); actOn K config verdict detail pressed img }) m
    (\<lambda>_. justified classify)"
proof -
  have ticked: "obeys (looked classify) (bootUnlockMsAt K t)" "obeys (justified classify) (bootUnlockMsAt K t)" for t
    unfolding bootUnlockMsAt_def by (intro obey justified_svc; simp)+
  have noted: "obeys (looked classify) (bootUnlockRecord verdict t)"
      "obeys (justified classify) (bootUnlockRecord verdict t)" for t
    unfolding bootUnlockRecord_def by (intro obey)+
  show ?thesis
  proof (cases "mayPress verdict")
    case True
    with assms have m: "looked classify m" by simp
    show ?thesis
      by (rule obeys_then [OF looked_svc(4) m], rule obeys_then [OF ticked(1)], assumption,
        rule obeys_then [OF noted(1)], assumption, rule wp_mono, erule looked_actOn, erule looked_justified)
  next
    case False
    with assms have "justified classify m" by simp
    with False show ?thesis
      by (intro obeys_then [OF justified_svc(1)] obeys_then [OF ticked(2)] obeys_then [OF noted(2)]; assumption?)
        (auto simp: mayPress_def intro: actOn_justified)
  qed
qed

lemma bootRound_justified:
  assumes "justified classify m"
  shows "wp (bootRound K classify config deadline pressed lastVerdict img) m (\<lambda>_. justified classify)"
proof -
  have quit: "wp p m' (\<lambda>_. justified classify)" if "obeys (justified classify) p" and "justified classify m'"
    for p :: "(BootMachine, RoundResult) state" and m'
    by (rule obeysD [OF that])
  have running: "wp (bootUnlockApplicationRunning K) m' (\<lambda>running m''. justified classify m'' \<and>
      (running \<or> mcStuck m'' \<or> (\<exists>r t. mcTrace m'' = (GetApplicationProcessId, r) # t \<and> noApplication r)))"
    if "justified classify m'" for m'
    using that by (auto simp: bootUnlockApplicationRunning_def justified_def noApplication_def)
  show ?thesis
    unfolding bootRound_def
    by (rule obeys_then [OF justified_svc(1) assms], simp, rule wp_ifI, rule quit, intro obey, assumption,
      subst wp_bind, rule wp_mono [OF running], assumption, rule wp_ifI, rule quit, intro obey, simp,
      subst wp_bind, rule wp_mono [OF look_justifies], simp, simp, (rule wp_split_eqI)+, rule acted_after_look, simp)
qed

lemma bootRounds_justified:
  "justified classify m \<Longrightarrow>
    wp (bootRounds K classify config deadline k pressed lastVerdict img) m (\<lambda>_. justified classify)"
proof (induction k arbitrary: m pressed lastVerdict img)
  case (Suc k)
  show ?case
    unfolding bootRounds.simps wp_bind
    by (rule wp_mono [OF bootRound_justified [OF Suc.prems]], (rule wp_splitI)+, rule wp_ifI)
      (auto intro: Suc.IH)
qed (simp del: wp_bind)

text \<open>C37: Every press of HOME by the boot unlock worker follows a look: before it, with nothing but other presses
  and waiting in between, comes a capture that failed or whose picture is classified as dark or as one of the two
  lock screens, and right before that capture the answer that no application is running.\<close>

theorem bootUnlockWorker_looks_first:
  assumes "pressesJustified classify (mcTrace m)"
  shows "wp (bootUnlockWorker K classify alloc img) m (\<lambda>_ m'. pressesJustified classify (mcTrace m'))"
proof -
  have "obeys (justified classify) (bootRounds K classify config deadline k p v img)" for config deadline k p v
    by (rule obeysI) (rule bootRounds_justified)
  then have "obeys (justified classify) (bootUnlockWorker K classify alloc img)"
    unfolding bootUnlockWorker_def by (intro obey justified_svc) simp_all
  from obeysD [OF this] assms show ?thesis by (simp add: justified_def)
qed

definition darkKernel :: Kernel where
  "darkKernel = \<lparr>knReply = (\<lambda>t c. noReply\<lparr>rpResult := 0, rpBytes := [],
       rpValue := (case c of ControllerStateWrites \<Rightarrow> of_nat (length t) | GetSystemTickFreq \<Rightarrow> 19200000 | _ \<Rightarrow> 0)\<rparr>),
     knCurrentThread = 1, knCurrentProcess = 2, knInvalidHandle = 0, knTimedOut = 3, knInvalidHandleError = 4,
     knOwnedByAnother = 5, knBadInput = 6, knNotFound = 7, knExited = 8, knAlreadyExists = 0xE401\<rparr>"

definition darkMachine :: BootMachine where
  "darkMachine = \<lparr>mcTrace = [], mcStuck = False, mcWatchActive = False, mcTraceActive = False,
     mcMultiTraceActive = False, mcDmntInitialized = False,
     bootUnlock = \<lparr>bwServicesReady = True, bwReason = ''armed'', bwSource = ''file'',
       bwConfig = bootUnlockConfigDefaults\<lparr>buFirstDelayMs := 0, buMaxRounds := 1, buWakeDelayMs := 0\<rparr>,
       bwArmedAtStart = False, bwArmCleared = False, bwPhase = BootUnlockPhaseIdle, bwStartTick = 0, bwEndTick = 0,
       bwRounds = 0, bwWakePresses = 0, bwHomePresses = 0, bwHomeSent = 0, bwApplicationRuns = 0, bwVerdicts = []\<rparr>,
     bootUnlockMutexReady = True, bootUnlockThreadCreated = True, bootUnlockRequested = True\<rparr>"

lemma dark_worker_clicks:
  "clicks (mcTrace (snd (run_state (bootUnlockWorker darkKernel (\<lambda>_. ScreenLockOne) True
     \<lparr>imBlocksW = 0, imBlocksH = 0, imComplete = False, imMean = []\<rparr>) darkMachine))) = 1"
  by code_simp

lemma bootUnlockWorker_looks_first_witness:
  "wp (bootUnlockWorker darkKernel (\<lambda>_. ScreenLockOne) True
       \<lparr>imBlocksW = 0, imBlocksH = 0, imComplete = False, imMean = []\<rparr>) darkMachine
     (\<lambda>_ m'. pressesJustified (\<lambda>_. ScreenLockOne) (mcTrace m') \<and> clicks (mcTrace m') = 1)"
  by (rule wp_conj [OF bootUnlockWorker_looks_first], simp add: darkMachine_def, simp only: wp_run dark_worker_clicks)

subsection \<open>What is reported at boot\<close>

text \<open>C38: Once the card is mounted, what \<open>bootUnlockInit\<close> leaves as the reason is one of five, whatever the
  configuration file holds: the reason set for a file that cannot be read or parsed is always overwritten, although
  the code means the report to say so.\<close>

theorem bootUnlockInit_reason:
  "wp (bootUnlockInit K file True) m (\<lambda>_ m'.
     bwReason (bootUnlock m') \<in> {''mode-every-boot'', ''armed'', ''not-armed'', ''mode-off'', ''thread-start-failed''})"
proof -
  let ?P = "\<lambda>m. bwReason (bootUnlock m) \<in> {''mode-every-boot'', ''armed'', ''not-armed'', ''mode-off'', ''thread-start-failed''}"
  let ?set = "\<lambda>armed mode. case mode of
            BootUnlockModeEveryBoot \<Rightarrow> do { _ \<leftarrow> setReason ''mode-every-boot''; State_Monad.return True }
          | BootUnlockModeArmed \<Rightarrow> do {
              _ \<leftarrow> setReason (if armed then ''armed'' else ''not-armed'');
              State_Monad.return armed
            }
          | BootUnlockModeOff \<Rightarrow> do { _ \<leftarrow> setReason ''mode-off''; State_Monad.return False }"
  have sets: "wp (?set armed mode) m' (\<lambda>_. ?P)" for armed mode m'
    by (cases mode) (simp_all add: setReason_def)
  have keep: "obeys ?P (svc K c)" "obeys ?P (svcResult K c)" "obeys ?P (setReason ''thread-start-failed'')"
      "(\<And>b. bwReason (f b) = bwReason b) \<Longrightarrow> obeys ?P (setBoot f)" for c f
    by (simp_all add: obeys_def setReason_def)
  have fields: "obeys ?P (State (\<lambda>m. (bootUnlockThreadCreated m, m)))"
      "obeys ?P (State (\<lambda>m. ((), m\<lparr>bootUnlockThreadCreated := b\<rparr>)))"
      "obeys ?P (State (\<lambda>m. ((), m\<lparr>bootUnlockRequested := b\<rparr>)))" for b
    by (simp_all add: obeys_def wp_def)
  have start: "obeys ?P (bootUnlockStartWorker K)"
    unfolding bootUnlockStartWorker_def by (intro obey keep fields) simp_all
  have rest: "obeys ?P (if \<not> wanted
       then (if armed \<and> mode = BootUnlockModeOff
             then do {
               rc \<leftarrow> svcResult K (RemoveFile BOOT_UNLOCK_ARM_PATH);
               setBoot (\<lambda>b. b\<lparr>bwArmCleared := (rc = 0)\<rparr>)
             }
             else skip)
       else do {
         _ \<leftarrow> State (\<lambda>m. ((), m\<lparr>bootUnlockRequested := True\<rparr>));
         started \<leftarrow> bootUnlockStartWorker K;
         if started then skip else setReason ''thread-start-failed''
       })" for wanted armed mode
    by (intro obey keep fields start) simp_all
  show ?thesis
    unfolding bootUnlockInit_def not_True_eq_False if_False
    by (rule wp_any, rule wp_any, rule wp_any, rule wp_any, rule wp_any, rule wp_any,
      subst wp_bind, rule wp_mono [OF sets], rule obeysD [OF rest])
qed

end
