(* ===== verification/DebugWatch.thy ===== *)
theory DebugWatch
  imports HwBp DebugProcess HitRing
begin

text \<open>
  \<open>debug_watch.c\<close>: the session behind a hardware watchpoint.  Its thread attaches to the application, arms the
  registers, resumes it and then collects hits until it is stopped; its cleanup stops the application, clears the
  registers and detaches.  \<open>watchState.active\<close> is \<open>mcWatchActive\<close>, which the other components read.

  The other thread of the session is the client, which can ask for a stop at any time: \<open>stopBy\<close> says
  whether it has done so by the time of a given trace.  The mutex only guards single reads and writes of the state.
  The registers of a thread come as the reply's values: \<open>pc\<close>, \<open>lr\<close>, \<open>sp\<close>, \<open>fp\<close>, then the 29 general ones.
\<close>

definition DEBUG_WATCH_EVENT_TIMEOUT_NS :: int where "DEBUG_WATCH_EVENT_TIMEOUT_NS = 20000000"
definition DEBUG_WATCH_DEFAULT_DURATION_SECONDS :: u64 where "DEBUG_WATCH_DEFAULT_DURATION_SECONDS = 60"
definition DEBUG_WATCH_RING_MAX :: u32 where "DEBUG_WATCH_RING_MAX = 8"

record DebugWatchConfig =
  wcAddress :: u64
  wcSize :: u64
  wcMaxHits :: u32
  wcDurationSeconds :: u64
  wcRingSize :: u32
  wcFilterEnabled :: bool
  wcFilterLow :: u64
  wcFilterHigh :: u64

record DebugWatchHit =
  whX :: "u64 list"
  whSp :: u64
  whPc :: u64
  whDataAddress :: u64
  whThreadId :: u64
  whInsn :: "u8 list"
  whInsnBytes :: u32
  whFpStack :: "u8 list"
  whFpStackBytes :: u32
  whSpStack :: "u8 list"
  whSpStackBytes :: u32

definition zeroHit :: DebugWatchHit where
  "zeroHit = \<lparr>whX = replicate 31 0, whSp = 0, whPc = 0, whDataAddress = 0, whThreadId = 0,
     whInsn = replicate 12 0, whInsnBytes = 0, whFpStack = replicate 0x200 0, whFpStackBytes = 0,
     whSpStack = replicate 0x100 0, whSpStackBytes = 0\<rparr>"

record DebugWatchState =
  wsThreadStarted :: bool
  wsArmed :: bool
  wsEverArmed :: bool
  wsStopRequested :: bool
  wsHasHit :: bool
  wsProcessId :: u64
  wsWatchAddress :: u64
  wsWatchSize :: u64
  wsMaxHits :: u32
  wsHitCount :: u32
  wsCtxSlot :: u32
  wsWpSlot :: u32
  wsDurationSeconds :: u64
  wsStartedTick :: u64
  wsRing :: "DebugWatchHit HitRing"
  wsFilterEnabled :: bool
  wsFilterLow :: u64
  wsFilterHigh :: u64
  wsLastPc :: u64
  wsLastLr :: u64
  wsLastSp :: u64
  wsLastDataAddress :: u64
  wsLastThreadId :: u64
  wsLastHit :: DebugWatchHit
  wsLastError :: res
  wsStage :: string
  wsHint :: string

record WatchMachine = Machine +
  watchState :: DebugWatchState

definition getWatch :: "(DebugWatchState \<Rightarrow> 'a) \<Rightarrow> (WatchMachine, 'a) state" where
  "getWatch f = State (\<lambda>m. (f (watchState m), m))"

definition setWatch :: "(DebugWatchState \<Rightarrow> DebugWatchState) \<Rightarrow> (WatchMachine, unit) state" where
  "setWatch f = State (\<lambda>m. ((), m\<lparr>watchState := f (watchState m)\<rparr>))"

definition watchActive :: "(WatchMachine, bool) state" where
  "watchActive = State (\<lambda>m. (mcWatchActive m, m))"

definition setWatchActive :: "bool \<Rightarrow> (WatchMachine, unit) state" where
  "setWatchActive b = State (\<lambda>m. ((), m\<lparr>mcWatchActive := b\<rparr>))"

subsection \<open>The state of the session\<close>

definition setError :: "string \<Rightarrow> res \<Rightarrow> (WatchMachine, unit) state" where
  "setError stage rc = setWatch (\<lambda>w. w\<lparr>wsLastError := rc, wsStage := take 23 stage, wsHint := []\<rparr>)"

definition setStage :: "string \<Rightarrow> (WatchMachine, unit) state" where
  "setStage stage = setWatch (\<lambda>w. w\<lparr>wsStage := take 23 stage, wsHint := []\<rparr>)"

definition setDebugHandleInUseHint :: "(WatchMachine, unit) state" where
  "setDebugHandleInUseHint = setWatch (\<lambda>w. w\<lparr>wsHint :=
     take 159 (''debug handle still owned by another debugger (e.g. gdbstub); '' @
       ''gen1/dmnt:cht conflicts are auto-closed, so check that '' @
       ''enable_standalone_gdbstub is disabled'')\<rparr>)"

definition recordHit :: "DebugWatchHit \<Rightarrow> (WatchMachine, unit) state" where
  "recordHit hit = setWatch (\<lambda>w. w\<lparr>
     wsLastHit := hit,
     wsRing := ringPush (wsRing w) hit,
     wsHasHit := True,
     wsLastPc := whPc hit,
     wsLastLr := whX hit ! 30,
     wsLastSp := whSp hit,
     wsLastDataAddress := whDataAddress hit,
     wsLastThreadId := whThreadId hit,
     wsHitCount := wsHitCount w + 1\<rparr>)"

definition passesFilter :: "DebugWatchState \<Rightarrow> DebugWatchHit \<Rightarrow> bool" where
  "passesFilter w hit \<longleftrightarrow>
    (if wsFilterEnabled w then whPc hit \<ge> wsFilterLow w \<and> whPc hit \<le> wsFilterHigh w else True)"

definition hitPassesFilter :: "DebugWatchHit \<Rightarrow> (WatchMachine, bool) state" where
  "hitPassesFilter hit = getWatch (\<lambda>w. passesFilter w hit)"

definition stopRequested :: "(Trace \<Rightarrow> bool) \<Rightarrow> (WatchMachine, bool) state" where
  "stopRequested stopBy = State (\<lambda>m. (wsStopRequested (watchState m) \<or> stopBy (mcTrace m), m))"

definition durationExpired :: "Kernel \<Rightarrow> (WatchMachine, bool) state" where
  "durationExpired K = do {
     duration \<leftarrow> getWatch wsDurationSeconds;
     started \<leftarrow> getWatch wsStartedTick;
     if duration = 0 then State_Monad.return False
     else do {
       tick \<leftarrow> svc K GetSystemTick;
       freq \<leftarrow> svc K GetSystemTickFreq;
       State_Monad.return (rpValue tick - started \<ge> rpValue freq * duration)
     }
   }"

definition hitLimitReached :: "(WatchMachine, bool) state" where
  "hitLimitReached = getWatch (\<lambda>w. ringSize (wsRing w) = 0 \<and> wsHitCount w \<ge> wsMaxHits w)"

subsection \<open>Attaching\<close>

text \<open>The events behind one wait: whether the process has exited and whether the debugger is attached.\<close>

fun watchInitialEvents :: "Kernel \<Rightarrow> nat \<Rightarrow> u32 \<Rightarrow> bool \<Rightarrow> (WatchMachine, bool \<times> bool) state" where
  "watchInitialEvents K 0 debugHandle attachedSeen = do { _ \<leftarrow> outOfFuel; State_Monad.return (False, attachedSeen) }"
| "watchInitialEvents K (Suc fuel) debugHandle attachedSeen = do {
     r \<leftarrow> svc K (GetDebugEvent debugHandle);
     if R_FAILED (rpResult r) then State_Monad.return (False, attachedSeen)
     else if evType (rpEvent r) = EventExitProcess then State_Monad.return (True, attachedSeen)
     else watchInitialEvents K fuel debugHandle
            (if evType (rpEvent r) = EventException \<and> evAttached (rpEvent r) then True else attachedSeen)
   }"

text \<open>The result, and whether the process has exited.  The code behind this loop is never reached.\<close>

fun watchDrainLoop :: "Kernel \<Rightarrow> nat \<Rightarrow> u32 \<Rightarrow> u64 \<Rightarrow> bool \<Rightarrow> (WatchMachine, res \<times> bool) state" where
  "watchDrainLoop K 0 debugHandle deadline attachedSeen = do { _ \<leftarrow> outOfFuel; State_Monad.return (0, False) }"
| "watchDrainLoop K (Suc fuel) debugHandle deadline attachedSeen = do {
     rc \<leftarrow> svcResult K (WaitSynchronization debugHandle DEBUG_WATCH_EVENT_TIMEOUT_NS);
     if rc = knTimedOut K
     then if attachedSeen then State_Monad.return (0, False)
          else do {
            tick \<leftarrow> svc K GetSystemTick;
            if rpValue tick \<ge> deadline then State_Monad.return (0, False)
            else watchDrainLoop K fuel debugHandle deadline attachedSeen
          }
     else if R_FAILED rc then State_Monad.return (rc, False)
     else do {
       (exited, attachedSeen) \<leftarrow> watchInitialEvents K fuel debugHandle attachedSeen;
       if exited then State_Monad.return (0, True)
       else watchDrainLoop K fuel debugHandle deadline attachedSeen
     }
   }"

definition watchDrainInitialEvents :: "Kernel \<Rightarrow> nat \<Rightarrow> u32 \<Rightarrow> (WatchMachine, res \<times> bool) state" where
  "watchDrainInitialEvents K fuel debugHandle = do {
     tick \<leftarrow> svc K GetSystemTick;
     freq \<leftarrow> svc K GetSystemTickFreq;
     watchDrainLoop K fuel debugHandle (rpValue tick + rpValue freq) False
   }"

subsection \<open>A hit\<close>

text \<open>One window of memory: its bytes and how many, 0 when it could not be read.\<close>

definition readWindow :: "Kernel \<Rightarrow> u32 \<Rightarrow> u64 \<Rightarrow> nat \<Rightarrow> (WatchMachine, u8 list \<times> u32) state" where
  "readWindow K debugHandle address n = do {
     r \<leftarrow> svc K (ReadDebugProcessMemory debugHandle address (of_nat n));
     State_Monad.return (if R_SUCCEEDED (rpResult r) then (bytesRead n r, of_nat n) else (replicate n 0, 0))
   }"

definition captureHit :: "Kernel \<Rightarrow> u32 \<Rightarrow> DebugEvent \<Rightarrow> (WatchMachine, DebugWatchHit) state" where
  "captureHit K debugHandle event = (
     let hit = zeroHit\<lparr>whDataAddress := evAddress event, whThreadId := evThread event\<rparr>
     in do {
       r \<leftarrow> svc K (GetDebugThreadContext debugHandle (evThread event));
       if R_FAILED (rpResult r) then State_Monad.return hit
       else (let regs = take 33 (rpValues r @ replicate 33 0);
                 hit = hit\<lparr>whX := drop 4 regs @ [regs ! 3, regs ! 1], whSp := regs ! 2, whPc := regs ! 0\<rparr>
             in do {
               (insn, insnBytes) \<leftarrow>
                 (if whPc hit \<ge> 8 then readWindow K debugHandle (whPc hit - 8) 12
                  else State_Monad.return (replicate 12 0, 0));
               (fpStack, fpStackBytes) \<leftarrow>
                 (if whX hit ! 29 \<noteq> 0 then readWindow K debugHandle (whX hit ! 29) 0x200
                  else State_Monad.return (replicate 0x200 0, 0));
               (spStack, spStackBytes) \<leftarrow>
                 (if whSp hit \<noteq> 0 then readWindow K debugHandle (whSp hit) 0x100
                  else State_Monad.return (replicate 0x100 0, 0));
               State_Monad.return (hit\<lparr>whInsn := insn, whInsnBytes := insnBytes, whFpStack := fpStack,
                 whFpStackBytes := fpStackBytes, whSpStack := spStack, whSpStackBytes := spStackBytes\<rparr>)
             })
     })"

subsection \<open>The thread\<close>

text \<open>The variables of \<open>debugWatchThreadMain\<close>, at the label \<open>cleanup\<close>.\<close>

record WatchLocals =
  wlHandle :: u32
  wlCtxSlot :: u32
  wlWpSlot :: u32
  wlAttached :: bool
  wlResumed :: bool
  wlProcessExited :: bool
  wlEventPending :: bool
  wlCtxArmed :: bool
  wlDataArmed :: bool
  wlRc :: res

definition watchLocals :: "Kernel \<Rightarrow> WatchLocals" where
  "watchLocals K = \<lparr>wlHandle = knInvalidHandle K, wlCtxSlot = 0, wlWpSlot = 0, wlAttached = False,
     wlResumed = False, wlProcessExited = False, wlEventPending = False, wlCtxArmed = False, wlDataArmed = False,
     wlRc = 0\<rparr>"

text \<open>A failed step before \<open>cleanup\<close>.\<close>

definition watchFail :: "WatchLocals \<Rightarrow> string \<Rightarrow> res \<Rightarrow> (WatchMachine, WatchLocals) state" where
  "watchFail l stage rc = do { _ \<leftarrow> setError stage rc; State_Monad.return (l\<lparr>wlRc := rc\<rparr>) }"

datatype WatchEvents = WatchDrained | WatchExited | WatchLimit

text \<open>The events behind one wait, and \<open>eventPending\<close> after them.\<close>

fun watchEvents :: "Kernel \<Rightarrow> nat \<Rightarrow> u32 \<Rightarrow> bool \<Rightarrow> (WatchMachine, WatchEvents \<times> bool) state" where
  "watchEvents K 0 debugHandle eventPending = do { _ \<leftarrow> outOfFuel; State_Monad.return (WatchDrained, eventPending) }"
| "watchEvents K (Suc fuel) debugHandle eventPending = do {
     r \<leftarrow> svc K (GetDebugEvent debugHandle);
     if R_FAILED (rpResult r) then State_Monad.return (WatchDrained, eventPending)
     else if evType (rpEvent r) = EventExitProcess
     then do { _ \<leftarrow> setStage ''exitProcess''; State_Monad.return (WatchExited, True) }
     else if evType (rpEvent r) = EventException \<and> evDataBreak (rpEvent r)
     then do {
       hit \<leftarrow> captureHit K debugHandle (rpEvent r);
       passes \<leftarrow> hitPassesFilter hit;
       if passes
       then do {
         _ \<leftarrow> recordHit hit;
         done' \<leftarrow> hitLimitReached;
         if done' then do { _ \<leftarrow> setStage ''hitsReached''; State_Monad.return (WatchLimit, True) }
         else watchEvents K fuel debugHandle True
       }
       else watchEvents K fuel debugHandle True
     }
     else watchEvents K fuel debugHandle True
   }"

fun watchLoop :: "Kernel \<Rightarrow> (Trace \<Rightarrow> bool) \<Rightarrow> nat \<Rightarrow> WatchLocals \<Rightarrow> (WatchMachine, WatchLocals) state" where
  "watchLoop K stopBy 0 l = do { _ \<leftarrow> outOfFuel; State_Monad.return (l\<lparr>wlRc := 0\<rparr>) }"
| "watchLoop K stopBy (Suc fuel) l = do {
     stop \<leftarrow> stopRequested stopBy;
     expired \<leftarrow> (if stop then State_Monad.return True else durationExpired K);
     if expired then State_Monad.return (l\<lparr>wlRc := 0\<rparr>)
     else do {
       rc \<leftarrow> svcResult K (WaitSynchronization (wlHandle l) DEBUG_WATCH_EVENT_TIMEOUT_NS);
       if rc = knTimedOut K then watchLoop K stopBy fuel l
       else if R_FAILED rc
       then do { _ \<leftarrow> setError ''waitEvent'' rc; State_Monad.return (l\<lparr>wlRc := 0\<rparr>) }
       else do {
         (events, eventPending) \<leftarrow> watchEvents K fuel (wlHandle l) (wlEventPending l);
         (case events of
            WatchExited \<Rightarrow> State_Monad.return (l\<lparr>wlEventPending := eventPending, wlProcessExited := True, wlRc := 0\<rparr>)
          | WatchLimit \<Rightarrow> State_Monad.return (l\<lparr>wlEventPending := eventPending, wlRc := 0\<rparr>)
          | WatchDrained \<Rightarrow> do {
              rc \<leftarrow> debugHwBpContinueAll K (wlHandle l);
              if R_FAILED rc
              then do {
                _ \<leftarrow> setError ''continue'' rc;
                State_Monad.return (l\<lparr>wlEventPending := eventPending, wlRc := 0\<rparr>)
              }
              else watchLoop K stopBy fuel (l\<lparr>wlEventPending := False\<rparr>)
            })
       }
     }
   }"

text \<open>Once the data register is armed: the resume and the hits.\<close>

definition watchRun :: "Kernel \<Rightarrow> (Trace \<Rightarrow> bool) \<Rightarrow> nat \<Rightarrow> WatchLocals \<Rightarrow> (WatchMachine, WatchLocals) state" where
  "watchRun K stopBy fuel l = do {
     rc \<leftarrow> debugHwBpContinueAll K (wlHandle l);
     if R_FAILED rc then watchFail l ''resume'' rc
     else do {
       tick \<leftarrow> svc K GetSystemTick;
       _ \<leftarrow> setWatch (\<lambda>w. w\<lparr>wsArmed := True, wsEverArmed := True, wsStartedTick := rpValue tick,
              wsLastError := 0, wsStage := [], wsHint := []\<rparr>);
       watchLoop K stopBy fuel (l\<lparr>wlResumed := True\<rparr>)
     }
   }"

text \<open>Behind the attach: the initial events and the registers.\<close>

definition watchArm :: "Kernel \<Rightarrow> (Trace \<Rightarrow> bool) \<Rightarrow> nat \<Rightarrow> WatchLocals \<Rightarrow> (WatchMachine, WatchLocals) state" where
  "watchArm K stopBy fuel l = do {
     (rc, processExited) \<leftarrow> watchDrainInitialEvents K fuel (wlHandle l);
     if R_FAILED rc then watchFail l ''drainInitial'' rc
     else if processExited
     then do {
       _ \<leftarrow> setStage ''exitProcess'';
       State_Monad.return (l\<lparr>wlProcessExited := True, wlRc := 0\<rparr>)
     }
     else do {
       (rc, _, ctxSlot) \<leftarrow> debugHwBpProbeContextSlots K;
       if R_FAILED rc then watchFail l ''probeContext'' rc
       else do {
         (rc, wpSlot) \<leftarrow> debugHwBpProbeDataRegister K;
         if R_FAILED rc then watchFail (l\<lparr>wlCtxSlot := ctxSlot\<rparr>) ''probeData'' rc
         else (let l = l\<lparr>wlCtxSlot := ctxSlot, wlWpSlot := wpSlot\<rparr>
               in do {
                 _ \<leftarrow> setWatch (\<lambda>w. w\<lparr>wsCtxSlot := ctxSlot, wsWpSlot := wpSlot\<rparr>);
                 rc \<leftarrow> debugHwBpSetContext K ctxSlot (wlHandle l);
                 if R_FAILED rc then watchFail l ''setContextBp'' rc
                 else do {
                   (address, size') \<leftarrow> getWatch (\<lambda>w. (wsWatchAddress w, wsWatchSize w));
                   rc \<leftarrow> debugHwBpSetData K wpSlot ctxSlot address size' False True;
                   if R_FAILED rc then watchFail (l\<lparr>wlCtxArmed := True\<rparr>) ''setDataBp'' rc
                   else watchRun K stopBy fuel (l\<lparr>wlCtxArmed := True, wlDataArmed := True\<rparr>)
                 }
               })
       }
     }
   }"

definition watchBody :: "Kernel \<Rightarrow> (Trace \<Rightarrow> bool) \<Rightarrow> nat \<Rightarrow> (WatchMachine, WatchLocals) state" where
  "watchBody K stopBy fuel = do {
     r \<leftarrow> svc K GetApplicationProcessId;
     if R_FAILED (rpResult r) \<or> rpValue r = 0
     then watchFail (watchLocals K) ''pmdmnt'' (if R_SUCCEEDED (rpResult r) then knNotFound K else rpResult r)
     else do {
       d \<leftarrow> svc K (DebugActiveProcess (rpValue r));
       if R_FAILED (rpResult d)
       then do {
         l \<leftarrow> watchFail (watchLocals K) ''debugActiveProcess'' (rpResult d);
         _ \<leftarrow> (if rpResult d = knAlreadyExists K then setDebugHandleInUseHint else skip);
         State_Monad.return l
       }
       else do {
         _ \<leftarrow> setWatch (\<lambda>w. w\<lparr>wsProcessId := rpValue r\<rparr>);
         watchArm K stopBy fuel ((watchLocals K)\<lparr>wlHandle := ucast (rpValue d), wlAttached := True\<rparr>)
       }
     }
   }"

text \<open>\<open>cleanupRc\<close> keeps the first error.\<close>

definition watchCleanup :: "Kernel \<Rightarrow> nat \<Rightarrow> WatchLocals \<Rightarrow> (WatchMachine, unit) state" where
  "watchCleanup K fuel l = do {
     quiesceRc \<leftarrow> (if wlAttached l \<and> \<not> wlProcessExited l
                  then debugHwBpQuiesce K fuel (wlHandle l) (\<not> wlResumed l \<or> wlEventPending l)
                  else State_Monad.return 0);
     clearRc \<leftarrow> (if wlCtxArmed l then debugHwBpClearAllCores K (wlCtxSlot l) else State_Monad.return 0);
     cleanupRc \<leftarrow> State_Monad.return (if R_FAILED clearRc \<and> R_SUCCEEDED quiesceRc then clearRc else quiesceRc);
     clearRc \<leftarrow> (if wlDataArmed l then debugHwBpClearAllCores K (wlWpSlot l) else State_Monad.return 0);
     cleanupRc \<leftarrow> State_Monad.return (if R_FAILED clearRc \<and> R_SUCCEEDED cleanupRc then clearRc else cleanupRc);
     _ \<leftarrow> (if wlAttached l \<and> wlHandle l \<noteq> knInvalidHandle K
           then do { _ \<leftarrow> svc K (CloseHandle (wlHandle l)); skip } else skip);
     _ \<leftarrow> setWatchActive False;
     _ \<leftarrow> setWatch (\<lambda>w. w\<lparr>wsArmed := False, wsStopRequested := False\<rparr>);
     _ \<leftarrow> setWatch (\<lambda>w. if R_FAILED cleanupRc \<and> wsLastError w = 0
                        then w\<lparr>wsLastError := cleanupRc, wsStage := ''cleanup''\<rparr> else w);
     setWatch (\<lambda>w. if R_FAILED (wlRc l) \<and> wsLastError w = 0 then w\<lparr>wsLastError := wlRc l\<rparr> else w)
   }"

definition debugWatchThreadMain :: "Kernel \<Rightarrow> (Trace \<Rightarrow> bool) \<Rightarrow> nat \<Rightarrow> (WatchMachine, unit) state" where
  "debugWatchThreadMain K stopBy fuel = do { l \<leftarrow> watchBody K stopBy fuel; watchCleanup K fuel l }"

subsection \<open>The client\<close>

definition zeroWatch :: DebugWatchState where
  "zeroWatch = \<lparr>wsThreadStarted = False, wsArmed = False, wsEverArmed = False, wsStopRequested = False,
     wsHasHit = False, wsProcessId = 0, wsWatchAddress = 0, wsWatchSize = 0, wsMaxHits = 0, wsHitCount = 0,
     wsCtxSlot = 0, wsWpSlot = 0, wsDurationSeconds = 0, wsStartedTick = 0,
     wsRing = ringEmpty 0 (replicate (unat DEBUG_WATCH_RING_MAX) zeroHit), wsFilterEnabled = False, wsFilterLow = 0,
     wsFilterHigh = 0, wsLastPc = 0, wsLastLr = 0, wsLastSp = 0, wsLastDataAddress = 0, wsLastThreadId = 0,
     wsLastHit = zeroHit, wsLastError = 0, wsStage = [], wsHint = []\<rparr>"

definition debugWatchInitialize :: "(WatchMachine, unit) state" where
  "debugWatchInitialize = do {
     _ \<leftarrow> setWatchActive False;
     setWatch (\<lambda>_. zeroWatch\<lparr>wsDurationSeconds := DEBUG_WATCH_DEFAULT_DURATION_SECONDS\<rparr>)
   }"

definition watchReset :: "DebugWatchConfig \<Rightarrow> DebugWatchState \<Rightarrow> DebugWatchState" where
  "watchReset config w = w\<lparr>
     wsWatchAddress := wcAddress config,
     wsWatchSize := wcSize config,
     wsMaxHits := (if wcMaxHits config > 0 then wcMaxHits config else 1),
     wsDurationSeconds := wcDurationSeconds config,
     wsStartedTick := 0,
     wsHitCount := 0,
     wsRing := ringEmpty (if wcRingSize config > DEBUG_WATCH_RING_MAX then DEBUG_WATCH_RING_MAX
                          else wcRingSize config) (ringSlots (wsRing w)),
     wsFilterEnabled := wcFilterEnabled config,
     wsFilterLow := wcFilterLow config,
     wsFilterHigh := wcFilterHigh config,
     wsHasHit := False,
     wsLastPc := 0, wsLastLr := 0, wsLastSp := 0, wsLastDataAddress := 0, wsLastThreadId := 0,
     wsProcessId := 0, wsCtxSlot := 0, wsWpSlot := 0,
     wsLastError := 0, wsStage := [], wsHint := [],
     wsStopRequested := False, wsArmed := False, wsEverArmed := False, wsThreadStarted := True\<rparr>"

text \<open>What \<open>threadWaitForExit\<close> and \<open>threadClose\<close> do to an earlier thread.\<close>

definition reapWatchThread :: "Kernel \<Rightarrow> (WatchMachine, unit) state" where
  "reapWatchThread K = do { _ \<leftarrow> svc K ThreadWaitForExit; _ \<leftarrow> svc K ThreadClose; skip }"

definition watchRefuse :: "res \<Rightarrow> (WatchMachine, bool) state" where
  "watchRefuse rc = do { _ \<leftarrow> setWatch (\<lambda>w. w\<lparr>wsLastError := rc\<rparr>); State_Monad.return False }"

definition debugWatchStart :: "Kernel \<Rightarrow> DebugWatchConfig option \<Rightarrow> (WatchMachine, bool) state" where
  "debugWatchStart K config =
    (case config of
       None \<Rightarrow> State_Monad.return False
     | Some config \<Rightarrow> do {
         owned \<leftarrow> State (\<lambda>m. (mcTraceActive m \<or> mcMultiTraceActive m, m));
         if owned then watchRefuse (knOwnedByAnother K)
         else do {
           active \<leftarrow> watchActive;
           if active then State_Monad.return False
           else do {
             started \<leftarrow> getWatch wsThreadStarted;
             _ \<leftarrow> (if started
                   then do { _ \<leftarrow> reapWatchThread K; setWatch (\<lambda>w. w\<lparr>wsThreadStarted := False\<rparr>) }
                   else skip);
             if wcSize config = 0 \<or> \<not> debugHwBpIsValidWatchPoint (wcAddress config) (wcSize config)
             then watchRefuse (knBadInput K)
             else do {
               _ \<leftarrow> setWatch (watchReset config);
               _ \<leftarrow> setWatchActive True;
               rc \<leftarrow> svcResult K ThreadCreate;
               if R_FAILED rc
               then do {
                 _ \<leftarrow> setWatchActive False;
                 _ \<leftarrow> setWatch (\<lambda>w. w\<lparr>wsThreadStarted := False\<rparr>);
                 watchRefuse rc
               }
               else do {
                 rc \<leftarrow> svcResult K ThreadStart;
                 if R_FAILED rc
                 then do {
                   _ \<leftarrow> setWatchActive False;
                   _ \<leftarrow> setWatch (\<lambda>w. w\<lparr>wsThreadStarted := False, wsLastError := rc\<rparr>);
                   _ \<leftarrow> svc K ThreadClose;
                   State_Monad.return False
                 }
                 else State_Monad.return True
               }
             }
           }
         }
       })"

definition debugWatchStop :: "Kernel \<Rightarrow> (WatchMachine, unit) state" where
  "debugWatchStop K = do {
     active \<leftarrow> watchActive;
     started \<leftarrow> getWatch wsThreadStarted;
     _ \<leftarrow> setWatch (\<lambda>w. w\<lparr>wsStopRequested := True\<rparr>);
     if \<not> (active \<or> started) then skip
     else do {
       _ \<leftarrow> reapWatchThread K;
       _ \<leftarrow> setWatchActive False;
       setWatch (\<lambda>w. w\<lparr>wsThreadStarted := False, wsArmed := False, wsStopRequested := False\<rparr>)
     }
   }"

record DebugWatchStatus =
  wtActive :: bool
  wtStale :: bool
  wtMemoryBlocked :: bool
  wtState :: DebugWatchState

definition debugWatchGetStatus :: "(WatchMachine, DebugWatchStatus) state" where
  "debugWatchGetStatus = do {
     active \<leftarrow> watchActive;
     w \<leftarrow> getWatch (\<lambda>w. w);
     State_Monad.return \<lparr>wtActive = active,
       wtStale = (\<not> active \<and> (wsWatchAddress w \<noteq> 0 \<or> wsHitCount w \<noteq> 0 \<or> wsHasHit w)),
       wtMemoryBlocked = active, wtState = w\<rparr>
   }"

definition debugWatchGetRingHit :: "u32 \<Rightarrow> (WatchMachine, DebugWatchHit option) state" where
  "debugWatchGetRingHit index = getWatch (\<lambda>w. watchRingGet (wsRing w) index)"

definition debugWatchGetLastHit :: "(WatchMachine, DebugWatchHit option) state" where
  "debugWatchGetLastHit = getWatch (\<lambda>w. if wsHasHit w then Some (wsLastHit w) else None)"

definition debugWatchIsActive :: "(WatchMachine, bool) state" where
  "debugWatchIsActive = watchActive"

text \<open>The result, and the base of the main module: of the second of two modules when there are two.\<close>

definition debugWatchResolveMainBase :: "Kernel \<Rightarrow> (WatchMachine, res \<times> u64) state" where
  "debugWatchResolveMainBase K = do {
     r \<leftarrow> svc K GetApplicationProcessId;
     if R_FAILED (rpResult r) \<or> rpValue r = 0
     then State_Monad.return (if R_FAILED (rpResult r) then rpResult r else knNotFound K, 0)
     else do {
       modules \<leftarrow> svc K (GetProcessModules (rpValue r) 2);
       if R_FAILED (rpResult modules) \<or> sint (ucast (rpValue modules) :: 32 word) \<le> 0
       then State_Monad.return (if R_FAILED (rpResult modules) then rpResult modules else knNotFound K, 0)
       else State_Monad.return (0, (rpValues modules @ [0, 0]) !
              (if sint (ucast (rpValue modules) :: 32 word) > 1 then 1 else 0))
     }
   }"

end
