(* ===== verification/HwBpClean.thy ===== *)
theory HwBpClean
  imports HwBpRegisters DebugHandles
begin

text \<open>
  What the operations on the breakpoint registers leave behind, for the sessions that use them: which registers may
  still hold a breakpoint after each of them, and that none of them opens or closes a handle.
\<close>

subsection \<open>Handles\<close>

lemma neutral_hwbp [neutral_steps]:
  "neutral (debugHwBpContinueAll K h)" "neutral (debugHwBpProbeDataRegister K)"
  "neutral (debugHwBpSetData K slot ctx address n r w)"
  unfolding debugHwBpContinueAll_def debugHwBpProbeDataRegister_def debugHwBpSetData_def debugHwBpSetAllCores_def Let_def
  by (intro neutral_steps quiet; simp add: quietCall_def)+

lemma neutral_quiesce [neutral_steps]: "neutral (debugHwBpQuiesce K fuel h pending)"
proof -
  have drain: "neutral (drainEvents K n h s)" for n s
    by (induction n arbitrary: s) (auto simp: quietCall_def intro!: neutral_steps quiet)
  have "neutral (quiesceLoop K n h d)" for n d
    by (induction n) (auto simp: quietCall_def intro!: neutral_steps quiet drain)
  with drain show ?thesis
    unfolding debugHwBpQuiesce_def by (intro neutral_steps quiet) (simp_all add: quietCall_def)
qed

lemma neutral_clearRegisters [neutral_steps]: "neutral (debugHwBpClearRegistersAllCores K rs)"
  unfolding debugHwBpClearRegistersAllCores_def Let_def by (intro neutral_steps)

lemma handles_weaken:
  "handles p R d \<Longrightarrow> (\<And>a. R a \<Longrightarrow> S a \<and> e a = d a) \<Longrightarrow> handles p S e"
  unfolding handles_def by (fastforce elim!: wp_mono)

subsection \<open>Registers\<close>

text \<open>A register has taken a write.\<close>

definition registerTaken :: "u32 \<Rightarrow> Trace \<Rightarrow> bool" where
  "registerTaken reg t \<longleftrightarrow> list_ex (\<lambda>(c, r). rpResult r = 0 \<and>
     (case c of SetHardwareBreakPoint reg' control v \<Rightarrow> reg' = reg | _ \<Rightarrow> False)) t"

lemma registerTaken_simps [simp]:
  "\<not> registerTaken reg []"
  "registerTaken reg ((c, r) # t) \<longleftrightarrow> (rpResult r = 0 \<and>
     (case c of SetHardwareBreakPoint reg' control v \<Rightarrow> reg' = reg | _ \<Rightarrow> False)) \<or> registerTaken reg t"
  by (simp_all add: registerTaken_def)

lemma known_taken: "registersOf t core reg \<noteq> None \<Longrightarrow> registerTaken reg t"
  by (induction t) (auto split: Call.splits if_splits)

definition allTaken :: "u32 set \<Rightarrow> 'a Machine_scheme \<Rightarrow> bool" where
  "allTaken rs m \<longleftrightarrow> (\<forall>reg\<in>rs. registerTaken reg (mcTrace m))"

interpretation taken_calls: call_invariant K "allTaken rs" for K rs
  by unfold_locales (simp_all add: obeys_def allTaken_def)

text \<open>What the kernel has to allow for a register to be cleared for certain: the thread can be moved to each of the
  four cores, and a register that has taken a write can be cleared, on any core.\<close>

definition kernelMoves :: "Kernel \<Rightarrow> bool" where
  "kernelMoves K \<longleftrightarrow> list_all (movesTo K) [0..<DEBUG_HWBP_CORE_COUNT]"

definition kernelClears :: "Kernel \<Rightarrow> bool" where
  "kernelClears K \<longleftrightarrow>
     (\<forall>t reg. registerTaken reg t \<longrightarrow> rpResult (knReply K t (SetHardwareBreakPoint reg 0 0)) = 0)"

definition kernelDisarms :: "Kernel \<Rightarrow> bool" where
  "kernelDisarms K \<longleftrightarrow> kernelCodes K \<and> kernelMoves K \<and> kernelClears K"

lemma kernelMoves_core: "kernelMoves K \<Longrightarrow> core < DEBUG_HWBP_CORE_COUNT \<Longrightarrow> movesTo K core"
  by (simp add: kernelMoves_def list_all_iff)

lemma kernelClears_on: "kernelClears K \<Longrightarrow> clearsOn K core reg"
  unfolding kernelClears_def clearsOn_def using known_taken by blast

lemma wp_all: "(\<And>x. wp p m (\<lambda>a m'. Q x a m')) \<Longrightarrow> wp p m (\<lambda>a m'. \<forall>x. Q x a m')"
  by (simp add: wp_run)

text \<open>Since \<open>m0\<close> every register of every core is as it was or cleared, those of \<open>armed\<close> on the four cores aside, which
  have all taken a write.
  Once the model is out of fuel there is nothing to say.\<close>

definition cleanBut :: "u32 set \<Rightarrow> 'a Machine_scheme \<Rightarrow> 'a Machine_scheme \<Rightarrow> bool" where
  "cleanBut armed m0 m \<longleftrightarrow> mcStuck m \<or> allTaken armed m \<and>
     (\<forall>core reg. reg \<in> armed \<and> core \<in> of_nat ` set [0..<DEBUG_HWBP_CORE_COUNT] \<or>
        regs m core reg = regs m0 core reg \<or> regs m core reg = Some (0, 0))"

lemma cleanBut_mono: "cleanBut armed m0 m \<Longrightarrow> armed \<subseteq> armed' \<Longrightarrow> allTaken armed' m \<Longrightarrow> cleanBut armed' m0 m"
  by (auto simp: cleanBut_def)

lemma cleanBut_taken: "cleanBut armed m0 m \<Longrightarrow> running m \<Longrightarrow> allTaken armed m"
  by (simp add: cleanBut_def)

definition registerCall :: "Call \<Rightarrow> bool" where
  "registerCall c \<longleftrightarrow> (case c of SetHardwareBreakPoint reg control v \<Rightarrow> control = 0 \<and> v = 0 | _ \<Rightarrow> True)"

lemma clean_svc: "registerCall c \<Longrightarrow> obeys (cleanBut armed m0) (svc K c)"
  "registerCall c \<Longrightarrow> obeys (cleanBut armed m0) (svcResult K c)"
  by (cases c; simp add: obeys_def cleanBut_def registerCall_def allTaken_def)+

lemma clean_outOfFuel [obey]: "obeys (cleanBut armed m0) outOfFuel"
  by (simp add: obeys_def cleanBut_def)

lemma applyWrites_takes: "reg \<in> fst ` set writes \<Longrightarrow> applyWrites writes f reg \<noteq> None"
proof (induction writes arbitrary: f)
  case (Cons w writes)
  then show ?case
    by (cases w; cases "reg \<in> fst ` set writes") (auto simp: applyWrites_other)
qed simp

lemma written_taken:
  assumes "allWritten writes [0..<DEBUG_HWBP_CORE_COUNT] m m'"
  shows "allTaken (fst ` set writes) m'"
  unfolding allTaken_def
proof
  fix reg
  assume "reg \<in> fst ` set writes"
  then have "regs m' 0 reg \<noteq> None"
    using assms applyWrites_takes [of reg writes "regs m 0"]
    unfolding allWritten_def by (auto simp: DEBUG_HWBP_CORE_COUNT_def upt_rec)
  then show "registerTaken reg (mcTrace m')" by (rule known_taken)
qed

lemma clean_written:
  "cleanBut armed m0 m \<Longrightarrow> allWritten writes [0..<DEBUG_HWBP_CORE_COUNT] m m' \<Longrightarrow> allTaken armed m' \<Longrightarrow>
    running m \<Longrightarrow> running m' \<Longrightarrow> cleanBut (armed \<union> fst ` set writes) m0 m'"
proof -
  assume m: "cleanBut armed m0 m" "allWritten writes [0..<DEBUG_HWBP_CORE_COUNT] m m'" "allTaken armed m'" "running m" "running m'"
  have "allTaken (armed \<union> fst ` set writes) m'"
    using m(3) written_taken [OF m(2)] by (auto simp: allTaken_def)
  with m show ?thesis
    unfolding cleanBut_def allWritten_def by (metis UnCI applyWrites_other)
qed

lemma clean_cleared:
  "cleanBut armed m0 m \<Longrightarrow> \<forall>core reg. settled core reg (regs m core reg) m' \<Longrightarrow> allTaken armed m' \<Longrightarrow>
    running m \<Longrightarrow> cleanBut armed m0 m'"
  unfolding cleanBut_def settled_def by metis

lemma setRegisters_clean:
  assumes "kernelDisarms K" and "cleanBut armed m0 m" and "writes \<noteq> []"
  shows "wp (setRegistersOnAllCores K writes) m
    (\<lambda>rc. cleanBut (if rc = 0 then armed \<union> fst ` set writes else armed) m0)"
proof (cases "mcStuck m")
  case True
  then show ?thesis
    by (intro wp_mono [OF handlesD [OF neutral_setRegisters]]) (simp add: cleanBut_def)
next
  case False
  have K: "kernelCodes K" "kernelMoves K" "kernelClears K" using assms(1) by (simp_all add: kernelDisarms_def)
  have failed: "wp (setRegistersOnAllCores K writes) m (\<lambda>rc m'. \<forall>core reg. rc = 0 \<or> settled core reg (regs m core reg) m')"
    by (intro wp_all setRegisters_failure K(1) False assms(3) kernelMoves_core [OF K(2)] kernelClears_on [OF K(3)])
  have kept: "wp (setRegistersOnAllCores K writes) m (\<lambda>_. allTaken armed)"
    by (rule obeysD [OF taken_calls.setRegisters cleanBut_taken [OF assms(2) False]])
  show ?thesis
    by (rule wp_mono [OF wp_conj [OF wp_conj [OF setRegisters_spec [OF K(1) False assms(3)] failed] kept]])
      (use False assms(2) in \<open>auto simp: setSpec_def intro: clean_written clean_cleared\<close>)
qed

text \<open>Clearing registers.\<close>

abbreviation cleared :: "u32 list \<Rightarrow> RegisterWrite list" where
  "cleared rs \<equiv> map (\<lambda>reg. (reg, 0, 0)) rs"

lemma setEach_clears:
  assumes "kernelClears K"
  shows "running m \<Longrightarrow> allTaken (set rs) m \<Longrightarrow> wp (setEach K (cleared rs)) m (\<lambda>rc m'. rc = 0 \<and> running m')"
proof (induction rs arbitrary: m)
  case (Cons reg rs)
  have "rpResult (knReply K (mcTrace m) (SetHardwareBreakPoint reg 0 0)) = 0"
    using assms Cons.prems(2) by (simp add: kernelClears_def allTaken_def)
  moreover have "allTaken (set rs) (m\<lparr>mcTrace := x # mcTrace m\<rparr>)" for x
    using Cons.prems(2) by (cases x) (simp add: allTaken_def)
  ultimately show ?case using Cons by simp
qed simp

lemma coreLoop_clears:
  assumes "kernelDisarms K"
  shows "running m \<Longrightarrow> allTaken (set rs) m \<Longrightarrow> set cores \<subseteq> set [0..<DEBUG_HWBP_CORE_COUNT] \<Longrightarrow>
    wp (coreLoop K (cleared rs) cores reached) m (\<lambda>p m'. fst p = 0 \<and> running m')"
proof (induction cores arbitrary: reached m)
  case (Cons core cores)
  have K: "kernelCodes K" "kernelClears K" "movesTo K core"
    using assms Cons.prems(3) by (auto simp: kernelDisarms_def intro: kernelMoves_core)
  have each: "wp (setEach K (cleared rs)) m' (\<lambda>rc m'. (rc = 0 \<and> running m') \<and> allTaken (set rs) m')"
    if "running m'" "allTaken (set rs) m'" for m'
    by (rule wp_conj [OF setEach_clears [OF K(2) that] obeysD [OF taken_calls.setEach that(2)]])
  have pin: "wp (pinToCore K core) m (\<lambda>rc m'. (rc = 0 \<and> unchanged m m' \<and> currentCore (mcTrace m') = Some (of_nat core)) \<and>
      allTaken (set rs) m')"
    by (rule wp_conj [OF pinToCore_moves [OF K(1,3) Cons.prems(1)] obeysD [OF taken_calls.pinToCore Cons.prems(2)]])
  show ?case
    unfolding coreLoop.simps
    by (subst wp_bind, rule wp_mono [OF pin])
      (use Cons.prems(3) in \<open>auto simp: unchanged_def intro!: wp_mono [OF each] Cons.IH\<close>)
qed simp

lemma setRegisters_clears:
  assumes "kernelDisarms K" and "running m" and "rs \<noteq> []" and "allTaken (set rs) m"
  shows "wp (setRegistersOnAllCores K (cleared rs)) m (\<lambda>rc m'. rc = 0)"
proof -
  have rest: "wp (case p of (rc, reached) \<Rightarrow> do { _ \<leftarrow> f rc reached; _ \<leftarrow> g; State_Monad.return rc }) n (\<lambda>rc m'. rc = 0)"
    if "fst p = 0" for p :: "res \<times> nat option" and f :: "res \<Rightarrow> nat option \<Rightarrow> ('a Machine_scheme, unit) state" and g n
    using that by (cases p) (simp del: wp_bind, (rule wp_any)+, simp)
  show ?thesis
    unfolding setRegistersOnAllCores_def
    by (rule wp_ifI, simp add: assms(3), subst wp_bind, subst wp_svc, simp only: assms(2) if_False, subst wp_bind,
      rule wp_mono [OF coreLoop_clears [OF assms(1)]], simp add: assms(2),
      use assms(4) in \<open>simp add: allTaken_def\<close>, simp, rule rest, simp)
qed

lemma applyWrites_cleared: "reg \<in> set rs \<Longrightarrow> applyWrites (cleared rs) f reg = Some (0, 0)"
proof (induction rs arbitrary: f)
  case (Cons r rs)
  then show ?case
    by (cases "reg \<in> set rs") (simp_all add: applyWrites_other image_image)
qed simp

lemma clearing_clean:
  assumes "kernelDisarms K" and "cleanBut armed m0 m" and "rs \<noteq> []" and "set rs \<subseteq> armed"
  shows "wp (setRegistersOnAllCores K (cleared rs)) m (\<lambda>rc m'. cleanBut (armed - set rs) m0 m' \<and> (running m \<longrightarrow> rc = 0))"
proof (cases "mcStuck m")
  case True
  then show ?thesis
    by (intro wp_mono [OF handlesD [OF neutral_setRegisters]]) (simp add: cleanBut_def)
next
  case False
  have K: "kernelCodes K" using assms(1) by (simp add: kernelDisarms_def)
  have taken: "allTaken armed m" by (rule cleanBut_taken [OF assms(2) False])
  have written: "cleanBut (armed - set rs) m0 m'"
    if "allWritten (cleared rs) [0..<DEBUG_HWBP_CORE_COUNT] m m'" "allTaken armed m'" for m'
    unfolding cleanBut_def
  proof (rule disjI2, rule conjI, use that(2) in \<open>simp add: allTaken_def\<close>, intro allI)
    fix core reg
    show "reg \<in> armed - set rs \<and> core \<in> of_nat ` set [0..<DEBUG_HWBP_CORE_COUNT] \<or>
        regs m' core reg = regs m0 core reg \<or> regs m' core reg = Some (0, 0)"
      using assms(2) that(1) False applyWrites_cleared [of reg rs "regs m core"]
        applyWrites_other [of reg "cleared rs" "regs m core"]
      unfolding cleanBut_def allWritten_def by (cases "reg \<in> set rs") (auto simp: image_image split: if_splits)
  qed
  show ?thesis
    by (rule wp_mono [OF wp_conj [OF wp_conj [OF setRegisters_clears [OF assms(1) False assms(3)]
          setRegisters_spec [OF K False]] obeysD [OF taken_calls.setRegisters taken]]])
      (use taken assms(4) in \<open>auto simp: setSpec_def assms(3) allTaken_def intro!: written\<close>)
qed

lemma retryClear_done: "rc = 0 \<Longrightarrow> wp (retryClear K ws n rc) m Q = Q rc m"
  by (cases n) simp_all

lemma stuck_clears:
  "mcStuck m \<Longrightarrow> wp (debugHwBpClearAllCores K reg) m (\<lambda>_. mcStuck)"
  "mcStuck m \<Longrightarrow> wp (debugHwBpClearRegistersAllCores K rs) m (\<lambda>_. mcStuck)"
  by (rule wp_mono [OF handlesD [OF neutral_clearAll]], simp)
    (rule wp_mono [OF handlesD [OF neutral_clearRegisters]], simp)

lemma clearAll_clean:
  assumes "kernelDisarms K" and "cleanBut armed m0 m" and "reg \<in> armed"
  shows "wp (debugHwBpClearAllCores K reg) m (\<lambda>rc. cleanBut (armed - {reg}) m0)"
proof (cases "mcStuck m")
  case True
  then show ?thesis
    by (intro wp_mono [OF stuck_clears(1)]) (simp_all add: cleanBut_def)
next
  case False
  then show ?thesis
    unfolding debugHwBpClearAllCores_def debugHwBpSetAllCores_def wp_bind
    using wp_mono [OF clearing_clean [OF assms(1,2), of "[reg]"]] assms(3) by (simp add: retryClear_done)
qed

text \<open>To speak of more registers behind the call is no harm: they have taken a write all the same.\<close>

lemma clearAll_upto:
  assumes "kernelDisarms K" and "cleanBut armed m0 m" and "reg \<in> armed"
    and "armed' \<subseteq> armed" and "armed - {reg} \<subseteq> armed'"
  shows "wp (debugHwBpClearAllCores K reg) m (\<lambda>_. cleanBut armed' m0)"
proof (cases "mcStuck m")
  case True
  then show ?thesis by (intro wp_mono [OF stuck_clears(1)]) (simp_all add: cleanBut_def)
next
  case False
  have taken: "wp (debugHwBpClearAllCores K reg) m (\<lambda>_. allTaken armed)"
    by (rule obeysD [OF taken_calls.clearAll(1) cleanBut_taken [OF assms(2) False]])
  show ?thesis
    by (rule wp_mono [OF wp_conj [OF clearAll_clean [OF assms(1-3)] taken]], elim conjE, erule cleanBut_mono)
      (use assms(4,5) in \<open>auto simp: allTaken_def\<close>)
qed

lemma clearRegisters_clean:
  assumes "kernelDisarms K" and "cleanBut armed m0 m" and "rs \<noteq> []" and "set rs \<subseteq> armed" and "length rs \<le> 16"
  shows "wp (debugHwBpClearRegistersAllCores K rs) m (\<lambda>rc. cleanBut (armed - set rs) m0)"
proof (cases "mcStuck m")
  case True
  then show ?thesis
    by (intro wp_mono [OF stuck_clears(2)]) (simp_all add: cleanBut_def)
next
  case False
  then show ?thesis
    unfolding debugHwBpClearRegistersAllCores_def Let_def
    using assms(3,5) wp_mono [OF clearing_clean [OF assms(1-4)]] by (simp add: retryClear_done)
qed

text \<open>The probes arm a register only to clear it on the same core.\<close>

lemma probe_clean:
  assumes "kernelClears K" and "cleanBut armed m0 m" and "\<And>rc m'. cleanBut armed m0 m' \<Longrightarrow> wp (f rc) m' Q"
  shows "wp (do { rc \<leftarrow> svcResult K (SetHardwareBreakPoint reg control v); _ \<leftarrow> svc K (SetHardwareBreakPoint reg 0 0); f rc }) m Q"
proof (cases "mcStuck m")
  case True
  then show ?thesis using assms(2,3) by (simp add: noReply_def)
next
  case False
  let ?set = "SetHardwareBreakPoint reg control v"
  let ?r = "knReply K (mcTrace m) ?set"
  let ?clear = "SetHardwareBreakPoint reg 0 0"
  let ?s = "knReply K ((?set, ?r) # mcTrace m) ?clear"
  let ?m = "m\<lparr>mcTrace := (?clear, ?s) # (?set, ?r) # mcTrace m\<rparr>"
  have "rpResult ?s = 0" if "rpResult ?r = 0"
    using assms(1) that unfolding kernelClears_def by simp
  then have settled: "\<forall>core reg'. settled core reg' (regs m core reg') ?m"
    by (auto simp: settled_def)
  have "allTaken armed ?m"
    using cleanBut_taken [OF assms(2) False] by (simp add: allTaken_def)
  from assms(3) [OF clean_cleared [OF assms(2) settled this False]] show ?thesis using False by simp
qed

lemma probes_clean:
  assumes "kernelDisarms K" and "cleanBut armed m0 m"
  shows "wp (debugHwBpProbeContextSlots K) m (\<lambda>_. cleanBut armed m0)"
proof -
  have up: "obeys (cleanBut armed m0) (probeUp K i n found)" for i n found
    by (induction n arbitrary: i found) (auto intro!: obey clean_svc simp: registerCall_def)
  have down: "obeys (cleanBut armed m0) (probeDown K n found)" for n found
  proof (induction n arbitrary: found)
    case (Suc n)
    have "kernelClears K" using assms(1) by (simp add: kernelDisarms_def)
    then show ?case
      unfolding probeDown.simps by (intro obeysI probe_clean) (auto intro: obeysD [OF Suc])
  qed (simp add: obey)
  have "obeys (cleanBut armed m0) (debugHwBpProbeContextSlots K)"
    unfolding debugHwBpProbeContextSlots_def by (auto intro!: obey up down simp del: probeDown.simps split: option.split)
  from obeysD [OF this assms(2)] show ?thesis .
qed

lemma clean_hwbp [obey]:
  "obeys (cleanBut armed m0) (debugHwBpContinueAll K h)" "obeys (cleanBut armed m0) (debugHwBpProbeDataRegister K)"
  unfolding debugHwBpContinueAll_def debugHwBpProbeDataRegister_def
  by (intro obey clean_svc; simp add: registerCall_def)+

lemma clean_quiesce [obey]: "obeys (cleanBut armed m0) (debugHwBpQuiesce K fuel h pending)"
proof -
  have drain: "obeys (cleanBut armed m0) (drainEvents K n h s)" for n s
    by (induction n arbitrary: s) (auto intro!: obey clean_svc simp: registerCall_def)
  have "obeys (cleanBut armed m0) (quiesceLoop K n h d)" for n d
    by (induction n) (auto intro!: obey clean_svc drain simp: registerCall_def)
  with drain show ?thesis
    unfolding debugHwBpQuiesce_def by (intro obey clean_svc) (simp_all add: registerCall_def)
qed

lemma setRegister_clean:
  assumes "kernelDisarms K" and "cleanBut armed m0 m"
    and "\<And>rc m'. cleanBut (if rc = 0 then insert reg armed else armed) m0 m' \<Longrightarrow> wp (f rc) m' Q"
  shows "wp (do { rc \<leftarrow> debugHwBpSetAllCores K reg control v; f rc }) m Q"
  unfolding wp_bind debugHwBpSetAllCores_def
  by (rule wp_mono [OF setRegisters_clean [OF assms(1,2)]], simp, rule assms(3)) (auto split: if_splits)

lemma setData_clean:
  assumes "kernelDisarms K" and "cleanBut armed m0 m"
    and "\<And>rc m'. cleanBut (if rc = 0 then insert reg armed else armed) m0 m' \<Longrightarrow> wp (f rc) m' Q"
  shows "wp (do { rc \<leftarrow> debugHwBpSetData K reg ctx address n r w; f rc }) m Q"
proof -
  have bad: "knBadInput K \<noteq> 0" using assms(1) by (simp add: kernelDisarms_def kernelCodes_def)
  have "wp (debugHwBpSetAllCores K reg control v) m (\<lambda>rc. cleanBut (if rc = 0 then insert reg armed else armed) m0)"
    for control v
    using setRegister_clean [OF assms(1,2), of reg State_Monad.return] by (simp add: wp_return [abs_def])
  then have "wp (debugHwBpSetData K reg ctx address n r w) m
      (\<lambda>rc. cleanBut (if rc = 0 then insert reg armed else armed) m0)"
    unfolding debugHwBpSetData_def Let_def by (intro wp_ifI wp_splitI) (simp_all add: bad assms(2))
  then show ?thesis
    unfolding wp_bind by (rule wp_mono) (rule assms(3))
qed

subsection \<open>Stepping over an instruction\<close>

lemma neutral_awaitStep [neutral_steps]: "neutral (awaitStep K fuel h thread)"
proof -
  have events: "neutral (stepEvents K n h thread)" for n
    by (induction n) (auto simp: quietCall_def intro!: neutral_steps quiet)
  have "neutral (stepLoop K n h thread d)" for n d
    by (induction n) (auto simp: quietCall_def intro!: neutral_steps quiet events)
  then show ?thesis
    unfolding awaitStep_def by (intro neutral_steps quiet) (simp_all add: quietCall_def)
qed

lemma neutral_stepping [neutral_steps]:
  "neutral (debugHwBpSetInstruction K slot ctx address)"
  "neutral (debugHwBpStepOverInstruction K fuel h thread slot ctx address)"
proof -
  show set: "neutral (debugHwBpSetInstruction K slot ctx address)"
    unfolding debugHwBpSetInstruction_def debugHwBpSetAllCores_def by (intro neutral_steps)
  show "neutral (debugHwBpStepOverInstruction K fuel h thread slot ctx address)"
    unfolding debugHwBpStepOverInstruction_def
    by (intro neutral_steps quiet set; simp add: quietCall_def)
qed

lemma neutral_armTrace [neutral_steps]: "neutral (debugHwBpArmInstructionTrace K ctx h targets)"
  unfolding debugHwBpArmInstructionTrace_def by (intro neutral_steps)

lemma clean_awaitStep [obey]: "obeys (cleanBut armed m0) (awaitStep K fuel h thread)"
proof -
  have events: "obeys (cleanBut armed m0) (stepEvents K n h thread)" for n
    by (induction n) (auto intro!: obey clean_svc simp: registerCall_def)
  have "obeys (cleanBut armed m0) (stepLoop K n h thread d)" for n d
    by (induction n) (auto intro!: obey clean_svc events simp: registerCall_def)
  then show ?thesis
    unfolding awaitStep_def by (intro obey clean_svc) (simp_all add: registerCall_def)
qed

text \<open>The slot that is stepped over is one of the armed ones, and so is it afterwards.\<close>

lemma stepOver_clean:
  assumes "kernelDisarms K" and "slot \<in> armed"
  shows "obeys (cleanBut armed m0) (debugHwBpStepOverInstruction K fuel h thread slot ctx address)"
proof (rule obeysI)
  fix m :: "'a Machine_scheme"
  assume m: "cleanBut armed m0 m"
  have clear: "obeys (cleanBut armed m0) (debugHwBpClearAllCores K slot)"
    by (rule obeysI, rule clearAll_upto [OF assms(1) _ assms(2)]) auto
  have arm: "obeys (cleanBut armed m0) (debugHwBpSetInstruction K slot ctx address)"
    unfolding debugHwBpSetInstruction_def
    by (rule obeysI, subst wp_return [symmetric], subst wp_bind [symmetric], rule setRegister_clean [OF assms(1)], assumption)
      (use assms(2) in \<open>auto split: if_splits simp: insert_absorb\<close>)
  have step: "obeys (cleanBut armed m0) (if b then State_Monad.return rc
               else do {
                 rc \<leftarrow> svcResult K (ContinueDebugEvent h f [thread]);
                 rc \<leftarrow> (if R_FAILED rc then State_Monad.return rc else awaitStep K fuel h thread);
                 clearRc \<leftarrow> svcResult K (SetDebugThreadContext h thread CLEAR_SINGLE_STEP);
                 State_Monad.return (g rc clearRc)
               })" for b rc f g
    by (intro obey clean_svc; simp add: registerCall_def)
  show "wp (debugHwBpStepOverInstruction K fuel h thread slot ctx address) m (\<lambda>_ m'. cleanBut armed m0 m')"
    unfolding debugHwBpStepOverInstruction_def
    by (rule obeysD [where P = "cleanBut armed m0", OF _ m]) (intro obey clean_svc clear arm step; simp add: registerCall_def)
qed

lemma traceWrites_slots: "traceWrites ctx prior targets = Some ws \<Longrightarrow> fst ` set ws = fst ` set targets"
proof (induction ctx prior targets arbitrary: ws rule: traceWrites.induct)
  case (2 ctx prior slot address targets)
  from 2(2) obtain ws' where "traceWrites ctx (prior @ [slot]) targets = Some ws'" "slot \<notin> set prior"
      "\<not> (slot = ctx \<or> address = 0 \<or> address AND 3 \<noteq> 0)" "fst ` set ws = insert slot (fst ` set ws')"
    by (auto split: if_splits)
  with 2(1) show ?case by simp
qed simp

lemma armTrace_clean:
  assumes "kernelDisarms K" and "cleanBut armed m0 m"
  shows "wp (debugHwBpArmInstructionTrace K ctx h targets) m (\<lambda>rc m'.
    cleanBut (if rc = 0 then armed \<union> insert ctx (fst ` set targets) else armed) m0 m' \<and>
    (rc = 0 \<longrightarrow> targets \<noteq> [] \<and> length targets \<le> DEBUG_HWBP_BATCH_MAX))"
proof -
  have bad: "knBadInput K \<noteq> 0" using assms(1) by (simp add: kernelDisarms_def kernelCodes_def)
  show ?thesis
  proof (cases "targets = [] \<or> length targets > DEBUG_HWBP_BATCH_MAX \<or> traceWrites ctx [] targets = None")
    case True
    then have "(debugHwBpArmInstructionTrace K ctx h targets :: ('a Machine_scheme, res) state) = State_Monad.return (knBadInput K)"
      unfolding debugHwBpArmInstructionTrace_def by (cases "traceWrites ctx [] targets") simp_all
    then show ?thesis
      using assms(2) by (simp add: bad)
  next
    case False
    then obtain ws where ws: "traceWrites ctx [] targets = Some ws" by (cases "traceWrites ctx [] targets") simp_all
    have targets: "targets \<noteq> []" "length targets \<le> DEBUG_HWBP_BATCH_MAX" using False by simp_all
    have slots: "fst ` set ((ctx, contextControl, ucast h) # ws) = insert ctx (fst ` set targets)"
      by (simp add: traceWrites_slots [OF ws])
    have "(debugHwBpArmInstructionTrace K ctx h targets :: ('a Machine_scheme, res) state) = setRegistersOnAllCores K ((ctx, contextControl, ucast h) # ws)"
      unfolding debugHwBpArmInstructionTrace_def using targets by (simp add: ws)
    with setRegisters_clean [OF assms, of "(ctx, contextControl, ucast h) # ws", unfolded slots] show ?thesis
      by (simp add: targets)
  qed
qed

end
