(* ===== verification/DebugWatchSafe.thy ===== *)
theory DebugWatchSafe
  imports DebugWatch HwBpClean
begin

text \<open>
  What a watchpoint session leaves behind, however it ends: the handle is closed, and no register of any core holds a
  breakpoint that was not there before.
\<close>

lemma wp_watch [simp]:
  "wp (getWatch f) m Q \<longleftrightarrow> Q (f (watchState m)) m"
  "wp (setWatch g) m R \<longleftrightarrow> R () (m\<lparr>watchState := g (watchState m)\<rparr>)"
  "wp watchActive m S \<longleftrightarrow> S (mcWatchActive m) m"
  "wp (setWatchActive b) m R \<longleftrightarrow> R () (m\<lparr>mcWatchActive := b\<rparr>)"
  "wp (stopRequested stopBy) m S \<longleftrightarrow> S (wsStopRequested (watchState m) \<or> stopBy (mcTrace m)) m"
  by (simp_all add: wp_def getWatch_def setWatch_def watchActive_def setWatchActive_def stopRequested_def)

subsection \<open>The handle\<close>

lemma neutral_watch [neutral_steps]:
  "neutral (getWatch f)" "neutral (setWatch g)" "neutral watchActive" "neutral (setWatchActive b)"
  "neutral (stopRequested stopBy)"
  by (rule handlesI, simp)+

lemma neutral_watchState [neutral_steps]:
  "neutral (setError stage rc)" "neutral (setStage stage)" "neutral setDebugHandleInUseHint"
  "neutral (recordHit hit)" "neutral (hitPassesFilter hit)" "neutral (durationExpired K)" "neutral hitLimitReached"
  "neutral (watchFail l stage rc)"
  unfolding setError_def setStage_def setDebugHandleInUseHint_def recordHit_def hitPassesFilter_def
    durationExpired_def hitLimitReached_def watchFail_def
  by (intro neutral_steps quiet; simp add: quietCall_def)+

lemma neutral_watchDrain [neutral_steps]: "neutral (watchDrainInitialEvents K fuel h)"
proof -
  have events: "neutral (watchInitialEvents K n h s)" for n s
    by (induction n arbitrary: s) (auto simp: quietCall_def intro!: neutral_steps quiet)
  have "neutral (watchDrainLoop K n h d s)" for n d s
    by (induction n arbitrary: s) (auto simp: quietCall_def intro!: neutral_steps quiet events)
  then show ?thesis
    unfolding watchDrainInitialEvents_def by (intro neutral_steps quiet) (simp_all add: quietCall_def)
qed

lemma neutral_captureHit [neutral_steps]: "neutral (captureHit K h event)"
  unfolding captureHit_def readWindow_def Let_def
  by (intro neutral_steps quiet; simp add: quietCall_def)

lemma neutral_watchEvents [neutral_steps]: "neutral (watchEvents K fuel h pending)"
  by (induction fuel arbitrary: pending) (auto simp: quietCall_def intro!: neutral_steps quiet)

text \<open>A part of the body keeps the handle it was given.\<close>

abbreviation keepsHandle :: "WatchLocals \<Rightarrow> (WatchMachine, WatchLocals) state \<Rightarrow> bool" where
  "keepsHandle l p \<equiv> handles p (\<lambda>l'. wlAttached l' = wlAttached l \<and> wlHandle l' = wlHandle l) (\<lambda>_ _. 0)"

lemma keeps_case_prod: "(\<And>a b. keepsHandle l (f a b)) \<Longrightarrow> keepsHandle l (case x of (a, b) \<Rightarrow> f a b)"
  by (cases x) simp

lemma keeps_return:
  "wlAttached l' = wlAttached l \<Longrightarrow> wlHandle l' = wlHandle l \<Longrightarrow> keepsHandle l (State_Monad.return l')"
  by (rule handles_return) simp_all

lemma keeps_fail:
  "wlAttached l' = wlAttached l \<Longrightarrow> wlHandle l' = wlHandle l \<Longrightarrow> keepsHandle l (watchFail l' stage rc)"
  unfolding watchFail_def by (intro neutral_then [OF neutral_watchState(1)] keeps_return) simp_all

lemma keeps_events: "(x = WatchExited \<Longrightarrow> keepsHandle l p) \<Longrightarrow> (x = WatchLimit \<Longrightarrow> keepsHandle l q) \<Longrightarrow>
    (x = WatchDrained \<Longrightarrow> keepsHandle l r) \<Longrightarrow>
    keepsHandle l (case x of WatchExited \<Rightarrow> p | WatchLimit \<Rightarrow> q | WatchDrained \<Rightarrow> r)"
  by (cases x) simp_all

lemmas keeping = handles_if keeps_case_prod keeps_return keeps_fail keeps_events

lemma watchLoop_keeps: "wlAttached l = wlAttached l0 \<Longrightarrow> wlHandle l = wlHandle l0 \<Longrightarrow> keepsHandle l0 (watchLoop K stopBy fuel l)"
proof (induction fuel arbitrary: l)
  case 0
  then show ?case
    unfolding watchLoop.simps by (intro neutral_then [OF neutral_calls(1)] keeps_return) simp_all
next
  case (Suc fuel)
  have expired: "neutral (if stop then State_Monad.return True else durationExpired K)" for stop
    by (intro neutral_steps)
  have wait: "neutral (svcResult K (WaitSynchronization h n))" for h n
    by (rule quiet) (simp add: quietCall_def)
  show ?case
    unfolding watchLoop.simps
    by (intro keeping neutral_then [OF neutral_watch(5)] neutral_then [OF expired] neutral_then [OF wait]
        neutral_then [OF neutral_watchState(1)] neutral_then [OF neutral_watchEvents]
        neutral_then [OF neutral_hwbp(1)] Suc.IH) (simp_all add: Suc.prems)
qed

lemma watchRun_keeps: "wlAttached l = wlAttached l0 \<Longrightarrow> wlHandle l = wlHandle l0 \<Longrightarrow> keepsHandle l0 (watchRun K stopBy fuel l)"
proof -
  assume l: "wlAttached l = wlAttached l0" "wlHandle l = wlHandle l0"
  have tick: "neutral (svc K GetSystemTick)" by (rule quiet) (simp add: quietCall_def)
  show ?thesis
    unfolding watchRun_def
    by (intro keeping neutral_then [OF neutral_hwbp(1)] neutral_then [OF tick] neutral_then [OF neutral_watch(2)]
        watchLoop_keeps) (simp_all add: l)
qed

lemma watchArm_keeps: "keepsHandle l (watchArm K stopBy fuel l)"
  unfolding watchArm_def Let_def
  by (intro keeping neutral_then [OF neutral_watchDrain] neutral_then [OF neutral_watchState(2)]
      neutral_then [OF neutral_probes(1)] neutral_then [OF neutral_hwbp(2)] neutral_then [OF neutral_watch(2)]
      neutral_then [OF neutral_setContext] neutral_then [OF neutral_watch(1)] neutral_then [OF neutral_hwbp(3)]
      watchRun_keeps) simp_all

lemma watchCleanup_closes:
  "wlAttached l \<Longrightarrow> wlHandle l \<noteq> knInvalidHandle K \<Longrightarrow> handles (watchCleanup K fuel l) (\<lambda>_. True) (\<lambda>_ h. - oneHandle (wlHandle l) h)"
  "\<not> wlAttached l \<Longrightarrow> neutral (watchCleanup K fuel l)"
proof -
  have quiesce: "neutral (if b then debugHwBpQuiesce K fuel h p else State_Monad.return 0)" for b h p
    by (intro neutral_steps)
  have clear: "neutral (if b then debugHwBpClearAllCores K slot else State_Monad.return 0)" for b slot
    by (intro neutral_steps)
  have close: "handles (do { _ \<leftarrow> svc K (CloseHandle h); (skip :: (WatchMachine, unit) state) }) (\<lambda>_. True) (\<lambda>_ h'. - oneHandle h h')" for h
    by (rule handlesI) simp
  have rest: "neutral (do { _ \<leftarrow> setWatchActive b; _ \<leftarrow> setWatch f; _ \<leftarrow> setWatch g; setWatch h })" for b f g h
    by (intro neutral_steps)
  have closing: "handles (State_Monad.bind (if True then do { _ \<leftarrow> svc K (CloseHandle h); skip } else skip)
     (\<lambda>_. do { _ \<leftarrow> setWatchActive b; _ \<leftarrow> setWatch f; _ \<leftarrow> setWatch g; setWatch i })) (\<lambda>_. True) (\<lambda>_ h'. - oneHandle h h')" for h b f g i
    unfolding if_True by (rule handles_bind [OF close]) (simp add: rest)
  show "wlAttached l \<Longrightarrow> wlHandle l \<noteq> knInvalidHandle K \<Longrightarrow> handles (watchCleanup K fuel l) (\<lambda>_. True) (\<lambda>_ h. - oneHandle (wlHandle l) h)"
    unfolding watchCleanup_def
    by (intro neutral_then [OF quiesce] neutral_then [OF clear] neutral_then [OF neutral_return])
      (use closing in simp)
  show "\<not> wlAttached l \<Longrightarrow> neutral (watchCleanup K fuel l)"
    unfolding watchCleanup_def
    by (intro neutral_then [OF quiesce] neutral_then [OF clear] neutral_then [OF neutral_return])
      (simp add: rest neutral_bind [OF neutral_calls(2)])
qed

text \<open>A handle is held behind the body exactly when it attached.\<close>

abbreviation attaches :: "Kernel \<Rightarrow> (WatchMachine, WatchLocals) state \<Rightarrow> (u32 \<Rightarrow> int) \<Rightarrow> bool" where
  "attaches K p k \<equiv> handles p (\<lambda>l. wlAttached l \<longrightarrow> wlHandle l \<noteq> knInvalidHandle K)
     (\<lambda>l h. (if wlAttached l then oneHandle (wlHandle l) h else 0) - k h)"

lemma attaches_arm:
  assumes "wlAttached l" and "wlHandle l \<noteq> knInvalidHandle K"
  shows "attaches K (do { _ \<leftarrow> setWatch f; watchArm K stopBy fuel l }) (oneHandle (wlHandle l))"
  by (rule neutral_then [OF neutral_watch(2)], rule handles_weaken [OF watchArm_keeps]) (simp add: assms)

lemma attaches_failed:
  "attaches K (watchFail (watchLocals K) stage rc) (\<lambda>_. 0)"
  "attaches K (do { l \<leftarrow> watchFail (watchLocals K) stage rc; _ \<leftarrow> (if b then setDebugHandleInUseHint else skip);
     State_Monad.return l }) (\<lambda>_. 0)"
  unfolding handles_def by (simp_all add: watchFail_def setError_def watchLocals_def setDebugHandleInUseHint_def)

lemma attaches_body:
  assumes "kernelHandles K"
  shows "attaches K (watchBody K stopBy fuel) (\<lambda>_. 0)"
proof -
  have after: "attaches K (if R_FAILED (rpResult d)
           then do {
             l \<leftarrow> watchFail (watchLocals K) ''debugActiveProcess'' (rpResult d);
             _ \<leftarrow> (if rpResult d = knAlreadyExists K then setDebugHandleInUseHint else skip);
             State_Monad.return l
           }
           else do {
             _ \<leftarrow> setWatch (\<lambda>w. w\<lparr>wsProcessId := rpValue r\<rparr>);
             watchArm K stopBy fuel ((watchLocals K)\<lparr>wlHandle := ucast (rpValue d), wlAttached := True\<rparr>)
           }) (\<lambda>h. 0 + (if rpResult d = 0 then oneHandle (ucast (rpValue d)) h else 0))"
    if "rpResult d = 0 \<longrightarrow> ucast (rpValue d) \<noteq> knInvalidHandle K" for d r
    using that attaches_arm [where K = K and l = "(watchLocals K)\<lparr>wlHandle := ucast (rpValue d), wlAttached := True\<rparr>"]
      attaches_failed(2) [of K "''debugActiveProcess''"] by (cases "rpResult d = 0") simp_all
  have app: "neutral (svc K GetApplicationProcessId)" by (rule quiet) (simp add: quietCall_def)
  show ?thesis
    unfolding watchBody_def
    by (intro neutral_then [OF app] handles_if attaches_failed(1), rule handles_bind [OF handles_attach [OF assms]])
      (rule handles_weaken [OF after], assumption, simp)
qed

lemma neutral_watchThread:
  assumes "kernelHandles K"
  shows "neutral (debugWatchThreadMain K stopBy fuel)"
  unfolding debugWatchThreadMain_def
proof (rule handles_bind [OF attaches_body [OF assms]])
  fix l :: WatchLocals
  assume "wlAttached l \<longrightarrow> wlHandle l \<noteq> knInvalidHandle K"
  then show "handles (watchCleanup K fuel l) (\<lambda>_. True) (\<lambda>_ h. 0 - ((if wlAttached l then oneHandle (wlHandle l) h else 0) - 0))"
    using watchCleanup_closes [of l K fuel] by (cases "wlAttached l") auto
qed

subsection \<open>The registers\<close>

lemma clean_watch [obey]:
  "obeys (cleanBut armed m0) (getWatch f)" "obeys (cleanBut armed m0) (setWatch g)"
  "obeys (cleanBut armed m0) watchActive" "obeys (cleanBut armed m0) (setWatchActive b)"
  "obeys (cleanBut armed m0) (stopRequested stopBy)"
  by (simp_all add: obeys_def cleanBut_def allTaken_def)

lemma clean_events [obey]: "obeys (cleanBut armed m0) (watchInitialEvents K n h s)"
  by (induction n arbitrary: s) (auto intro!: obey clean_svc simp: registerCall_def)

lemma clean_drain [obey]: "obeys (cleanBut armed m0) (watchDrainInitialEvents K fuel h)"
proof -
  have "obeys (cleanBut armed m0) (watchDrainLoop K n h d s)" for n d s
    by (induction n arbitrary: s) (auto intro!: obey clean_svc simp: registerCall_def)
  then show ?thesis
    unfolding watchDrainInitialEvents_def by (intro obey clean_svc) (simp_all add: registerCall_def)
qed

lemma clean_state [obey]:
  "obeys (cleanBut armed m0) (setError stage rc)" "obeys (cleanBut armed m0) (setStage stage)"
  "obeys (cleanBut armed m0) setDebugHandleInUseHint" "obeys (cleanBut armed m0) (recordHit hit)"
  "obeys (cleanBut armed m0) (hitPassesFilter hit)" "obeys (cleanBut armed m0) (durationExpired K)"
  "obeys (cleanBut armed m0) hitLimitReached" "obeys (cleanBut armed m0) (captureHit K h event)"
  unfolding setError_def setStage_def setDebugHandleInUseHint_def recordHit_def hitPassesFilter_def Let_def
    durationExpired_def hitLimitReached_def captureHit_def readWindow_def
  by (intro obey clean_svc; simp add: registerCall_def)+

lemma clean_watchEvents [obey]: "obeys (cleanBut armed m0) (watchEvents K fuel h pending)"
  by (induction fuel arbitrary: pending) (auto intro!: obey clean_svc simp: registerCall_def)

definition armedBy :: "WatchLocals \<Rightarrow> u32 set" where
  "armedBy l = (if wlCtxArmed l then {wlCtxSlot l} else {}) \<union> (if wlDataArmed l then {wlWpSlot l} else {})"

lemma armedBy_updates [simp]:
  "armedBy (l\<lparr>wlRc := rc\<rparr>) = armedBy l" "armedBy (l\<lparr>wlEventPending := b\<rparr>) = armedBy l"
  "armedBy (l\<lparr>wlProcessExited := b\<rparr>) = armedBy l" "armedBy (l\<lparr>wlResumed := b\<rparr>) = armedBy l"
  by (simp_all add: armedBy_def)

lemma clean_then_return:
  "obeys (cleanBut (armedBy l) m0) p \<Longrightarrow> cleanBut (armedBy l) m0 m \<Longrightarrow> armedBy l' = armedBy l \<Longrightarrow>
    wp (do { _ \<leftarrow> p; State_Monad.return l' }) m (\<lambda>l''. cleanBut (armedBy l'') m0)"
  by (rule obeys_then) simp_all

lemma watchFail_clean:
  "cleanBut (armedBy l) m0 m \<Longrightarrow> wp (watchFail l stage rc) m (\<lambda>l'. cleanBut (armedBy l') m0)"
  unfolding watchFail_def by (rule clean_then_return) (simp_all add: obey)

lemma watchLoop_clean:
  "cleanBut (armedBy l) m0 m \<Longrightarrow> wp (watchLoop K stopBy fuel l) m (\<lambda>l'. cleanBut (armedBy l') m0)"
proof (induction fuel arbitrary: l m)
  case 0
  then show ?case unfolding watchLoop.simps by (rule clean_then_return [OF clean_outOfFuel]) simp
next
  case (Suc fuel)
  let ?P = "cleanBut (armedBy l) m0"
  have expired: "obeys ?P (if stop then State_Monad.return True else durationExpired K)" for stop
    by (intro obey)
  have wait: "obeys ?P (svcResult K (WaitSynchronization h n))" for h n
    by (rule clean_svc) (simp add: registerCall_def)
  have again: "wp (watchLoop K stopBy fuel l') m' (\<lambda>l'. cleanBut (armedBy l') m0)"
    if "?P m'" "armedBy l' = armedBy l" for l' m'
    using that by (intro Suc.IH) simp
  have cases': "wp (case x of WatchExited \<Rightarrow> p | WatchLimit \<Rightarrow> q | WatchDrained \<Rightarrow> r) m' Q"
    if "wp p m' Q" "wp q m' Q" "wp r m' Q" for x p q r m' and Q :: "WatchLocals \<Rightarrow> WatchMachine \<Rightarrow> bool"
    using that by (cases x) simp_all
  show ?case
    unfolding watchLoop.simps
    by (rule obeys_then [OF clean_watch(5) Suc.prems], rule obeys_then [OF expired], assumption,
      rule wp_ifI, simp, rule obeys_then [OF wait], assumption, rule wp_ifI, rule again, assumption, simp,
      rule wp_ifI, rule clean_then_return [where l = l], simp add: obey, assumption, simp,
      rule obeys_then [OF clean_watchEvents], assumption, rule wp_splitI, rule cases', simp, simp,
      rule obeys_then [OF clean_hwbp(1)], assumption, rule wp_ifI,
      rule clean_then_return [where l = l], simp add: obey, assumption, simp, rule again, assumption, simp)
qed

lemma watchRun_clean:
  assumes "cleanBut (armedBy l) m0 m"
  shows "wp (watchRun K stopBy fuel l) m (\<lambda>l'. cleanBut (armedBy l') m0)"
proof -
  have tick: "obeys (cleanBut (armedBy l) m0) (svc K GetSystemTick)"
    by (rule clean_svc) (simp add: registerCall_def)
  show ?thesis
    unfolding watchRun_def
    by (rule obeys_then [OF clean_hwbp(1) assms], rule wp_ifI, erule watchFail_clean,
      rule obeys_then [OF tick], assumption, rule obeys_then [OF clean_watch(2)], assumption,
      rule watchLoop_clean, simp)
qed

lemma watchArm_clean:
  assumes "kernelDisarms K" and "cleanBut {} m0 m" and "armedBy l = {}"
  shows "wp (watchArm K stopBy fuel l) m (\<lambda>l'. cleanBut (armedBy l') m0)"
proof -
  have l: "\<not> wlCtxArmed l" "\<not> wlDataArmed l" using assms(3) by (auto simp: armedBy_def split: if_splits)
  have start: "cleanBut (armedBy l) m0 m" using assms(2,3) by simp
  have failed: "wp (watchFail l' stage rc) m' (\<lambda>l'. cleanBut (armedBy l') m0)"
    if "cleanBut (armedBy l) m0 m'" and "armedBy l' = armedBy l" for l' stage rc m'
    using that by (intro watchFail_clean) simp
  show ?thesis
    unfolding watchArm_def Let_def debugHwBpSetContext_def
    by (rule obeys_then [OF clean_drain start], rule wp_splitI, rule wp_ifI, erule watchFail_clean, rule wp_ifI,
      rule clean_then_return [OF clean_state(2)], assumption, simp,
      subst wp_bind, rule wp_mono [OF probes_clean [OF assms(1)]], assumption, rule wp_splitI, rule wp_splitI,
      rule wp_ifI, erule watchFail_clean, rule obeys_then [OF clean_hwbp(2)], assumption, rule wp_splitI, rule wp_ifI,
      erule failed, simp add: armedBy_def l, rule obeys_then [OF clean_watch(2)], assumption,
      rule setRegister_clean [OF assms(1)], assumption, rule wp_ifI, rule watchFail_clean, simp add: armedBy_def l,
      rule obeys_then [OF clean_watch(1)], assumption, rule wp_splitI,
      rule setData_clean [OF assms(1)], assumption, rule wp_ifI, rule watchFail_clean, simp add: armedBy_def l,
      rule watchRun_clean, simp add: armedBy_def l insert_commute)
qed

lemma watchBody_clean:
  assumes "kernelDisarms K" and "cleanBut {} m0 m"
  shows "wp (watchBody K stopBy fuel) m (\<lambda>l. cleanBut (armedBy l) m0)"
proof -
  have none: "armedBy (watchLocals K) = {}" "armedBy ((watchLocals K)\<lparr>wlHandle := h, wlAttached := True\<rparr>) = {}" for h
    by (simp_all add: armedBy_def watchLocals_def)
  have calls: "obeys (cleanBut {} m0) (svc K GetApplicationProcessId)" "obeys (cleanBut {} m0) (svc K (DebugActiveProcess pid))" for pid
    by (rule clean_svc, simp add: registerCall_def)+
  have failed: "wp (watchFail (watchLocals K) stage rc) m' (\<lambda>l m''. cleanBut {} m0 m'' \<and> armedBy l = {})" if "cleanBut {} m0 m'"
    for stage rc m'
    using obeysD [OF clean_watch(2) that] none by (simp add: watchFail_def setError_def)
  have hint: "wp (do { _ \<leftarrow> (if b then setDebugHandleInUseHint else skip); State_Monad.return l }) m'
      (\<lambda>l. cleanBut (armedBy l) m0)" if "cleanBut {} m0 m'" "armedBy l = {}" for b l m'
    by (rule obeys_then [where P = "cleanBut {} m0"], intro obey, rule that(1)) (simp add: that(2))
  show ?thesis
    unfolding watchBody_def
    by (rule obeys_then [OF calls(1) assms(2)], rule wp_ifI, rule watchFail_clean, simp add: none,
      rule obeys_then [OF calls(2)], assumption, rule wp_ifI, subst wp_bind, rule wp_mono [OF failed], assumption,
      rule hint, simp, simp, rule obeys_then [OF clean_watch(2)], assumption,
      rule watchArm_clean [OF assms(1)], assumption, rule none)
qed

lemma watchCleanup_clean:
  assumes "kernelDisarms K" and "cleanBut (armedBy l) m0 m"
  shows "wp (watchCleanup K fuel l) m (\<lambda>_. cleanBut {} m0)"
proof -
  let ?ctx = "if wlCtxArmed l then {wlCtxSlot l} else {}"
  let ?data = "if wlDataArmed l then {wlWpSlot l} else {}"
  have quiesce: "obeys (cleanBut (armedBy l) m0) (if b then debugHwBpQuiesce K fuel h p else State_Monad.return 0)" for b h p
    by (intro obey)
  have ctx: "wp (if wlCtxArmed l then debugHwBpClearAllCores K (wlCtxSlot l) else State_Monad.return 0) m'
      (\<lambda>_. cleanBut ?data m0)" if "cleanBut (armedBy l) m0 m'" for m'
  proof (rule wp_ifI)
    assume "wlCtxArmed l"
    then show "wp (debugHwBpClearAllCores K (wlCtxSlot l)) m' (\<lambda>_. cleanBut ?data m0)"
      by (intro clearAll_upto [OF assms(1) that]) (auto simp: armedBy_def)
  qed (use that in \<open>auto simp: armedBy_def\<close>)
  have data: "wp (if wlDataArmed l then debugHwBpClearAllCores K (wlWpSlot l) else State_Monad.return 0) m'
      (\<lambda>_. cleanBut {} m0)" if "cleanBut ?data m0 m'" for m'
    using clearAll_clean [OF assms(1) that, of "wlWpSlot l"] that by auto
  have rest: "obeys (cleanBut {} m0) (do { _ \<leftarrow> (if b then do { _ \<leftarrow> svc K (CloseHandle h); skip } else skip);
      _ \<leftarrow> setWatchActive c; _ \<leftarrow> setWatch f; _ \<leftarrow> setWatch g; setWatch i })" for b h c f g i
    by (intro obey clean_svc) (simp add: registerCall_def)
  show ?thesis
    unfolding watchCleanup_def
    by (rule obeys_then [OF quiesce assms(2)], subst wp_bind, rule wp_mono [OF ctx], assumption,
      subst wp_bind, subst wp_return, subst wp_bind, rule wp_mono [OF data], assumption,
      subst wp_bind, subst wp_return, rule obeysD [OF rest])
qed

lemma watchCleanup_state:
  "wp (watchCleanup K fuel l) m (\<lambda>_ m'. \<not> mcWatchActive m' \<and> \<not> wsArmed (watchState m') \<and>
     \<not> wsStopRequested (watchState m'))"
  unfolding watchCleanup_def
  by (rule wp_any, rule wp_any, rule wp_any, rule wp_any, rule wp_any, rule wp_any) simp

text \<open>C39: However a watchpoint session ends, it leaves nothing behind: every handle is as often open as before, so the
  one the session opened is closed, and the session is marked as over; and every breakpoint register of every core is
  as it was before or cleared, if the kernel lets the thread move to each of the four cores, within the reads that
  \<open>pinToCore\<close> makes, and lets a register that has taken a write be cleared.  Where it does not, the clean-up gives up
  after three attempts.\<close>

theorem watchSession_leaves_nothing:
  assumes "kernelCodes K" and "kernelHandles K"
    and "run_state (debugWatchThreadMain K stopBy fuel) m = ((), m')" and "\<not> mcStuck m'"
  shows "openHandles (mcTrace m') handle = openHandles (mcTrace m) handle \<and>
    \<not> mcWatchActive m' \<and> \<not> wsArmed (watchState m') \<and>
    (kernelMoves K \<and> kernelClears K \<longrightarrow>
      registersOf (mcTrace m') core reg = registersOf (mcTrace m) core reg \<or>
      registersOf (mcTrace m') core reg = Some (0, 0))"
proof -
  have "wp (debugWatchThreadMain K stopBy fuel) m (\<lambda>_. cleanBut {} m)" if "kernelMoves K" "kernelClears K"
  proof -
    have K: "kernelDisarms K" using assms that by (simp add: kernelDisarms_def)
    show ?thesis
      unfolding debugWatchThreadMain_def wp_bind
      by (rule wp_mono [OF watchBody_clean [where ?m0.0 = m, OF K]], simp add: cleanBut_def allTaken_def, erule watchCleanup_clean [OF K])
  qed
  moreover have "wp (debugWatchThreadMain K stopBy fuel) m (\<lambda>_ m'. \<not> mcWatchActive m' \<and> \<not> wsArmed (watchState m'))"
    unfolding debugWatchThreadMain_def
    by (rule wp_any, rule wp_mono [OF watchCleanup_state]) simp
  ultimately show ?thesis
    using wp_runI [OF handlesD [OF neutral_watchThread [OF assms(2)]] assms(3)] assms(3,4)
    by (fastforce simp: wp_def cleanBut_def)
qed

text \<open>A kernel with context registers from 4 on and one application, in which nothing ever happens.\<close>

definition watchKernel :: Kernel where
  "watchKernel = (sampleKernel None)\<lparr>knReply := (\<lambda>t c.
     case c of
       GetApplicationProcessId \<Rightarrow> okReply\<lparr>rpValue := 0x51\<rparr>
     | DebugActiveProcess pid \<Rightarrow> okReply\<lparr>rpValue := 0xB00\<rparr>
     | GetSystemTick \<Rightarrow> okReply\<lparr>rpValue := of_nat (length t)\<rparr>
     | GetSystemTickFreq \<Rightarrow> okReply\<lparr>rpValue := 4\<rparr>
     | WaitSynchronization h n \<Rightarrow> okReply\<lparr>rpResult := knTimedOut (sampleKernel None)\<rparr>
     | SetHardwareBreakPoint reg control v \<Rightarrow>
         okReply\<lparr>rpResult := (if control = contextControl \<and> reg < 4 then 1 else 0)\<rparr>
     | GetCurrentProcessorNumber \<Rightarrow> okReply\<lparr>rpValue := lastPinned t\<rparr>
     | _ \<Rightarrow> okReply)\<rparr>"

lemma watchKernel_ok:
  "kernelCodes watchKernel" "kernelHandles watchKernel" "kernelMoves watchKernel" "kernelClears watchKernel"
proof -
  show "kernelCodes watchKernel" "kernelHandles watchKernel" "kernelClears watchKernel"
    by (simp_all add: watchKernel_def sampleKernel_def kernelCodes_def kernelHandles_def kernelClears_def okReply_def
        contextControl_def)
  have "movesTo watchKernel core" for core
    unfolding movesTo_def Let_def
    by (intro allI conjI seen_now) (simp_all add: watchKernel_def sampleKernel_def okReply_def ucast_of_nat_core)
  then show "kernelMoves watchKernel" by (simp add: kernelMoves_def list_all_iff)
qed

definition emptyHit :: DebugWatchHit where
  "emptyHit = \<lparr>whX = [], whSp = 0, whPc = 0, whDataAddress = 0, whThreadId = 0, whInsn = [], whInsnBytes = 0,
     whFpStack = [], whFpStackBytes = 0, whSpStack = [], whSpStackBytes = 0\<rparr>"

definition watchExample :: WatchMachine where
  "watchExample = \<lparr>mcTrace = [], mcStuck = False, mcWatchActive = True, mcTraceActive = False,
     mcMultiTraceActive = False, mcDmntInitialized = False,
     watchState = \<lparr>wsThreadStarted = True, wsArmed = False, wsEverArmed = False, wsStopRequested = True,
     wsHasHit = False, wsProcessId = 0, wsWatchAddress = 0x8000, wsWatchSize = 4, wsMaxHits = 1, wsHitCount = 0,
     wsCtxSlot = 0, wsWpSlot = 0, wsDurationSeconds = 0, wsStartedTick = 0,
     wsRing = ringEmpty 0 [], wsFilterEnabled = False, wsFilterLow = 0,
     wsFilterHigh = 0, wsLastPc = 0, wsLastLr = 0, wsLastSp = 0, wsLastDataAddress = 0, wsLastThreadId = 0,
     wsLastHit = emptyHit, wsLastError = 0, wsStage = [], wsHint = []\<rparr>\<rparr>"

definition watchedOut :: WatchMachine where
  "watchedOut = snd (run_state (debugWatchThreadMain watchKernel (\<lambda>_. False) 12) watchExample)"

lemma watchedOut_armed: "\<not> mcStuck watchedOut \<and> wsEverArmed (watchState watchedOut)"
  by code_simp

lemma watchSession_leaves_nothing_witness:
  "wsEverArmed (watchState watchedOut) \<and> openHandles (mcTrace watchedOut) 0xB00 = 0 \<and>
   (registersOf (mcTrace watchedOut) 2 16 = None \<or> registersOf (mcTrace watchedOut) 2 16 = Some (0, 0))"
proof -
  have "run_state (debugWatchThreadMain watchKernel (\<lambda>_. False) 12) watchExample = ((), watchedOut)"
    by (simp add: watchedOut_def prod_eq_iff)
  from watchSession_leaves_nothing [OF watchKernel_ok(1,2) this, where handle = "0xB00" and core = 2 and reg = 16] show ?thesis
    using watchedOut_armed watchKernel_ok(3,4) by (simp add: watchExample_def)
qed

end
