(* ===== verification/DebugWatchHits.thy ===== *)
theory DebugWatchHits
  imports DebugWatchSafe HwBpCalls "HOL-Library.Sublist"
begin

text \<open>
  What a watchpoint session keeps of the hits: they are data breakpoints the kernel reported, in the order it
  reported them, all of them inside the filter, and the counter, the last hit and the ring show exactly them.
\<close>

definition hitKey :: "DebugWatchHit \<Rightarrow> u64 \<times> u64" where
  "hitKey hit = (whDataAddress hit, whThreadId hit)"

definition eventKey :: "DebugEvent \<Rightarrow> u64 \<times> u64" where
  "eventKey event = (evAddress event, evThread event)"

definition isDataBreak :: "Reply \<Rightarrow> bool" where
  "isDataBreak r \<longleftrightarrow> rpResult r = 0 \<and> evType (rpEvent r) = EventException \<and> evDataBreak (rpEvent r)"

text \<open>The data breakpoints reported so far, oldest first.\<close>

fun dataBreaks :: "Trace \<Rightarrow> (u64 \<times> u64) list" where
  "dataBreaks [] = []"
| "dataBreaks ((c, r) # t) =
    (case c of
       GetDebugEvent h \<Rightarrow> if isDataBreak r then dataBreaks t @ [eventKey (rpEvent r)] else dataBreaks t
     | _ \<Rightarrow> dataBreaks t)"

definition insideFilter :: "DebugWatchConfig \<Rightarrow> DebugWatchHit \<Rightarrow> bool" where
  "insideFilter config hit \<longleftrightarrow>
    (if wcFilterEnabled config then wcFilterLow config \<le> whPc hit \<and> whPc hit \<le> wcFilterHigh config else True)"

definition watchRingSize :: "DebugWatchConfig \<Rightarrow> u32" where
  "watchRingSize config = (if wcRingSize config > DEBUG_WATCH_RING_MAX then DEBUG_WATCH_RING_MAX else wcRingSize config)"

definition watchMaxHits :: "DebugWatchConfig \<Rightarrow> u32" where
  "watchMaxHits config = (if wcMaxHits config > 0 then wcMaxHits config else 1)"

text \<open>The state shows \<open>hits\<close>.\<close>

definition shows' :: "DebugWatchConfig \<Rightarrow> DebugWatchHit list \<Rightarrow> DebugWatchHit list \<Rightarrow> DebugWatchState \<Rightarrow> bool" where
  "shows' config slots hits w \<longleftrightarrow>
     wsFilterEnabled w = wcFilterEnabled config \<and> wsFilterLow w = wcFilterLow config \<and>
     wsFilterHigh w = wcFilterHigh config \<and> wsMaxHits w = watchMaxHits config \<and>
     wsRing w = foldl ringPush (ringEmpty (watchRingSize config) slots) hits \<and>
     wsHitCount w = of_nat (length hits) \<and> wsHasHit w = (hits \<noteq> []) \<and>
     (if hits = [] then True else wsLastHit w = last hits) \<and> list_all (insideFilter config) hits"

text \<open>The log of a session: \<open>pending\<close> are the breakpoints just reported and not recorded yet, and \<open>room\<close> says
  that there is room for one more hit, for a session without a ring.\<close>

definition watchLog ::
  "DebugWatchConfig \<Rightarrow> DebugWatchHit list \<Rightarrow> (u64 \<times> u64) list \<Rightarrow> nat \<Rightarrow> WatchMachine \<Rightarrow> bool" where
  "watchLog config slots pending room m \<longleftrightarrow> (\<exists>hits. shows' config slots hits (watchState m) \<and>
     subseq (map hitKey hits @ pending) (dataBreaks (mcTrace m)) \<and>
     (watchRingSize config = 0 \<longrightarrow> length hits + room \<le> unat (watchMaxHits config)))"

lemma ringSize_pushes: "ringSize (foldl ringPush r hits) = ringSize r"
  by (induction hits arbitrary: r) simp_all

lemma subseq_grows: "subseq xs ys \<Longrightarrow> subseq xs (ys @ zs)"
  by (erule subseq_order.trans) (rule prefix_imp_subseq, simp)

lemma dataBreaks_grow: "subseq xs (dataBreaks t) \<Longrightarrow> subseq xs (dataBreaks ((c, r) # t))"
  by (cases c) (simp_all add: subseq_grows)

lemma log_call: "obeys (watchLog config slots pending room) (svc K c)" "obeys (watchLog config slots pending room) (svcResult K c)"
  unfolding obeys_def watchLog_def by (auto intro: dataBreaks_grow simp del: dataBreaks.simps)

lemma log_watch [obey]:
  "obeys (watchLog config slots pending room) (getWatch f)" "obeys (watchLog config slots pending room) watchActive"
  "obeys (watchLog config slots pending room) (setWatchActive b)" "obeys (watchLog config slots pending room) outOfFuel"
  "obeys (watchLog config slots pending room) (stopRequested stopBy)"
  by (simp_all add: obeys_def watchLog_def)

text \<open>A write to the state that leaves what the log speaks of.\<close>

lemma log_setWatch:
  "(\<And>hits w. shows' config slots hits w \<Longrightarrow> shows' config slots hits (f w)) \<Longrightarrow>
    obeys (watchLog config slots pending room) (setWatch f)"
  by (auto simp: obeys_def watchLog_def)

interpretation log_calls: call_invariant K "watchLog config slots pending room" for K config slots pending room
  by unfold_locales (simp_all add: log_call log_watch)

lemma shows_state [simp]:
  "shows' config slots hits (w\<lparr>wsLastError := rc\<rparr>) = shows' config slots hits w"
  "shows' config slots hits (w\<lparr>wsStage := stage\<rparr>) = shows' config slots hits w"
  "shows' config slots hits (w\<lparr>wsHint := hint\<rparr>) = shows' config slots hits w"
  "shows' config slots hits (w\<lparr>wsArmed := b\<rparr>) = shows' config slots hits w"
  "shows' config slots hits (w\<lparr>wsEverArmed := b\<rparr>) = shows' config slots hits w"
  "shows' config slots hits (w\<lparr>wsStartedTick := tick\<rparr>) = shows' config slots hits w"
  "shows' config slots hits (w\<lparr>wsStopRequested := b\<rparr>) = shows' config slots hits w"
  "shows' config slots hits (w\<lparr>wsProcessId := pid\<rparr>) = shows' config slots hits w"
  "shows' config slots hits (w\<lparr>wsCtxSlot := slot\<rparr>) = shows' config slots hits w"
  "shows' config slots hits (w\<lparr>wsWpSlot := slot\<rparr>) = shows' config slots hits w"
  by (simp_all add: shows'_def)

lemma log_state [obey]:
  "obeys (watchLog config slots pending room) (setError stage rc)"
  "obeys (watchLog config slots pending room) (setStage stage)"
  "obeys (watchLog config slots pending room) setDebugHandleInUseHint"
  "obeys (watchLog config slots pending room) (durationExpired K)"
  "obeys (watchLog config slots pending room) hitLimitReached"
  "obeys (watchLog config slots pending room) (watchFail l stage rc)"
  unfolding setError_def setStage_def setDebugHandleInUseHint_def durationExpired_def hitLimitReached_def watchFail_def
  by (intro obey log_call log_setWatch; simp)+

lemma log_drain [obey]: "obeys (watchLog config slots pending room) (watchDrainInitialEvents K fuel h)"
proof -
  have events: "obeys (watchLog config slots pending room) (watchInitialEvents K n h s)" for n s
    by (induction n arbitrary: s) (auto intro!: obey log_call)
  have "obeys (watchLog config slots pending room) (watchDrainLoop K n h d s)" for n d s
    by (induction n arbitrary: s) (auto intro!: obey log_call events)
  then show ?thesis
    unfolding watchDrainInitialEvents_def by (intro obey log_call)
qed

subsection \<open>Recording a hit\<close>

lemma log_room: "watchLog config slots pending room m \<Longrightarrow> room' \<le> room \<Longrightarrow> watchLog config slots pending room' m"
  by (fastforce simp: watchLog_def)

lemma captureHit_key:
  assumes "watchLog config slots pending room m"
  shows "wp (captureHit K h event) m (\<lambda>hit m'. watchLog config slots pending room m' \<and> hitKey hit = eventKey event)"
proof -
  have "obeys (watchLog config slots pending room) (captureHit K h event)"
    unfolding captureHit_def readWindow_def Let_def by (intro obey log_call)
  moreover have "wp (captureHit K h event) m (\<lambda>hit _. hitKey hit = eventKey event)"
    unfolding captureHit_def Let_def
    by (rule wp_any, rule wp_ifI, simp add: hitKey_def eventKey_def, rule wp_any, rule wp_splitI, rule wp_any,
      rule wp_splitI, rule wp_any, rule wp_splitI) (simp add: hitKey_def eventKey_def)
  ultimately show ?thesis by (intro wp_conj obeysD assms)
qed

lemma recordHit_log:
  assumes "watchLog config slots [hitKey hit] 1 m" and "passesFilter (watchState m) hit"
  shows "wp (recordHit hit) m (\<lambda>_. watchLog config slots [] 0)"
proof -
  obtain hits where hits: "shows' config slots hits (watchState m)"
      "subseq (map hitKey (hits @ [hit])) (dataBreaks (mcTrace m))"
      "watchRingSize config = 0 \<longrightarrow> length (hits @ [hit]) \<le> unat (watchMaxHits config)"
    using assms(1) by (auto simp: watchLog_def)
  have "insideFilter config hit"
    using hits(1) assms(2) by (auto simp: shows'_def insideFilter_def passesFilter_def)
  then have "shows' config slots (hits @ [hit]) (watchState (snd (run_state (recordHit hit) m)))"
    using hits(1) by (simp add: shows'_def recordHit_def setWatch_def)
  then show ?thesis
    using hits(2,3) by (auto simp: wp_run watchLog_def recordHit_def setWatch_def)
qed

lemma limit_room:
  assumes "watchLog config slots [] 0 m"
  shows "wp hitLimitReached m (\<lambda>done' m'. watchLog config slots [] (if done' then 0 else 1) m')"
proof -
  obtain hits where hits: "shows' config slots hits (watchState m)"
      "subseq (map hitKey hits) (dataBreaks (mcTrace m))"
      "watchRingSize config = 0 \<longrightarrow> length hits \<le> unat (watchMaxHits config)"
    using assms by (auto simp: watchLog_def)
  let ?done = "ringSize (wsRing (watchState m)) = 0 \<and> wsHitCount (watchState m) \<ge> wsMaxHits (watchState m)"
  have size: "ringSize (wsRing (watchState m)) = watchRingSize config"
    using hits(1) by (simp add: shows'_def ringSize_pushes ringEmpty_def)
  have "length hits + 1 \<le> unat (watchMaxHits config)" if "watchRingSize config = 0" "\<not> ?done"
  proof -
    have "length hits \<le> unat (watchMaxHits config)" using hits(3) that(1) by simp
    then have "unat (of_nat (length hits) :: u32) = length hits"
      using unat_u32_lt [of "watchMaxHits config"] by (simp add: unat_of_nat take_bit_nat_eq_self)
    moreover have "of_nat (length hits) < watchMaxHits config"
      using that hits(1) size by (simp add: shows'_def)
    ultimately show ?thesis by (simp add: word_less_nat_alt)
  qed
  then have "watchLog config slots [] (if ?done then 0 else 1) m"
    unfolding watchLog_def using hits by (intro exI [of _ hits]) auto
  then show ?thesis by (simp add: hitLimitReached_def)
qed

subsection \<open>The session\<close>

lemma event_pending:
  assumes "watchLog config slots [] room m"
  shows "wp (svc K (GetDebugEvent h)) m (\<lambda>r m'. if isDataBreak r then watchLog config slots [eventKey (rpEvent r)] room m'
     else watchLog config slots [] room m')"
  using assms by (auto simp: watchLog_def noReply_def isDataBreak_def)

lemma exit_log:
  "watchLog config slots [] room m \<Longrightarrow> (if x = WatchDrained then 1 else 0) \<le> room \<Longrightarrow>
    wp (do { _ \<leftarrow> setStage stage; State_Monad.return (x, True) }) m
      (\<lambda>x. watchLog config slots [] (if fst x = WatchDrained then 1 else 0))"
  by (rule obeys_then [OF log_state(2)], assumption) (auto intro: log_room)

text \<open>One data breakpoint, from its report on.\<close>

lemma hit_log:
  assumes "watchLog config slots [eventKey event] 1 m"
    and rest: "\<And>m'. watchLog config slots [] 1 m' \<Longrightarrow> wp (watchEvents K fuel h True) m'
      (\<lambda>x. watchLog config slots [] (if fst x = WatchDrained then 1 else 0))"
  shows "wp (do {
       hit \<leftarrow> captureHit K h event;
       passes \<leftarrow> hitPassesFilter hit;
       if passes
       then do {
         _ \<leftarrow> recordHit hit;
         done' \<leftarrow> hitLimitReached;
         if done' then do { _ \<leftarrow> setStage ''hitsReached''; State_Monad.return (WatchLimit, True) }
         else watchEvents K fuel h True
       }
       else watchEvents K fuel h True
     }) m (\<lambda>x. watchLog config slots [] (if fst x = WatchDrained then 1 else 0))"
proof -
  have dropped: "watchLog config slots [] 1 m'" if "watchLog config slots [k] 1 m'" for k m'
  proof -
    have "subseq xs ys" if "subseq (xs @ [k]) ys" for xs ys
      by (rule subseq_order.trans [OF prefix_imp_subseq that]) simp
    then show ?thesis using that unfolding watchLog_def by (metis append_Nil2)
  qed
  show ?thesis
  proof (subst wp_bind, rule wp_mono [OF captureHit_key [OF assms(1)]])
    fix hit m'
    assume hit: "watchLog config slots [eventKey event] 1 m' \<and> hitKey hit = eventKey event"
    then have key: "watchLog config slots [hitKey hit] 1 m'" by simp
    note none = dropped [OF key]
    show "wp (do {
       passes \<leftarrow> hitPassesFilter hit;
       if passes
       then do {
         _ \<leftarrow> recordHit hit;
         done' \<leftarrow> hitLimitReached;
         if done' then do { _ \<leftarrow> setStage ''hitsReached''; State_Monad.return (WatchLimit, True) }
         else watchEvents K fuel h True
       }
       else watchEvents K fuel h True
     }) m' (\<lambda>x. watchLog config slots [] (if fst x = WatchDrained then 1 else 0))"
      unfolding hitPassesFilter_def wp_bind [of "getWatch f" for f] wp_watch(1)
      by (rule wp_ifI, subst wp_bind, rule wp_mono [OF recordHit_log [OF key]], assumption,
        subst wp_bind, rule wp_mono [OF limit_room], assumption, rule wp_ifI, rule exit_log, assumption, simp,
        rule rest, simp, rule rest, rule none)
  qed
qed

lemma watchEvents_log:
  "watchLog config slots [] 1 m \<Longrightarrow> wp (watchEvents K fuel h pending) m
     (\<lambda>x. watchLog config slots [] (if fst x = WatchDrained then 1 else 0))"
proof (induction fuel arbitrary: pending m)
  case 0
  then show ?case unfolding watchEvents.simps by (intro obeys_then [OF log_watch(4)]) simp_all
next
  case (Suc fuel)
  show ?case
    unfolding watchEvents.simps
    by (subst wp_bind, rule wp_mono [OF event_pending [OF Suc.prems]], rule wp_ifI, simp add: isDataBreak_def,
      rule wp_ifI, rule exit_log, simp add: isDataBreak_def, simp, rule wp_ifI, rule hit_log, simp add: isDataBreak_def,
      erule Suc.IH, rule Suc.IH) (auto simp: isDataBreak_def)
qed

lemma watchLoop_log:
  "watchLog config slots [] 1 m \<Longrightarrow> wp (watchLoop K stopBy fuel l) m (\<lambda>_. watchLog config slots [] 0)"
proof (induction fuel arbitrary: l m)
  case 0
  then show ?case
    unfolding watchLoop.simps by (intro obeys_then [OF log_watch(4)]) (simp_all add: log_room)
next
  case (Suc fuel)
  have expired: "obeys (watchLog config slots [] 1) (if stop then State_Monad.return True else durationExpired K)" for stop
    by (intro obey)
  have failed: "wp (do { _ \<leftarrow> setError stage rc; State_Monad.return l' }) m' (\<lambda>_. watchLog config slots [] 0)"
    if "watchLog config slots [] 1 m'" for stage rc l' m'
    by (rule obeys_then [OF log_state(1) that]) (simp add: log_room)
  have events: "wp (case x of WatchExited \<Rightarrow> State_Monad.return l1 | WatchLimit \<Rightarrow> State_Monad.return l2 | WatchDrained \<Rightarrow> do {
              rc \<leftarrow> debugHwBpContinueAll K (wlHandle l);
              if R_FAILED rc
              then do { _ \<leftarrow> setError ''continue'' rc; State_Monad.return l3 }
              else watchLoop K stopBy fuel l4 }) m' (\<lambda>_. watchLog config slots [] 0)"
    if "watchLog config slots [] (if x = WatchDrained then 1 else 0) m'" for x l1 l2 l3 l4 m'
  proof (cases x)
    case WatchDrained
    have "wp (do {
              rc \<leftarrow> debugHwBpContinueAll K (wlHandle l);
              if R_FAILED rc
              then do { _ \<leftarrow> setError ''continue'' rc; State_Monad.return l3 }
              else watchLoop K stopBy fuel l4 }) m' (\<lambda>_. watchLog config slots [] 0)"
      by (rule obeys_then [OF log_calls.continueAll], rule that [unfolded WatchDrained, simplified], rule wp_ifI,
        rule failed, simp, rule Suc.IH, simp)
    then show ?thesis by (simp add: WatchDrained del: wp_bind)
  qed (use that in simp_all)
  show ?case
    unfolding watchLoop.simps
    by (rule obeys_then [OF log_watch(5) Suc.prems], rule obeys_then [OF expired], assumption, rule wp_ifI,
      simp add: log_room, rule obeys_then [OF log_call(2)], assumption, rule wp_ifI, erule Suc.IH, rule wp_ifI,
      erule failed, subst wp_bind, rule wp_mono [OF watchEvents_log], assumption, rule wp_split_eqI, rule events, simp)
qed

lemma watchArm_log:
  assumes "watchLog config slots [] 1 m"
  shows "wp (watchArm K stopBy fuel l) m (\<lambda>_. watchLog config slots [] 0)"
proof -
  let ?P = "watchLog config slots [] 1"
  have run: "wp (watchRun K stopBy fuel l') m' (\<lambda>_. watchLog config slots [] 0)" if "?P m'" for l' m'
    unfolding watchRun_def
    by (rule obeys_then [OF log_calls.continueAll that], rule wp_ifI, rule wp_mono [OF obeysD [OF log_state(6)]],
      assumption, erule log_room, simp, rule obeys_then [OF log_call(1)], assumption,
      rule obeys_then [where P = ?P], rule log_setWatch, simp, assumption, erule watchLoop_log)
  have failed: "wp (watchFail l' stage rc) m' (\<lambda>_. watchLog config slots [] 0)" if "?P m'" for l' stage rc m'
    by (rule wp_mono [OF obeysD [OF log_state(6) that]]) (simp add: log_room)
  have exited: "wp (do { _ \<leftarrow> setStage stage; State_Monad.return l' }) m' (\<lambda>_. watchLog config slots [] 0)"
    if "?P m'" for stage l' m'
    by (rule obeys_then [OF log_state(2) that]) (simp add: log_room)
  have slots: "obeys ?P (setWatch (\<lambda>w. w\<lparr>wsCtxSlot := a, wsWpSlot := b\<rparr>))" for a b
    by (rule log_setWatch) simp
  show ?thesis
    unfolding watchArm_def Let_def
    by (rule obeys_then [OF log_drain assms], rule wp_splitI, rule wp_ifI, erule failed, rule wp_ifI, erule exited,
      rule obeys_then [OF log_calls.probeContext], assumption, (rule wp_splitI)+, rule wp_ifI, erule failed,
      rule obeys_then [OF log_calls.probeData], assumption, rule wp_splitI, rule wp_ifI, erule failed,
      rule obeys_then [OF slots], assumption, rule obeys_then [OF log_calls.setContext], assumption,
      rule wp_ifI, erule failed, rule obeys_then [OF log_watch(1)], assumption, rule wp_splitI,
      rule obeys_then [OF log_calls.setData], assumption, rule wp_ifI, erule failed, erule run)
qed

lemma thread_log:
  assumes "watchLog config slots [] 1 m"
  shows "wp (debugWatchThreadMain K stopBy fuel) m (\<lambda>_. watchLog config slots [] 0)"
proof -
  let ?P = "watchLog config slots [] 1"
  have failed: "obeys ?P (watchFail l stage rc)" for l stage rc by (rule log_state)
  have attach: "obeys ?P (setWatch (\<lambda>w. w\<lparr>wsProcessId := pid\<rparr>))" for pid
    by (rule log_setWatch) simp
  have refused: "obeys ?P (do {
         l \<leftarrow> watchFail (watchLocals K) stage rc;
         _ \<leftarrow> (if b then setDebugHandleInUseHint else skip);
         State_Monad.return l })" for stage rc b
    by (intro obey)
  have body: "wp (watchBody K stopBy fuel) m (\<lambda>_. watchLog config slots [] 0)"
    unfolding watchBody_def
    by (rule obeys_then [OF log_call(1) assms], rule wp_ifI, rule wp_mono [OF obeysD [OF failed]], assumption,
      erule log_room, simp, rule obeys_then [OF log_call(1)], assumption, rule wp_ifI,
      rule wp_mono [OF obeysD [OF refused]], assumption, erule log_room, simp,
      rule obeys_then [OF attach], assumption, erule watchArm_log)
  have "obeys (watchLog config slots [] 0) (watchCleanup K fuel l)" for l
    unfolding watchCleanup_def
    by (intro obey log_call log_setWatch log_calls.quiesce log_calls.clearAll) auto
  then show ?thesis
    unfolding debugWatchThreadMain_def wp_bind by (intro wp_mono [OF body] obeysD)
qed

subsection \<open>The start\<close>

lemma reset_shows: "shows' config slots [] (watchReset config w)" if "ringSlots (wsRing w) = slots"
  using that by (simp add: shows'_def watchReset_def watchMaxHits_def watchRingSize_def)

lemma reset_log:
  "ringSlots (wsRing (watchState m)) = slots \<Longrightarrow>
    watchLog config slots [] 1 (m\<lparr>watchState := watchReset config (watchState m)\<rparr>)"
proof -
  assume slots: "ringSlots (wsRing (watchState m)) = slots"
  have "1 \<le> unat (watchMaxHits config)"
    by (auto simp: watchMaxHits_def word_less_nat_alt)
  then show ?thesis
    unfolding watchLog_def by (intro exI [of _ "[]"]) (use reset_shows [OF slots] in simp)
qed

lemma start_log:
  "wp (debugWatchStart K (Some config)) m
    (\<lambda>ok m'. if ok then watchLog config (ringSlots (wsRing (watchState m))) [] 1 m' else True)"
proof -
  let ?slots = "ringSlots (wsRing (watchState m))"
  let ?Q = "\<lambda>ok m'. if ok then watchLog config ?slots [] 1 m' else True"
  let ?S = "\<lambda>m'. ringSlots (wsRing (watchState m')) = ?slots"
  have refuse: "wp (watchRefuse rc) m' ?Q" for rc m'
    by (simp add: watchRefuse_def)
  have reap: "obeys ?S (if b then do { _ \<leftarrow> reapWatchThread K; setWatch (\<lambda>w. w\<lparr>wsThreadStarted := False\<rparr>) } else skip)" for b
    by (auto simp: obeys_def reapWatchThread_def)
  have rest: "wp (do {
               _ \<leftarrow> setWatch (watchReset config);
               _ \<leftarrow> setWatchActive True;
               rc \<leftarrow> svcResult K ThreadCreate;
               if R_FAILED rc
               then do { _ \<leftarrow> setWatchActive False; _ \<leftarrow> setWatch (\<lambda>w. w\<lparr>wsThreadStarted := False\<rparr>); watchRefuse rc }
               else do {
                 rc \<leftarrow> svcResult K ThreadStart;
                 if R_FAILED rc
                 then do {
                   _ \<leftarrow> setWatchActive False;
                   _ \<leftarrow> setWatch (\<lambda>w. w\<lparr>wsThreadStarted := False, wsLastError := rc\<rparr>);
                   _ \<leftarrow> svc K ThreadClose;
                   State_Monad.return False
                 }
                 else State_Monad.return True
               }
             }) m' ?Q" if "?S m'" for m'
  proof -
    let ?P = "watchLog config ?slots [] 1"
    have failed: "wp (do { _ \<leftarrow> p; watchRefuse rc }) m' ?Q" "wp (do { _ \<leftarrow> p; _ \<leftarrow> q; watchRefuse rc }) m' ?Q"
        "wp (do { _ \<leftarrow> p; _ \<leftarrow> q; _ \<leftarrow> r; State_Monad.return False }) m' ?Q"
      for p :: "(WatchMachine, unit) state" and q :: "(WatchMachine, unit) state" and r :: "(WatchMachine, Reply) state"
        and rc m'
      by ((rule wp_any)+, simp add: watchRefuse_def)+
    show ?thesis
      by (subst wp_bind, subst wp_watch(2), rule obeys_then [where P = ?P, OF log_watch(3) reset_log [OF that]],
        rule obeys_then [where P = ?P, OF log_calls.callResult], assumption, rule wp_ifI, rule failed(2),
        rule obeys_then [where P = ?P, OF log_calls.callResult], assumption, rule wp_ifI, rule failed(3), simp)
  qed
  show ?thesis
    unfolding debugWatchStart_def option.case
    by (rule obeys_then [where P = ?S], simp add: obeys_def wp_def, simp, rule wp_ifI, rule refuse,
      rule obeys_then [where P = ?S], simp add: obeys_def, assumption, rule wp_ifI, simp,
      rule obeys_then [where P = ?S], simp add: obeys_def, assumption,
      rule obeys_then [where P = ?S, OF reap], assumption, rule wp_ifI, rule refuse, erule rest)
qed

text \<open>C40: What a client sees after a watchpoint session is a list of hits, each of them a data breakpoint that
  the kernel reported, in the order of the reports and inside the filter: the counter is their number, the last hit
  is the last of them, the ring holds the last ones, oldest first, and without a ring there are at most
  \<open>maxHits\<close>.\<close>

theorem watchSession_hits:
  assumes "run_state (debugWatchStart K (Some config)) m = (True, m1)"
    and "run_state (debugWatchThreadMain K stopBy fuel) m1 = ((), m2)"
    and "length (ringSlots (wsRing (watchState m))) = unat DEBUG_WATCH_RING_MAX"
  shows "\<exists>hits. list_all (insideFilter config) hits \<and> subseq (map hitKey hits) (dataBreaks (mcTrace m2)) \<and>
    wsHitCount (watchState m2) = of_nat (length hits) \<and>
    fst (run_state debugWatchGetLastHit m2) = (if hits = [] then None else Some (last hits)) \<and>
    (\<forall>i. fst (run_state (debugWatchGetRingHit i) m2) =
      (let kept = keepLast (unat (watchRingSize config)) hits
       in if unat i < length kept then Some (kept ! unat i) else None)) \<and>
    (if watchRingSize config = 0 then length hits \<le> unat (watchMaxHits config) else True)"
proof -
  let ?slots = "ringSlots (wsRing (watchState m))"
  have started: "watchLog config ?slots [] 1 m1"
    using wp_runI [OF start_log assms(1)] by simp
  from wp_runI [OF thread_log [OF started] assms(2)] obtain hits where
    hits: "shows' config ?slots hits (watchState m2)" "subseq (map hitKey hits) (dataBreaks (mcTrace m2))"
      "watchRingSize config = 0 \<longrightarrow> length hits \<le> unat (watchMaxHits config)"
    by (auto simp: watchLog_def)
  have ring: "watchRingGet (wsRing (watchState m2)) i =
      (let kept = keepLast (unat (watchRingSize config)) hits
       in if unat i < length kept then Some (kept ! unat i) else None)" for i
  proof (cases "watchRingSize config = 0")
    case True
    then show ?thesis
      using hits(1) by (simp add: shows'_def watchRingGet_def ringSize_pushes ringEmpty_def keepLast_def)
  next
    case False
    have "unat (watchRingSize config) \<le> 8"
      by (auto simp: watchRingSize_def DEBUG_WATCH_RING_MAX_def word_less_nat_alt word_le_nat_alt not_less)
    then show ?thesis
      using watch_ring.get_recorded [of "watchRingSize config" ?slots hits i] hits(1) False assms(3)
      by (simp add: shows'_def DEBUG_WATCH_RING_MAX_def unat_gt_0)
  qed
  show ?thesis
    using hits ring by (intro exI [of _ hits]) (auto simp: shows'_def debugWatchGetLastHit_def debugWatchGetRingHit_def getWatch_def)
qed

text \<open>A kernel that reports one data breakpoint behind every other wait.\<close>

definition isWait :: "Call \<Rightarrow> bool" where
  "isWait c \<longleftrightarrow> (case c of WaitSynchronization h n \<Rightarrow> True | _ \<Rightarrow> False)"

definition hitKernel :: Kernel where
  "hitKernel = watchKernel\<lparr>knReply := (\<lambda>t c.
     case c of
       WaitSynchronization h n \<Rightarrow>
         okReply\<lparr>rpResult := (if even (length (filter (\<lambda>(c, r). isWait c) t)) then 0 else knTimedOut (sampleKernel None))\<rparr>
     | GetDebugEvent h \<Rightarrow>
         (if t \<noteq> [] \<and> isWait (fst (hd t))
          then okReply\<lparr>rpEvent := \<lparr>evType = EventException, evThread = 7, evHardwareBreak = False, evAttached = True,
                 evDataBreak = True, evAddress = 0x8000\<rparr>\<rparr>
          else noReply)
     | GetDebugThreadContext h thread \<Rightarrow> noReply
     | _ \<Rightarrow> knReply watchKernel t c)\<rparr>"

definition hitConfig :: DebugWatchConfig where
  "hitConfig = \<lparr>wcAddress = 0x8000, wcSize = 4, wcMaxHits = 1, wcDurationSeconds = 0, wcRingSize = 0,
     wcFilterEnabled = True, wcFilterLow = 0, wcFilterHigh = 0x1000\<rparr>"

definition hitMachine :: WatchMachine where
  "hitMachine = watchExample\<lparr>mcWatchActive := False,
     watchState := (watchState watchExample)\<lparr>wsThreadStarted := False, wsRing := ringEmpty 0 (replicate 8 emptyHit)\<rparr>\<rparr>"

definition hitBegan :: WatchMachine where
  "hitBegan = \<lparr>mcTrace = [(ThreadStart, okReply), (ThreadCreate, okReply)], mcStuck = False, mcWatchActive = True,
     mcTraceActive = False, mcMultiTraceActive = False, mcDmntInitialized = False,
     watchState = \<lparr>wsThreadStarted = True, wsArmed = False, wsEverArmed = False, wsStopRequested = False,
     wsHasHit = False, wsProcessId = 0, wsWatchAddress = 0x8000, wsWatchSize = 4, wsMaxHits = 1, wsHitCount = 0,
     wsCtxSlot = 0, wsWpSlot = 0, wsDurationSeconds = 0, wsStartedTick = 0,
     wsRing = ringEmpty 0 (replicate 8 emptyHit), wsFilterEnabled = True, wsFilterLow = 0,
     wsFilterHigh = 0x1000, wsLastPc = 0, wsLastLr = 0, wsLastSp = 0, wsLastDataAddress = 0, wsLastThreadId = 0,
     wsLastHit = emptyHit, wsLastError = 0, wsStage = [], wsHint = []\<rparr>\<rparr>"

lemma hitBegan_start: "run_state (debugWatchStart hitKernel (Some hitConfig)) hitMachine = (True, hitBegan)"
  by code_simp

definition hitEnded :: WatchMachine where
  "hitEnded = snd (run_state (debugWatchThreadMain hitKernel (\<lambda>_. False) 12) hitBegan)"

lemma hitEnded_count: "wsHitCount (watchState hitEnded) = 1"
  by code_simp

lemma watchSession_hits_witness:
  "\<exists>hits. length hits = 1 \<and> list_all (insideFilter hitConfig) hits \<and>
     fst (run_state debugWatchGetLastHit hitEnded) = Some (last hits)"
proof -
  have run: "run_state (debugWatchThreadMain hitKernel (\<lambda>_. False) 12) hitBegan = ((), hitEnded)"
    by (simp add: hitEnded_def prod_eq_iff)
  have slots: "length (ringSlots (wsRing (watchState hitMachine))) = unat DEBUG_WATCH_RING_MAX"
    by (simp add: hitMachine_def ringEmpty_def DEBUG_WATCH_RING_MAX_def)
  obtain hits where hits: "list_all (insideFilter hitConfig) hits"
      "wsHitCount (watchState hitEnded) = of_nat (length hits)"
      "fst (run_state debugWatchGetLastHit hitEnded) = (if hits = [] then None else Some (last hits))"
      "if watchRingSize hitConfig = 0 then length hits \<le> unat (watchMaxHits hitConfig) else True"
    using watchSession_hits [OF hitBegan_start run slots] by blast
  have "length hits \<le> 1"
    using hits(4) by (simp add: watchRingSize_def watchMaxHits_def hitConfig_def DEBUG_WATCH_RING_MAX_def)
  moreover have "hits \<noteq> []"
    using hits(2) hitEnded_count by auto
  ultimately have "length hits = 1" by (cases hits) auto
  with hits show ?thesis by auto
qed

end
