(* ===== verification/DebugTrace.thy ===== *)
theory DebugTrace
  imports HwBp DebugProcess HitRing
begin

text \<open>
  \<open>debug_trace.c\<close>: the session that traces calls of up to four addresses.  Its thread attaches to a process, arms
  an instruction breakpoint for every target, and for each hit records the registers and the requested snapshots of
  memory and steps the thread over the instruction.  \<open>traceState.active\<close> is \<open>mcTraceActive\<close>.  As in
  \<open>DebugWatch\<close>, \<open>stopBy\<close> tells when the client has asked for a stop, and the mutex is left out.
\<close>

definition DEBUG_TRACE_EVENT_TIMEOUT_NS :: int where "DEBUG_TRACE_EVENT_TIMEOUT_NS = 20000000"
definition DEBUG_TRACE_DEFAULT_DURATION_SECONDS :: u64 where "DEBUG_TRACE_DEFAULT_DURATION_SECONDS = 60"
definition DEBUG_TRACE_INSN_BYTES :: nat where "DEBUG_TRACE_INSN_BYTES = 12"

record DebugTraceConfig =
  tcProcessId :: u64
  tcModel :: DebugTraceConfigModel
  tcDurationFromFirstHit :: bool
  tcTargetSnapshots :: "DebugTraceSnapshotSpec list list"
  tcTargetSnapshotCounts :: "u32 list"

record DebugTraceEvent =
  teSequence :: u64
  teTargetAddress :: u64
  teThreadId :: u64
  tePc :: u64
  teLr :: u64
  teSp :: u64
  teX :: "u64 list"
  teTick :: u64
  teCore :: u32
  teArgsCount :: u32
  teInsnBytes :: u32
  teContextResult :: res
  teCoreResult :: res
  teTargetIndex :: u32
  teSnapshotCount :: u32
  teSnapshotAddresses :: "u64 list"
  teSnapshotBytes :: "u32 list"
  teSnapshotResults :: "res list"
  teSnapshots :: "u8 list list"
  teInsn :: "u8 list"

definition zeroEvent :: DebugTraceEvent where
  "zeroEvent = \<lparr>teSequence = 0, teTargetAddress = 0, teThreadId = 0, tePc = 0, teLr = 0, teSp = 0,
     teX = replicate (unat DEBUG_TRACE_ARGS_MAX) 0, teTick = 0, teCore = 0, teArgsCount = 0, teInsnBytes = 0,
     teContextResult = 0, teCoreResult = 0, teTargetIndex = 0, teSnapshotCount = 0,
     teSnapshotAddresses = replicate (unat DEBUG_TRACE_SNAPSHOT_MAX) 0,
     teSnapshotBytes = replicate (unat DEBUG_TRACE_SNAPSHOT_MAX) 0,
     teSnapshotResults = replicate (unat DEBUG_TRACE_SNAPSHOT_MAX) 0,
     teSnapshots = replicate (unat DEBUG_TRACE_SNAPSHOT_MAX) (replicate DEBUG_TRACE_SNAPSHOT_BYTES_MAX 0),
     teInsn = replicate DEBUG_TRACE_INSN_BYTES 0\<rparr>"

record DebugTraceState =
  tsThreadStarted :: bool
  tsArmed :: bool
  tsEverArmed :: bool
  tsStopRequested :: bool
  tsHasEvent :: bool
  tsDmntClosed :: bool
  tsProcessId :: u64
  tsAddress :: u64
  tsTargetCount :: u32
  tsTargetAddresses :: "u64 list"
  tsTargetHits :: "u32 list"
  tsInstructionSlots :: "u32 list"
  tsMaxHits :: u32
  tsHitCount :: u64
  tsDurationSeconds :: u64
  tsStartedTick :: u64
  tsDurationStartTick :: u64
  tsDurationFromFirstHit :: bool
  tsRing :: "DebugTraceEvent HitRing"
  tsArgsCount :: u32
  tsContextSlot :: u32
  tsInstructionSlot :: u32
  tsIgnoredHits :: u32
  tsSnapshotCount :: u32
  tsSnapshots :: "DebugTraceSnapshotSpec list"
  tsTargetSnapshotCounts :: "u32 list"
  tsTargetSnapshots :: "DebugTraceSnapshotSpec list list"
  tsLastPc :: u64
  tsLastLr :: u64
  tsLastSp :: u64
  tsLastThreadId :: u64
  tsLastCore :: u32
  tsLastEvent :: DebugTraceEvent
  tsLastError :: res
  tsStage :: string
  tsHint :: string

record TraceMachine = Machine +
  traceState :: DebugTraceState

definition getTrace :: "(DebugTraceState \<Rightarrow> 'a) \<Rightarrow> (TraceMachine, 'a) state" where
  "getTrace f = State (\<lambda>m. (f (traceState m), m))"

definition setTrace :: "(DebugTraceState \<Rightarrow> DebugTraceState) \<Rightarrow> (TraceMachine, unit) state" where
  "setTrace f = State (\<lambda>m. ((), m\<lparr>traceState := f (traceState m)\<rparr>))"

definition traceActive :: "(TraceMachine, bool) state" where
  "traceActive = State (\<lambda>m. (mcTraceActive m, m))"

definition setTraceActive :: "bool \<Rightarrow> (TraceMachine, unit) state" where
  "setTraceActive b = State (\<lambda>m. ((), m\<lparr>mcTraceActive := b\<rparr>))"

subsection \<open>The state of the session\<close>

definition traceError :: "string \<Rightarrow> res \<Rightarrow> (TraceMachine, unit) state" where
  "traceError stage rc = setTrace (\<lambda>w. w\<lparr>tsLastError := rc, tsStage := take 31 stage, tsHint := []\<rparr>)"

definition traceStage :: "string \<Rightarrow> (TraceMachine, unit) state" where
  "traceStage stage = setTrace (\<lambda>w. w\<lparr>tsStage := take 31 stage, tsHint := []\<rparr>)"

definition traceHandleInUseHint :: "(TraceMachine, unit) state" where
  "traceHandleInUseHint = setTrace (\<lambda>w. w\<lparr>tsHint :=
     take 159 (''debug handle still owned by another debugger (for example the '' @
       ''standalone gdbstub); close it and retry'')\<rparr>)"

definition traceStopRequested :: "(Trace \<Rightarrow> bool) \<Rightarrow> (TraceMachine, bool) state" where
  "traceStopRequested stopBy = State (\<lambda>m. (tsStopRequested (traceState m) \<or> stopBy (mcTrace m), m))"

definition traceDurationExpired :: "Kernel \<Rightarrow> (TraceMachine, bool) state" where
  "traceDurationExpired K = do {
     w \<leftarrow> getTrace (\<lambda>w. w);
     (let started = (if tsDurationFromFirstHit w then tsDurationStartTick w else tsStartedTick w);
          hasStarted = (\<not> tsDurationFromFirstHit w \<or> tsDurationStartTick w \<noteq> 0)
      in if tsDurationSeconds w = 0 then State_Monad.return False
         else if \<not> hasStarted then State_Monad.return False
         else do {
           tick \<leftarrow> svc K GetSystemTick;
           freq \<leftarrow> svc K GetSystemTickFreq;
           State_Monad.return (rpValue tick - started \<ge> rpValue freq * tsDurationSeconds w)
         })
   }"

definition traceHitLimitReached :: "(TraceMachine, bool) state" where
  "traceHitLimitReached = getTrace (\<lambda>w. debugTraceHitLimitReached (tsHitCount w) (tsMaxHits w))"

definition detachDmntForApplication :: "Kernel \<Rightarrow> u64 \<Rightarrow> (TraceMachine, bool) state" where
  "detachDmntForApplication K pid = do {
     r \<leftarrow> svc K GetApplicationProcessId;
     if R_FAILED (rpResult r) \<or> rpValue r \<noteq> pid then State_Monad.return False
     else do {
       rc \<leftarrow> dmntClientInitialize K;
       if R_FAILED rc then State_Monad.return False
       else do {
         (rc, attached) \<leftarrow> dmntClientHasProcess K;
         if R_FAILED rc \<or> \<not> attached then State_Monad.return False
         else do { rc \<leftarrow> dmntClientForceClose K; State_Monad.return (R_SUCCEEDED rc) }
       }
     }
   }"

subsection \<open>The first events\<close>

fun traceInitialEvents :: "Kernel \<Rightarrow> nat \<Rightarrow> u32 \<Rightarrow> bool \<Rightarrow> (TraceMachine, bool \<times> bool) state" where
  "traceInitialEvents K 0 debugHandle attachedSeen = do { _ \<leftarrow> outOfFuel; State_Monad.return (False, attachedSeen) }"
| "traceInitialEvents K (Suc fuel) debugHandle attachedSeen = do {
     r \<leftarrow> svc K (GetDebugEvent debugHandle);
     if R_FAILED (rpResult r) then State_Monad.return (False, attachedSeen)
     else if evType (rpEvent r) = EventExitProcess then State_Monad.return (True, attachedSeen)
     else traceInitialEvents K fuel debugHandle
            (if evType (rpEvent r) = EventException \<and> evAttached (rpEvent r) then True else attachedSeen)
   }"

text \<open>The result and whether the process has exited; then the final pass.\<close>

fun traceDrainLoop :: "Kernel \<Rightarrow> nat \<Rightarrow> u32 \<Rightarrow> u64 \<Rightarrow> bool \<Rightarrow> (TraceMachine, res \<times> bool) state" where
  "traceDrainLoop K 0 debugHandle deadline attachedSeen = do { _ \<leftarrow> outOfFuel; State_Monad.return (0, False) }"
| "traceDrainLoop K (Suc fuel) debugHandle deadline attachedSeen = do {
     rc \<leftarrow> svcResult K (WaitSynchronization debugHandle DEBUG_TRACE_EVENT_TIMEOUT_NS);
     if rc = knTimedOut K
     then do {
       over \<leftarrow> (if attachedSeen then State_Monad.return True
               else do { tick \<leftarrow> svc K GetSystemTick; State_Monad.return (rpValue tick \<ge> deadline) });
       if over
       then do {
         (exited, _) \<leftarrow> traceInitialEvents K fuel debugHandle attachedSeen;
         State_Monad.return (0, exited)
       }
       else traceDrainLoop K fuel debugHandle deadline attachedSeen
     }
     else if R_FAILED rc then State_Monad.return (rc, False)
     else do {
       (exited, attachedSeen) \<leftarrow> traceInitialEvents K fuel debugHandle attachedSeen;
       if exited then State_Monad.return (0, True)
       else traceDrainLoop K fuel debugHandle deadline attachedSeen
     }
   }"

definition traceDrainInitialEvents :: "Kernel \<Rightarrow> nat \<Rightarrow> u32 \<Rightarrow> (TraceMachine, res \<times> bool) state" where
  "traceDrainInitialEvents K fuel debugHandle = do {
     tick \<leftarrow> svc K GetSystemTick;
     freq \<leftarrow> svc K GetSystemTickFreq;
     traceDrainLoop K fuel debugHandle (rpValue tick + rpValue freq) False
   }"

subsection \<open>A hit\<close>

text \<open>The snapshots number \<open>i\<close> on, \<open>n\<close> of them; \<open>regs\<close> are the 31 registers.\<close>

fun captureSnapshots :: "Kernel \<Rightarrow> u32 \<Rightarrow> DebugTraceSnapshotSpec list \<Rightarrow> u64 list \<Rightarrow> u64 \<Rightarrow> u64 \<Rightarrow> u64 \<Rightarrow>
    nat \<Rightarrow> nat \<Rightarrow> DebugTraceEvent \<Rightarrow> (TraceMachine, DebugTraceEvent) state" where
  "captureSnapshots K debugHandle specs gprs sp pc lr i 0 event = State_Monad.return event"
| "captureSnapshots K debugHandle specs gprs sp pc lr i (Suc n) event =
    (case debugTraceComputeSnapshotAddress (specs ! i) gprs sp pc lr of
       None \<Rightarrow> captureSnapshots K debugHandle specs gprs sp pc lr (i + 1) n
         (event\<lparr>teSnapshotResults := (teSnapshotResults event)[i := knBadInput K]\<rparr>)
     | Some address \<Rightarrow> do {
         r \<leftarrow> svc K (ReadDebugProcessMemory debugHandle address (ucast (snSize (specs ! i))));
         (let size' = unat (snSize (specs ! i));
              event = event\<lparr>teSnapshotAddresses := (teSnapshotAddresses event)[i := address],
                teSnapshotResults := (teSnapshotResults event)[i := rpResult r]\<rparr>
          in captureSnapshots K debugHandle specs gprs sp pc lr (i + 1) n
               (if R_SUCCEEDED (rpResult r)
                then event\<lparr>teSnapshots := (teSnapshots event)[i :=
                         bytesRead size' r @ drop size' (teSnapshots event ! i)],
                       teSnapshotBytes := (teSnapshotBytes event)[i := snSize (specs ! i)]\<rparr>
                else event))
       })"

definition captureEvent :: "Kernel \<Rightarrow> u32 \<Rightarrow> DebugEvent \<Rightarrow> u32 \<Rightarrow> u64 \<Rightarrow> u32 \<Rightarrow> DebugTraceSnapshotSpec list \<Rightarrow> u32 \<Rightarrow>
    (TraceMachine, DebugTraceEvent) state" where
  "captureEvent K debugHandle event targetIndex targetAddress argsCount specs snapshotCount = do {
     tick \<leftarrow> svc K GetSystemTick;
     context \<leftarrow> svc K (GetDebugThreadContext debugHandle (evThread event));
     out \<leftarrow> State_Monad.return (zeroEvent\<lparr>teThreadId := evThread event, tePc := evAddress event,
       teTargetIndex := targetIndex, teTargetAddress := targetAddress, teTick := rpValue tick,
       teArgsCount := argsCount, teSnapshotCount := snapshotCount, teContextResult := rpResult context\<rparr>);
     n \<leftarrow> State_Monad.return (min (unat snapshotCount) (unat DEBUG_TRACE_SNAPSHOT_MAX));
     out \<leftarrow>
       (if R_SUCCEEDED (rpResult context)
        then (let values = take 33 (rpValues context @ replicate 33 0);
                  pc = values ! 0; lr = values ! 1; sp = values ! 2;
                  gprs = drop 4 values @ [values ! 3, lr];
                  out = out\<lparr>teX := take (unat DEBUG_TRACE_ARGS_MAX) gprs, teLr := lr, teSp := sp, tePc := pc\<rparr>
              in do {
                out \<leftarrow> (if pc \<ge> 8
                  then do {
                    r \<leftarrow> svc K (ReadDebugProcessMemory debugHandle pc (of_nat DEBUG_TRACE_INSN_BYTES));
                    State_Monad.return (if R_SUCCEEDED (rpResult r)
                      then out\<lparr>teInsn := bytesRead DEBUG_TRACE_INSN_BYTES r,
                             teInsnBytes := of_nat DEBUG_TRACE_INSN_BYTES\<rparr>
                      else out)
                  }
                  else State_Monad.return out);
                captureSnapshots K debugHandle specs gprs sp pc lr 0 n out
              })
        else State_Monad.return (out\<lparr>teSnapshotResults :=
               replicate n (rpResult context) @ drop n (teSnapshotResults out)\<rparr>));
     core \<leftarrow> svc K (GetDebugThreadParam debugHandle (evThread event) ParamCurrentCore);
     State_Monad.return (out\<lparr>teCoreResult := rpResult core,
       teCore := (if R_SUCCEEDED (rpResult core) then value32 core else teCore out)\<rparr>)
   }"

definition recordEvent :: "DebugTraceEvent \<Rightarrow> (TraceMachine, unit) state" where
  "recordEvent event = setTrace (\<lambda>w.
     (let hitCount = tsHitCount w + 1;
          event = event\<lparr>teSequence := hitCount\<rparr>
      in w\<lparr>
        tsHitCount := hitCount,
        tsDurationStartTick := (if tsDurationFromFirstHit w \<and> tsDurationStartTick w = 0 then teTick event
                                else tsDurationStartTick w),
        tsTargetHits := (if teTargetIndex event < tsTargetCount w
           then (tsTargetHits w)[unat (teTargetIndex event) := tsTargetHits w ! unat (teTargetIndex event) + 1]
           else tsTargetHits w),
        tsLastEvent := event,
        tsHasEvent := True,
        tsRing := ringPush (tsRing w) event,
        tsLastPc := tePc event,
        tsLastLr := teLr event,
        tsLastSp := teSp event,
        tsLastThreadId := teThreadId event,
        tsLastCore := teCore event\<rparr>))"

definition recordIgnoredHit :: "(TraceMachine, unit) state" where
  "recordIgnoredHit = setTrace (\<lambda>w. w\<lparr>tsIgnoredHits := tsIgnoredHits w + 1\<rparr>)"

subsection \<open>The thread\<close>

text \<open>The variables of \<open>traceThreadMain\<close>: what it copies from the state at its start, then those at \<open>cleanup\<close>.\<close>

record TraceLocals =
  tlPid :: u64
  tlArgsCount :: u32
  tlTargetCount :: u32
  tlSnapshotCount :: u32
  tlTargets :: "u64 list"
  tlSnapshots :: "DebugTraceSnapshotSpec list"
  tlTargetSnapshotCounts :: "u32 list"
  tlTargetSnapshots :: "DebugTraceSnapshotSpec list list"
  tlHandle :: u32
  tlContextSlot :: u32
  tlInstructionSlots :: "u32 list"
  tlAttached :: bool
  tlResumed :: bool
  tlProcessExited :: bool
  tlEventPending :: bool
  tlTraceArmed :: bool
  tlRc :: res

definition traceLocals :: "Kernel \<Rightarrow> DebugTraceState \<Rightarrow> TraceLocals" where
  "traceLocals K w = \<lparr>tlPid = tsProcessId w, tlArgsCount = tsArgsCount w, tlTargetCount = tsTargetCount w,
     tlSnapshotCount = tsSnapshotCount w, tlTargets = tsTargetAddresses w, tlSnapshots = tsSnapshots w,
     tlTargetSnapshotCounts = tsTargetSnapshotCounts w, tlTargetSnapshots = tsTargetSnapshots w,
     tlHandle = knInvalidHandle K, tlContextSlot = 0, tlInstructionSlots = [], tlAttached = False,
     tlResumed = False, tlProcessExited = False, tlEventPending = False, tlTraceArmed = False, tlRc = 0\<rparr>"

definition traceFail :: "TraceLocals \<Rightarrow> string \<Rightarrow> res \<Rightarrow> (TraceMachine, TraceLocals) state" where
  "traceFail l stage rc = do { _ \<leftarrow> traceError stage rc; State_Monad.return (l\<lparr>tlRc := rc\<rparr>) }"

datatype TraceEvents = TraceDrained | TraceExited | TraceLimit | TraceFailed res

fun traceEvents :: "Kernel \<Rightarrow> nat \<Rightarrow> TraceLocals \<Rightarrow> bool \<Rightarrow> (TraceMachine, TraceEvents \<times> bool) state" where
  "traceEvents K 0 l eventPending = do { _ \<leftarrow> outOfFuel; State_Monad.return (TraceDrained, eventPending) }"
| "traceEvents K (Suc fuel) l eventPending = do {
     r \<leftarrow> svc K (GetDebugEvent (tlHandle l));
     if R_FAILED (rpResult r) then State_Monad.return (TraceDrained, eventPending)
     else if evType (rpEvent r) = EventExitProcess
     then do { _ \<leftarrow> traceStage ''exitProcess''; State_Monad.return (TraceExited, True) }
     else if evType (rpEvent r) = EventException \<and> evHardwareBreak (rpEvent r)
     then (let targetIndex = debugTraceFindTarget (Some (tlTargets l)) (tlTargetCount l) (evAddress (rpEvent r));
               i = unat targetIndex
           in if targetIndex = U32_MAX
              then do { _ \<leftarrow> recordIgnoredHit; traceEvents K fuel l True }
              else do {
                captured \<leftarrow> (if tlTargetSnapshotCounts l ! i \<noteq> 0
                  then captureEvent K (tlHandle l) (rpEvent r) targetIndex (tlTargets l ! i) (tlArgsCount l)
                         (tlTargetSnapshots l ! i) (tlTargetSnapshotCounts l ! i)
                  else captureEvent K (tlHandle l) (rpEvent r) targetIndex (tlTargets l ! i) (tlArgsCount l)
                         (tlSnapshots l) (tlSnapshotCount l));
                _ \<leftarrow> recordEvent captured;
                limit \<leftarrow> traceHitLimitReached;
                if limit then do { _ \<leftarrow> traceStage ''hitsReached''; State_Monad.return (TraceLimit, True) }
                else do {
                  rc \<leftarrow> debugHwBpStepOverInstruction K fuel (tlHandle l) (evThread (rpEvent r))
                          (tlInstructionSlots l ! i) (tlContextSlot l) (tlTargets l ! i);
                  if R_FAILED rc
                  then do { _ \<leftarrow> traceError ''stepInstruction'' rc; State_Monad.return (TraceFailed rc, True) }
                  else traceEvents K fuel l True
                }
              })
     else traceEvents K fuel l True
   }"

fun traceLoop :: "Kernel \<Rightarrow> (Trace \<Rightarrow> bool) \<Rightarrow> nat \<Rightarrow> TraceLocals \<Rightarrow> (TraceMachine, TraceLocals) state" where
  "traceLoop K stopBy 0 l = do { _ \<leftarrow> outOfFuel; State_Monad.return (l\<lparr>tlRc := 0\<rparr>) }"
| "traceLoop K stopBy (Suc fuel) l = do {
     stop \<leftarrow> traceStopRequested stopBy;
     if stop then State_Monad.return (l\<lparr>tlRc := 0\<rparr>)
     else do {
       expired \<leftarrow> traceDurationExpired K;
       if expired
       then do { _ \<leftarrow> traceStage ''durationReached''; State_Monad.return (l\<lparr>tlRc := 0\<rparr>) }
       else do {
         rc \<leftarrow> svcResult K (WaitSynchronization (tlHandle l) DEBUG_TRACE_EVENT_TIMEOUT_NS);
         if rc = knTimedOut K then traceLoop K stopBy fuel l
         else if R_FAILED rc
         then do { _ \<leftarrow> traceError ''waitEvent'' rc; State_Monad.return (l\<lparr>tlRc := 0\<rparr>) }
         else do {
           (events, eventPending) \<leftarrow> traceEvents K fuel l (tlEventPending l);
           (case events of
              TraceExited \<Rightarrow>
                State_Monad.return (l\<lparr>tlEventPending := eventPending, tlProcessExited := True, tlRc := 0\<rparr>)
            | TraceLimit \<Rightarrow> State_Monad.return (l\<lparr>tlEventPending := eventPending, tlRc := 0\<rparr>)
            | TraceFailed rc \<Rightarrow> State_Monad.return (l\<lparr>tlEventPending := eventPending, tlRc := rc\<rparr>)
            | TraceDrained \<Rightarrow> do {
                rc \<leftarrow> debugHwBpContinueAll K (tlHandle l);
                if R_FAILED rc
                then do {
                  _ \<leftarrow> traceError ''continue'' rc;
                  State_Monad.return (l\<lparr>tlEventPending := eventPending, tlRc := 0\<rparr>)
                }
                else traceLoop K stopBy fuel (l\<lparr>tlEventPending := False\<rparr>)
              })
         }
       }
     }
   }"

definition traceRun :: "Kernel \<Rightarrow> (Trace \<Rightarrow> bool) \<Rightarrow> nat \<Rightarrow> TraceLocals \<Rightarrow> (TraceMachine, TraceLocals) state" where
  "traceRun K stopBy fuel l = do {
     rc \<leftarrow> debugHwBpContinueAll K (tlHandle l);
     if R_FAILED rc then traceFail l ''resume'' rc
     else do {
       tick \<leftarrow> svc K GetSystemTick;
       _ \<leftarrow> setTrace (\<lambda>w. w\<lparr>tsArmed := True, tsEverArmed := True, tsStartedTick := rpValue tick,
              tsLastError := 0, tsStage := [], tsHint := []\<rparr>);
       traceLoop K stopBy fuel (l\<lparr>tlResumed := True\<rparr>)
     }
   }"

text \<open>Where too few slots were found, the result \<open>rc\<close> is still that of the probe.\<close>

definition traceArm :: "Kernel \<Rightarrow> (Trace \<Rightarrow> bool) \<Rightarrow> nat \<Rightarrow> TraceLocals \<Rightarrow> (TraceMachine, TraceLocals) state" where
  "traceArm K stopBy fuel l = do {
     (rc, processExited) \<leftarrow> traceDrainInitialEvents K fuel (tlHandle l);
     if R_FAILED rc then traceFail l ''drainInitial'' rc
     else if processExited
     then do { _ \<leftarrow> traceStage ''exitProcess''; State_Monad.return (l\<lparr>tlProcessExited := True, tlRc := 0\<rparr>) }
     else do {
       (rc, contextSlot, _) \<leftarrow> debugHwBpProbeContextSlots K;
       if R_FAILED rc then traceFail l ''probeContext'' rc
       else do {
         (rc, slots) \<leftarrow> debugHwBpProbeInstructionSlots K contextSlot (unat DEBUG_TRACE_TARGET_MAX);
         if R_FAILED rc then traceFail l ''probeInstructionSlots'' rc
         else if length slots < unat (tlTargetCount l)
         then do { _ \<leftarrow> traceError ''targetSlots'' (knNotFound K); State_Monad.return (l\<lparr>tlRc := rc\<rparr>) }
         else (let l = l\<lparr>tlContextSlot := contextSlot, tlInstructionSlots := slots\<rparr>
               in do {
                 _ \<leftarrow> setTrace (\<lambda>w. w\<lparr>tsContextSlot := contextSlot, tsInstructionSlot := slots ! 0,
                        tsInstructionSlots := slots\<rparr>);
                 rc \<leftarrow> debugHwBpArmInstructionTrace K contextSlot (tlHandle l)
                        (take (unat (tlTargetCount l)) (zip slots (tlTargets l)));
                 if R_FAILED rc then traceFail l ''armTrace'' rc
                 else traceRun K stopBy fuel (l\<lparr>tlTraceArmed := True\<rparr>)
               })
       }
     }
   }"

definition traceBody :: "Kernel \<Rightarrow> (Trace \<Rightarrow> bool) \<Rightarrow> nat \<Rightarrow> (TraceMachine, TraceLocals) state" where
  "traceBody K stopBy fuel = do {
     l \<leftarrow> getTrace (traceLocals K);
     if tlPid l = 0 then do { _ \<leftarrow> traceError ''pid'' (knBadInput K); State_Monad.return l }
     else do {
       dmntClosed \<leftarrow> detachDmntForApplication K (tlPid l);
       _ \<leftarrow> setTrace (\<lambda>w. w\<lparr>tsDmntClosed := dmntClosed\<rparr>);
       d \<leftarrow> svc K (DebugActiveProcess (tlPid l));
       if R_FAILED (rpResult d)
       then do {
         l \<leftarrow> traceFail l ''debugActiveProcess'' (rpResult d);
         _ \<leftarrow> (if rpResult d = knAlreadyExists K then traceHandleInUseHint else skip);
         State_Monad.return l
       }
       else traceArm K stopBy fuel (l\<lparr>tlHandle := ucast (rpValue d), tlAttached := True\<rparr>)
     }
   }"

definition traceCleanup :: "Kernel \<Rightarrow> nat \<Rightarrow> TraceLocals \<Rightarrow> (TraceMachine, unit) state" where
  "traceCleanup K fuel l = do {
     completionStage \<leftarrow> getTrace (\<lambda>w. take 31 (tsStage w));
     _ \<leftarrow> traceStage ''cleanup'';
     _ \<leftarrow> (if tlAttached l \<and> \<not> tlProcessExited l
           then do { _ \<leftarrow> debugHwBpQuiesce K fuel (tlHandle l) (\<not> tlResumed l \<or> tlEventPending l); skip }
           else skip);
     contextSlot \<leftarrow> getTrace tsContextSlot;
     cleanupRc \<leftarrow> (if tlTraceArmed l
       then debugHwBpClearRegistersAllCores K
              (contextSlot # take (unat (tlTargetCount l)) (tlInstructionSlots l))
       else State_Monad.return 0);
     _ \<leftarrow> (if tlAttached l \<and> tlHandle l \<noteq> knInvalidHandle K
           then do { _ \<leftarrow> svc K (CloseHandle (tlHandle l)); skip } else skip);
     _ \<leftarrow> setTraceActive False;
     _ \<leftarrow> setTrace (\<lambda>w. w\<lparr>tsArmed := False, tsStopRequested := False\<rparr>);
     _ \<leftarrow> setTrace (\<lambda>w. if R_FAILED cleanupRc \<and> tsLastError w = 0
                        then w\<lparr>tsLastError := cleanupRc, tsStage := ''cleanup''\<rparr>
                        else if R_SUCCEEDED cleanupRc then w\<lparr>tsStage := completionStage\<rparr> else w);
     setTrace (\<lambda>w. if R_FAILED (tlRc l) \<and> tsLastError w = 0 then w\<lparr>tsLastError := tlRc l\<rparr> else w)
   }"

definition traceThreadMain :: "Kernel \<Rightarrow> (Trace \<Rightarrow> bool) \<Rightarrow> nat \<Rightarrow> (TraceMachine, unit) state" where
  "traceThreadMain K stopBy fuel = do { l \<leftarrow> traceBody K stopBy fuel; traceCleanup K fuel l }"

subsection \<open>The client\<close>

definition zeroSpec :: DebugTraceSnapshotSpec where
  "zeroSpec = \<lparr>snBase = 0, snRegister = 0, snOffset = 0, snSize = 0\<rparr>"

definition zeroTrace :: DebugTraceState where
  "zeroTrace = \<lparr>tsThreadStarted = False, tsArmed = False, tsEverArmed = False, tsStopRequested = False,
     tsHasEvent = False, tsDmntClosed = False, tsProcessId = 0, tsAddress = 0, tsTargetCount = 0,
     tsTargetAddresses = replicate (unat DEBUG_TRACE_TARGET_MAX) 0,
     tsTargetHits = replicate (unat DEBUG_TRACE_TARGET_MAX) 0,
     tsInstructionSlots = replicate (unat DEBUG_TRACE_TARGET_MAX) 0,
     tsMaxHits = 0, tsHitCount = 0, tsDurationSeconds = 0, tsStartedTick = 0, tsDurationStartTick = 0,
     tsDurationFromFirstHit = False, tsRing = ringEmpty 0 (replicate (unat DEBUG_TRACE_RING_MAX) zeroEvent),
     tsArgsCount = 0, tsContextSlot = 0, tsInstructionSlot = 0, tsIgnoredHits = 0, tsSnapshotCount = 0,
     tsSnapshots = replicate (unat DEBUG_TRACE_SNAPSHOT_MAX) zeroSpec,
     tsTargetSnapshotCounts = replicate (unat DEBUG_TRACE_TARGET_MAX) 0,
     tsTargetSnapshots = replicate (unat DEBUG_TRACE_TARGET_MAX) (replicate (unat DEBUG_TRACE_SNAPSHOT_MAX) zeroSpec),
     tsLastPc = 0, tsLastLr = 0, tsLastSp = 0, tsLastThreadId = 0, tsLastCore = 0, tsLastEvent = zeroEvent,
     tsLastError = 0, tsStage = [], tsHint = []\<rparr>"

definition debugTraceInitialize :: "(TraceMachine, unit) state" where
  "debugTraceInitialize = do {
     _ \<leftarrow> setTraceActive False;
     setTrace (\<lambda>_. zeroTrace\<lparr>tsDurationSeconds := DEBUG_TRACE_DEFAULT_DURATION_SECONDS\<rparr>)
   }"

definition targetSnapshotsValid :: "DebugTraceConfig \<Rightarrow> bool" where
  "targetSnapshotsValid config \<longleftrightarrow>
     list_all (\<lambda>target. tcTargetSnapshotCounts config ! target \<le> DEBUG_TRACE_SNAPSHOT_MAX \<and>
       list_all (\<lambda>i. debugTraceSnapshotSpecIsValid (tcTargetSnapshots config ! target ! i))
         [0..<unat (tcTargetSnapshotCounts config ! target)])
       [0..<unat (cfTargetCount (tcModel config))]"

definition traceReset :: "DebugTraceConfig \<Rightarrow> DebugTraceState \<Rightarrow> DebugTraceState" where
  "traceReset config w = (let model = tcModel config in w\<lparr>
     tsProcessId := tcProcessId config,
     tsTargetCount := cfTargetCount model,
     tsTargetAddresses := cfAddresses model,
     tsTargetHits := replicate (unat DEBUG_TRACE_TARGET_MAX) 0,
     tsInstructionSlots := replicate (unat DEBUG_TRACE_TARGET_MAX) 0,
     tsAddress := cfAddresses model ! 0,
     tsMaxHits := cfMaxHits model,
     tsDurationSeconds := cfDurationSeconds model,
     tsStartedTick := 0,
     tsDurationStartTick := 0,
     tsDurationFromFirstHit := tcDurationFromFirstHit config,
     tsHitCount := 0,
     tsRing := ringEmpty (cfRingSize model) (ringSlots (tsRing w)),
     tsArgsCount := cfArgsCount model,
     tsContextSlot := 0, tsInstructionSlot := 0, tsIgnoredHits := 0,
     tsSnapshotCount := cfSnapshotCount model,
     tsSnapshots := cfSnapshots model,
     tsTargetSnapshotCounts := tcTargetSnapshotCounts config,
     tsTargetSnapshots := tcTargetSnapshots config,
     tsHasEvent := False, tsDmntClosed := False,
     tsLastPc := 0, tsLastLr := 0, tsLastSp := 0, tsLastThreadId := 0, tsLastCore := 0,
     tsLastError := 0, tsStage := [], tsHint := [],
     tsStopRequested := False, tsArmed := False, tsEverArmed := False, tsThreadStarted := True\<rparr>)"

definition reapTraceThread :: "Kernel \<Rightarrow> (TraceMachine, unit) state" where
  "reapTraceThread K = do { _ \<leftarrow> svc K ThreadWaitForExit; _ \<leftarrow> svc K ThreadClose; skip }"

definition traceRefuse :: "(DebugTraceState \<Rightarrow> DebugTraceState) \<Rightarrow> (TraceMachine, bool) state" where
  "traceRefuse f = do { _ \<leftarrow> setTrace f; State_Monad.return False }"

definition debugTraceStart :: "Kernel \<Rightarrow> DebugTraceConfig option \<Rightarrow> (TraceMachine, bool) state" where
  "debugTraceStart K config =
    (case config of
       None \<Rightarrow> State_Monad.return False
     | Some config \<Rightarrow>
         if tcProcessId config = 0
         then traceRefuse (\<lambda>w. w\<lparr>tsLastError := knBadInput K, tsStage := []\<rparr>)
         else do {
           owned \<leftarrow> State (\<lambda>m. (mcWatchActive m \<or> mcMultiTraceActive m, m));
           if owned then traceRefuse (\<lambda>w. w\<lparr>tsLastError := knOwnedByAnother K, tsStage := ''watchActive''\<rparr>)
           else do {
             active \<leftarrow> traceActive;
             if active then State_Monad.return False
             else do {
               started \<leftarrow> getTrace tsThreadStarted;
               _ \<leftarrow> (if started
                     then do { _ \<leftarrow> reapTraceThread K; setTrace (\<lambda>w. w\<lparr>tsThreadStarted := False\<rparr>) }
                     else skip);
               if \<not> debugTraceConfigIsValid (Some (tcModel config)) \<or> \<not> targetSnapshotsValid config
               then traceRefuse (\<lambda>w. w\<lparr>tsLastError := knBadInput K\<rparr>)
               else do {
                 _ \<leftarrow> setTrace (traceReset config);
                 _ \<leftarrow> setTraceActive True;
                 rc \<leftarrow> svcResult K ThreadCreate;
                 if R_FAILED rc
                 then do {
                   _ \<leftarrow> setTraceActive False;
                   traceRefuse (\<lambda>w. w\<lparr>tsThreadStarted := False, tsLastError := rc\<rparr>)
                 }
                 else do {
                   rc \<leftarrow> svcResult K ThreadStart;
                   if R_FAILED rc
                   then do {
                     _ \<leftarrow> setTraceActive False;
                     _ \<leftarrow> setTrace (\<lambda>w. w\<lparr>tsThreadStarted := False, tsLastError := rc\<rparr>);
                     _ \<leftarrow> svc K ThreadClose;
                     State_Monad.return False
                   }
                   else State_Monad.return True
                 }
               }
             }
           }
         })"

definition debugTraceStop :: "Kernel \<Rightarrow> (TraceMachine, unit) state" where
  "debugTraceStop K = do {
     active \<leftarrow> traceActive;
     started \<leftarrow> getTrace tsThreadStarted;
     _ \<leftarrow> setTrace (\<lambda>w. w\<lparr>tsStopRequested := True\<rparr>);
     if \<not> (active \<or> started) then skip
     else do {
       _ \<leftarrow> reapTraceThread K;
       _ \<leftarrow> setTraceActive False;
       setTrace (\<lambda>w. w\<lparr>tsThreadStarted := False, tsArmed := False, tsStopRequested := False\<rparr>)
     }
   }"

record DebugTraceStatus =
  ttActive :: bool
  ttStale :: bool
  ttMemoryBlocked :: bool
  ttLastSequence :: u64
  ttState :: DebugTraceState

definition debugTraceGetStatus :: "(TraceMachine, DebugTraceStatus) state" where
  "debugTraceGetStatus = do {
     active \<leftarrow> traceActive;
     w \<leftarrow> getTrace (\<lambda>w. w);
     State_Monad.return \<lparr>ttActive = active,
       ttStale = (\<not> active \<and> (tsAddress w \<noteq> 0 \<or> tsHitCount w \<noteq> 0)),
       ttMemoryBlocked = active,
       ttLastSequence = (if tsHasEvent w then teSequence (tsLastEvent w) else 0),
       ttState = w\<rparr>
   }"

definition debugTraceGetEvent :: "u32 \<Rightarrow> (TraceMachine, DebugTraceEvent option) state" where
  "debugTraceGetEvent index = getTrace (\<lambda>w.
     if \<not> tsHasEvent w then None
     else if ringSize (tsRing w) = 0 then (if index \<noteq> 0 then None else Some (tsLastEvent w))
     else traceRingGet (tsRing w) index)"

definition debugTraceIsActive :: "(TraceMachine, bool) state" where
  "debugTraceIsActive = traceActive"

end
