(* ===== verification/DebugTraceSafe.thy ===== *)
theory DebugTraceSafe
  imports DebugTrace HwBpClean HwBpCalls
begin

text \<open>
  What a trace session leaves behind, however it ends: as for a watchpoint session, the handle is closed and no
  register of any core holds a breakpoint that was not there before.
\<close>

lemma wp_trace [simp]:
  "wp (getTrace f) m Q \<longleftrightarrow> Q (f (traceState m)) m"
  "wp (setTrace g) m R \<longleftrightarrow> R () (m\<lparr>traceState := g (traceState m)\<rparr>)"
  "wp traceActive m S \<longleftrightarrow> S (mcTraceActive m) m"
  "wp (setTraceActive b) m R \<longleftrightarrow> R () (m\<lparr>mcTraceActive := b\<rparr>)"
  "wp (traceStopRequested stopBy) m S \<longleftrightarrow> S (tsStopRequested (traceState m) \<or> stopBy (mcTrace m)) m"
  by (simp_all add: wp_def getTrace_def setTrace_def traceActive_def setTraceActive_def traceStopRequested_def)

subsection \<open>The handle\<close>

lemma neutral_trace [neutral_steps]:
  "neutral (getTrace f)" "neutral (setTrace g)" "neutral traceActive" "neutral (setTraceActive b)"
  "neutral (traceStopRequested stopBy)"
  by (rule handlesI, simp)+

lemma neutral_traceState [neutral_steps]:
  "neutral (traceError stage rc)" "neutral (traceStage stage)" "neutral traceHandleInUseHint"
  "neutral (recordEvent event)" "neutral recordIgnoredHit" "neutral (traceDurationExpired K)"
  "neutral traceHitLimitReached" "neutral (traceFail l stage rc)" "neutral (detachDmntForApplication K pid)"
  unfolding traceError_def traceStage_def traceHandleInUseHint_def recordEvent_def recordIgnoredHit_def
    traceDurationExpired_def traceHitLimitReached_def traceFail_def detachDmntForApplication_def Let_def
    dmntClientInitialize_def dmntClientHasProcess_def dmntClientForceClose_def
  by (auto simp: quietCall_def intro!: neutral_steps quiet)

lemma neutral_traceDrain [neutral_steps]: "neutral (traceDrainInitialEvents K fuel h)"
proof -
  have events: "neutral (traceInitialEvents K n h s)" for n s
    by (induction n arbitrary: s) (auto simp: quietCall_def intro!: neutral_steps quiet)
  have "neutral (traceDrainLoop K n h d s)" for n d s
    by (induction n arbitrary: s) (auto simp: quietCall_def intro!: neutral_steps quiet events)
  then show ?thesis
    unfolding traceDrainInitialEvents_def by (intro neutral_steps quiet) (simp_all add: quietCall_def)
qed

lemma neutral_snapshots [neutral_steps]: "neutral (captureSnapshots K h specs gprs sp pc lr i n event)"
  by (induction n arbitrary: i event)
    (auto simp: quietCall_def Let_def intro!: neutral_steps quiet split: option.split)

lemma neutral_captureEvent [neutral_steps]: "neutral (captureEvent K h event t a n specs k)"
  unfolding captureEvent_def Let_def
  by (intro neutral_steps quiet; simp add: quietCall_def)

lemma neutral_traceEvents [neutral_steps]: "neutral (traceEvents K fuel l pending)"
  by (induction fuel arbitrary: pending) (auto simp: quietCall_def Let_def intro!: neutral_steps quiet)

text \<open>A part of the body keeps the handle it was given.\<close>

abbreviation keepsTraced :: "TraceLocals \<Rightarrow> (TraceMachine, TraceLocals) state \<Rightarrow> bool" where
  "keepsTraced l p \<equiv> handles p (\<lambda>l'. tlAttached l' = tlAttached l \<and> tlHandle l' = tlHandle l) (\<lambda>_ _. 0)"

lemma traced_return:
  "tlAttached l' = tlAttached l \<Longrightarrow> tlHandle l' = tlHandle l \<Longrightarrow> keepsTraced l (State_Monad.return l')"
  by (rule handles_return) simp_all

lemma traced_fail:
  "tlAttached l' = tlAttached l \<Longrightarrow> tlHandle l' = tlHandle l \<Longrightarrow> keepsTraced l (traceFail l' stage rc)"
  unfolding traceFail_def by (intro neutral_then [OF neutral_traceState(1)] traced_return) simp_all

lemma traced_events:
  "(x = TraceExited \<Longrightarrow> keepsTraced l p) \<Longrightarrow> (x = TraceLimit \<Longrightarrow> keepsTraced l q) \<Longrightarrow>
    (\<And>rc. x = TraceFailed rc \<Longrightarrow> keepsTraced l (f rc)) \<Longrightarrow> (x = TraceDrained \<Longrightarrow> keepsTraced l r) \<Longrightarrow>
    keepsTraced l (case x of TraceExited \<Rightarrow> p | TraceLimit \<Rightarrow> q | TraceFailed rc \<Rightarrow> f rc | TraceDrained \<Rightarrow> r)"
  by (cases x) simp_all

lemmas tracing = handles_if handles_case_prod traced_return traced_fail traced_events

lemma traceLoop_keeps:
  "tlAttached l = tlAttached l0 \<Longrightarrow> tlHandle l = tlHandle l0 \<Longrightarrow> keepsTraced l0 (traceLoop K stopBy fuel l)"
proof (induction fuel arbitrary: l)
  case 0
  then show ?case
    unfolding traceLoop.simps by (intro neutral_then [OF neutral_calls(1)] traced_return) simp_all
next
  case (Suc fuel)
  have wait: "neutral (svcResult K (WaitSynchronization h n))" for h n
    by (rule quiet) (simp add: quietCall_def)
  show ?case
    unfolding traceLoop.simps
    by (intro tracing neutral_then [OF neutral_trace(5)] neutral_then [OF neutral_traceState(6)]
        neutral_then [OF wait] neutral_then [OF neutral_traceState(1)] neutral_then [OF neutral_traceState(2)]
        neutral_then [OF neutral_traceEvents] neutral_then [OF neutral_hwbp(1)] Suc.IH) (simp_all add: Suc.prems)
qed

lemma traceRun_keeps:
  assumes "tlAttached l = tlAttached l0" and "tlHandle l = tlHandle l0"
  shows "keepsTraced l0 (traceRun K stopBy fuel l)"
proof -
  have tick: "neutral (svc K GetSystemTick)" by (rule quiet) (simp add: quietCall_def)
  show ?thesis
    unfolding traceRun_def
    by (intro tracing neutral_then [OF neutral_hwbp(1)] neutral_then [OF tick] neutral_then [OF neutral_trace(2)]
        traceLoop_keeps) (simp_all add: assms)
qed

lemma traceArm_keeps: "keepsTraced l (traceArm K stopBy fuel l)"
  unfolding traceArm_def Let_def
  by (intro tracing neutral_then [OF neutral_traceDrain] neutral_then [OF neutral_traceState(2)]
      neutral_then [OF neutral_traceState(1)] neutral_then [OF neutral_probes(1)] neutral_then [OF neutral_probes(2)]
      neutral_then [OF neutral_trace(2)] neutral_then [OF neutral_armTrace] traceRun_keeps) simp_all

lemma traceCleanup_closes:
  "tlAttached l \<Longrightarrow> tlHandle l \<noteq> knInvalidHandle K \<Longrightarrow> handles (traceCleanup K fuel l) (\<lambda>_. True) (\<lambda>_ h. - oneHandle (tlHandle l) h)"
  "\<not> tlAttached l \<Longrightarrow> neutral (traceCleanup K fuel l)"
proof -
  have quiesce: "neutral (if b then do { _ \<leftarrow> debugHwBpQuiesce K fuel h p; skip } else skip)" for b h p
    by (intro neutral_steps)
  have clear: "neutral (if b then debugHwBpClearRegistersAllCores K slots else State_Monad.return 0)" for b slots
    by (intro neutral_steps)
  have close: "handles (do { _ \<leftarrow> svc K (CloseHandle h); (skip :: (TraceMachine, unit) state) }) (\<lambda>_. True) (\<lambda>_ h'. - oneHandle h h')" for h
    by (rule handlesI) simp
  have rest: "neutral (do { _ \<leftarrow> setTraceActive b; _ \<leftarrow> setTrace f; _ \<leftarrow> setTrace g; setTrace h })" for b f g h
    by (intro neutral_steps)
  have closing: "handles (State_Monad.bind (if True then do { _ \<leftarrow> svc K (CloseHandle h); skip } else skip)
     (\<lambda>_. do { _ \<leftarrow> setTraceActive b; _ \<leftarrow> setTrace f; _ \<leftarrow> setTrace g; setTrace i })) (\<lambda>_. True) (\<lambda>_ h'. - oneHandle h h')" for h b f g i
    unfolding if_True by (rule handles_bind [OF close]) (simp add: rest)
  show "tlAttached l \<Longrightarrow> tlHandle l \<noteq> knInvalidHandle K \<Longrightarrow> handles (traceCleanup K fuel l) (\<lambda>_. True) (\<lambda>_ h. - oneHandle (tlHandle l) h)"
    unfolding traceCleanup_def
    by (intro neutral_then [OF neutral_trace(1)] neutral_then [OF neutral_traceState(2)] neutral_then [OF quiesce]
        neutral_then [OF clear]) (use closing in simp)
  show "\<not> tlAttached l \<Longrightarrow> neutral (traceCleanup K fuel l)"
    unfolding traceCleanup_def
    by (intro neutral_then [OF neutral_trace(1)] neutral_then [OF neutral_traceState(2)] neutral_then [OF quiesce]
        neutral_then [OF clear]) (simp add: rest neutral_bind [OF neutral_calls(2)])
qed

text \<open>A handle is held behind the body exactly when it attached.\<close>

abbreviation tracesWith :: "Kernel \<Rightarrow> (TraceMachine, TraceLocals) state \<Rightarrow> (u32 \<Rightarrow> int) \<Rightarrow> bool" where
  "tracesWith K p k \<equiv> handles p (\<lambda>l. tlAttached l \<longrightarrow> tlHandle l \<noteq> knInvalidHandle K)
     (\<lambda>l h. (if tlAttached l then oneHandle (tlHandle l) h else 0) - k h)"

lemma traces_arm:
  "tlAttached l \<Longrightarrow> tlHandle l \<noteq> knInvalidHandle K \<Longrightarrow> tracesWith K (traceArm K stopBy fuel l) (oneHandle (tlHandle l))"
  by (rule handles_weaken [OF traceArm_keeps]) simp

lemma traces_failed:
  "\<not> tlAttached l \<Longrightarrow> tracesWith K (do { _ \<leftarrow> traceError stage rc; State_Monad.return l }) (\<lambda>_. 0)"
  "\<not> tlAttached l \<Longrightarrow> tracesWith K (do { l \<leftarrow> traceFail l stage rc; _ \<leftarrow> (if b then traceHandleInUseHint else skip);
     State_Monad.return l }) (\<lambda>_. 0)"
  unfolding handles_def by (simp_all add: traceFail_def traceError_def traceHandleInUseHint_def)

lemma traces_body:
  assumes "kernelHandles K"
  shows "tracesWith K (traceBody K stopBy fuel) (\<lambda>_. 0)"
proof -
  have after: "tracesWith K (if R_FAILED (rpResult d)
       then do {
         l \<leftarrow> traceFail l ''debugActiveProcess'' (rpResult d);
         _ \<leftarrow> (if rpResult d = knAlreadyExists K then traceHandleInUseHint else skip);
         State_Monad.return l
       }
       else traceArm K stopBy fuel (l\<lparr>tlHandle := ucast (rpValue d), tlAttached := True\<rparr>))
       (\<lambda>h. 0 + (if rpResult d = 0 then oneHandle (ucast (rpValue d)) h else 0))"
    if "rpResult d = 0 \<longrightarrow> ucast (rpValue d) \<noteq> knInvalidHandle K" and "\<not> tlAttached l" for d l
    using that traces_arm [where K = K and l = "l\<lparr>tlHandle := ucast (rpValue d), tlAttached := True\<rparr>"]
      traces_failed(2) [where l = l and K = K and stage = "''debugActiveProcess''"] by (cases "rpResult d = 0") simp_all
  have rest: "tracesWith K (if tlPid l = 0 then do { _ \<leftarrow> traceError ''pid'' (knBadInput K); State_Monad.return l }
     else do {
       dmntClosed \<leftarrow> detachDmntForApplication K (tlPid l);
       _ \<leftarrow> setTrace (\<lambda>w. w\<lparr>tsDmntClosed := dmntClosed\<rparr>);
       d \<leftarrow> svc K (DebugActiveProcess (tlPid l));
       if R_FAILED (rpResult d)
       then do {
         l \<leftarrow> traceFail l ''debugActiveProcess'' (rpResult d);
         _ \<leftarrow> (if rpResult d = knAlreadyExists K then traceHandleInUseHint else skip);
         State_Monad.return l
       }
       else traceArm K stopBy fuel (l\<lparr>tlHandle := ucast (rpValue d), tlAttached := True\<rparr>)
     }) (\<lambda>_. 0)" if "\<not> tlAttached l" for l
    by (intro handles_if traces_failed(1) that neutral_then [OF neutral_traceState(9)] neutral_then [OF neutral_trace(2)],
        rule handles_bind [OF handles_attach [OF assms]]) (rule handles_weaken [OF after], assumption, rule that, simp)
  have locals: "handles (getTrace (traceLocals K)) (\<lambda>l. \<not> tlAttached l) (\<lambda>_ _. 0)"
    unfolding handles_def by (simp add: traceLocals_def)
  show ?thesis
    unfolding traceBody_def by (rule handles_bind [OF locals], rule handles_weaken [OF rest], assumption, simp)
qed

lemma neutral_traceThread:
  assumes "kernelHandles K"
  shows "neutral (traceThreadMain K stopBy fuel)"
  unfolding traceThreadMain_def
proof (rule handles_bind [OF traces_body [OF assms]])
  fix l :: TraceLocals
  assume "tlAttached l \<longrightarrow> tlHandle l \<noteq> knInvalidHandle K"
  then show "handles (traceCleanup K fuel l) (\<lambda>_. True) (\<lambda>_ h. 0 - ((if tlAttached l then oneHandle (tlHandle l) h else 0) - 0))"
    using traceCleanup_closes [of l K fuel] by (cases "tlAttached l") auto
qed

subsection \<open>The registers\<close>

definition tracedSlots :: "TraceLocals \<Rightarrow> u32 list" where
  "tracedSlots l = tlContextSlot l # take (unat (tlTargetCount l)) (tlInstructionSlots l)"

text \<open>What holds while the variables are \<open>l\<close>: only the slots of an armed trace may hold a breakpoint, and those
  are the slots that the clean-up will clear.\<close>

definition traceClean :: "TraceMachine \<Rightarrow> TraceLocals \<Rightarrow> TraceMachine \<Rightarrow> bool" where
  "traceClean m0 l m \<longleftrightarrow> cleanBut (if tlTraceArmed l then set (tracedSlots l) else {}) m0 m \<and>
     (tlTraceArmed l \<longrightarrow> tsContextSlot (traceState m) = tlContextSlot l \<and> tlTargetCount l \<le> DEBUG_TRACE_TARGET_MAX \<and>
        unat (tlTargetCount l) \<le> length (tlInstructionSlots l))"

lemma traceClean_updates [simp]:
  "traceClean m0 (l\<lparr>tlRc := rc\<rparr>) = traceClean m0 l" "traceClean m0 (l\<lparr>tlEventPending := b\<rparr>) = traceClean m0 l"
  "traceClean m0 (l\<lparr>tlProcessExited := b\<rparr>) = traceClean m0 l" "traceClean m0 (l\<lparr>tlResumed := b\<rparr>) = traceClean m0 l"
  "traceClean m0 (l\<lparr>tlHandle := h\<rparr>) = traceClean m0 l" "traceClean m0 (l\<lparr>tlAttached := b\<rparr>) = traceClean m0 l"
  by (rule ext, simp add: traceClean_def tracedSlots_def)+

definition contextSlotIs :: "u32 \<Rightarrow> TraceMachine \<Rightarrow> bool" where
  "contextSlotIs slot m \<longleftrightarrow> tsContextSlot (traceState m) = slot"

interpretation slot_calls: call_invariant K "contextSlotIs slot" for K slot
  by unfold_locales (simp_all add: obeys_def contextSlotIs_def)

text \<open>What leaves both the registers and the slots alone.\<close>

lemma traceClean_obeys:
  assumes "\<And>armed. obeys (cleanBut armed m0) p" and "\<And>slot. obeys (contextSlotIs slot) p"
  shows "obeys (traceClean m0 l) p"
proof (rule obeysI)
  fix m
  assume "traceClean m0 l m"
  then show "wp p m (\<lambda>_ m'. traceClean m0 l m')"
    using obeysD [OF assms(1)] obeysD [OF assms(2), of "tsContextSlot (traceState m)" m]
    by (auto simp: traceClean_def contextSlotIs_def wp_run)
qed

lemma clean_trace [obey]:
  "obeys (traceClean m0 l) (getTrace f)" "obeys (traceClean m0 l) traceActive"
  "obeys (traceClean m0 l) (setTraceActive b)" "obeys (traceClean m0 l) (traceStopRequested stopBy)"
  by (simp_all add: obeys_def traceClean_def cleanBut_def allTaken_def)

lemma clean_dmnt [obey]:
  "obeys (traceClean m0 l) (State (\<lambda>m. (f m, m)))"
  "obeys (traceClean m0 l) (State (\<lambda>m. ((), m\<lparr>mcDmntInitialized := b\<rparr>)))"
  by (simp_all add: obeys_def wp_def traceClean_def cleanBut_def allTaken_def)

lemma clean_setTrace:
  "(\<And>w. tsContextSlot (f w) = tsContextSlot w) \<Longrightarrow> obeys (traceClean m0 l) (setTrace f)"
  by (simp add: obeys_def traceClean_def cleanBut_def allTaken_def)

lemma clean_call:
  "registerCall c \<Longrightarrow> obeys (traceClean m0 l) (svc K c)"
  "registerCall c \<Longrightarrow> obeys (traceClean m0 l) (svcResult K c)"
  by (intro traceClean_obeys clean_svc slot_calls.call slot_calls.callResult; assumption)+

lemma clean_fuel [obey]: "obeys (traceClean m0 l) outOfFuel"
  by (intro traceClean_obeys clean_outOfFuel slot_calls.fuel)

lemma clean_traceState [obey]:
  "obeys (traceClean m0 l) (traceError stage rc)" "obeys (traceClean m0 l) (traceStage stage)"
  "obeys (traceClean m0 l) traceHandleInUseHint" "obeys (traceClean m0 l) (recordEvent event)"
  "obeys (traceClean m0 l) recordIgnoredHit" "obeys (traceClean m0 l) (traceDurationExpired K)"
  "obeys (traceClean m0 l) traceHitLimitReached" "obeys (traceClean m0 l) (detachDmntForApplication K pid)"
  unfolding traceError_def traceStage_def traceHandleInUseHint_def recordEvent_def recordIgnoredHit_def
    traceDurationExpired_def traceHitLimitReached_def detachDmntForApplication_def Let_def
    dmntClientInitialize_def dmntClientHasProcess_def dmntClientForceClose_def
  by (auto simp: registerCall_def intro!: obey clean_call clean_setTrace)

lemma clean_traceDrain [obey]: "obeys (traceClean m0 l) (traceDrainInitialEvents K fuel h)"
proof -
  have events: "obeys (traceClean m0 l) (traceInitialEvents K n h s)" for n s
    by (induction n arbitrary: s) (auto simp: registerCall_def intro!: obey clean_call)
  have "obeys (traceClean m0 l) (traceDrainLoop K n h d s)" for n d s
    by (induction n arbitrary: s) (auto simp: registerCall_def intro!: obey clean_call events)
  then show ?thesis
    unfolding traceDrainInitialEvents_def by (intro obey clean_call) (simp_all add: registerCall_def)
qed

lemma clean_captureEvent [obey]: "obeys (traceClean m0 l) (captureEvent K h event t a n specs k)"
proof -
  have "obeys (traceClean m0 l) (captureSnapshots K h specs gprs sp pc lr i n event)" for gprs sp pc lr i n event
    by (induction n arbitrary: i event)
      (auto simp: registerCall_def Let_def intro!: obey clean_call split: option.split)
  then show ?thesis
    unfolding captureEvent_def Let_def by (intro obey clean_call; simp add: registerCall_def)
qed

lemma findTarget_bound:
  "debugTraceFindTarget arg count address \<noteq> U32_MAX \<Longrightarrow>
    unat (debugTraceFindTarget arg count address) < unat count \<and> unat count \<le> 4"
proof -
  have from_bound: "findTargetFrom addresses i n address \<noteq> U32_MAX \<Longrightarrow> i + n \<le> 4 \<Longrightarrow>
      unat (findTargetFrom addresses i n address) < i + n" for addresses i n
  proof (induction n arbitrary: i)
    case (Suc n)
    then show ?case
      using Suc.IH [of "Suc i"] by (auto simp: unat_of_nat take_bit_nat_eq_self split: if_splits)
  qed simp
  assume "debugTraceFindTarget arg count address \<noteq> U32_MAX"
  then show ?thesis
    using from_bound [of _ 0 "unat count"]
    by (auto simp: debugTraceFindTarget_def DEBUG_TRACE_TARGET_MAX_def word_le_nat_alt word_less_nat_alt split: option.splits if_splits)
qed

lemma clean_stepOver:
  assumes "kernelDisarms K" and "tlTraceArmed l" and "slot \<in> set (tracedSlots l)"
  shows "obeys (traceClean m0 l) (debugHwBpStepOverInstruction K fuel h thread slot ctx address)"
proof (rule obeysI)
  fix m
  let ?p = "debugHwBpStepOverInstruction K fuel h thread slot ctx address :: (TraceMachine, res) state"
  assume m: "traceClean m0 l m"
  have "obeys (cleanBut (set (tracedSlots l)) m0) ?p"
    by (rule stepOver_clean [OF assms(1,3)])
  moreover have "obeys (contextSlotIs (tlContextSlot l)) ?p"
    by (rule slot_calls.stepOver)
  ultimately show "wp ?p m (\<lambda>_ m'. traceClean m0 l m')"
    using m assms(2) by (auto simp: traceClean_def contextSlotIs_def wp_run obeys_def)
qed

lemma tracedSlots_target:
  assumes "traceClean m0 l m" and "tlTraceArmed l" and "debugTraceFindTarget arg (tlTargetCount l) address \<noteq> U32_MAX"
  shows "tlInstructionSlots l ! unat (debugTraceFindTarget arg (tlTargetCount l) address) \<in> set (tracedSlots l)"
proof -
  let ?i = "unat (debugTraceFindTarget arg (tlTargetCount l) address)"
  have "?i < unat (tlTargetCount l)" "unat (tlTargetCount l) \<le> length (tlInstructionSlots l)"
    using findTarget_bound [OF assms(3)] assms(1,2) by (simp_all add: traceClean_def)
  then show ?thesis
    unfolding tracedSlots_def by (auto simp: in_set_conv_nth intro!: exI [of _ ?i])
qed

lemma clean_traceEvents:
  assumes "kernelDisarms K" and "tlTraceArmed l"
  shows "obeys (traceClean m0 l) (traceEvents K fuel l pending)"
proof (induction fuel arbitrary: pending)
  case 0
  then show ?case by (simp add: obey)
next
  case (Suc fuel)
  show ?case
  proof (rule obeysI)
    fix m
    assume m: "traceClean m0 l m"
    have "obeys (traceClean m0 l) (debugHwBpStepOverInstruction K fuel (tlHandle l) thread
        (tlInstructionSlots l ! unat (debugTraceFindTarget (Some (tlTargets l)) (tlTargetCount l) address)) ctx address')"
      if "debugTraceFindTarget (Some (tlTargets l)) (tlTargetCount l) address \<noteq> U32_MAX" for address thread ctx address'
      by (rule clean_stepOver [OF assms tracedSlots_target [OF m assms(2) that]])
    then show "wp (traceEvents K (Suc fuel) l pending) m (\<lambda>_ m'. traceClean m0 l m')"
      unfolding traceEvents.simps Let_def
      by (intro obeysD [where P = "traceClean m0 l", OF _ m] obey clean_call Suc.IH) (simp_all add: registerCall_def)
  qed
qed

lemma trace_then_return:
  "obeys (traceClean m0 l) p \<Longrightarrow> traceClean m0 l m \<Longrightarrow> traceClean m0 l' = traceClean m0 l \<Longrightarrow>
    wp (do { _ \<leftarrow> p; State_Monad.return l' }) m (traceClean m0)"
  by (rule obeys_then) simp_all

lemma traceFail_clean: "traceClean m0 l m \<Longrightarrow> wp (traceFail l stage rc) m (traceClean m0)"
  unfolding traceFail_def by (rule trace_then_return) (simp_all add: obey)

lemma clean_continue [obey]: "obeys (traceClean m0 l) (debugHwBpContinueAll K h)"
  by (intro traceClean_obeys clean_hwbp slot_calls.continueAll)

lemma wp_traceEvents:
  "wp p m Q \<Longrightarrow> wp q m Q \<Longrightarrow> (\<And>rc. wp (f rc) m Q) \<Longrightarrow> wp r m Q \<Longrightarrow>
    wp (case x of TraceExited \<Rightarrow> p | TraceLimit \<Rightarrow> q | TraceFailed rc \<Rightarrow> f rc | TraceDrained \<Rightarrow> r) m Q"
  by (cases x) simp_all

lemma traceLoop_clean:
  assumes "kernelDisarms K"
  shows "tlTraceArmed l \<Longrightarrow> traceClean m0 l m \<Longrightarrow> wp (traceLoop K stopBy fuel l) m (traceClean m0)"
proof (induction fuel arbitrary: l m)
  case 0
  then show ?case unfolding traceLoop.simps by (intro trace_then_return [OF clean_fuel]) simp_all
next
  case (Suc fuel)
  have wait: "obeys (traceClean m0 l) (svcResult K (WaitSynchronization h n))" for h n
    by (rule clean_call) (simp add: registerCall_def)
  have again: "wp (traceLoop K stopBy fuel l') m' (traceClean m0)"
    if "traceClean m0 l m'" "tlTraceArmed l'" "traceClean m0 l' = traceClean m0 l" for l' m'
    using that by (intro Suc.IH) simp_all
  have stop: "wp (do { _ \<leftarrow> p; State_Monad.return l' }) m' (traceClean m0)"
    if "obeys (traceClean m0 l) p" "traceClean m0 l m'" "traceClean m0 l' = traceClean m0 l"
    for p :: "(TraceMachine, unit) state" and l' m'
    by (rule trace_then_return [OF that])
  show ?case
    unfolding traceLoop.simps
    by (rule obeys_then [OF clean_trace(4) Suc.prems(2)], rule wp_ifI, simp,
      rule obeys_then [OF clean_traceState(6)], assumption, rule wp_ifI,
      rule stop [OF clean_traceState(2)], assumption, simp,
      rule obeys_then [OF wait], assumption, rule wp_ifI, rule again, assumption, rule Suc.prems(1), simp,
      rule wp_ifI, rule stop [OF clean_traceState(1)], assumption, simp,
      rule obeys_then [OF clean_traceEvents [OF assms Suc.prems(1)]], assumption, rule wp_splitI, rule wp_traceEvents,
      simp, simp, simp, rule obeys_then [OF clean_continue], assumption, rule wp_ifI,
      rule stop [OF clean_traceState(1)], assumption, simp, rule again, assumption, simp add: Suc.prems(1), simp)
qed

lemma traceRun_clean:
  assumes "kernelDisarms K" and "tlTraceArmed l" and "traceClean m0 l m"
  shows "wp (traceRun K stopBy fuel l) m (traceClean m0)"
proof -
  have tick: "obeys (traceClean m0 l) (svc K GetSystemTick)"
    by (rule clean_call) (simp add: registerCall_def)
  have running: "obeys (traceClean m0 l) (setTrace (\<lambda>w. w\<lparr>tsArmed := True, tsEverArmed := True,
      tsStartedTick := t, tsLastError := 0, tsStage := [], tsHint := []\<rparr>))" for t
    by (rule clean_setTrace) simp
  show ?thesis
    unfolding traceRun_def
    by (rule obeys_then [OF clean_continue assms(3)], rule wp_ifI, erule traceFail_clean,
      rule obeys_then [OF tick], assumption, rule obeys_then [OF running], assumption,
      rule traceLoop_clean [OF assms(1)], simp add: assms(2), simp)
qed

subsection \<open>Arming and clearing\<close>

lemma traceClean_unarmed: "\<not> tlTraceArmed l \<Longrightarrow> traceClean m0 l = cleanBut {} m0"
  by (rule ext) (simp add: traceClean_def)

lemma instructionSlots_bound:
  "length slots \<le> k \<Longrightarrow> wp (instructionSlots K ctx k i n slots) m (\<lambda>slots' _. length slots' \<le> k)"
proof (induction n arbitrary: i slots m)
  case (Suc n)
  have again: "wp (instructionSlots K ctx k (i + 1) n (if b then slots @ [x] else slots)) m' (\<lambda>slots' _. length slots' \<le> k)"
    if "\<not> k \<le> length slots" for b x and m' :: "'a Machine_scheme"
    using that by (intro Suc.IH) auto
  show ?case
    unfolding instructionSlots.simps
    by (rule wp_ifI, simp add: Suc.prems, rule wp_any, rule wp_ifI, simp add: Suc.prems, erule again)
qed simp

lemma probeInstructions_clean:
  assumes "cleanBut armed m0 m"
  shows "wp (debugHwBpProbeInstructionSlots K ctx k) m (\<lambda>(_, slots) m'. cleanBut armed m0 m' \<and> length slots \<le> k)"
proof -
  have slots: "obeys (cleanBut armed m0) (instructionSlots K ctx k i n slots)" for i n slots
    by (induction n arbitrary: i slots) (auto simp: registerCall_def intro!: obey clean_svc)
  show ?thesis
    unfolding debugHwBpProbeInstructionSlots_def
    by (rule wp_ifI, simp add: assms, subst wp_bind,
      rule wp_mono [OF wp_conj [OF obeysD [OF slots assms] instructionSlots_bound]], simp, simp)
qed

lemma armed_clean:
  assumes "kernelDisarms K" and "cleanBut {} m0 m" and "tsContextSlot (traceState m) = tlContextSlot l"
    and "unat (tlTargetCount l) \<le> length (tlInstructionSlots l)" and "length (tlInstructionSlots l) \<le> 4"
    and "length targets = 4"
  shows "wp (debugHwBpArmInstructionTrace K (tlContextSlot l) h
      (take (unat (tlTargetCount l)) (zip (tlInstructionSlots l) targets))) m
    (\<lambda>rc. if rc = 0 then traceClean m0 (l\<lparr>tlTraceArmed := True\<rparr>) else cleanBut {} m0)"
proof -
  let ?targets = "take (unat (tlTargetCount l)) (zip (tlInstructionSlots l) targets)"
  have slots: "insert (tlContextSlot l) (fst ` set ?targets) = set (tracedSlots (l\<lparr>tlTraceArmed := True\<rparr>))"
  proof -
    have "map fst ?targets = take (unat (tlTargetCount l)) (tlInstructionSlots l)"
      using assms(4-6) by (simp add: take_zip map_fst_zip_take min_def)
    then have "fst ` set ?targets = set (take (unat (tlTargetCount l)) (tlInstructionSlots l))"
      by (metis set_map)
    then show ?thesis by (simp add: tracedSlots_def)
  qed
  have count: "tlTargetCount l \<le> DEBUG_TRACE_TARGET_MAX"
    using assms(4,5) by (simp add: DEBUG_TRACE_TARGET_MAX_def word_le_nat_alt)
  have kept: "wp (debugHwBpArmInstructionTrace K (tlContextSlot l) h ?targets) m
      (\<lambda>_. contextSlotIs (tlContextSlot l))"
    by (rule obeysD [OF slot_calls.armTrace]) (simp add: contextSlotIs_def assms(3))
  show ?thesis
    by (rule wp_mono [OF wp_conj [OF armTrace_clean [OF assms(1,2)] kept]])
      (use count assms(4) in \<open>auto simp: traceClean_def contextSlotIs_def slots\<close>)
qed

lemma traceArm_clean:
  assumes "kernelDisarms K" and "\<not> tlTraceArmed l" and "traceClean m0 l m" and "length (tlTargets l) = 4"
  shows "wp (traceArm K stopBy fuel l) m (traceClean m0)"
proof -
  have unarmed: "traceClean m0 (l\<lparr>tlContextSlot := ctx, tlInstructionSlots := slots\<rparr>) = cleanBut {} m0"
      "traceClean m0 l = cleanBut {} m0" for ctx slots
    using assms(2) by (simp_all add: traceClean_unarmed)
  have rest: "wp (let l = l\<lparr>tlContextSlot := ctx, tlInstructionSlots := slots\<rparr>
     in do {
       _ \<leftarrow> setTrace (\<lambda>w. w\<lparr>tsContextSlot := ctx, tsInstructionSlot := slots ! 0, tsInstructionSlots := slots\<rparr>);
       rc \<leftarrow> debugHwBpArmInstructionTrace K ctx (tlHandle l) (take (unat (tlTargetCount l)) (zip slots (tlTargets l)));
       if R_FAILED rc then traceFail l ''armTrace'' rc
       else traceRun K stopBy fuel (l\<lparr>tlTraceArmed := True\<rparr>)
     }) m' (traceClean m0)"
    if "cleanBut {} m0 m'" "\<not> length slots < unat (tlTargetCount l)" "length slots \<le> 4" for ctx slots m'
  proof -
    let ?l = "l\<lparr>tlContextSlot := ctx, tlInstructionSlots := slots\<rparr>"
    let ?m = "m'\<lparr>traceState := (traceState m')\<lparr>tsContextSlot := ctx, tsInstructionSlot := slots ! 0,
      tsInstructionSlots := slots\<rparr>\<rparr>"
    have "cleanBut {} m0 ?m" using that(1) by (simp add: cleanBut_def allTaken_def)
    from armed_clean [where l = ?l and targets = "tlTargets l", OF assms(1) this] that(2,3) assms(4)
    have arm: "wp (debugHwBpArmInstructionTrace K ctx h (take (unat (tlTargetCount l)) (zip slots (tlTargets l)))) ?m
        (\<lambda>rc. if rc = 0 then traceClean m0 (?l\<lparr>tlTraceArmed := True\<rparr>) else cleanBut {} m0)" for h
      by simp
    show ?thesis
      unfolding Let_def
      by (subst wp_bind, subst wp_trace(2), subst wp_bind)
        (simp del: wp_bind, rule wp_mono [OF arm], auto simp del: wp_bind simp: unarmed
          intro: traceFail_clean traceRun_clean [OF assms(1)])
  qed
  show ?thesis
    unfolding traceArm_def
    by (rule obeys_then [OF clean_traceDrain assms(3)], rule wp_splitI, rule wp_ifI, erule traceFail_clean, rule wp_ifI,
      rule trace_then_return [OF clean_traceState(2)], assumption, simp,
      subst wp_bind, rule wp_mono [OF probes_clean [OF assms(1)]], simp add: unarmed, rule wp_splitI, rule wp_splitI,
      rule wp_ifI, rule traceFail_clean, simp add: unarmed,
      subst wp_bind, rule wp_mono [OF probeInstructions_clean], assumption, rule wp_split_eqI,
      simp only: prod.case, rule wp_ifI, rule traceFail_clean, simp add: unarmed, rule wp_ifI,
      rule trace_then_return [where l = l, OF clean_traceState(1)], simp add: unarmed, simp,
      rule rest, simp, assumption, simp add: DEBUG_TRACE_TARGET_MAX_def)
qed

lemma traceBody_clean:
  assumes "kernelDisarms K" and "cleanBut {} m0 m" and "length (tsTargetAddresses (traceState m)) = 4"
  shows "wp (traceBody K stopBy fuel) m (traceClean m0)"
proof -
  have body: "wp (if tlPid l = 0 then do { _ \<leftarrow> traceError ''pid'' (knBadInput K); State_Monad.return l }
     else do {
       dmntClosed \<leftarrow> detachDmntForApplication K (tlPid l);
       _ \<leftarrow> setTrace (\<lambda>w. w\<lparr>tsDmntClosed := dmntClosed\<rparr>);
       d \<leftarrow> svc K (DebugActiveProcess (tlPid l));
       if R_FAILED (rpResult d)
       then do {
         l \<leftarrow> traceFail l ''debugActiveProcess'' (rpResult d);
         _ \<leftarrow> (if rpResult d = knAlreadyExists K then traceHandleInUseHint else skip);
         State_Monad.return l
       }
       else traceArm K stopBy fuel (l\<lparr>tlHandle := ucast (rpValue d), tlAttached := True\<rparr>)
     }) m' (traceClean m0)" if "traceClean m0 l m'" "\<not> tlTraceArmed l" "length (tlTargets l) = 4" for l m'
  proof -
    have attach: "obeys (traceClean m0 l) (svc K (DebugActiveProcess (tlPid l)))"
      by (rule clean_call) (simp add: registerCall_def)
    have closed: "obeys (traceClean m0 l) (setTrace (\<lambda>w. w\<lparr>tsDmntClosed := b\<rparr>))" for b
      by (rule clean_setTrace) simp
    have hint: "obeys (traceClean m0 l) (if b then traceHandleInUseHint else skip)" for b
      by (intro obey)
    have failed: "wp (do { l \<leftarrow> traceFail l stage rc; _ \<leftarrow> (if b then traceHandleInUseHint else skip);
        State_Monad.return l }) n (traceClean m0)" if "traceClean m0 l n" for stage rc b n
    proof -
      have "wp (do { _ \<leftarrow> traceError stage rc; _ \<leftarrow> (if b then traceHandleInUseHint else skip);
        State_Monad.return (l\<lparr>tlRc := rc\<rparr>) }) n (traceClean m0)"
        by (rule obeys_then [OF clean_traceState(1) that], rule obeys_then [OF hint], assumption, simp)
      then show ?thesis by (simp add: traceFail_def)
    qed
    show ?thesis
      by (rule wp_ifI, rule trace_then_return [OF clean_traceState(1) that(1)], simp,
        rule obeys_then [OF clean_traceState(8) that(1)], rule obeys_then [OF closed], assumption,
        rule obeys_then [OF attach], assumption, rule wp_ifI, erule failed,
        rule traceArm_clean [OF assms(1)], simp add: that(2), simp, simp add: that(3))
  qed
  have "traceClean m0 (traceLocals K (traceState m)) m" "\<not> tlTraceArmed (traceLocals K (traceState m))"
      "length (tlTargets (traceLocals K (traceState m))) = 4"
    using assms(2,3) by (simp_all add: traceClean_def traceLocals_def)
  from body [OF this] show ?thesis
    unfolding traceBody_def by (subst wp_bind, subst wp_trace(1))
qed

lemma traceCleanup_clean:
  assumes "kernelDisarms K" and "traceClean m0 l m"
  shows "wp (traceCleanup K fuel l) m (\<lambda>_. cleanBut {} m0)"
proof -
  have quiesce: "obeys (traceClean m0 l) (if b then do { _ \<leftarrow> debugHwBpQuiesce K fuel h p; skip } else skip)" for b h p
    by (intro obey traceClean_obeys [OF clean_quiesce slot_calls.quiesce])
  have clear: "wp (if tlTraceArmed l then debugHwBpClearRegistersAllCores K
        (tsContextSlot (traceState m') # take (unat (tlTargetCount l)) (tlInstructionSlots l))
      else State_Monad.return 0) m' (\<lambda>_. cleanBut {} m0)" if "traceClean m0 l m'" for m'
  proof (cases "tlTraceArmed l")
    case True
    have armed: "cleanBut (set (tracedSlots l)) m0 m'" "tsContextSlot (traceState m') = tlContextSlot l"
        "unat (tlTargetCount l) \<le> 4"
      using that True by (simp_all add: traceClean_def DEBUG_TRACE_TARGET_MAX_def word_le_nat_alt)
    have "wp (debugHwBpClearRegistersAllCores K (tracedSlots l)) m' (\<lambda>_. cleanBut (set (tracedSlots l) - set (tracedSlots l)) m0)"
      by (rule clearRegisters_clean [OF assms(1) armed(1)]) (use armed(3) in \<open>auto simp: tracedSlots_def\<close>)
    then show ?thesis
      using True by (simp add: armed(2) tracedSlots_def)
  next
    case False
    then show ?thesis using that by (simp add: traceClean_def)
  qed
  have rest: "obeys (cleanBut {} m0) (do { _ \<leftarrow> (if b then do { _ \<leftarrow> svc K (CloseHandle h); skip } else skip);
      _ \<leftarrow> setTraceActive c; _ \<leftarrow> setTrace f; _ \<leftarrow> setTrace g; setTrace i })" for b h c f g i
  proof -
    have state: "obeys (cleanBut {} m0) (setTrace f)" "obeys (cleanBut {} m0) (setTraceActive c)" for f c
      by (simp_all add: obeys_def cleanBut_def allTaken_def)
    show ?thesis by (intro obey state clean_svc) (simp add: registerCall_def)
  qed
  show ?thesis
    unfolding traceCleanup_def
    by (rule obeys_then [OF clean_trace(1) assms(2)], rule obeys_then [OF clean_traceState(2)], assumption,
      rule obeys_then [OF quiesce], assumption, subst wp_bind, subst wp_trace(1), subst wp_bind,
      rule wp_mono [OF clear], assumption, rule obeysD [OF rest])
qed

lemma traceCleanup_state:
  "wp (traceCleanup K fuel l) m (\<lambda>_ m'. \<not> mcTraceActive m' \<and> \<not> tsArmed (traceState m') \<and>
     \<not> tsStopRequested (traceState m'))"
  unfolding traceCleanup_def
  by (rule wp_any, rule wp_any, rule wp_any, rule wp_any, rule wp_any, rule wp_any) simp

text \<open>C24: However a trace session ends, it leaves nothing behind: every handle is as often open as before, so the one the
  session opened is closed, and the session is marked as over; and every breakpoint register of every core is as it was
  before or cleared, whatever instructions were stepped over in between, if the kernel lets the thread move to each of
  the four cores and lets a register that has taken a write be cleared.\<close>

theorem traceSession_leaves_nothing:
  assumes "kernelCodes K" and "kernelHandles K"
    and "length (tsTargetAddresses (traceState m)) = unat DEBUG_TRACE_TARGET_MAX"
    and "run_state (traceThreadMain K stopBy fuel) m = ((), m')" and "\<not> mcStuck m'"
  shows "openHandles (mcTrace m') handle = openHandles (mcTrace m) handle \<and>
    \<not> mcTraceActive m' \<and> \<not> tsArmed (traceState m') \<and>
    (kernelMoves K \<and> kernelClears K \<longrightarrow>
      registersOf (mcTrace m') core reg = registersOf (mcTrace m) core reg \<or>
      registersOf (mcTrace m') core reg = Some (0, 0))"
proof -
  have "wp (traceThreadMain K stopBy fuel) m (\<lambda>_. cleanBut {} m)" if "kernelMoves K" "kernelClears K"
  proof -
    have K: "kernelDisarms K" using assms that by (simp add: kernelDisarms_def)
    show ?thesis
      unfolding traceThreadMain_def wp_bind
      by (rule wp_mono [OF traceBody_clean [where ?m0.0 = m, OF K]], simp add: cleanBut_def allTaken_def, use assms(3) in \<open>simp add: DEBUG_TRACE_TARGET_MAX_def\<close>,
          erule traceCleanup_clean [OF K])
  qed
  moreover have "wp (traceThreadMain K stopBy fuel) m (\<lambda>_ m'. \<not> mcTraceActive m' \<and> \<not> tsArmed (traceState m'))"
    unfolding traceThreadMain_def
    by (rule wp_any, rule wp_mono [OF traceCleanup_state]) simp
  ultimately show ?thesis
    using wp_runI [OF handlesD [OF neutral_traceThread [OF assms(2)]] assms(4)] assms(4,5)
    by (fastforce simp: wp_def cleanBut_def)
qed

text \<open>A kernel with three registers, the last of them for contexts, which reports a breakpoint at \<open>0x8000400\<close> behind every other wait.\<close>

definition waits :: "Trace \<Rightarrow> nat" where
  "waits t = length (filter (\<lambda>(c, r). case c of WaitSynchronization h n \<Rightarrow> True | _ \<Rightarrow> False) t)"

definition justWaited :: "Trace \<Rightarrow> bool" where
  "justWaited t \<longleftrightarrow> t \<noteq> [] \<and> (case fst (hd t) of WaitSynchronization h n \<Rightarrow> True | _ \<Rightarrow> False)"

definition traceKernel :: Kernel where
  "traceKernel = (sampleKernel None)\<lparr>knReply := (\<lambda>t c.
     case c of
       GetApplicationProcessId \<Rightarrow> okReply\<lparr>rpValue := 0x51\<rparr>
     | DebugActiveProcess pid \<Rightarrow> okReply\<lparr>rpValue := 0xB00\<rparr>
     | GetSystemTick \<Rightarrow> okReply\<lparr>rpValue := of_nat (length t)\<rparr>
     | GetSystemTickFreq \<Rightarrow> okReply\<lparr>rpValue := 4\<rparr>
     | WaitSynchronization h n \<Rightarrow>
         okReply\<lparr>rpResult := (if even (waits t) then 0 else knTimedOut (sampleKernel None))\<rparr>
     | GetDebugEvent h \<Rightarrow>
         (if justWaited t
          then okReply\<lparr>rpEvent := \<lparr>evType = EventException, evThread = 7, evHardwareBreak = True, evAttached = True,
                 evDataBreak = False, evAddress = 0x8000400\<rparr>\<rparr>
          else noReply)
     | GetDebugThreadContext h thread \<Rightarrow> noReply
     | SetHardwareBreakPoint reg control v \<Rightarrow>
         (if reg < 3 then okReply\<lparr>rpResult := (if control = contextControl \<and> reg < 2 then 1 else 0)\<rparr>
          else okReply\<lparr>rpResult := (if registerTaken reg t then 0 else 1)\<rparr>)
     | GetCurrentProcessorNumber \<Rightarrow> okReply\<lparr>rpValue := lastPinned t\<rparr>
     | _ \<Rightarrow> okReply)\<rparr>"

lemma traceKernel_ok:
  "kernelCodes traceKernel" "kernelHandles traceKernel" "kernelMoves traceKernel" "kernelClears traceKernel"
proof -
  show "kernelCodes traceKernel" "kernelHandles traceKernel" "kernelClears traceKernel"
    by (simp_all add: traceKernel_def sampleKernel_def kernelCodes_def kernelHandles_def kernelClears_def okReply_def
        contextControl_def)
  have "movesTo traceKernel core" for core
    unfolding movesTo_def Let_def
    by (intro allI conjI seen_now) (simp_all add: traceKernel_def sampleKernel_def okReply_def ucast_of_nat_core)
  then show "kernelMoves traceKernel" by (simp add: kernelMoves_def list_all_iff)
qed

definition blankEvent :: DebugTraceEvent where
  "blankEvent = \<lparr>teSequence = 0, teTargetAddress = 0, teThreadId = 0, tePc = 0, teLr = 0, teSp = 0, teX = [],
     teTick = 0, teCore = 0, teArgsCount = 0, teInsnBytes = 0, teContextResult = 0, teCoreResult = 0,
     teTargetIndex = 0, teSnapshotCount = 0, teSnapshotAddresses = [], teSnapshotBytes = [], teSnapshotResults = [],
     teSnapshots = [], teInsn = []\<rparr>"

definition traceExample :: TraceMachine where
  "traceExample = \<lparr>mcTrace = [], mcStuck = False, mcWatchActive = False, mcTraceActive = True,
     mcMultiTraceActive = False, mcDmntInitialized = False,
     traceState = \<lparr>tsThreadStarted = True, tsArmed = False, tsEverArmed = False, tsStopRequested = True,
     tsHasEvent = False, tsDmntClosed = False, tsProcessId = 0x52, tsAddress = 0x8000400, tsTargetCount = 1,
     tsTargetAddresses = [0x8000400, 0, 0, 0], tsTargetHits = [0, 0, 0, 0], tsInstructionSlots = [0, 0, 0, 0],
     tsMaxHits = 1, tsHitCount = 0, tsDurationSeconds = 0, tsStartedTick = 0, tsDurationStartTick = 0,
     tsDurationFromFirstHit = False, tsRing = ringEmpty 0 [], tsArgsCount = 0, tsContextSlot = 0,
     tsInstructionSlot = 0, tsIgnoredHits = 0, tsSnapshotCount = 0, tsSnapshots = [],
     tsTargetSnapshotCounts = [0, 0, 0, 0], tsTargetSnapshots = [[], [], [], []], tsLastPc = 0, tsLastLr = 0,
     tsLastSp = 0, tsLastThreadId = 0, tsLastCore = 0, tsLastEvent = blankEvent, tsLastError = 0, tsStage = [],
     tsHint = []\<rparr>\<rparr>"

definition tracedOut :: TraceMachine where
  "tracedOut = snd (run_state (traceThreadMain traceKernel (\<lambda>_. False) 12) traceExample)"

lemma tracedOut_armed: "\<not> mcStuck tracedOut \<and> tsEverArmed (traceState tracedOut)"
  by code_simp

lemma traceSession_leaves_nothing_witness:
  "tsEverArmed (traceState tracedOut) \<and> openHandles (mcTrace tracedOut) 0xB00 = 0 \<and>
   (registersOf (mcTrace tracedOut) 2 0 = None \<or> registersOf (mcTrace tracedOut) 2 0 = Some (0, 0))"
proof -
  have "run_state (traceThreadMain traceKernel (\<lambda>_. False) 12) traceExample = ((), tracedOut)"
    by (simp add: tracedOut_def prod_eq_iff)
  from traceSession_leaves_nothing [OF traceKernel_ok(1,2) _ this, where handle = "0xB00" and core = 2 and reg = 0] show ?thesis
    using tracedOut_armed traceKernel_ok(3,4) by (simp add: traceExample_def DEBUG_TRACE_TARGET_MAX_def)
qed

text \<open>No hint outlives a trace session.  The clean-up of the thread starts by setting its stage, which clears the
  hint, so the one left for a debug handle that another debugger holds is never seen.\<close>

definition hintless :: "TraceMachine \<Rightarrow> bool" where
  "hintless m \<longleftrightarrow> tsHint (traceState m) = []"

interpretation hint_calls: call_invariant K hintless for K
  by unfold_locales (simp_all add: obeys_def hintless_def)

theorem traceSession_forgets_hint:
  "tsHint (traceState (snd (run_state (traceThreadMain K stopBy fuel) m))) = []"
proof -
  have keeps: "obeys hintless (setTraceActive b)" "(\<And>w. tsHint (f w) = tsHint w) \<Longrightarrow> obeys hintless (setTrace f)"
      "obeys hintless (getTrace g)" for b f and g :: "DebugTraceState \<Rightarrow> 'b"
    by (simp_all add: obeys_def hintless_def)
  have read: "obeys hintless (getTrace tsContextSlot)" by (simp add: obeys_def hintless_def)
  have "wp (traceCleanup K fuel l) m' (\<lambda>_. hintless)" for l m'
    unfolding traceCleanup_def
    by (rule wp_any, subst wp_bind, rule wp_mono [where P = "\<lambda>_. hintless"],
      simp add: traceStage_def hintless_def, rule obeysD [where P = hintless])
      (intro obey keeps(1,2) read hint_calls.call hint_calls.quiesce hint_calls.clearAll; simp)+
  then have "wp (traceThreadMain K stopBy fuel) m (\<lambda>_. hintless)"
    unfolding traceThreadMain_def by (rule wp_any)
  then show ?thesis by (simp add: wp_run hintless_def)
qed

end
