(* ===== verification/Spec2Isabelle.thy ===== *)
theory Spec2Isabelle
  imports SequenceRepeat SearchPrims Freeze HitRing FtpPath BootUnlockConfig HekateConfig
    SearchStoreBlocks SearchStoreRoom JpegDcEntropy HwBpRegisters HwBpWatch PatchSafe DebugReturns
    MemoryHash MemoryPolicy BootUnlockLooks DebugWatchHits DebugTraceSafe
begin

text \<open>
  A verification library for sys-agent, the sysmodule under \<open>sys-agent/source\<close> that lets a client automate
  and inspect a Switch over TCP.  \<open>main.c\<close> takes command lines, splits them (\<open>args.c\<close>) and calls one
  routine per command.  The routines modelled here are those with logic of their own: the parsers of what the client
  and the files on the card say, the memory search and its session file, the table of frozen values, the sessions
  that debug or patch another process, the sessions that read and write its memory, and the worker that gets past
  the lock screen after a boot.

  \<^bold>\<open>How the code is translated.\<close>  One function of C is one definition of the same name; the body of a loop, or a part
  of a long function, is a definition beside it.  Unsigned integers whose arithmetic can wrap are words of their
  width (\<open>Prelude\<close>); sizes and indices bounded by a buffer are natural numbers.  A struct is a record, an enum a
  datatype, a C string the list of its bytes before the NUL, a pointer that may be null an \<open>option\<close>.  A routine
  with effects is a computation of the state monad (\<open>Effects\<close>, with weakest preconditions for the proofs).  Its
  world is either the card (\<open>StdioDisk\<close>), where every call may fail at any byte, or the kernel and the
  services (\<open>Horizon\<close>).  Neither is under \<open>src/\<close>, so the kernel is a parameter: its reply to a call is an
  arbitrary function of the call and all calls before it, and the machine records calls and replies.  The theorems
  about the debug components speak of that record.  What a theorem needs of the kernel is a named hypothesis:
  \<open>kernelCodes\<close> (error codes are errors), \<open>kernelHandles\<close> (no valid handle is the invalid one),
  \<open>kernelMoves\<close> (the thread can be moved to each of the four cores within the reads the code makes),
  \<open>kernelClears\<close> (a register that has taken a write can be cleared), \<open>eventsEnd\<close> and \<open>clockRuns\<close>.

  \<^bold>\<open>The components.\<close>

  \<^item> Click sequences: \<open>SequenceToken\<close> is \<open>sequence_token.c\<close>, \<open>SequenceRepeat\<close> is
    \<open>sequence_repeat.c\<close>.  The expander refuses with a position in the input, or queues exactly the tokens
    that the input denotes, and the click thread reads these back.
  \<^item> Arguments and checksums: \<open>CString\<close> (the C library), \<open>NumParse\<close> (\<open>util.c\<close>, \<open>args.c\<close>),
    \<open>Checksums\<close> (\<open>fnv1a.c\<close>, \<open>result_check.c\<close> and the CRC of \<open>search_store.c\<close>), \<open>Bytes\<close>.
  \<^item> Memory search: \<open>SearchPrims\<close> (\<open>search_value.c\<close>, \<open>search_compare.c\<close>,
    \<open>search_match.c\<close>, \<open>search_range.c\<close>); \<open>SearchStore\<close> and \<open>SearchStoreRead\<close> are the
    writer, the readers and the commit of \<open>search_store.c\<close>.  \<open>SearchStoreImage\<close> gives the session file
    as a function of what was written; \<open>SearchStorePages\<close> and \<open>SearchStoreBlocks\<close> show that both
    readers return it, on a failing card a part of it or a refusal; \<open>SearchStoreRoom\<close> says how far the estimate
    of the space can be trusted; \<open>Directories\<close> holds the directory helper.
  \<^item> Frozen values: \<open>Freeze\<close> is \<open>freeze.c\<close> with the three commands and the pass of the freeze thread from
    \<open>main.c\<close>; the table refines a finite map as long as offset 0 is not used.
  \<^item> Configuration files: \<open>IniText\<close> is the reader that \<open>ftp_config.c\<close> (\<open>FtpConfig\<close>) and
    \<open>boot_unlock_config.c\<close> (\<open>BootUnlockConfig\<close>) share; \<open>HekateConfig\<close> is
    \<open>hekate_config.c\<close>, \<open>FtpPath\<close> is \<open>ftp_path.c\<close>.
  \<^item> Pictures: \<open>JpegDc\<close> is \<open>jpeg_dc.c\<close>; every array access is tested, and \<open>JpegDcSafe\<close> shows
    which tests can fail; \<open>JpegDcEntropy\<close> is the meaning of its bits and codes.
  \<^item> Breakpoint registers: \<open>HwBp\<close> is \<open>debug_hwbp.c\<close>, \<open>HwBpLayout\<close> is
    \<open>debug_hwbp_layout.c\<close>.  \<open>HwBpCalls\<close> carries invariants of single calls through all operations;
    \<open>HwBpRegisters\<close> says what success and failure leave in the registers, \<open>HwBpWatch\<close> what a watchpoint
    watches, \<open>HwBpClean\<close> which registers each operation may leave armed.
  \<^item> Debug sessions: \<open>DebugProcess\<close> is \<open>debug_process.c\<close> and \<open>dmnt_client.c\<close>,
    \<open>PatchCode\<close> is \<open>patch_code.c\<close>.  \<open>DebugHandles\<close> counts every handle by itself: what a command
    opened it has closed.  \<open>DebugReturns\<close> shows that the commands return, \<open>PatchSafe\<close> what a patch may write.
  \<^item> Watchpoints and traces: \<open>TraceModel\<close> is \<open>debug_trace_model.c\<close>, \<open>HitRing\<close> the ring of hits
    that \<open>debug_watch.c\<close> (\<open>DebugWatch\<close>) and \<open>debug_trace.c\<close> (\<open>DebugTrace\<close>) keep.
    \<open>DebugWatchSafe\<close> and \<open>DebugTraceSafe\<close> show what a session leaves behind, \<open>DebugWatchHits\<close>
    what it keeps of the hits.
  \<^item> Process memory: \<open>ProcessMemory\<close> is \<open>process_memory.c\<close> with \<open>process_memory_select.c\<close>,
    \<open>MemoryCommands\<close> the memory commands of \<open>commands.c\<close>.  \<open>MemorySessions\<close> shows that sessions are
    given back, \<open>MemoryPolicy\<close> when the program attaches by itself, \<open>MemoryHash\<close> what the fingerprint of a
    region is.
  \<^item> Boot unlock: \<open>BootUnlock\<close> is the worker of \<open>boot_unlock.c\<close>; \<open>BootUnlockPresses\<close> bounds and
    counts its presses, \<open>BootUnlockLooks\<close> shows that each follows a look at the screen.

  \<^bold>\<open>Interfaces.\<close>  The contracts are locales, interpreted on the models: \<open>simulation\<close> (a table refines a map), the
  ring readers, \<open>byte_fold\<close> (a checksum), \<open>call_invariant\<close> and its kin (what every kernel call keeps),
  and the pair of functions that open and close a memory session.

  \<^bold>\<open>Loops and fuel.\<close>  Loops bounded by data are structural or have a measure.  Loops that wait for the kernel have a
  fuel, one unit for each turn; using it up marks the machine as stuck (\<open>mcStuck\<close>).  Safety theorems hold
  for every fuel, of runs that end; \<open>debugCommands_return\<close> gives a fuel that is never used up once the process
  stops reporting events and the clock runs.  The loops of the watchpoint and trace threads go on until the client
  stops them, so there is no such theorem for them.

  \<^bold>\<open>Parameters.\<close>  Besides the kernel: \<open>malloc\<close> in \<open>Freeze\<close> and \<open>alloc\<close> in
  \<open>MemoryCommands\<close>; \<open>classify\<close> in \<open>BootUnlock\<close>, for \<open>screenClassify\<close>, whose arithmetic is in
  single precision; \<open>stopBy\<close>, the moment at which the client asks a session to stop.

  \<^bold>\<open>What is left out.\<close>  Mutexes that guard single accesses, and with them the interleaving of the client with the
  threads beyond \<open>stopBy\<close>; the text of reports; \<open>debug_multitrace.c\<close>; the threads that drive the search
  (\<open>search.c\<close>, \<open>unknown_search.c\<close>); the network, the controllers and the other system services
  (\<open>main.c\<close>, \<open>system_commands.c\<close>, \<open>network_http.c\<close>, the FTP server, \<open>hekate_reboot.c\<close>,
  \<open>debug_wait.c\<close>), which mostly hand values to services.
\<close>

end
